(* ===== verification/Prelude.thy ===== *)
theory Prelude imports Main "HOL-Library.Word" "HOL-Library.Monad_Syntax" begin

text \<open>
  Shared vocabulary of the development: the C integer types as words, flat byte memory,
  little-endian access to 32-bit cells, and the arithmetic of address differences that the
  memory proofs rest on.

  A C function that may fail to return (a loop that spins) or that leaves the bounds of a C
  array has a result of type \<open>'a option\<close>: \<open>None\<close> says there is no defined result.
  A return value of \<open>-1\<close> is an ordinary result and is modelled as such.
\<close>

unbundle bit_operations_syntax

type_synonym u8 = "8 word"
type_synonym u16 = "16 word"
type_synonym u32 = "32 word"
type_synonym i32 = "32 word"
type_synonym mem = "u32 \<Rightarrow> u8"
type_synonym reader = "u32 \<Rightarrow> u8"

named_theorems mem_simps \<open>equations for reading updated memory\<close>
named_theorems frame_simps \<open>operations that leave a component of the state alone\<close>

text \<open>A C string reached through a pointer: byte \<open>i\<close> is at address \<open>p + i\<close>.\<close>

definition at_ptr :: "mem \<Rightarrow> u32 \<Rightarrow> reader" where
  "at_ptr m p = (\<lambda>i. m (p + i))"

text \<open>
  A C array followed by whatever lies behind it (\<open>junk\<close>): reads past its end see the junk.
\<close>

definition arr_reader :: "reader \<Rightarrow> u8 list \<Rightarrow> reader" where
  "arr_reader junk xs = (\<lambda>i. if unat i < length xs then xs ! unat i else junk i)"

definition chars :: "string \<Rightarrow> u8 list" where
  "chars s = map (\<lambda>c. of_nat (of_char c)) s"

abbreviation chr8 :: "char \<Rightarrow> u8" where
  "chr8 c \<equiv> of_nat (of_char c)"

text \<open>Little-endian 32-bit loads and stores.\<close>

definition load32 :: "mem \<Rightarrow> u32 \<Rightarrow> u32" where
  "load32 m a = ucast (m a) OR push_bit 8 (ucast (m (a + 1)))
     OR push_bit 16 (ucast (m (a + 2))) OR push_bit 24 (ucast (m (a + 3)))"

definition byte_of :: "nat \<Rightarrow> u32 \<Rightarrow> u8" where
  "byte_of k w = ucast (drop_bit (8 * k) w)"

definition store32 :: "mem \<Rightarrow> u32 \<Rightarrow> u32 \<Rightarrow> mem" where
  "store32 m a w = m(a := byte_of 0 w, a + 1 := byte_of 1 w, a + 2 := byte_of 2 w, a + 3 := byte_of 3 w)"

text \<open>Replacing one byte of a 32-bit cell, as a byte store into a struct field does.\<close>

definition set_byte :: "nat \<Rightarrow> u8 \<Rightarrow> u32 \<Rightarrow> u32" where
  "set_byte k b w = (w AND NOT (push_bit (8 * k) 0xFF)) OR push_bit (8 * k) (ucast b)"

text \<open>C's \<open>char\<close> is signed: promotion to a 32-bit integer extends the sign.\<close>

definition sext8 :: "u8 \<Rightarrow> u32" where
  "sext8 b = scast b"

subsection \<open>Regions of the address space\<close>

text \<open>
  The \<open>n\<close> addresses from \<open>d\<close> on, counted modulo \<open>2 ^ 32\<close>: \<open>x\<close> is one of them iff its
  distance from \<open>d\<close> is below \<open>n\<close>. No region needs a side condition on wrap-around.
\<close>

definition in_region :: "u32 \<Rightarrow> nat \<Rightarrow> u32 \<Rightarrow> bool" where
  "in_region d n x \<longleftrightarrow> unat (x - d) < n"

definition apart :: "u32 \<Rightarrow> nat \<Rightarrow> u32 \<Rightarrow> nat \<Rightarrow> bool" where
  "apart d n s k \<longleftrightarrow> (\<forall>x. \<not> (in_region d n x \<and> in_region s k x))"

lemma unat_u32_less [simp]: "unat (x :: u32) < 4294967296"
proof -
  have "unat x < 2 ^ LENGTH(32)" by (rule unsigned_less)
  then show ?thesis by simp
qed

lemma unat_u32_le [simp]: "unat (x :: u32) \<le> 4294967296"
  by (rule less_imp_le) simp

lemma byte_mask: "(255 :: u32) = mask 8"
  by (simp add: mask_eq_exp_minus_1)

lemma byte_of_load32:
  "byte_of 0 (load32 m a) = m a"
  "byte_of 1 (load32 m a) = m (a + 1)"
  "byte_of 2 (load32 m a) = m (a + 2)"
  "byte_of 3 (load32 m a) = m (a + 3)"
  by (rule bit_word_eqI;
      auto simp: byte_of_def load32_def bit_simps dest: bit_imp_le_length)+

lemma load32_eqI:
  assumes "m a = byte_of 0 w" "m (a + 1) = byte_of 1 w" "m (a + 2) = byte_of 2 w" "m (a + 3) = byte_of 3 w"
  shows "load32 m a = w"
proof (rule bit_word_eqI)
  fix n
  assume "n < LENGTH(32)"
  then consider "n < 8" | "8 \<le> n" "n < 16" | "16 \<le> n" "n < 24" | "24 \<le> n" "n < 32"
    by (simp, linarith)
  then show "bit (load32 m a) n \<longleftrightarrow> bit w n"
    unfolding load32_def assms by cases (auto simp: byte_of_def bit_simps)
qed

lemma int_diff_mod_pos: "k \<le> n \<Longrightarrow> n < 2 ^ 32 \<Longrightarrow> (int n - int k) mod 2 ^ 32 = int (n - k)"
  by (simp flip: of_nat_diff)

lemma int_diff_mod_neg:
  assumes "n < k" "k \<le> 2 ^ 32"
  shows "(int n - int k) mod 2 ^ 32 = int (2 ^ 32 - k + n)"
proof -
  have "(int n - int k) mod 2 ^ 32 = (int n - int k + 2 ^ 32) mod 2 ^ 32"
    by simp
  also have "\<dots> = int n - int k + 2 ^ 32"
    using assms by (intro mod_pos_pos_trivial) auto
  finally show ?thesis using assms by (simp add: of_nat_diff)
qed

lemma unat_minus_of_nat:
  fixes y :: u32
  assumes "k \<le> 2 ^ 32"
  shows "unat (y - of_nat k) = (if k \<le> unat y then unat y - k else 2 ^ 32 - k + unat y)"
proof -
  have y: "unat y < 2 ^ 32" using unsigned_less [of y] by simp
  have "uint (y - of_nat k) = (int (unat y) - int k) mod 2 ^ 32"
    by (simp add: uint_word_ariths unsigned_of_nat take_bit_eq_mod mod_diff_right_eq zmod_int)
  then have eq: "int (unat (y - of_nat k)) = (int (unat y) - int k) mod 2 ^ 32"
    by simp
  show ?thesis
  proof (cases "k \<le> unat y")
    case True
    with eq int_diff_mod_pos [OF True y] show ?thesis by (simp only: of_nat_eq_iff if_True)
  next
    case False
    then have "unat y < k" by simp
    with eq int_diff_mod_neg [OF this assms] False show ?thesis
      by (simp only: of_nat_eq_iff if_False)
  qed
qed

lemma unat_region_shift:
  fixes x d :: u32
  assumes "k \<le> 2 ^ 32"
  shows "unat (x - (d + of_nat k)) =
    (if k \<le> unat (x - d) then unat (x - d) - k else 2 ^ 32 - k + unat (x - d))"
  using unat_minus_of_nat [OF assms, of "x - d"] by (simp add: algebra_simps)

lemma in_region_0 [simp]: "\<not> in_region d 0 x"
  by (simp add: in_region_def)

lemma in_region_mono: "in_region d k x \<Longrightarrow> k \<le> n \<Longrightarrow> in_region d n x"
  by (simp add: in_region_def)

lemma in_region_shift:
  assumes "k + n \<le> 2 ^ 32"
  shows "in_region (d + of_nat k) n x \<longleftrightarrow> k \<le> unat (x - d) \<and> unat (x - d) < k + n"
proof -
  have "k \<le> 2 ^ 32" using assms by simp
  then show ?thesis
    unfolding in_region_def unat_region_shift [OF \<open>k \<le> 2 ^ 32\<close>] using assms by auto
qed

lemma in_region_split:
  assumes "k + n \<le> 2 ^ 32"
  shows "in_region d (k + n) x \<longleftrightarrow> in_region d k x \<or> in_region (d + of_nat k) n x"
  by (auto simp: in_region_shift [OF assms]) (auto simp: in_region_def)

lemma in_region_sub:
  assumes "in_region (d + of_nat k) n x" "k + n \<le> N" "N \<le> 2 ^ 32"
  shows "in_region d N x"
  using assms in_region_shift [of k n d x] by (auto simp: in_region_def)

lemma in_region_base [simp]: "0 < n \<Longrightarrow> in_region d n d"
  by (simp add: in_region_def)

lemma in_region_offset: "unat i < n \<Longrightarrow> in_region d n (d + i)"
  by (simp add: in_region_def)

lemma apartD: "apart d n s k \<Longrightarrow> in_region d n x \<Longrightarrow> \<not> in_region s k x"
  by (auto simp: apart_def)

lemma apart_sub:
  assumes "apart d N s K" "k + n \<le> N" "N \<le> 2 ^ 32" "j + i \<le> K" "K \<le> 2 ^ 32"
  shows "apart (d + of_nat k) n (s + of_nat j) i"
  unfolding apart_def by (meson assms apartD in_region_sub)

lemma apart_mono: "apart d N s K \<Longrightarrow> n \<le> N \<Longrightarrow> k \<le> K \<Longrightarrow> apart d n s k"
  unfolding apart_def by (meson in_region_mono)

lemma apart_comm: "apart d n s k \<longleftrightarrow> apart s k d n"
  by (auto simp: apart_def)

text \<open>Regions that do not wrap are intervals of addresses.\<close>

lemma in_region_interval:
  assumes "unat d + n \<le> 2 ^ 32"
  shows "in_region d n x \<longleftrightarrow> unat d \<le> unat x \<and> unat x < unat d + n"
proof -
  have "unat (x - of_nat (unat d)) =
      (if unat d \<le> unat x then unat x - unat d else 2 ^ 32 - unat d + unat x)"
    by (rule unat_minus_of_nat) simp
  then have "unat (x - d) = (if unat d \<le> unat x then unat x - unat d else 2 ^ 32 - unat d + unat x)"
    by simp
  then show ?thesis using assms by (auto simp: in_region_def)
qed

lemma apart_intervals:
  assumes "unat d + n \<le> unat s \<or> unat s + k \<le> unat d" "unat d + n \<le> 2 ^ 32" "unat s + k \<le> 2 ^ 32"
  shows "apart d n s k"
  using assms by (auto simp: apart_def in_region_interval)

subsection \<open>Counting words\<close>

lemma unat_inc: "(i :: u32) + 1 \<noteq> 0 \<Longrightarrow> unat (i + 1) = Suc (unat i)"
  using unatSuc [of i] by (simp add: add.commute)

lemma inc_nonzero: "(i :: u32) < n \<Longrightarrow> i + 1 \<noteq> 0"
  by (auto simp flip: eq_neg_iff_add_eq_0)

lemma inc_nonzero_bound:
  assumes "unat (i :: u32) + 1 < 4294967296"
  shows "i + 1 \<noteq> 0"
proof
  assume "i + 1 = 0"
  then have "i = - 1" by (simp flip: eq_neg_iff_add_eq_0)
  then show False using assms by (simp add: unsigned_minus_1_eq_mask mask_eq_exp_minus_1)
qed

lemma unat_inc_less: "(i :: u32) < n \<Longrightarrow> unat (i + 1) = Suc (unat i)"
  by (rule unat_inc) (rule inc_nonzero)

lemma inc_measure:
  assumes "(i :: u32) + 1 \<noteq> 0"
  shows "4294967296 - unat (i + 1) < 4294967296 - unat i"
  using unat_u32_less [of "i + 1"] unat_u32_less [of i] unfolding unat_inc [OF assms] by linarith

lemma inc_measure_less:
  assumes "(i :: u32) < n"
  shows "unat n - unat (i + 1) < unat n - unat i"
  using assms unfolding unat_inc_less [OF assms] by (simp add: word_less_nat_alt)

lemma inc_le_iff: "(i :: u32) < n \<Longrightarrow> i + 1 \<le> j \<longleftrightarrow> i \<le> j \<and> j \<noteq> i"
  by (auto simp: word_le_nat_alt unat_inc_less word_unat_eq_iff)

lemma unat_of_nat_u32 [simp]: "n < 4294967296 \<Longrightarrow> unat (of_nat n :: u32) = n"
  by (simp add: unat_of_nat take_bit_eq_mod)

lemma in_region_1 [simp]: "in_region d (Suc 0) x \<longleftrightarrow> x = d"
  by (auto simp: in_region_def unat_eq_0)

lemma unat_add_small: "unat a + unat b < 4294967296 \<Longrightarrow> unat (a + b :: u32) = unat a + unat b"
  by (subst unat_add_lem [THEN iffD1]) simp_all

lemma sint_of_nat_u32: "n < 2 ^ 31 \<Longrightarrow> sint (of_nat n :: u32) = int n"
  by (simp add: signed_of_nat signed_take_bit_int_eq_self)

lemma ucast_sext8: "ucast (sext8 b) = b"
  by (rule bit_word_eqI) (auto simp: sext8_def bit_simps)

lemma sext8_inject [simp]: "sext8 a = sext8 b \<longleftrightarrow> a = b"
  by (metis ucast_sext8)

end
