(* ===== verification/LibMem.thy ===== *)
theory LibMem imports Prelude begin

text \<open>
  The memory routines of \<open>lib.c\<close>: \<open>memset\<close>, \<open>memset_word\<close>, \<open>memset_dword\<close>, \<open>memcpy\<close> and
  \<open>memmove\<close>. They are inline assembly; each phase of the assembly (the byte loop that aligns
  the destination, the string instruction on 32-bit cells, the byte loop for the rest) is a
  function here. The count register \<open>ecx\<close> is a natural number below \<open>2 ^ 32\<close>, the pointers
  \<open>edi\<close> and \<open>esi\<close> are words and wrap.

  The lemmas show that the phases together are the plain reference operations
  \<open>fill_bytes\<close> and \<open>copy_bytes\<close>.
\<close>

subsection \<open>Reference operations\<close>

definition copy_bytes :: "mem \<Rightarrow> u32 \<Rightarrow> u32 \<Rightarrow> nat \<Rightarrow> mem" where
  "copy_bytes m d s n = (\<lambda>x. if in_region d n x then m (s + (x - d)) else m x)"

definition fill_bytes :: "mem \<Rightarrow> u32 \<Rightarrow> u8 \<Rightarrow> nat \<Rightarrow> mem" where
  "fill_bytes m d b n = (\<lambda>x. if in_region d n x then b else m x)"

subsection \<open>The x86 string instructions\<close>

fun rep_stosl :: "nat \<Rightarrow> mem \<Rightarrow> u32 \<Rightarrow> u32 \<Rightarrow> mem \<times> u32" where
  "rep_stosl 0 m edi eax = (m, edi)"
| "rep_stosl (Suc n) m edi eax = rep_stosl n (store32 m edi eax) (edi + 4) eax"

fun rep_stosw :: "nat \<Rightarrow> mem \<Rightarrow> u32 \<Rightarrow> u32 \<Rightarrow> mem \<times> u32" where
  "rep_stosw 0 m edi eax = (m, edi)"
| "rep_stosw (Suc n) m edi eax =
     rep_stosw n (m(edi := byte_of 0 eax, edi + 1 := byte_of 1 eax)) (edi + 2) eax"

fun rep_movsl :: "nat \<Rightarrow> mem \<Rightarrow> u32 \<Rightarrow> u32 \<Rightarrow> mem \<times> u32 \<times> u32" where
  "rep_movsl 0 m edi esi = (m, edi, esi)"
| "rep_movsl (Suc n) m edi esi =
     rep_movsl n (store32 m edi (load32 m esi)) (edi + 4) (esi + 4)"

text \<open>\<open>rep movsb\<close> moves down when the direction flag is set.\<close>

fun rep_movsb :: "nat \<Rightarrow> bool \<Rightarrow> mem \<Rightarrow> u32 \<Rightarrow> u32 \<Rightarrow> mem" where
  "rep_movsb 0 df m edi esi = m"
| "rep_movsb (Suc n) df m edi esi =
     rep_movsb n df (m(edi := m esi))
       (if df then edi - 1 else edi + 1) (if df then esi - 1 else esi + 1)"

subsection \<open>\<open>memset\<close>\<close>

text \<open>\<open>.memset_top\<close>: bytes until the destination is aligned or the count is used up.\<close>

fun memset_top :: "nat \<Rightarrow> mem \<Rightarrow> u32 \<Rightarrow> u8 \<Rightarrow> mem \<times> u32 \<times> nat" where
  "memset_top 0 m edi al = (m, edi, 0)"
| "memset_top (Suc ecx) m edi al =
     (if edi AND 3 = 0 then (m, edi, Suc ecx) else memset_top ecx (m(edi := al)) (edi + 1) al)"

fun memset_bottom :: "nat \<Rightarrow> mem \<Rightarrow> u32 \<Rightarrow> u8 \<Rightarrow> mem" where
  "memset_bottom 0 m edi al = m"
| "memset_bottom (Suc edx) m edi al = memset_bottom edx (m(edi := al)) (edi + 1) al"

definition memset :: "mem \<Rightarrow> u32 \<Rightarrow> i32 \<Rightarrow> u32 \<Rightarrow> mem" where
  "memset m s c n =
     (let c = c AND 0xFF;
          eax = push_bit 24 c OR push_bit 16 c OR push_bit 8 c OR c;
          al = byte_of 0 eax;
          (m1, edi, ecx) = memset_top (unat n) m s al
      in if ecx = 0 then m1
         else let (m2, edi2) = rep_stosl (ecx div 4) m1 edi eax
              in memset_bottom (ecx mod 4) m2 edi2 al)"

definition memset_word :: "mem \<Rightarrow> u32 \<Rightarrow> i32 \<Rightarrow> u32 \<Rightarrow> mem" where
  "memset_word m s c n = fst (rep_stosw (unat n) m s c)"

definition memset_dword :: "mem \<Rightarrow> u32 \<Rightarrow> i32 \<Rightarrow> u32 \<Rightarrow> mem" where
  "memset_dword m s c n = fst (rep_stosl (unat n) m s c)"

subsection \<open>\<open>memcpy\<close> and \<open>memmove\<close>\<close>

fun memcpy_top :: "nat \<Rightarrow> mem \<Rightarrow> u32 \<Rightarrow> u32 \<Rightarrow> mem \<times> u32 \<times> u32 \<times> nat" where
  "memcpy_top 0 m edi esi = (m, edi, esi, 0)"
| "memcpy_top (Suc ecx) m edi esi =
     (if edi AND 3 = 0 then (m, edi, esi, Suc ecx)
      else memcpy_top ecx (m(edi := m esi)) (edi + 1) (esi + 1))"

fun memcpy_bottom :: "nat \<Rightarrow> mem \<Rightarrow> u32 \<Rightarrow> u32 \<Rightarrow> mem" where
  "memcpy_bottom 0 m edi esi = m"
| "memcpy_bottom (Suc edx) m edi esi = memcpy_bottom edx (m(edi := m esi)) (edi + 1) (esi + 1)"

definition memcpy :: "mem \<Rightarrow> u32 \<Rightarrow> u32 \<Rightarrow> u32 \<Rightarrow> mem" where
  "memcpy m dest src n =
     (let (m1, edi, esi, ecx) = memcpy_top (unat n) m dest src
      in if ecx = 0 then m1
         else let (m2, edi2, esi2) = rep_movsl (ecx div 4) m1 edi esi
              in memcpy_bottom (ecx mod 4) m2 edi2 esi2)"

text \<open>The second component is the direction flag that \<open>memmove\<close> leaves behind.\<close>

definition memmove :: "mem \<Rightarrow> u32 \<Rightarrow> u32 \<Rightarrow> u32 \<Rightarrow> mem \<times> bool" where
  "memmove m dest src n =
     (if dest \<le> src then (rep_movsb (unat n) False m dest src, False)
      else (rep_movsb (unat n) True m (dest + n - 1) (src + n - 1), True))"

subsection \<open>Filling\<close>

lemma fill_bytes_0 [simp]: "fill_bytes m d b 0 = m"
  by (simp add: fill_bytes_def)

lemma fill_bytes_append:
  assumes "k + n \<le> 2 ^ 32"
  shows "fill_bytes (fill_bytes m d b k) (d + of_nat k) b n = fill_bytes m d b (k + n)"
  unfolding fill_bytes_def by (rule ext) (auto simp: in_region_split [OF assms])

lemma fill_bytes_1: "m(d := b) = fill_bytes m d b 1"
  by (rule ext) (simp add: fill_bytes_def)

lemma memset_bottom_fill:
  "n \<le> 2 ^ 32 \<Longrightarrow> memset_bottom n m d b = fill_bytes m d b n"
proof (induction n arbitrary: m d)
  case 0
  then show ?case by simp
next
  case (Suc n)
  have "memset_bottom (Suc n) m d b = fill_bytes (fill_bytes m d b 1) (d + of_nat 1) b n"
    using Suc by (simp add: fill_bytes_1)
  also have "\<dots> = fill_bytes m d b (1 + n)"
    using Suc.prems by (intro fill_bytes_append) simp
  finally show ?case by simp
qed

lemma memset_top_fill:
  assumes "n \<le> 2 ^ 32" "memset_top n m d b = (m', d', n')"
  shows "\<exists>k. n = k + n' \<and> m' = fill_bytes m d b k \<and> d' = d + of_nat k"
  using assms
proof (induction n arbitrary: m d)
  case 0
  then show ?case by auto
next
  case (Suc n)
  show ?case
  proof (cases "d AND 3 = 0")
    case True
    with Suc.prems show ?thesis by (intro exI [of _ 0]) auto
  next
    case False
    with Suc.prems have "memset_top n (m(d := b)) (d + 1) b = (m', d', n')" by simp
    moreover have "n \<le> 2 ^ 32" using Suc.prems(1) by simp
    ultimately obtain k where k: "n = k + n'" "m' = fill_bytes (m(d := b)) (d + 1) b k"
      "d' = d + 1 + of_nat k"
      using Suc.IH by blast
    have "m' = fill_bytes (fill_bytes m d b 1) (d + of_nat 1) b k"
      using k(2) by (simp add: fill_bytes_1)
    also have "\<dots> = fill_bytes m d b (1 + k)"
      using Suc.prems(1) k(1) by (intro fill_bytes_append) simp
    finally show ?thesis using k by (intro exI [of _ "Suc k"]) (simp add: algebra_simps)
  qed
qed

lemma fill_bytes_4:
  assumes "\<And>k. k < 4 \<Longrightarrow> byte_of k w = b"
  shows "store32 m d w = fill_bytes m d b 4"
proof -
  have step: "(fill_bytes m d b k)(d + of_nat k := b) = fill_bytes m d b (k + 1)" if "k < 4" for k
    using that fill_bytes_append [of k 1 m d b] by (simp add: fill_bytes_1)
  have "store32 m d w = (fill_bytes m d b 0)(d + of_nat 0 := b, d + of_nat 1 := b,
      d + of_nat 2 := b, d + of_nat 3 := b)"
    by (simp add: store32_def assms)
  also have "\<dots> = fill_bytes m d b 4"
    using step [of 0] step [of 1] step [of 2] step [of 3] by (simp add: eval_nat_numeral)
  finally show ?thesis .
qed

lemma rep_stosl_fill:
  assumes "4 * n \<le> 2 ^ 32" "\<And>k. k < 4 \<Longrightarrow> byte_of k w = b"
  shows "rep_stosl n m d w = (fill_bytes m d b (4 * n), d + of_nat (4 * n))"
  using assms(1)
proof (induction n arbitrary: m d)
  case 0
  then show ?case by simp
next
  case (Suc n)
  have "fill_bytes (fill_bytes m d b 4) (d + of_nat 4) b (4 * n) = fill_bytes m d b (4 + 4 * n)"
    using Suc.prems by (intro fill_bytes_append) simp
  then show ?case
    using Suc by (simp add: fill_bytes_4 [OF assms(2)] algebra_simps)
qed

text \<open>\<open>memset\<close> replicates the low byte of its argument into \<open>eax\<close>.\<close>

lemma byte_of_replicated:
  fixes c :: u32
  assumes "k < 4"
  shows "byte_of k (push_bit 24 (c AND 0xFF) OR push_bit 16 (c AND 0xFF)
           OR push_bit 8 (c AND 0xFF) OR (c AND 0xFF)) = ucast c"
proof -
  from assms consider "k = 0" | "k = 1" | "k = 2" | "k = 3" by linarith
  then show ?thesis
    by cases (simp_all only: byte_of_def byte_mask, (rule bit_word_eqI, auto simp: bit_simps)+)
qed

lemma memset_fill_bytes: "memset m s c n = fill_bytes m s (ucast c) (unat n)"
proof -
  let ?b = "ucast c :: u8" and ?N = "unat n"
  let ?eax = "push_bit 24 (c AND 0xFF) OR push_bit 16 (c AND 0xFF)
    OR push_bit 8 (c AND 0xFF) OR (c AND 0xFF)"
  have N: "?N \<le> 2 ^ 32" by simp
  obtain m1 edi ecx where top: "memset_top ?N m s ?b = (m1, edi, ecx)"
    by (cases "memset_top ?N m s ?b") auto
  then obtain k where k: "?N = k + ecx" "m1 = fill_bytes m s ?b k" "edi = s + of_nat k"
    using memset_top_fill [OF N] by blast
  have stos: "rep_stosl (ecx div 4) m1 edi ?eax =
      (fill_bytes m1 edi ?b (4 * (ecx div 4)), edi + of_nat (4 * (ecx div 4)))"
    by (rule rep_stosl_fill) (use N k(1) byte_of_replicated in auto)
  have "memset_bottom (ecx mod 4) (fill_bytes m1 edi ?b (4 * (ecx div 4)))
      (edi + of_nat (4 * (ecx div 4))) ?b = fill_bytes m1 edi ?b ecx"
    using N k(1) fill_bytes_append [of "4 * (ecx div 4)" "ecx mod 4" m1 edi ?b]
    by (subst memset_bottom_fill) auto
  also have "\<dots> = fill_bytes m s ?b ?N"
    using k fill_bytes_append [of k ecx m s ?b] N by simp
  finally show ?thesis
    using top stos k byte_of_replicated [of 0 c]
    by (simp add: memset_def Let_def split: prod.splits)
qed

subsection \<open>Copying\<close>

lemma copy_bytes_0 [simp]: "copy_bytes m d s 0 = m"
  by (simp add: copy_bytes_def)

lemma copy_bytes_1: "m(d := m s) = copy_bytes m d s 1"
  by (rule ext) (simp add: copy_bytes_def)

lemma copy_bytes_outside: "\<not> in_region d n x \<Longrightarrow> copy_bytes m d s n x = m x"
  by (simp add: copy_bytes_def)

lemma copy_bytes_inside: "in_region d n x \<Longrightarrow> copy_bytes m d s n x = m (s + (x - d))"
  by (simp add: copy_bytes_def)

lemma copy_bytes_append:
  assumes "apart d (k + n) s (k + n)" "k + n \<le> 2 ^ 32"
  shows "copy_bytes (copy_bytes m d s k) (d + of_nat k) (s + of_nat k) n = copy_bytes m d s (k + n)"
proof (rule ext)
  fix x
  let ?t = "x - d"
  show "copy_bytes (copy_bytes m d s k) (d + of_nat k) (s + of_nat k) n x = copy_bytes m d s (k + n) x"
  proof (cases "in_region (d + of_nat k) n x")
    case True
    then have t: "k \<le> unat ?t" "unat ?t < k + n"
      using in_region_shift [OF assms(2)] by auto
    then have "in_region s (k + n) (s + ?t)"
      by (intro in_region_offset) simp
    then have "\<not> in_region d k (s + ?t)"
      using assms(1) by (meson apartD in_region_mono le_add1)
    then show ?thesis using True t
      by (simp add: copy_bytes_def in_region_def algebra_simps)
  next
    case False
    then show ?thesis
      by (simp add: copy_bytes_def in_region_split [OF assms(2)])
  qed
qed

lemma copy_bytes_4:
  assumes "apart d 4 s 4"
  shows "store32 m d (load32 m s) = copy_bytes m d s 4"
proof -
  have step: "(copy_bytes m d s k)(d + of_nat k := copy_bytes m d s k (s + of_nat k)) =
      copy_bytes m d s (k + 1)" if "k < 4" for k
  proof -
    have "apart d (k + 1) s (k + 1)"
      by (rule apart_mono [OF assms]) (use that in auto)
    then show ?thesis
      using that copy_bytes_append [of d k 1 s m] by (simp add: copy_bytes_1)
  qed
  have src: "copy_bytes m d s k (s + of_nat j) = m (s + of_nat j)" if "k < 4" "j < 4" for k j
  proof -
    have "in_region s 4 (s + of_nat j)"
      using that by (intro in_region_offset) (simp add: unat_of_nat take_bit_eq_mod)
    then have "\<not> in_region d k (s + of_nat j)"
      using assms that by (auto simp: apart_def dest: in_region_mono [of _ k _ 4])
    then show ?thesis by (rule copy_bytes_outside)
  qed
  have "store32 m d (load32 m s) = (copy_bytes m d s 0)(d + of_nat 0 := m (s + of_nat 0),
      d + of_nat 1 := m (s + of_nat 1), d + of_nat 2 := m (s + of_nat 2), d + of_nat 3 := m (s + of_nat 3))"
    by (simp only: store32_def byte_of_load32) simp
  also have "\<dots> = copy_bytes m d s 4"
    using step [of 0] step [of 1] step [of 2] step [of 3]
      src [of 0 0] src [of 1 1] src [of 2 2] src [of 3 3] by (simp add: eval_nat_numeral)
  finally show ?thesis .
qed

text \<open>
  Upward byte copying is right as long as no byte is overwritten before it is read: a write at
  index \<open>i\<close> never hits the source at a later index \<open>j\<close>.
\<close>

lemma rep_movsb_up:
  assumes "n \<le> 2 ^ 32" "\<And>i j. i < j \<Longrightarrow> j < n \<Longrightarrow> d + of_nat i \<noteq> s + of_nat j"
  shows "rep_movsb n False m d s = copy_bytes m d s n"
  using assms
proof (induction n arbitrary: m d s)
  case 0
  then show ?case by simp
next
  case (Suc n)
  have "rep_movsb (Suc n) False m d s = copy_bytes (m(d := m s)) (d + of_nat 1) (s + of_nat 1) n"
  proof -
    have "d + 1 + of_nat i \<noteq> s + 1 + of_nat j" if "i < j" "j < n" for i j
      using Suc.prems(2) [of "Suc i" "Suc j"] that by (simp add: algebra_simps)
    then have "rep_movsb n False (m(d := m s)) (d + 1) (s + 1) =
        copy_bytes (m(d := m s)) (d + 1) (s + 1) n"
      using Suc.prems(1) by (intro Suc.IH) auto
    then show ?thesis by (simp only: rep_movsb.simps if_False of_nat_1)
  qed
  also have "\<dots> = copy_bytes m d s (1 + n)"
  proof (rule ext)
    fix x
    let ?t = "x - d"
    have reg: "in_region d (1 + n) x \<longleftrightarrow> in_region d 1 x \<or> in_region (d + of_nat 1) n x"
      using Suc.prems(1) by (intro in_region_split) simp
    show "copy_bytes (m(d := m s)) (d + of_nat 1) (s + of_nat 1) n x = copy_bytes m d s (1 + n) x"
    proof (cases "in_region (d + of_nat 1) n x")
      case True
      then have t: "1 \<le> unat ?t" "unat ?t < 1 + n"
        using in_region_shift [of 1 n d x] Suc.prems(1) by auto
      then have "d + of_nat 0 \<noteq> s + of_nat (unat ?t)"
        using Suc.prems(2) [of 0 "unat ?t"] by simp
      then have "s + ?t \<noteq> d" by simp
      then show ?thesis using True reg by (simp add: copy_bytes_def algebra_simps)
    next
      case False
      then show ?thesis using reg by (auto simp: copy_bytes_def)
    qed
  qed
  finally show ?case by simp
qed

lemma rep_movsb_down:
  assumes "n \<le> 2 ^ 32" "\<And>i j. i < j \<Longrightarrow> j < n \<Longrightarrow> s + of_nat i \<noteq> d + of_nat j"
  shows "rep_movsb n True m (d + of_nat n - 1) (s + of_nat n - 1) = copy_bytes m d s n"
  using assms
proof (induction n arbitrary: m)
  case 0
  then show ?case by simp
next
  case (Suc n)
  let ?m = "m(d + of_nat n := m (s + of_nat n))"
  have "rep_movsb (Suc n) True m (d + of_nat (Suc n) - 1) (s + of_nat (Suc n) - 1) =
      rep_movsb n True ?m (d + of_nat n - 1) (s + of_nat n - 1)"
    by (simp add: algebra_simps)
  also have "\<dots> = copy_bytes ?m d s n"
    using Suc.prems by (intro Suc.IH) auto
  also have "\<dots> = copy_bytes m d s (n + 1)"
  proof (rule ext)
    fix x
    let ?t = "x - d"
    have reg: "in_region d (n + 1) x \<longleftrightarrow> in_region d n x \<or> in_region (d + of_nat n) 1 x"
      using Suc.prems(1) by (intro in_region_split) simp
    show "copy_bytes ?m d s n x = copy_bytes m d s (n + 1) x"
    proof (cases "in_region d n x")
      case True
      then have "unat ?t < n" by (simp add: in_region_def)
      then have "s + of_nat (unat ?t) \<noteq> d + of_nat n"
        using Suc.prems(2) [of "unat ?t" n] by simp
      then have "s + ?t \<noteq> d + of_nat n" by simp
      then show ?thesis using True reg by (simp add: copy_bytes_def)
    next
      case False
      then show ?thesis using reg by (auto simp: copy_bytes_def)
    qed
  qed
  finally show ?case by simp
qed

lemma memcpy_bottom_movsb: "memcpy_bottom n m d s = rep_movsb n False m d s"
  by (induction n arbitrary: m d s) auto

lemma apart_no_hit:
  assumes "apart d n s n" "i < n" "j < n" "n \<le> 2 ^ 32"
  shows "d + of_nat i \<noteq> s + of_nat j"
proof
  assume eq: "d + of_nat i = s + of_nat j"
  have "in_region d n (d + of_nat i)" "in_region s n (s + of_nat j)"
    using assms by (auto intro!: in_region_offset simp: unat_of_nat take_bit_eq_mod)
  then show False using assms(1) eq by (auto simp: apart_def)
qed

lemma memcpy_bottom_copy:
  assumes "apart d n s n" "n \<le> 2 ^ 32"
  shows "memcpy_bottom n m d s = copy_bytes m d s n"
  unfolding memcpy_bottom_movsb by (rule rep_movsb_up) (use assms apart_no_hit in auto)

lemma memcpy_top_copy:
  assumes "apart d n s n" "n \<le> 2 ^ 32" "memcpy_top n m d s = (m', d', s', n')"
  shows "\<exists>k. n = k + n' \<and> m' = copy_bytes m d s k \<and> d' = d + of_nat k \<and> s' = s + of_nat k"
  using assms
proof (induction n arbitrary: m d s)
  case 0
  then show ?case by auto
next
  case (Suc n)
  show ?case
  proof (cases "d AND 3 = 0")
    case True
    with Suc.prems show ?thesis by (intro exI [of _ 0]) auto
  next
    case False
    with Suc.prems have "memcpy_top n (m(d := m s)) (d + 1) (s + 1) = (m', d', s', n')" by simp
    moreover have "apart (d + 1) n (s + 1) n"
      using apart_sub [OF Suc.prems(1), of 1 n 1 n] Suc.prems(2) by simp
    moreover have "n \<le> 2 ^ 32" using Suc.prems(2) by simp
    ultimately obtain k where k: "n = k + n'" "m' = copy_bytes (m(d := m s)) (d + 1) (s + 1) k"
      "d' = d + 1 + of_nat k" "s' = s + 1 + of_nat k"
      using Suc.IH by blast
    have "m' = copy_bytes (copy_bytes m d s 1) (d + of_nat 1) (s + of_nat 1) k"
      using k(2) by (simp only: copy_bytes_1 of_nat_1)
    also have "\<dots> = copy_bytes m d s (1 + k)"
    proof (rule copy_bytes_append)
      show "apart d (1 + k) s (1 + k)"
        by (rule apart_mono [OF Suc.prems(1)]) (use k(1) in auto)
      show "1 + k \<le> 2 ^ 32" using Suc.prems(2) k(1) by simp
    qed
    finally show ?thesis using k by (intro exI [of _ "Suc k"]) (simp add: algebra_simps)
  qed
qed

lemma rep_movsl_copy:
  assumes "apart d (4 * n) s (4 * n)" "4 * n \<le> 2 ^ 32"
  shows "rep_movsl n m d s = (copy_bytes m d s (4 * n), d + of_nat (4 * n), s + of_nat (4 * n))"
  using assms
proof (induction n arbitrary: m d s)
  case 0
  then show ?case by simp
next
  case (Suc n)
  have first: "store32 m d (load32 m s) = copy_bytes m d s 4"
    by (intro copy_bytes_4 apart_mono [OF Suc.prems(1)]) auto
  have "apart (d + of_nat 4) (4 * n) (s + of_nat 4) (4 * n)"
    using Suc.prems by (intro apart_sub [OF Suc.prems(1)]) auto
  then have "rep_movsl n (copy_bytes m d s 4) (d + of_nat 4) (s + of_nat 4) =
      (copy_bytes (copy_bytes m d s 4) (d + of_nat 4) (s + of_nat 4) (4 * n),
       d + of_nat 4 + of_nat (4 * n), s + of_nat 4 + of_nat (4 * n))"
    using Suc.prems(2) by (intro Suc.IH) auto
  moreover have "copy_bytes (copy_bytes m d s 4) (d + of_nat 4) (s + of_nat 4) (4 * n) =
      copy_bytes m d s (4 + 4 * n)"
    using Suc.prems by (intro copy_bytes_append) auto
  ultimately show ?case using first by (simp add: algebra_simps)
qed

lemma memcpy_copy_bytes:
  assumes "apart d (unat n) s (unat n)"
  shows "memcpy m d s n = copy_bytes m d s (unat n)"
proof -
  let ?N = "unat n"
  obtain m1 edi esi ecx where top: "memcpy_top ?N m d s = (m1, edi, esi, ecx)"
    by (cases "memcpy_top ?N m d s") auto
  then obtain k where k: "?N = k + ecx" "m1 = copy_bytes m d s k" "edi = d + of_nat k"
    "esi = s + of_nat k"
    using memcpy_top_copy [OF assms] by fastforce
  let ?q = "4 * (ecx div 4)"
  have bound: "k + ecx \<le> 2 ^ 32" using k(1) unat_u32_le [of n] by simp
  have ap: "apart d (k + ecx) s (k + ecx)" using assms k(1) by simp
  have rest: "apart edi ecx esi ecx"
    unfolding k(3,4) by (rule apart_sub [OF ap]) (use bound in auto)
  have movs: "rep_movsl (ecx div 4) m1 edi esi =
      (copy_bytes m1 edi esi ?q, edi + of_nat ?q, esi + of_nat ?q)"
    by (intro rep_movsl_copy apart_mono [OF rest]) (use bound in auto)
  have "memcpy_bottom (ecx mod 4) (copy_bytes m1 edi esi ?q) (edi + of_nat ?q) (esi + of_nat ?q) =
      copy_bytes (copy_bytes m1 edi esi ?q) (edi + of_nat ?q) (esi + of_nat ?q) (ecx mod 4)"
    by (intro memcpy_bottom_copy apart_sub [OF rest]) (use bound in auto)
  also have "\<dots> = copy_bytes m1 edi esi ecx"
    using copy_bytes_append [of edi ?q "ecx mod 4" esi m1] rest bound by simp
  also have "\<dots> = copy_bytes m d s ?N"
    using copy_bytes_append [OF ap bound, of m] k by simp
  finally show ?thesis
    using top movs k by (simp add: memcpy_def)
qed

subsection \<open>What the routines compute\<close>

text \<open>\<open>memset(s, c, n)\<close> sets exactly the \<open>n\<close> bytes from \<open>s\<close> on to the low byte of \<open>c\<close>,
  for every alignment of \<open>s\<close> and every length, and changes no other byte.\<close>

theorem memset_sets_region:
  "memset m s c n x = (if unat (x - s) < unat n then ucast c else m x)"
  by (simp add: memset_fill_bytes fill_bytes_def in_region_def)

text \<open>\<open>memcpy(dest, src, n)\<close> on regions that do not overlap: byte \<open>i\<close> of the destination
  becomes byte \<open>i\<close> of the source for every \<open>i < n\<close>, no other byte changes. The word-wise fast
  path, the alignment prologue and the tail together are the byte-wise copy.\<close>

theorem memcpy_copies_region:
  assumes "apart dest (unat n) src (unat n)"
  shows "memcpy m dest src n x = (if unat (x - dest) < unat n then m (src + (x - dest)) else m x)"
  by (simp add: memcpy_copy_bytes [OF assms] copy_bytes_def in_region_def)

theorem memcpy_copies_region_witness:
  "memcpy (\<lambda>a. ucast a) 0x1001 0x2000 11 0x100A = 9"
proof -
  have "apart (0x1001 :: u32) (unat (11 :: u32)) 0x2000 (unat (11 :: u32))"
    by (rule apart_intervals) simp_all
  from memcpy_copies_region [OF this, of "\<lambda>a. ucast a" "0x100A"] show ?thesis by simp
qed

text \<open>[C36] \<open>memmove(dest, src, n)\<close> copies correctly even when the regions overlap, in either
  direction, as long as neither wraps around the address space: every destination byte gets the
  value its source byte had before the call. When it has to copy downwards it sets the direction
  flag and never clears it again.\<close>

theorem memmove_copies_overlapping:
  assumes "unat dest + unat n \<le> 2 ^ 32" "unat src + unat n \<le> 2 ^ 32"
  shows "fst (memmove m dest src n) x = (if unat (x - dest) < unat n then m (src + (x - dest)) else m x)
    \<and> (snd (memmove m dest src n) \<longleftrightarrow> src < dest)"
proof -
  have val: "unat (a + of_nat i) = unat a + i" if "unat a + unat n \<le> 2 ^ 32" "i < unat n" for a :: u32 and i
    using that by (simp add: unat_word_ariths unat_of_nat take_bit_eq_mod)
  have "fst (memmove m dest src n) = copy_bytes m dest src (unat n)"
  proof (cases "dest \<le> src")
    case True
    have "dest + of_nat i \<noteq> src + of_nat j" if "i < j" "j < unat n" for i j
    proof
      assume "dest + of_nat i = src + of_nat j"
      then have "unat dest + i = unat src + j"
        using val [OF assms(1), of i] val [OF assms(2), of j] that by simp
      then show False using True that by (simp add: word_le_nat_alt)
    qed
    then show ?thesis using True by (simp add: memmove_def rep_movsb_up)
  next
    case False
    have "src + of_nat i \<noteq> dest + of_nat j" if "i < j" "j < unat n" for i j
    proof
      assume "src + of_nat i = dest + of_nat j"
      then have "unat src + i = unat dest + j"
        using val [OF assms(2), of i] val [OF assms(1), of j] that by simp
      then show False using False that by (simp add: word_le_nat_alt)
    qed
    then show ?thesis
      using False rep_movsb_down [of "unat n" src dest m] by (simp add: memmove_def)
  qed
  moreover have "snd (memmove m dest src n) \<longleftrightarrow> src < dest"
    by (auto simp: memmove_def)
  ultimately show ?thesis by (simp add: copy_bytes_def in_region_def)
qed

theorem memmove_copies_overlapping_witness:
  "fst (memmove (\<lambda>a. ucast a) 0x1002 0x1000 8 ) 0x1009 = 7 \<and> snd (memmove (\<lambda>a. ucast a) 0x1002 0x1000 8)"
  using memmove_copies_overlapping [of "0x1002" 8 "0x1000" "\<lambda>a. ucast a" "0x1009"] by simp

lemma rep_stosw_bytes:
  assumes "2 * n \<le> 2 ^ 32"
  shows "fst (rep_stosw n m d w) x =
    (if in_region d (2 * n) x then byte_of (unat (x - d) mod 2) w else m x)"
  using assms
proof (induction n arbitrary: m d)
  case 0
  then show ?case by simp
next
  case (Suc n)
  have split: "in_region d (2 + 2 * n) x \<longleftrightarrow> in_region d 2 x \<or> in_region (d + of_nat 2) (2 * n) x"
    using Suc.prems by (intro in_region_split) simp
  have "in_region d (1 + 1) x \<longleftrightarrow> x = d \<or> x = d + 1"
    by (subst in_region_split) auto
  then have two: "in_region d 2 x \<longleftrightarrow> x = d \<or> x = d + 1"
    by (simp only: one_add_one)
  have shift: "in_region (d + of_nat 2) (2 * n) x \<Longrightarrow>
      2 \<le> unat (x - d) \<and> unat (x - (d + of_nat 2)) = unat (x - d) - 2"
    using Suc.prems by (simp add: in_region_shift [of 2 "2 * n", simplified] unat_region_shift [of 2, simplified])
  show ?case
    using Suc split two shift by (auto simp: le_mod_geq)
qed

text \<open>\<open>memset_word(s, c, n)\<close> stores \<open>n\<close> little-endian 16-bit cells: it writes the \<open>2 * n\<close>
  bytes from \<open>s\<close> on (the comment in the source speaks of \<open>n\<close> bytes), alternating between the low
  two bytes of \<open>c\<close>, and nothing else.\<close>

theorem memset_word_sets_cells:
  assumes "2 * unat n \<le> 2 ^ 32"
  shows "memset_word m s c n x =
    (if unat (x - s) < 2 * unat n then byte_of (unat (x - s) mod 2) c else m x)"
  using rep_stosw_bytes [OF assms] by (simp add: memset_word_def in_region_def)

theorem memset_word_sets_cells_witness:
  "memset_word (\<lambda>_. 0) 0x1000 0xABCD 3 0x1005 = 0xAB"
  using memset_word_sets_cells [of 3 "\<lambda>_. 0" "0x1000" "0xABCD" "0x1005"]
  by (simp add: byte_of_def)

end
