(* ===== verification/LibString.thy ===== *)
theory LibString imports Prelude begin

text \<open>
  The string routines of \<open>lib.c\<close> (\<open>strlen\<close>, \<open>strncmp\<close>, \<open>strcpy\<close>, \<open>strncpy\<close>, \<open>itoa\<close>,
  \<open>strrev\<close>) and their user-level twins of \<open>ece391support.c\<close>.

  A string argument is a reader, the function from index to byte that \<open>s[i]\<close> denotes; pointers
  into memory and local arrays both give readers. The abstraction \<open>c_string s xs\<close> says that the
  reader holds the byte list \<open>xs\<close> followed by a NUL. A loop that never meets a NUL goes round the
  32-bit index space for ever: its result is \<open>None\<close>.
\<close>

subsection \<open>C strings as byte lists\<close>

definition c_string :: "reader \<Rightarrow> u8 list \<Rightarrow> bool" where
  "c_string s xs \<longleftrightarrow> length xs < 2 ^ 32 \<and> 0 \<notin> set xs \<and>
     (\<forall>i < length xs. s (of_nat i) = xs ! i) \<and> s (of_nat (length xs)) = 0"

definition shift_reader :: "u32 \<Rightarrow> reader \<Rightarrow> reader" where
  "shift_reader k s = (\<lambda>i. s (k + i))"

lemma shift_reader_apply: "shift_reader k s i = s (k + i)"
  by (simp add: shift_reader_def)

lemma shift_reader_0 [simp]: "shift_reader 0 s = s"
  by (simp add: shift_reader_def)

lemma shift_reader_shift [simp]: "shift_reader k (shift_reader i s) = shift_reader (i + k) s"
  by (simp add: shift_reader_def add.assoc)

lemma c_string_Nil: "c_string s [] \<longleftrightarrow> s 0 = 0"
  by (simp add: c_string_def)

lemma c_string_Cons:
  "c_string s (x # xs) \<longleftrightarrow>
     s 0 = x \<and> x \<noteq> 0 \<and> length xs + 1 < 2 ^ 32 \<and> c_string (shift_reader 1 s) xs"
  by (auto simp: c_string_def less_Suc_eq_0_disj nth_Cons shift_reader_apply split: nat.splits)

lemma c_string_shift [simp]:
  "c_string (shift_reader i s) [] \<longleftrightarrow> s i = 0"
  "c_string (shift_reader i s) (x # xs) \<longleftrightarrow>
     s i = x \<and> x \<noteq> 0 \<and> length xs + 1 < 2 ^ 32 \<and> c_string (shift_reader (i + 1) s) xs"
  by (simp_all add: c_string_Nil c_string_Cons shift_reader_apply)

lemma c_string_more:
  assumes "c_string (shift_reader i s) xs" "s i \<noteq> 0"
  shows "\<exists>xs'. xs = s i # xs' \<and> c_string (shift_reader (i + 1) s) xs'"
  using assms by (cases xs) auto

lemma c_string_unique: "c_string s xs \<Longrightarrow> c_string s ys \<Longrightarrow> xs = ys"
proof (induction xs arbitrary: s ys)
  case Nil
  then show ?case by (cases ys) (auto simp: c_string_Cons c_string_Nil)
next
  case (Cons x xs)
  then show ?case by (cases ys) (auto simp: c_string_Cons c_string_Nil)
qed

subsection \<open>\<open>strlen\<close> and \<open>strncmp\<close>\<close>

text \<open>The loop of \<open>strlen\<close> from index \<open>len\<close> on. When the index has wrapped, all \<open>2 ^ 32\<close> bytes
  have been read without a NUL and the loop repeats itself.\<close>

function strlen_from :: "reader \<Rightarrow> u32 \<Rightarrow> u32 option" where
  "strlen_from s len =
     (if s len = 0 then Some len
      else if len + 1 = 0 then None
      else strlen_from s (len + 1))"
  by pat_completeness auto
termination
  by (relation "measure (\<lambda>(s, len). 4294967296 - unat len)") (auto intro: inc_measure)

declare strlen_from.simps [simp del]

definition strlen :: "reader \<Rightarrow> u32 option" where
  "strlen s = strlen_from s 0"

function strncmp_from :: "reader \<Rightarrow> reader \<Rightarrow> u32 \<Rightarrow> u32 \<Rightarrow> i32" where
  "strncmp_from s1 s2 n i =
     (if i < n then
        if s1 i \<noteq> s2 i \<or> s1 i = 0 then sext8 (s1 i) - sext8 (s2 i)
        else strncmp_from s1 s2 n (i + 1)
      else 0)"
  by pat_completeness auto
termination
  by (relation "measure (\<lambda>(s1, s2, n, i). unat n - unat i)") (auto intro: inc_measure_less)

declare strncmp_from.simps [simp del]

definition strncmp :: "reader \<Rightarrow> reader \<Rightarrow> u32 \<Rightarrow> i32" where
  "strncmp s1 s2 n = strncmp_from s1 s2 n 0"

subsection \<open>\<open>strcpy\<close> and \<open>strncpy\<close>\<close>

text \<open>
  The destination is an object of a state \<open>'s\<close> with a byte store \<open>put i b\<close> for \<open>dest[i] = b\<close>,
  which is \<open>None\<close> outside the object; \<open>src\<close> reads \<open>src[i]\<close> from the current state, so that
  overlapping arguments behave as in the code.
\<close>

function strcpy_from ::
  "('s \<Rightarrow> reader) \<Rightarrow> (u32 \<Rightarrow> u8 \<Rightarrow> 's \<Rightarrow> 's option) \<Rightarrow> u32 \<Rightarrow> 's \<Rightarrow> 's option" where
  "strcpy_from src put i st =
     (if src st i \<noteq> 0 then
        case put i (src st i) st of
          None \<Rightarrow> None
        | Some st' \<Rightarrow> if i + 1 = 0 then None else strcpy_from src put (i + 1) st'
      else put i 0 st)"
  by pat_completeness auto
termination
  by (relation "measure (\<lambda>(src, put, i, st). 4294967296 - unat i)") (auto intro: inc_measure)

declare strcpy_from.simps [simp del]

definition strcpy :: "('s \<Rightarrow> reader) \<Rightarrow> (u32 \<Rightarrow> u8 \<Rightarrow> 's \<Rightarrow> 's option) \<Rightarrow> 's \<Rightarrow> 's option" where
  "strcpy src put st = strcpy_from src put 0 st"

function strncpy_copy ::
  "('s \<Rightarrow> reader) \<Rightarrow> (u32 \<Rightarrow> u8 \<Rightarrow> 's \<Rightarrow> 's option) \<Rightarrow> u32 \<Rightarrow> u32 \<Rightarrow> 's \<Rightarrow> (u32 \<times> 's) option" where
  "strncpy_copy src put n i st =
     (if src st i \<noteq> 0 \<and> i < n then
        case put i (src st i) st of
          None \<Rightarrow> None
        | Some st' \<Rightarrow> strncpy_copy src put n (i + 1) st'
      else Some (i, st))"
  by pat_completeness auto
termination
  by (relation "measure (\<lambda>(src, put, n, i, st). unat n - unat i)") (auto intro: inc_measure_less)

function strncpy_pad ::
  "(u32 \<Rightarrow> u8 \<Rightarrow> 's \<Rightarrow> 's option) \<Rightarrow> u32 \<Rightarrow> u32 \<Rightarrow> 's \<Rightarrow> 's option" where
  "strncpy_pad put n i st =
     (if i < n then
        case put i 0 st of
          None \<Rightarrow> None
        | Some st' \<Rightarrow> strncpy_pad put n (i + 1) st'
      else Some st)"
  by pat_completeness auto
termination
  by (relation "measure (\<lambda>(put, n, i, st). unat n - unat i)") (auto intro: inc_measure_less)

declare strncpy_copy.simps [simp del] strncpy_pad.simps [simp del]

definition strncpy ::
  "('s \<Rightarrow> reader) \<Rightarrow> (u32 \<Rightarrow> u8 \<Rightarrow> 's \<Rightarrow> 's option) \<Rightarrow> u32 \<Rightarrow> 's \<Rightarrow> 's option" where
  "strncpy src put n st =
     (case strncpy_copy src put n 0 st of
        None \<Rightarrow> None
      | Some (i, st') \<Rightarrow> strncpy_pad put n i st')"

text \<open>The destination objects of the kernel's calls: memory behind a pointer and a C array.\<close>

definition mem_put :: "u32 \<Rightarrow> u32 \<Rightarrow> u8 \<Rightarrow> mem \<Rightarrow> mem option" where
  "mem_put p i b m = Some (m(p + i := b))"

definition arr_put :: "u32 \<Rightarrow> u8 \<Rightarrow> u8 list \<Rightarrow> u8 list option" where
  "arr_put i b xs = (if unat i < length xs then Some (xs[unat i := b]) else None)"

subsection \<open>Correctness of \<open>strlen\<close> and \<open>strncmp\<close>\<close>

lemma strlen_from_c_string:
  assumes "c_string (shift_reader i s) xs" "unat i + length xs < 2 ^ 32"
  shows "strlen_from s i = Some (i + of_nat (length xs))"
  using assms
proof (induction xs arbitrary: i)
  case Nil
  then show ?case by (simp add: strlen_from.simps [of s i])
next
  case (Cons x xs)
  from Cons.prems(2) have "i + 1 \<noteq> 0" by (intro inc_nonzero_bound) simp
  with Cons.prems have "strlen_from s (i + 1) = Some (i + 1 + of_nat (length xs))"
    by (intro Cons.IH) (auto simp: unat_inc)
  with Cons.prems(1) \<open>i + 1 \<noteq> 0\<close> show ?case
    by (simp add: strlen_from.simps [of s i] add.assoc)
qed

lemma strlen_c_string: "c_string s xs \<Longrightarrow> strlen s = Some (of_nat (length xs))"
  using strlen_from_c_string [of 0 s xs] by (simp add: strlen_def c_string_def)

lemma strlen_from_Some:
  "strlen_from s i = Some n \<Longrightarrow>
    \<exists>xs. c_string (shift_reader i s) xs \<and> n = i + of_nat (length xs) \<and> unat i + length xs < 2 ^ 32"
proof (induction s i rule: strlen_from.induct)
  case (1 s i)
  show ?case
  proof (cases "s i = 0")
    case True
    with 1(2) show ?thesis by (intro exI [of _ "[]"]) (simp add: strlen_from.simps [of s i])
  next
    case False
    with 1(2) have ne: "i + 1 \<noteq> 0" and "strlen_from s (i + 1) = Some n"
      by (auto simp: strlen_from.simps [of s i] split: if_splits)
    with 1(1) False obtain xs where "c_string (shift_reader (i + 1) s) xs"
      "n = i + 1 + of_nat (length xs)" "unat (i + 1) + length xs < 2 ^ 32"
      by blast
    with False ne show ?thesis
      by (intro exI [of _ "s i # xs"]) (simp add: unat_inc)
  qed
qed

lemma strlen_Some_iff: "strlen s = Some n \<longleftrightarrow> (\<exists>xs. c_string s xs \<and> n = of_nat (length xs))"
  using strlen_from_Some [of s 0 n] strlen_c_string by (auto simp: strlen_def)

lemma strlen_from_None: "strlen_from s i = None \<Longrightarrow> unat i \<le> unat j \<Longrightarrow> s j \<noteq> 0"
proof (induction s i arbitrary: j rule: strlen_from.induct)
  case (1 s i)
  from 1(2) have i: "s i \<noteq> 0" "i + 1 = 0 \<or> strlen_from s (i + 1) = None"
    by (auto simp: strlen_from.simps [of s i] split: if_splits)
  show ?case
  proof (cases "j = i")
    case True
    with i show ?thesis by simp
  next
    case False
    with 1(3) have "i < j" by (simp add: word_less_nat_alt nat_less_le word_unat_eq_iff)
    then have "i + 1 \<noteq> 0" "unat (i + 1) \<le> unat j"
      by (auto simp: inc_nonzero unat_inc_less word_less_nat_alt)
    with 1(1) i show ?thesis by blast
  qed
qed

lemma strncmp_from_0_iff:
  assumes "c_string (shift_reader i s1) xs" "c_string (shift_reader i s2) ys" "i \<le> n"
  shows "strncmp_from s1 s2 n i = 0 \<longleftrightarrow> take (unat n - unat i) xs = take (unat n - unat i) ys"
  using assms
proof (induction s1 s2 n i arbitrary: xs ys rule: strncmp_from.induct)
  case (1 s1 s2 n i)
  show ?case
  proof (cases "i < n")
    case False
    with 1(4) have "i = n" by simp
    then show ?thesis by (simp add: strncmp_from.simps [of s1 s2 n])
  next
    case True
    then obtain k where k: "unat n - unat i = Suc k" "unat n - unat (i + 1) = k"
      by (metis Suc_diff_Suc unat_inc_less word_less_nat_alt)
    have le: "i + 1 \<le> n"
      using True by (simp add: word_le_nat_alt word_less_nat_alt unat_inc_less)
    show ?thesis
    proof (cases "s1 i \<noteq> s2 i \<or> s1 i = 0")
      case stop: True
      then have "strncmp_from s1 s2 n i = sext8 (s1 i) - sext8 (s2 i)"
        using True by (simp add: strncmp_from.simps [of s1 s2 n i])
      then have "strncmp_from s1 s2 n i = 0 \<longleftrightarrow> s1 i = s2 i" by simp
      moreover have "take (Suc k) xs = take (Suc k) ys \<longleftrightarrow> s1 i = s2 i"
        using 1(2,3) stop by (cases xs; cases ys) auto
      ultimately show ?thesis unfolding k by simp
    next
      case False
      then have "strncmp_from s1 s2 n i = strncmp_from s1 s2 n (i + 1)"
        using True by (simp add: strncmp_from.simps [of s1 s2 n i])
      moreover obtain xs' where eq1: "xs = s1 i # xs'" and tl1: "c_string (shift_reader (i + 1) s1) xs'"
        using c_string_more [OF 1(2)] False by blast
      moreover obtain ys' where eq2: "ys = s2 i # ys'" and tl2: "c_string (shift_reader (i + 1) s2) ys'"
        using c_string_more [OF 1(3)] False by metis
      moreover have "strncmp_from s1 s2 n (i + 1) = 0 \<longleftrightarrow> take k xs' = take k ys'"
        using 1(1) [OF True False tl1 tl2 le] unfolding k .
      ultimately show ?thesis
        using False by (simp add: eq1 eq2 k)
    qed
  qed
qed

lemma c_string_range: "c_string s xs \<Longrightarrow> 0 \<in> range s"
  unfolding c_string_def by (metis rangeI)

text \<open>[C37] \<open>strlen\<close>: it returns \<open>n\<close> exactly when the bytes at \<open>s\<close> are a NUL-terminated string of
  length \<open>n\<close>; when no byte of the address space is NUL it does not return.\<close>

theorem strlen_correct:
  "(strlen s = Some n \<longleftrightarrow> (\<exists>xs. c_string s xs \<and> n = of_nat (length xs)))
   \<and> (strlen s = None \<longleftrightarrow> 0 \<notin> range s)"
proof -
  have "strlen s = None \<Longrightarrow> 0 \<notin> range s"
    using strlen_from_None [of s 0] by (auto simp: strlen_def image_iff)
  moreover have "strlen s = Some k \<Longrightarrow> 0 \<in> range s" for k
    by (auto simp: strlen_Some_iff intro: c_string_range)
  ultimately have "strlen s = None \<longleftrightarrow> 0 \<notin> range s"
    by (cases "strlen s") auto
  then show ?thesis by (simp add: strlen_Some_iff)
qed

text \<open>\<open>strncmp(s1, s2, n)\<close> returns 0 exactly when the two strings agree on their first \<open>n\<close>
  characters, the terminating NUL counting as the end of the string.\<close>

theorem strncmp_zero_iff:
  assumes "c_string s1 xs" "c_string s2 ys"
  shows "strncmp s1 s2 n = 0 \<longleftrightarrow> take (unat n) xs = take (unat n) ys"
  using strncmp_from_0_iff [of 0 s1 xs s2 ys n] assms by (simp add: strncmp_def)

theorem strncmp_zero_iff_witness:
  "strncmp (arr_reader (\<lambda>_. 0) [65, 66, 0]) (arr_reader (\<lambda>_. 0) [65, 67, 0]) 1 = 0
   \<and> strncmp (arr_reader (\<lambda>_. 0) [65, 66, 0]) (arr_reader (\<lambda>_. 0) [65, 67, 0]) 2 \<noteq> 0"
proof -
  have "c_string (arr_reader (\<lambda>_. 0) [65, 66, 0]) [65, 66]"
    "c_string (arr_reader (\<lambda>_. 0) [65, 67, 0]) [65, 67]"
    by (auto simp: c_string_def arr_reader_def less_Suc_eq)
  from strncmp_zero_iff [OF this] show ?thesis by simp
qed

subsection \<open>Copying into an object\<close>

text \<open>
  What \<open>strncpy\<close> relies on of its destination: inside the object a byte store succeeds, later
  reads see it, and the rest of the state (\<open>rest\<close>) stays as it was.
\<close>

locale byte_object =
  fixes get :: "'s \<Rightarrow> reader"
    and put :: "u32 \<Rightarrow> u8 \<Rightarrow> 's \<Rightarrow> 's option"
    and size :: nat
    and good :: "'s \<Rightarrow> bool"
    and rest :: "'s \<Rightarrow> 'r"
  assumes put_inside: "good st \<Longrightarrow> unat i < size \<Longrightarrow>
      \<exists>st'. put i b st = Some st' \<and> good st' \<and> rest st' = rest st"
    and get_put: "good st \<Longrightarrow> unat i < size \<Longrightarrow> put i b st = Some st' \<Longrightarrow> unat j < size \<Longrightarrow>
      get st' j = (if j = i then b else get st j)"
begin

lemma putE:
  assumes "good st" "unat i < size"
  obtains st' where "put i b st = Some st'" "good st'" "rest st' = rest st"
    "\<And>j. unat j < size \<Longrightarrow> get st' j = (if j = i then b else get st j)"
  using put_inside [OF assms, of b] get_put [OF assms] by blast

lemma strncpy_copy_object:
  assumes "good st" "unat n \<le> size" "i \<le> n"
  shows "\<exists>k st'. strncpy_copy (\<lambda>_. s) put n i st = Some (k, st') \<and> good st' \<and> rest st' = rest st \<and>
    i \<le> k \<and> k \<le> n \<and> (\<forall>j. i \<le> j \<and> j < k \<longrightarrow> s j \<noteq> 0) \<and> (k < n \<longrightarrow> s k = 0) \<and>
    (\<forall>j. unat j < size \<longrightarrow> get st' j = (if i \<le> j \<and> j < k then s j else get st j))"
  using assms
proof (induction "unat n - unat i" arbitrary: i st rule: less_induct)
  case less
  show ?case
  proof (cases "s i \<noteq> 0 \<and> i < n")
    case False
    then show ?thesis using less.prems
      by (intro exI [of _ i] exI [of _ st]) (auto simp: strncpy_copy.simps [of _ _ n i st])
  next
    case True
    then have i: "unat i < size" using less.prems(2) by (simp add: word_less_nat_alt)
    obtain st1 where st1: "put i (s i) st = Some st1" "good st1" "rest st1 = rest st"
      "\<And>j. unat j < size \<Longrightarrow> get st1 j = (if j = i then s i else get st j)"
      using putE [OF less.prems(1) i] by blast
    have le: "i + 1 \<le> n" and dec: "unat n - unat (i + 1) < unat n - unat i"
      using True inc_le_iff inc_measure_less by auto
    obtain k st' where
      k: "strncpy_copy (\<lambda>_. s) put n (i + 1) st1 = Some (k, st')" "good st'" "rest st' = rest st1"
      "i + 1 \<le> k" "k \<le> n" "\<forall>j. i + 1 \<le> j \<and> j < k \<longrightarrow> s j \<noteq> 0" "k < n \<longrightarrow> s k = 0"
      "\<forall>j. unat j < size \<longrightarrow> get st' j = (if i + 1 \<le> j \<and> j < k then s j else get st1 j)"
      using less.hyps [OF dec st1(2) less.prems(2) le] by blast
    have ge: "i + 1 \<le> j \<longleftrightarrow> i \<le> j \<and> j \<noteq> i" for j
      using True inc_le_iff by auto
    have "i \<le> k" "i < k" using k(4) ge [of k] by auto
    moreover have "strncpy_copy (\<lambda>_. s) put n i st = Some (k, st')"
      using True st1(1) k(1) by (simp add: strncpy_copy.simps [of _ _ n i st])
    moreover have "\<forall>j. i \<le> j \<and> j < k \<longrightarrow> s j \<noteq> 0"
      using k(6) True ge by metis
    moreover have "\<forall>j. unat j < size \<longrightarrow> get st' j = (if i \<le> j \<and> j < k then s j else get st j)"
      using k(8) st1(4) ge \<open>i < k\<close> by auto
    ultimately show ?thesis using k(2,3,5,7) st1(3) by metis
  qed
qed

lemma strncpy_pad_object:
  assumes "good st" "unat n \<le> size" "i \<le> n"
  shows "\<exists>st'. strncpy_pad put n i st = Some st' \<and> good st' \<and> rest st' = rest st \<and>
    (\<forall>j. unat j < size \<longrightarrow> get st' j = (if i \<le> j \<and> j < n then 0 else get st j))"
  using assms
proof (induction "unat n - unat i" arbitrary: i st rule: less_induct)
  case less
  show ?case
  proof (cases "i < n")
    case False
    then have "strncpy_pad put n i st = Some st" "\<And>j. \<not> (i \<le> j \<and> j < n)"
      by (simp add: strncpy_pad.simps [of _ n i st]) (meson False le_less_trans)
    then show ?thesis using less.prems by auto
  next
    case True
    then have i: "unat i < size" using less.prems(2) by (simp add: word_less_nat_alt)
    obtain st1 where st1: "put i 0 st = Some st1" "good st1" "rest st1 = rest st"
      "\<And>j. unat j < size \<Longrightarrow> get st1 j = (if j = i then 0 else get st j)"
      using putE [OF less.prems(1) i] by blast
    have le: "i + 1 \<le> n" and dec: "unat n - unat (i + 1) < unat n - unat i"
      using True inc_le_iff inc_measure_less by auto
    obtain st' where st': "strncpy_pad put n (i + 1) st1 = Some st'" "good st'" "rest st' = rest st1"
      "\<forall>j. unat j < size \<longrightarrow> get st' j = (if i + 1 \<le> j \<and> j < n then 0 else get st1 j)"
      using less.hyps [OF dec st1(2) less.prems(2) le] by blast
    have ge: "i + 1 \<le> j \<longleftrightarrow> i \<le> j \<and> j \<noteq> i" for j
      using True inc_le_iff by auto
    have "strncpy_pad put n i st = Some st'"
      using True st1(1) st'(1) by (simp add: strncpy_pad.simps [of _ n i st])
    moreover have "\<forall>j. unat j < size \<longrightarrow> get st' j = (if i \<le> j \<and> j < n then 0 else get st j)"
      using st'(4) st1(4) ge True by auto
    ultimately show ?thesis using st'(2,3) st1(3) by metis
  qed
qed

text \<open>
  \<open>strncpy\<close> into an object of at least \<open>n\<close> bytes: the source up to its first NUL, then NULs up
  to \<open>n\<close> bytes, nothing behind them. A source of \<open>n\<close> or more characters leaves no NUL.
\<close>

lemma strncpy_object:
  assumes "good st" "unat n \<le> size"
  shows "\<exists>st'. strncpy (\<lambda>_. s) put n st = Some st' \<and> good st' \<and> rest st' = rest st \<and>
    (\<forall>j. unat j < size \<longrightarrow> get st' j =
      (if j < n then (if \<forall>k \<le> j. s k \<noteq> 0 then s j else 0) else get st j))"
proof -
  obtain k st1 where k: "strncpy_copy (\<lambda>_. s) put n 0 st = Some (k, st1)" "good st1" "rest st1 = rest st"
    "k \<le> n" "\<forall>j. j < k \<longrightarrow> s j \<noteq> 0" "k < n \<longrightarrow> s k = 0"
    "\<forall>j. unat j < size \<longrightarrow> get st1 j = (if j < k then s j else get st j)"
    using strncpy_copy_object [OF assms, of 0 s] by auto
  obtain st2 where st2: "strncpy_pad put n k st1 = Some st2" "good st2" "rest st2 = rest st1"
    "\<forall>j. unat j < size \<longrightarrow> get st2 j = (if k \<le> j \<and> j < n then 0 else get st1 j)"
    using strncpy_pad_object [OF k(2) assms(2) k(4)] by blast
  have nul: "(\<forall>i \<le> j. s i \<noteq> 0) \<longleftrightarrow> j < k" if "j < n" for j
  proof
    assume nz: "\<forall>i \<le> j. s i \<noteq> 0"
    show "j < k"
    proof (rule ccontr)
      assume "\<not> j < k"
      then have "k \<le> j" "k < n" using that by (auto simp: not_less)
      with k(6) nz show False by blast
    qed
  next
    assume "j < k"
    then show "\<forall>i \<le> j. s i \<noteq> 0" using k(5) le_less_trans by blast
  qed
  have "get st2 j = (if j < n then (if \<forall>i \<le> j. s i \<noteq> 0 then s j else 0) else get st j)"
    if "unat j < size" for j
  proof (cases "j < n")
    case True
    note this [THEN nul]
    with k(7) st2(4) that True show ?thesis by (cases "j < k") auto
  next
    case False
    with k(4) have "\<not> j < k" by (meson less_le_trans)
    with k(7) st2(4) that False show ?thesis by simp
  qed
  moreover have "strncpy (\<lambda>_. s) put n st = Some st2"
    using k(1) st2(1) by (simp add: strncpy_def)
  ultimately show ?thesis using k(3) st2(2,3) by metis
qed

end

interpretation mem_object:
  byte_object "\<lambda>m. at_ptr m p" "mem_put p" "2 ^ 32" "\<lambda>_. True" "\<lambda>_. ()" for p
  by unfold_locales (auto simp: mem_put_def at_ptr_def)

interpretation arr_object:
  byte_object "\<lambda>xs. arr_reader junk xs" arr_put n "\<lambda>xs. length xs = n" "\<lambda>_. ()" for junk n
  by unfold_locales (auto simp: arr_put_def arr_reader_def nth_list_update word_unat_eq_iff)

text \<open>\<open>strncpy(dest, src, n)\<close> into memory: it always returns, the first \<open>n\<close> bytes of the
  destination are the source up to its first NUL padded with NULs, and no byte outside them
  changes. A source of at least \<open>n\<close> characters is cut off without a terminator.\<close>

theorem strncpy_to_memory:
  "\<exists>m'. strncpy (\<lambda>_. s) (mem_put dest) n m = Some m' \<and>
    (\<forall>j. m' (dest + j) =
      (if j < n then (if \<forall>k \<le> j. s k \<noteq> 0 then s j else 0) else m (dest + j)))"
  using mem_object.strncpy_object [where st = m and n = n and s = s and p = dest]
  unfolding at_ptr_def by simp

theorem strncpy_to_memory_witness:
  "\<exists>m'. strncpy (\<lambda>_. (\<lambda>_. 0)(0 := 65, 1 := 66)) (mem_put 0x1000) 4 (\<lambda>_. 7) = Some m' \<and>
    m' 0x1000 = 65 \<and> m' 0x1003 = 0 \<and> m' 0x1004 = 7"
proof -
  obtain m' where m': "strncpy (\<lambda>_. (\<lambda>_. 0)(0 := 65, 1 := 66)) (mem_put 0x1000) 4 (\<lambda>_. 7) = Some m'"
    "\<And>j. m' (0x1000 + j) = (if j < 4 then (if \<forall>k \<le> j. ((\<lambda>_. 0)(0 := 65, 1 := 66)) k \<noteq> (0 :: u8)
        then ((\<lambda>_. 0)(0 := 65, 1 := 66)) j else 0) else 7)"
    using strncpy_to_memory [of "(\<lambda>_. 0)(0 := 65, 1 := 66)" "0x1000" 4 "\<lambda>_. 7"] by blast
  then show ?thesis using m'(2) [of 0] m'(2) [of 3] m'(2) [of 4]
    by (auto intro!: exI [of _ m'])
qed

subsection \<open>Numbers as strings: \<open>itoa\<close> and \<open>strrev\<close>\<close>

text \<open>The digit table with its terminating NUL.\<close>

definition itoa_lookup :: "u8 list" where
  "itoa_lookup = chars ''0123456789ABCDEFGHIJKLMNOPQRSTUVWXYZ'' @ [0]"

text \<open>
  The digit loop. A radix of 0 traps in the division and a radix of 1 makes no progress; a
  remainder of 37 or more leaves the table.
\<close>

function itoa_loop :: "mem \<Rightarrow> u32 \<Rightarrow> u32 \<Rightarrow> i32 \<Rightarrow> (mem \<times> u32) option" where
  "itoa_loop m newbuf newval radix =
     (if newval = 0 then Some (m, newbuf)
      else if radix = 0 \<or> radix = 1 then None
      else let i = newval mod radix in
        if unat i < length itoa_lookup
        then itoa_loop (m(newbuf := itoa_lookup ! unat i)) (newbuf + 1) (newval div radix) radix
        else None)"
  by pat_completeness auto

lemma div_radix_less:
  fixes v r :: u32
  assumes "v \<noteq> 0" "r \<noteq> 0" "r \<noteq> 1"
  shows "unat (v div r) < unat v"
proof -
  have "unat v \<noteq> 0" "unat r \<noteq> 0" "unat r \<noteq> unat (1 :: u32)"
    using assms by (simp_all only: unat_eq_0 word_unat_eq_iff [symmetric] not_False_eq_True)
  then have "0 < unat v" "1 < unat r" by simp_all
  then show ?thesis by (simp add: unat_div)
qed

termination itoa_loop
  by (relation "measure (\<lambda>(m, newbuf, newval, radix). unat newval)") (auto intro: div_radix_less)

declare itoa_loop.simps [simp del]

text \<open>\<open>beg\<close> and \<open>end\<close> are 32-bit signed counters that stay between \<open>-1\<close> and the length.\<close>

function strrev_loop :: "mem \<Rightarrow> u32 \<Rightarrow> int \<Rightarrow> int \<Rightarrow> mem" where
  "strrev_loop m s beg end' =
     (if beg < end' then
        let tmp = m (s + word_of_int end') in
        strrev_loop
          (m(s + word_of_int end' := m (s + word_of_int beg), s + word_of_int beg := tmp))
          s (beg + 1) (end' - 1)
      else m)"
  by pat_completeness auto
termination
  by (relation "measure (\<lambda>(m, s, beg, end'). nat (end' - beg))") auto

declare strrev_loop.simps [simp del]

definition strrev :: "mem \<Rightarrow> u32 \<Rightarrow> mem option" where
  "strrev m s =
     (case strlen (at_ptr m s) of
        None \<Rightarrow> None
      | Some len \<Rightarrow> Some (strrev_loop m s 0 (sint (len - 1))))"

definition itoa :: "mem \<Rightarrow> u32 \<Rightarrow> u32 \<Rightarrow> i32 \<Rightarrow> mem option" where
  "itoa m v buf radix =
     (if v = 0 then Some (m(buf := chr8 (CHR ''0''), buf + 1 := 0))
      else case itoa_loop m buf v radix of
             None \<Rightarrow> None
           | Some (m1, newbuf) \<Rightarrow> strrev (m1(newbuf := 0)) buf)"

subsection \<open>Byte lists in memory\<close>

definition write_list :: "mem \<Rightarrow> u32 \<Rightarrow> u8 list \<Rightarrow> mem" where
  "write_list m p xs = (\<lambda>x. if in_region p (length xs) x then xs ! unat (x - p) else m x)"

lemma write_list_Nil [simp]: "write_list m p [] = m"
  by (simp add: write_list_def)

lemma write_list_at:
  "i < length xs \<Longrightarrow> length xs \<le> 2 ^ 32 \<Longrightarrow> write_list m p xs (p + of_nat i) = xs ! i"
  by (simp add: write_list_def in_region_def)

lemma write_list_update:
  assumes "i < length xs" "length xs \<le> 2 ^ 32"
  shows "(write_list m p xs)(p + of_nat i := b) = write_list m p (xs[i := b])"
proof (rule ext)
  fix x
  have "x = p + of_nat i \<longleftrightarrow> unat (x - p) = i"
  proof
    assume "x = p + of_nat i"
    then show "unat (x - p) = i" using assms by simp
  next
    assume "unat (x - p) = i"
    then have "of_nat i = x - p" by auto
    then show "x = p + of_nat i" by simp
  qed
  then show "((write_list m p xs)(p + of_nat i := b)) x = write_list m p (xs[i := b]) x"
    using assms by (auto simp: write_list_def in_region_def nth_list_update)
qed

lemma write_list_snoc:
  assumes "length xs < 2 ^ 32"
  shows "(write_list m p xs)(p + of_nat (length xs) := b) = write_list m p (xs @ [b])"
proof (rule ext)
  fix x
  have split: "in_region p (length xs + 1) x \<longleftrightarrow> in_region p (length xs) x \<or> x = p + of_nat (length xs)"
    using assms by (subst in_region_split) (auto simp: in_region_1)
  show "((write_list m p xs)(p + of_nat (length xs) := b)) x = write_list m p (xs @ [b]) x"
    using assms split by (auto simp: write_list_def in_region_def nth_append)
qed

lemma write_list_outside: "\<not> in_region p (length xs) x \<Longrightarrow> write_list m p xs x = m x"
  by (simp add: write_list_def)

lemma c_string_write_list:
  assumes "length xs < 2 ^ 32" "0 \<notin> set xs"
  shows "c_string (at_ptr (write_list m p (xs @ [0])) p) xs"
  unfolding c_string_def at_ptr_def
  using assms write_list_at [of _ "xs @ [0]" m p]
  by (auto simp: nth_append simp del: of_nat_add)

text \<open>The swapping loop mirrors the index range from \<open>b\<close> to \<open>e\<close>.\<close>

definition mirror :: "nat \<Rightarrow> nat \<Rightarrow> 'a list \<Rightarrow> 'a list" where
  "mirror b e xs = map (\<lambda>i. if b \<le> i \<and> i \<le> e then xs ! (b + e - i) else xs ! i) [0..<length xs]"

lemma length_mirror [simp]: "length (mirror b e xs) = length xs"
  by (simp add: mirror_def)

lemma mirror_swap:
  assumes "b < e" "e < length xs"
  shows "mirror (b + 1) (e - 1) (xs[e := xs ! b, b := xs ! e]) = mirror b e xs"
  using assms by (intro nth_equalityI) (auto simp: mirror_def nth_list_update)

lemma mirror_trivial:
  assumes "e \<le> b"
  shows "mirror b e xs = xs"
proof -
  have "b + e - i = i" if "b \<le> i" "i \<le> e" for i using assms that by linarith
  then show ?thesis by (intro nth_equalityI) (auto simp: mirror_def)
qed

lemma mirror_rev: "xs \<noteq> [] \<Longrightarrow> mirror 0 (length xs - 1) xs = rev xs"
  by (intro nth_equalityI) (auto simp: mirror_def rev_nth)

lemma strrev_loop_mirror:
  assumes "e < length xs" "length ys \<le> 2 ^ 32" "length xs \<le> length ys" "ys = xs @ zs"
  shows "strrev_loop (write_list m p ys) p (int b) (int e) = write_list m p (mirror b e xs @ zs)"
  using assms
proof (induction "e - b" arbitrary: b e xs ys rule: less_induct)
  case less
  show ?case
  proof (cases "b < e")
    case False
    then show ?thesis
      using less.prems by (simp add: strrev_loop.simps [of _ _ "int b" "int e"] mirror_trivial)
  next
    case True
    let ?xs = "xs[e := xs ! b, b := xs ! e]"
    have "strrev_loop (write_list m p ys) p (int b) (int e) =
        strrev_loop (write_list m p (?xs @ zs)) p (int b + 1) (int e - 1)"
      using True less.prems
      by (simp add: strrev_loop.simps [of _ _ "int b" "int e"] Let_def write_list_at
          write_list_update list_update_append nth_append)
    also have "\<dots> = strrev_loop (write_list m p (?xs @ zs)) p (int (b + 1)) (int (e - 1))"
      using True by (simp add: of_nat_diff add.commute)
    also have "\<dots> = write_list m p (mirror (b + 1) (e - 1) ?xs @ zs)"
      using True less.prems by (intro less.hyps) auto
    finally show ?thesis using mirror_swap [OF True less.prems(1)] by simp
  qed
qed

lemma strrev_reverses:
  assumes "0 \<notin> set xs" "length xs < 2 ^ 31"
  shows "strrev (write_list m p (xs @ [0])) p = Some (write_list m p (rev xs @ [0]))"
proof -
  have len: "strlen (at_ptr (write_list m p (xs @ [0])) p) = Some (of_nat (length xs))"
    using assms by (intro strlen_c_string c_string_write_list) auto
  show ?thesis
  proof (cases "xs = []")
    case True
    then show ?thesis
      using len by (simp add: strrev_def strrev_loop.simps)
  next
    case False
    have "of_nat (length xs) - 1 = (of_nat (length xs - 1) :: u32)"
      using False by (cases xs) simp_all
    moreover have "sint (of_nat (length xs - 1) :: u32) = int (length xs - 1)"
      using assms by (intro sint_of_nat_u32) linarith
    ultimately have "sint (of_nat (length xs) - 1 :: u32) = int (length xs - 1)"
      by simp
    then show ?thesis
      using len False assms mirror_rev [OF False]
        strrev_loop_mirror [of "length xs - 1" xs "xs @ [0]" "[0]" m p 0]
      by (simp add: strrev_def)
  qed
qed


subsection \<open>Conversion of integers to text\<close>

text \<open>The digits of a number, least significant first, and the number a digit string denotes.\<close>

fun digits_of :: "nat \<Rightarrow> nat \<Rightarrow> u8 list" where
  "digits_of r n = (if n = 0 \<or> r < 2 then [] else itoa_lookup ! (n mod r) # digits_of r (n div r))"

declare digits_of.simps [simp del]

definition digit_value :: "u8 \<Rightarrow> nat" where
  "digit_value c = length (takeWhile (\<lambda>d. d \<noteq> c) itoa_lookup)"

definition parse_digits :: "nat \<Rightarrow> u8 list \<Rightarrow> nat" where
  "parse_digits r cs = foldl (\<lambda>a c. a * r + digit_value c) 0 cs"

lemma length_itoa_lookup [simp]: "length itoa_lookup = 37"
  by (simp add: itoa_lookup_def chars_def)

lemma itoa_lookup_nonzero: "i < 36 \<Longrightarrow> itoa_lookup ! i \<noteq> 0"
proof -
  have "\<forall>i < 36. itoa_lookup ! i \<noteq> 0"
    by code_simp
  then show "i < 36 \<Longrightarrow> itoa_lookup ! i \<noteq> 0" by blast
qed

lemma digit_value_lookup: "i < 36 \<Longrightarrow> digit_value (itoa_lookup ! i) = i"
proof -
  have "\<forall>i < 36. digit_value (itoa_lookup ! i) = i"
    by code_simp
  then show "i < 36 \<Longrightarrow> digit_value (itoa_lookup ! i) = i" by blast
qed

lemma length_digits_of: "n < 2 ^ k \<Longrightarrow> length (digits_of r n) \<le> k"
proof (induction k arbitrary: n)
  case 0
  then show ?case by (simp add: digits_of.simps [of r 0])
next
  case (Suc k)
  show ?case
  proof (cases "n = 0 \<or> r < 2")
    case True
    then show ?thesis by (simp add: digits_of.simps [of r n])
  next
    case False
    then have "n div r \<le> n div 2" by (intro div_le_mono2) auto
    then have "n div r < 2 ^ k" using Suc.prems by simp
    then show ?thesis using Suc.IH False by (simp add: digits_of.simps [of r n])
  qed
qed

lemma digits_of_nonzero: "r \<le> 36 \<Longrightarrow> 0 \<notin> set (digits_of r n)"
proof (induction r n rule: digits_of.induct)
  case (1 r n)
  have "itoa_lookup ! (n mod r) \<noteq> 0" if "\<not> r < 2"
    using that 1(2) mod_less_divisor [of r n] by (intro itoa_lookup_nonzero) linarith
  then show ?case using 1 by (subst digits_of.simps) (auto dest: sym)
qed

lemma parse_digits_of: "2 \<le> r \<Longrightarrow> r \<le> 36 \<Longrightarrow> parse_digits r (rev (digits_of r n)) = n"
proof (induction r n rule: digits_of.induct)
  case (1 r n)
  have "n mod r < 36" using 1(2,3) mod_less_divisor [of r n] by linarith
  then show ?case
    using 1 by (subst digits_of.simps) (auto simp: parse_digits_def digit_value_lookup)
qed

lemma digits_of_empty: "2 \<le> r \<Longrightarrow> digits_of r n = [] \<longleftrightarrow> n = 0"
  by (subst digits_of.simps) auto

lemma itoa_loop_digits:
  assumes "2 \<le> unat radix" "unat radix \<le> 36" "length pre + length (digits_of (unat radix) (unat v)) < 2 ^ 32"
  shows "itoa_loop (write_list m p pre) (p + of_nat (length pre)) v radix =
    Some (write_list m p (pre @ digits_of (unat radix) (unat v)),
          p + of_nat (length (pre @ digits_of (unat radix) (unat v))))"
  using assms
proof (induction "unat v" arbitrary: v pre rule: less_induct)
  case less
  have radix: "radix \<noteq> 0" "radix \<noteq> 1" using less.prems(1) by auto
  show ?case
  proof (cases "v = 0")
    case True
    then show ?thesis by (simp add: itoa_loop.simps [of _ _ 0] digits_of.simps [of _ 0])
  next
    case False
    have ds: "digits_of (unat radix) (unat v) = itoa_lookup ! unat (v mod radix) #
        digits_of (unat radix) (unat (v div radix))"
      using False less.prems(1)
      by (subst digits_of.simps) (simp add: unat_eq_0 unat_mod unat_div)
    have "unat (v mod radix) < unat radix"
      using less.prems(1) by (simp add: unat_mod)
    then have small: "unat (v mod radix) < 37" using less.prems(2) by linarith
    have "length pre < 2 ^ 32" using less.prems(3) by simp
    then have "itoa_loop (write_list m p pre) (p + of_nat (length pre)) v radix =
        itoa_loop (write_list m p (pre @ [itoa_lookup ! unat (v mod radix)]))
          (p + of_nat (length (pre @ [itoa_lookup ! unat (v mod radix)]))) (v div radix) radix"
      using False radix small
      by (simp add: itoa_loop.simps [of _ _ v] Let_def write_list_snoc add_ac)
    then show ?thesis
      using less.hyps [OF div_radix_less [OF False radix] less.prems(1,2),
          of "pre @ [itoa_lookup ! unat (v mod radix)]"] less.prems(3)
      by (simp add: ds)
  qed
qed

lemma itoa_nonzero:
  assumes "2 \<le> unat radix" "unat radix \<le> 36" "v \<noteq> 0"
  shows "itoa m v buf radix =
    Some (write_list m buf (rev (digits_of (unat radix) (unat v)) @ [0]))"
proof -
  let ?ds = "digits_of (unat radix) (unat v)"
  have len: "length ?ds \<le> 32" by (rule length_digits_of) simp
  have "itoa_loop m buf v radix = Some (write_list m buf ?ds, buf + of_nat (length ?ds))"
    using itoa_loop_digits [of radix "[]" v m buf] assms len by simp
  moreover have "(write_list m buf ?ds)(buf + of_nat (length ?ds) := 0) = write_list m buf (?ds @ [0])"
    using le_less_trans [OF len] by (intro write_list_snoc) simp
  moreover have "strrev (write_list m buf (?ds @ [0])) buf = Some (write_list m buf (rev ?ds @ [0]))"
    using le_less_trans [OF len] by (intro strrev_reverses) (simp_all add: digits_of_nonzero assms)
  ultimately show ?thesis using assms(3) by (simp add: itoa_def)
qed

lemma itoa_zero: "itoa m 0 buf radix = Some (write_list m buf (chars ''0'' @ [0]))"
  using write_list_snoc [of "[]" m buf 48] write_list_snoc [of "[48]" m buf 0]
  by (simp add: itoa_def chars_def)

text \<open>[C32]
  \<open>itoa\<close> with a radix from 2 to 36 always returns, writes a C string of at most 32 digits that
  reads back as the number, and touches no byte outside the 33 bytes from \<open>buf\<close> on.
\<close>

theorem itoa_roundtrip:
  assumes "2 \<le> unat radix" "unat radix \<le> 36"
  shows "\<exists>m' cs. itoa m v buf radix = Some m' \<and> c_string (at_ptr m' buf) cs \<and>
    parse_digits (unat radix) cs = unat v \<and> 1 \<le> length cs \<and> length cs \<le> 32 \<and>
    (\<forall>x. \<not> in_region buf 33 x \<longrightarrow> m' x = m x)"
proof -
  define cs where
    "cs = (if v = 0 then chars ''0'' else rev (digits_of (unat radix) (unat v)))"
  have "itoa m v buf radix = Some (write_list m buf (cs @ [0]))"
    using itoa_zero itoa_nonzero assms by (simp add: cs_def)
  moreover have len: "length cs \<le> 32" unfolding cs_def
    using length_digits_of [of "unat v" 32 "unat radix"] by (simp add: chars_def)
  moreover have "0 \<notin> set cs"
    using digits_of_nonzero assms(2) by (simp add: cs_def chars_def)
  then have "c_string (at_ptr (write_list m buf (cs @ [0])) buf) cs"
    using len by (intro c_string_write_list) simp_all
  moreover have "parse_digits (unat radix) cs = unat v"
    using parse_digits_of [OF assms] digit_value_lookup [of 0]
    by (simp add: cs_def parse_digits_def chars_def itoa_lookup_def)
  moreover have "1 \<le> length cs"
    using digits_of_empty [OF assms(1), of "unat v"]
    by (simp add: cs_def chars_def unat_eq_0 Suc_le_eq)
  moreover have "write_list m buf (cs @ [0]) x = m x" if "\<not> in_region buf 33 x" for x
    using that len by (intro write_list_outside) (auto dest: in_region_mono)
  ultimately show ?thesis by blast
qed

lemma itoa_roundtrip_witness:
  "2 \<le> unat (16 :: u32) \<and> unat (16 :: u32) \<le> 36 \<and>
   (\<exists>m' cs. itoa (\<lambda>_. 7) 0xBEEF 0x1000 16 = Some m' \<and> c_string (at_ptr m' 0x1000) cs \<and>
    parse_digits 16 cs = 0xBEEF \<and> 1 \<le> length cs \<and> length cs \<le> 32 \<and>
    (\<forall>x. \<not> in_region 0x1000 33 x \<longrightarrow> m' x = 7))"
  using itoa_roundtrip [where radix = 16 and m = "\<lambda>_. 7" and v = "0xBEEF" and buf = "0x1000"] by simp

end
