(* ===== verification/FileSystem.thy ===== *)
theory FileSystem imports LibMem LibString begin

text \<open>
  The read-only file system of \<open>filesystem.c\<close>: directory entries, inodes and data blocks of an
  image that the boot loader has put into memory.

  The image is read from the flat memory; a \<open>dentry_t\<close> is a record, and \<open>dentry_bytes\<close> is its
  layout in memory, so that a store through \<open>dentry->fname[i]\<close> with \<open>i\<close> outside the name array
  lands in the field that lies there. The globals of the file are the record \<open>fs_state\<close>.
  Pointer arguments that the code compares with \<open>NULL\<close> are options or addresses.
\<close>

subsection \<open>Directory entries and their layout\<close>

record dentry =
  fname :: "u8 list"
  file_type :: u32
  inode_num :: u32
  reserved :: "u32 list"

definition wf_dentry :: "dentry \<Rightarrow> bool" where
  "wf_dentry d \<longleftrightarrow> length (fname d) = 32 \<and> length (reserved d) = 6"

definition word_bytes :: "u32 \<Rightarrow> u8 list" where
  "word_bytes w = [byte_of 0 w, byte_of 1 w, byte_of 2 w, byte_of 3 w]"

definition bytes_word :: "u8 list \<Rightarrow> nat \<Rightarrow> u32" where
  "bytes_word bs k = load32 (arr_reader (\<lambda>_. 0) bs) (of_nat k)"

definition dentry_bytes :: "dentry \<Rightarrow> u8 list" where
  "dentry_bytes d = fname d @ word_bytes (file_type d) @ word_bytes (inode_num d)
     @ concat (map word_bytes (reserved d))"

definition dentry_of_bytes :: "u8 list \<Rightarrow> dentry" where
  "dentry_of_bytes bs = \<lparr>fname = take 32 bs, file_type = bytes_word bs 32,
     inode_num = bytes_word bs 36, reserved = map (\<lambda>i. bytes_word bs (40 + 4 * i)) [0..<6]\<rparr>"

text \<open>The byte store \<open>dentry->fname[i] = b\<close> and the string that starts at \<open>dentry->fname\<close>.\<close>

definition dentry_put :: "u32 \<Rightarrow> u8 \<Rightarrow> dentry \<Rightarrow> dentry option" where
  "dentry_put i b d = map_option dentry_of_bytes (arr_put i b (dentry_bytes d))"

definition dentry_reader :: "reader \<Rightarrow> dentry \<Rightarrow> reader" where
  "dentry_reader junk d = arr_reader junk (dentry_bytes d)"

subsection \<open>State of the file system\<close>

record fs_state =
  dir_entries :: u32
  num_inodes :: u32
  num_dblocks :: u32
  dentry_a :: dentry
  dentry_b :: dentry
  boot_block_addr :: u32

definition set_mod_start :: "u32 \<Rightarrow> fs_state \<Rightarrow> i32 \<times> fs_state" where
  "set_mod_start mod_start fs = (0, fs\<lparr>boot_block_addr := mod_start\<rparr>)"

abbreviation (input) "FS_BLOCK_SIZE \<equiv> (4096 :: u32)"
abbreviation (input) "ABS_BLK_OFFSET \<equiv> (1024 :: u32)"
abbreviation (input) "MAX_FILE_SIZE \<equiv> (1023 * 4096 :: u32)"
abbreviation (input) "FILE_NAME_SIZE \<equiv> (32 :: u32)"
abbreviation (input) "NUM_INODES \<equiv> (64 :: u32)"
abbreviation (input) "BOOT_BLOCK_DIR_ENTRIES \<equiv> (62 :: u32)"
abbreviation (input) "MAX_FILE_NUM \<equiv> (62 :: nat)"

text \<open>The three counts at the start of the boot block, copied to the globals.\<close>

definition read_counts :: "mem \<Rightarrow> fs_state \<Rightarrow> fs_state" where
  "read_counts m fs = fs\<lparr>dir_entries := load32 m (boot_block_addr fs),
     num_inodes := load32 m (boot_block_addr fs + 4),
     num_dblocks := load32 m (boot_block_addr fs + 8)\<rparr>"

subsection \<open>Directory lookup\<close>

text \<open>The search loop: the index of the first entry whose name is \<open>fname\<close>, or 62.\<close>

function find_dentry :: "mem \<Rightarrow> u32 \<Rightarrow> reader \<Rightarrow> u32 \<Rightarrow> nat \<Rightarrow> nat option" where
  "find_dentry m first_file name name_len j =
     (if j < MAX_FILE_NUM then do {
        len \<leftarrow> strlen (at_ptr m (first_file + of_nat j * 64));
        let fname_length = (if len > FILE_NAME_SIZE then FILE_NAME_SIZE else len);
        if fname_length = name_len \<and>
           strncmp (at_ptr m (first_file + of_nat j * 64)) name name_len = 0
        then Some j
        else find_dentry m first_file name name_len (j + 1)
      } else Some j)"
  by pat_completeness auto
termination
  by (relation "measure (\<lambda>(m, first_file, name, name_len, j). MAX_FILE_NUM - j)") auto

declare find_dentry.simps [simp del]

definition read_dentry_by_name ::
  "mem \<Rightarrow> reader option \<Rightarrow> dentry option \<Rightarrow> fs_state \<Rightarrow> (i32 \<times> dentry option \<times> fs_state) option" where
  "read_dentry_by_name m name dent fs =
     (case dent of
        None \<Rightarrow> Some (-1, dent, fs)
      | Some d \<Rightarrow>
     (case name of
        None \<Rightarrow> Some (-1, dent, fs)
      | Some name \<Rightarrow>
      if boot_block_addr fs = 0 then Some (-1, dent, fs)
      else do {
        let fs = read_counts m fs;
        let first_directory = boot_block_addr fs + 64;
        name_len \<leftarrow> strlen name;
        if strncmp (at_ptr m first_directory) name name_len = 0 then do {
          d \<leftarrow> strncpy (\<lambda>_. name) dentry_put name_len d;
          Some (0, Some (d\<lparr>file_type := 1, inode_num := 0\<rparr>), fs)
        } else do {
          let first_file = first_directory + 64;
          j \<leftarrow> find_dentry m first_file name name_len 0;
          if j = MAX_FILE_NUM then Some (-1, dent, fs)
          else do {
            d \<leftarrow> strncpy (\<lambda>_. name) dentry_put FILE_NAME_SIZE d;
            Some (0, Some (d\<lparr>
              file_type := sext8 (m (32 + first_file + of_nat j * 64)),
              inode_num := sext8 (m (32 + 4 + first_file + of_nat j * 64))\<rparr>), fs)
          }
        }
      }))"

definition read_dentry_by_index ::
  "mem \<Rightarrow> u32 \<Rightarrow> dentry option \<Rightarrow> fs_state \<Rightarrow> (i32 \<times> dentry option \<times> fs_state) option" where
  "read_dentry_by_index m index dent fs =
     (case dent of
        None \<Rightarrow> Some (-1, dent, fs)
      | Some d \<Rightarrow> do {
        let fs = read_counts m fs;
        if index > BOOT_BLOCK_DIR_ENTRIES \<or> index \<ge> dir_entries fs then Some (-1, dent, fs)
        else do {
          let dentry_addr = boot_block_addr fs + 64 + index * 64;
          d \<leftarrow> strncpy (\<lambda>_. at_ptr m dentry_addr) dentry_put FILE_NAME_SIZE d;
          let d = d\<lparr>file_type := load32 m (dentry_addr + 32), inode_num := load32 m (dentry_addr + 36)\<rparr>;
          d \<leftarrow> dentry_put FILE_NAME_SIZE 0 d;
          Some (0, Some d, fs)
        }
      })"

subsection \<open>Reading file data\<close>

text \<open>The loop over the whole blocks between the first and the last one.\<close>

function read_blocks ::
  "mem \<Rightarrow> u32 \<Rightarrow> u32 \<Rightarrow> u32 \<Rightarrow> u32 \<Rightarrow> u32 \<Rightarrow> u32 \<Rightarrow> u32 \<Rightarrow> mem \<times> u32 \<times> u32 \<times> u32" where
  "read_blocks m inode_addr dblock_start buf end_dblock j buf_offset bytes_remaining =
     (if j \<noteq> end_dblock then
        let j_index = load32 m (inode_addr + 4 * (1 + j));
            j_addr = dblock_start + 4 * (j_index * ABS_BLK_OFFSET);
            m' = memcpy m (buf + buf_offset) j_addr FS_BLOCK_SIZE
        in read_blocks m' inode_addr dblock_start buf end_dblock (j + 1)
             (buf_offset + FS_BLOCK_SIZE) (bytes_remaining - FS_BLOCK_SIZE)
      else (m, j, buf_offset, bytes_remaining))"
  by pat_completeness auto

lemma word_countdown: "(j :: u32) \<noteq> e \<Longrightarrow> unat (e - (j + 1)) < unat (e - j)"
proof -
  assume "j \<noteq> e"
  then have "e - j \<noteq> 0" by simp
  then have "unat (e - j - 1) < unat (e - j)"
    by (metis measure_unat)
  then show ?thesis by (simp add: diff_diff_eq)
qed

termination read_blocks
  by (relation "measure (\<lambda>(m, i, d, b, e, j, off, rem). unat (e - j))") (auto intro: word_countdown)

declare read_blocks.simps [simp del]

text \<open>
  The copy once the inode is known: \<open>len\<close> bytes from \<open>offset\<close> on, one block or several. The
  message of the last branch, which the byte count rules out, is not modelled.
\<close>

definition copy_file_data :: "mem \<Rightarrow> u32 \<Rightarrow> u32 \<Rightarrow> u32 \<Rightarrow> u32 \<Rightarrow> u32 \<Rightarrow> i32 \<times> mem" where
  "copy_file_data m inode_addr dblock_start offset buf len =
     (let start_dblock = offset div FS_BLOCK_SIZE;
          end_dblock = (offset + len) div FS_BLOCK_SIZE;
          start_dblock_index = load32 m (inode_addr + 4 * (1 + start_dblock));
          start_dblock_addr = dblock_start + 4 * (start_dblock_index * ABS_BLK_OFFSET)
      in if start_dblock = end_dblock
         then (len, memcpy m buf (start_dblock_addr + offset mod FS_BLOCK_SIZE) len)
         else
      let j = start_dblock;
          bytes_to_copy = FS_BLOCK_SIZE - offset mod FS_BLOCK_SIZE;
          j_index = load32 m (inode_addr + 4 * (1 + j));
          j_addr = dblock_start + 4 * (j_index * ABS_BLK_OFFSET);
          m1 = memcpy m (buf + 0) (j_addr + offset mod FS_BLOCK_SIZE) bytes_to_copy;
          (m2, j, buf_offset, bytes_remaining) =
            read_blocks m1 inode_addr dblock_start buf end_dblock (j + 1)
              (0 + bytes_to_copy) (len - bytes_to_copy);
          bytes_to_copy = bytes_remaining;
          j_index = load32 m2 (inode_addr + 4 * (1 + j));
          j_addr = dblock_start + 4 * (j_index * ABS_BLK_OFFSET);
          m3 = memcpy m2 (buf + buf_offset) j_addr bytes_to_copy;
          bytes_remaining = bytes_remaining - bytes_to_copy
      in if bytes_remaining \<noteq> 0 then (-1, m3) else (len, m3))"

definition read_data ::
  "mem \<Rightarrow> fs_state \<Rightarrow> u32 \<Rightarrow> u32 \<Rightarrow> u32 \<Rightarrow> u32 \<Rightarrow> i32 \<times> mem \<times> fs_state" where
  "read_data m fs inode offset buf len0 =
     (if buf = 0 then (-1, m, fs)
      else if len0 = 0 then (-1, m, fs)
      else let len = (if len0 > MAX_FILE_SIZE then MAX_FILE_SIZE - offset else len0) in
      if offset > MAX_FILE_SIZE then (-1, m, fs)
      else let len = (if offset + len > MAX_FILE_SIZE then MAX_FILE_SIZE - offset else len) in
      if boot_block_addr fs = 0 then (-1, m, fs)
      else let fs = read_counts m fs in
      if inode > NUM_INODES then (-1, m, fs)
      else let inode_start_addr = boot_block_addr fs + 4 * ABS_BLK_OFFSET;
               inode_addr = inode_start_addr + 4 * (inode * ABS_BLK_OFFSET);
               dblock_start_addr = inode_start_addr + 4 * (num_inodes fs * ABS_BLK_OFFSET);
               inode_file_size = load32 m inode_addr in
      if inode_file_size < offset then (-1, m, fs)
      else let len = (if inode_file_size < len then inode_file_size - offset else len);
               len = (if inode_file_size < offset + len then inode_file_size - offset else len);
               (ret, m') = copy_file_data m inode_addr dblock_start_addr offset buf len
           in (ret, m', fs))"

definition get_filesize :: "mem \<Rightarrow> fs_state \<Rightarrow> u32 \<Rightarrow> i32" where
  "get_filesize m fs inode =
     (if boot_block_addr fs = 0 then -1
      else if inode > NUM_INODES then -1
      else load32 m (boot_block_addr fs + 4 * ABS_BLK_OFFSET + 4 * (inode * ABS_BLK_OFFSET)))"

subsection \<open>The operations without a file descriptor\<close>

definition fs_open :: "mem \<Rightarrow> reader option \<Rightarrow> fs_state \<Rightarrow> (i32 \<times> fs_state) option" where
  "fs_open m filename fs = do {
     (ret, dent, fs) \<leftarrow> read_dentry_by_name m filename (Some (dentry_a fs)) fs;
     let fs = (case dent of None \<Rightarrow> fs | Some d \<Rightarrow> fs\<lparr>dentry_a := d\<rparr>);
     if ret = -1 then Some (-1, fs) else Some (0, fs)
   }"

definition fs_close :: "fs_state \<Rightarrow> i32 \<times> fs_state" where
  "fs_close fs = (0, fs\<lparr>dentry_a := dentry_b fs\<rparr>)"

definition fs_write :: "i32 \<Rightarrow> u32 \<Rightarrow> i32 \<Rightarrow> i32" where
  "fs_write fd buf nbytes = (if nbytes = 0 then 0 else -1)"

definition dir_close :: "fs_state \<Rightarrow> i32 \<times> fs_state" where
  "dir_close fs = (0, fs\<lparr>dentry_a := dentry_b fs\<rparr>)"

definition dir_open :: "reader option \<Rightarrow> i32" where
  "dir_open filename = 0"

definition dir_write :: "i32 \<Rightarrow> u32 \<Rightarrow> i32 \<Rightarrow> i32" where
  "dir_write fd buf nbytes = 0"


subsection \<open>The layout of a directory entry\<close>

lemma length_word_bytes [simp]: "length (word_bytes w) = 4"
  by (simp add: word_bytes_def)

lemma length_dentry_bytes [simp]: "wf_dentry d \<Longrightarrow> length (dentry_bytes d) = 64"
  by (simp add: dentry_bytes_def wf_dentry_def length_concat comp_def sum_list_triv)

lemma wf_dentry_of_bytes [simp]: "length bs = 64 \<Longrightarrow> wf_dentry (dentry_of_bytes bs)"
  by (simp add: dentry_of_bytes_def wf_dentry_def)

lemma word_bytes_of_word:
  assumes "k + 4 \<le> length bs" "length bs \<le> 64"
  shows "word_bytes (bytes_word bs k) = [bs ! k, bs ! (k + 1), bs ! (k + 2), bs ! (k + 3)]"
proof -
  have "arr_reader (\<lambda>_. 0) bs (of_nat k + of_nat i) = bs ! (k + i)" if "i < 4" for i
    using that assms by (simp add: arr_reader_def flip: of_nat_add)
  from this [of 0] this [of 1] this [of 2] this [of 3] show ?thesis
    by (simp add: word_bytes_def bytes_word_def byte_of_load32 byte_of_load32 [unfolded One_nat_def])
qed

lemma upt_6: "[0..<6] = [0, 1, 2, 3, 4, 5 :: nat]"
  by (simp add: upt_rec)

lemma dentry_bytes_of_bytes:
  assumes "length bs = 64"
  shows "dentry_bytes (dentry_of_bytes bs) = bs"
proof -
  have "bs = take 32 bs @ map (\<lambda>i. bs ! i) [32..<64]"
    using assms by (intro nth_equalityI) (auto simp: nth_append simp del: upt_rec_numeral)
  then show ?thesis
    using assms by (simp add: dentry_bytes_def dentry_of_bytes_def word_bytes_of_word upt_6)
qed

lemma bytes_word_of_bytes:
  assumes "drop k bs = word_bytes w @ zs" "k + 4 \<le> length bs" "length bs \<le> 64"
  shows "bytes_word bs k = w"
proof -
  have "arr_reader (\<lambda>_. 0) bs (of_nat k + of_nat i) = word_bytes w ! i" if "i < 4" for i
  proof -
    have "bs ! (k + i) = drop k bs ! i" using assms(2) by simp
    then have "bs ! (k + i) = word_bytes w ! i"
      using that assms(1) by (simp add: nth_append)
    then show ?thesis
      using that assms(2,3) by (simp add: arr_reader_def flip: of_nat_add)
  qed
  from this [of 0] this [of 1] this [of 2] this [of 3] show ?thesis
    unfolding bytes_word_def by (intro load32_eqI) (auto simp: word_bytes_def)
qed

lemma dentry_of_bytes_bytes [simp]:
  assumes d: "wf_dentry d"
  shows "dentry_of_bytes (dentry_bytes d) = d"
proof -
  obtain r0 r1 r2 r3 r4 r5 where r: "reserved d = [r0, r1, r2, r3, r4, r5]"
    using d by (auto simp: wf_dentry_def length_Suc_conv eval_nat_numeral)
  have f: "length (fname d) = 32" using d by (simp add: wf_dentry_def)
  have bytes: "dentry_bytes d = fname d @ word_bytes (file_type d) @ word_bytes (inode_num d) @
      word_bytes r0 @ word_bytes r1 @ word_bytes r2 @ word_bytes r3 @ word_bytes r4 @ word_bytes r5"
    by (simp add: dentry_bytes_def r)
  have "bytes_word (dentry_bytes d) 32 = file_type d" "bytes_word (dentry_bytes d) 36 = inode_num d"
    "bytes_word (dentry_bytes d) 40 = r0" "bytes_word (dentry_bytes d) 44 = r1"
    "bytes_word (dentry_bytes d) 48 = r2" "bytes_word (dentry_bytes d) 52 = r3"
    "bytes_word (dentry_bytes d) 56 = r4"
    by (rule bytes_word_of_bytes; simp add: bytes f)+
  moreover have "bytes_word (dentry_bytes d) 60 = r5"
    by (rule bytes_word_of_bytes [where zs = "[]"]) (simp_all add: bytes f)
  moreover have "take 32 (dentry_bytes d) = fname d"
    by (simp add: bytes f)
  ultimately show ?thesis
    by (simp add: dentry_of_bytes_def upt_6 flip: r)
qed

text \<open>A directory entry record and its 64 bytes in memory determine each other.\<close>

theorem dentry_layout_roundtrip:
  "(wf_dentry d \<longrightarrow> length (dentry_bytes d) = 64 \<and> dentry_of_bytes (dentry_bytes d) = d)
   \<and> (length bs = 64 \<longrightarrow> wf_dentry (dentry_of_bytes bs) \<and> dentry_bytes (dentry_of_bytes bs) = bs)"
  by (simp add: dentry_bytes_of_bytes)

lemma dentry_layout_roundtrip_witness:
  "dentry_of_bytes (dentry_bytes \<lparr>fname = replicate 32 65, file_type = 2, inode_num = 0x01020304,
     reserved = replicate 6 9\<rparr>) = \<lparr>fname = replicate 32 65, file_type = 2, inode_num = 0x01020304,
     reserved = replicate 6 9\<rparr>"
  using dentry_layout_roundtrip [of "\<lparr>fname = replicate 32 65, file_type = 2, inode_num = 0x01020304,
     reserved = replicate 6 9\<rparr>" "[]"]
  by (simp add: wf_dentry_def)


text \<open>A directory entry is a byte object of 64 bytes; a store into the name array leaves the
  other fields alone, and the first byte behind it is the low byte of \<open>file_type\<close>.\<close>

lemma dentry_put_name:
  assumes "wf_dentry d" "unat i < 32"
  shows "dentry_put i b d = Some (d\<lparr>fname := (fname d)[unat i := b]\<rparr>)"
proof -
  let ?d = "d\<lparr>fname := (fname d)[unat i := b]\<rparr>"
  have "(dentry_bytes d)[unat i := b] = dentry_bytes ?d"
    using assms by (simp add: dentry_bytes_def list_update_append wf_dentry_def)
  moreover have "wf_dentry ?d" using assms by (simp add: wf_dentry_def)
  ultimately show ?thesis
    using assms by (simp add: dentry_put_def arr_put_def)
qed

lemma word_bytes_set_byte_0: "word_bytes (set_byte 0 b w) = (word_bytes w)[0 := b]"
proof -
  have "byte_of 0 (set_byte 0 b w) = b" "byte_of 1 (set_byte 0 b w) = byte_of 1 w"
    "byte_of 2 (set_byte 0 b w) = byte_of 2 w" "byte_of 3 (set_byte 0 b w) = byte_of 3 w"
    by (rule bit_word_eqI; auto simp: byte_of_def set_byte_def byte_mask bit_simps dest: bit_imp_le_length)+
  then show ?thesis by (simp add: word_bytes_def)
qed

lemma dentry_put_32:
  assumes "wf_dentry d"
  shows "dentry_put 32 b d = Some (d\<lparr>file_type := set_byte 0 b (file_type d)\<rparr>)"
proof -
  let ?d = "d\<lparr>file_type := set_byte 0 b (file_type d)\<rparr>"
  have "(dentry_bytes d)[32 := b] = dentry_bytes ?d"
    using assms
    by (simp add: dentry_bytes_def list_update_append wf_dentry_def word_bytes_set_byte_0)
  moreover have "wf_dentry ?d" using assms by (simp add: wf_dentry_def)
  ultimately show ?thesis
    using assms by (simp add: dentry_put_def arr_put_def)
qed

lemma dentry_reader_name:
  "wf_dentry d \<Longrightarrow> unat i < 32 \<Longrightarrow> dentry_reader junk d i = fname d ! unat i"
  by (simp add: dentry_reader_def arr_reader_def)
    (simp add: dentry_bytes_def wf_dentry_def nth_append)

interpretation dentry_object:
  byte_object "dentry_reader junk" dentry_put 64 wf_dentry "\<lambda>_. ()" for junk
proof unfold_locales
  fix d :: dentry and i j :: u32 and b d'
  assume d: "wf_dentry d" and i: "unat i < 64"
  then show "\<exists>d'. dentry_put i b d = Some d' \<and> wf_dentry d' \<and> () = ()"
    by (simp add: dentry_put_def arr_put_def)
  assume "dentry_put i b d = Some d'" "unat j < 64"
  then show "dentry_reader junk d' j = (if j = i then b else dentry_reader junk d j)"
    using d i by (auto simp: dentry_put_def arr_put_def dentry_reader_def arr_reader_def
        dentry_bytes_of_bytes nth_list_update word_unat_eq_iff)
qed

interpretation dentry_name:
  byte_object "dentry_reader junk" dentry_put 32 wf_dentry
    "\<lambda>d. (file_type d, inode_num d, reserved d)" for junk
proof unfold_locales
  fix d :: dentry and i j :: u32 and b d'
  assume d: "wf_dentry d" and i: "unat i < 32"
  then show "\<exists>d'. dentry_put i b d = Some d' \<and> wf_dentry d' \<and>
      (file_type d', inode_num d', reserved d') = (file_type d, inode_num d, reserved d)"
    by (auto simp: dentry_put_name wf_dentry_def)
  assume "dentry_put i b d = Some d'" "unat j < 32"
  then show "dentry_reader junk d' j = (if j = i then b else dentry_reader junk d j)"
    using d i by (intro dentry_object.get_put [of d i b d' j]) auto
qed

lemma nul_free_prefix:
  assumes "c_string s xs" "unat j < 32"
  shows "(\<forall>k \<le> j. s k \<noteq> 0) \<longleftrightarrow> unat j < length xs"
proof
  assume nz: "\<forall>k \<le> j. s k \<noteq> 0"
  show "unat j < length xs"
  proof (rule ccontr)
    assume ge: "\<not> unat j < length xs"
    then have "of_nat (length xs) \<le> j"
      using assms(2) by (simp add: word_le_nat_alt)
    then show False using nz assms(1) by (auto simp: c_string_def)
  qed
next
  assume lt: "unat j < length xs"
  show "\<forall>k \<le> j. s k \<noteq> 0"
  proof (intro allI impI)
    fix k assume "k \<le> j"
    then have "unat k < length xs" using lt by (simp add: word_le_nat_alt)
    then have "s k = xs ! unat k" "xs ! unat k \<in> set xs"
      using assms(1) by (auto simp: c_string_def dest: spec [of _ "unat k"])
    then show "s k \<noteq> 0" using assms(1) by (auto simp: c_string_def)
  qed
qed

text \<open>\<open>strncpy(dentry->fname, s, 32)\<close>.\<close>

definition name_field :: "u8 list \<Rightarrow> u8 list" where
  "name_field xs = take 32 xs @ replicate (32 - length xs) 0"

lemma strncpy_name:
  assumes "wf_dentry d" "c_string s xs"
  shows "strncpy (\<lambda>_. s) dentry_put 32 d = Some (d\<lparr>fname := name_field xs\<rparr>)"
proof -
  obtain d' where d': "strncpy (\<lambda>_. s) dentry_put 32 d = Some d'" "wf_dentry d'"
    "(file_type d', inode_num d', reserved d') = (file_type d, inode_num d, reserved d)"
    "\<forall>j. unat j < 32 \<longrightarrow> dentry_reader (\<lambda>_. 0) d' j =
      (if j < 32 then (if \<forall>k \<le> j. s k \<noteq> 0 then s j else 0) else dentry_reader (\<lambda>_. 0) d j)"
    using dentry_name.strncpy_object [OF assms(1), of 32 s "\<lambda>_. 0"] by auto
  have "fname d' ! i = name_field xs ! i" if "i < 32" for i
  proof -
    have i: "unat (of_nat i :: u32) < 32" "(of_nat i :: u32) < 32" "unat (of_nat i :: u32) = i"
      using that by (simp_all add: word_less_nat_alt)
    then have "fname d' ! i = (if i < length xs then s (of_nat i) else 0)"
      using d'(4) dentry_reader_name [OF d'(2) i(1), of "\<lambda>_. 0"] nul_free_prefix [OF assms(2) i(1)]
      by simp
    moreover have "i < length xs \<Longrightarrow> s (of_nat i) = xs ! i"
      using assms(2) by (simp add: c_string_def)
    ultimately show ?thesis using that by (auto simp: name_field_def nth_append)
  qed
  moreover have "length (fname d') = 32" using d'(2) by (simp add: wf_dentry_def)
  ultimately have "fname d' = name_field xs"
    by (intro nth_equalityI) (auto simp: name_field_def)
  with d'(3) have "d' = d\<lparr>fname := name_field xs\<rparr>"
    by (cases d, cases d') simp
  with d'(1) show ?thesis by simp
qed


subsection \<open>Lookup by name and by index\<close>

text \<open>The name stored at an address: its bytes up to the first NUL, 32 at most.\<close>

definition name_at :: "mem \<Rightarrow> u32 \<Rightarrow> u8 list" where
  "name_at m p = takeWhile (\<lambda>b. b \<noteq> 0) (map (\<lambda>i. m (p + of_nat i)) [0..<32])"

lemma name_at_c_string:
  assumes "c_string (at_ptr m p) es"
  shows "name_at m p = take 32 es"
proof -
  let ?bytes = "\<lambda>n. map (\<lambda>i. m (p + of_nat i)) [0..<n]"
  have es: "m (p + of_nat i) = es ! i" "es ! i \<noteq> 0" if "i < length es" for i
    using assms that by (simp_all add: c_string_def at_ptr_def) (metis nth_mem)
  have nul: "m (p + of_nat (length es)) = 0"
    using assms by (simp add: c_string_def at_ptr_def)
  show ?thesis
  proof (cases "32 \<le> length es")
    case True
    then have "?bytes 32 = take 32 es"
      using es by (intro nth_equalityI) (auto simp del: upt_rec_numeral)
    moreover have "takeWhile (\<lambda>b. b \<noteq> 0) (take 32 es) = take 32 es"
      using assms by (auto simp: takeWhile_eq_all_conv c_string_def dest: in_set_takeD)
    ultimately show ?thesis unfolding name_at_def by presburger
  next
    case False
    then have sum: "length es + (32 - length es) = 32" by simp
    have split: "[0..<32] = [0..<length es] @ length es # [Suc (length es)..<32]"
      using upt_add_eq_append [of 0 "length es" "32 - length es"] False
      by (simp only: sum le0 upt_conv_Cons not_le simp_thms)
    have bytes: "?bytes (length es) = es"
      using es by (intro nth_equalityI) auto
    have "?bytes 32 = es @ 0 # map (\<lambda>i. m (p + of_nat i)) [Suc (length es)..<32]"
      unfolding split map_append list.map bytes nul ..
    then have "name_at m p = es"
      unfolding name_at_def using assms
      by (simp add: takeWhile_append c_string_def takeWhile_eq_all_conv)
    then show ?thesis using False by simp
  qed
qed

lemma entry_matches_iff:
  assumes "c_string (at_ptr m p) es" "c_string name xs" "length es < 2 ^ 32"
  shows "(if of_nat (length es) > FILE_NAME_SIZE then FILE_NAME_SIZE else of_nat (length es))
      = (of_nat (length xs) :: u32)
    \<and> strncmp (at_ptr m p) name (of_nat (length xs)) = 0 \<longleftrightarrow> name_at m p = xs"
proof -
  have xs: "length xs < 2 ^ 32" using assms(2) by (simp add: c_string_def)
  have "strncmp (at_ptr m p) name (of_nat (length xs)) = 0 \<longleftrightarrow> take (length xs) es = xs"
    using strncmp_from_0_iff [of 0 "at_ptr m p" es name xs "of_nat (length xs)"] assms(1,2) xs
    by (simp add: strncmp_def)
  moreover have "(if of_nat (length es) > FILE_NAME_SIZE then FILE_NAME_SIZE else of_nat (length es))
      = (of_nat (length xs) :: u32) \<longleftrightarrow> min 32 (length es) = length xs"
    using xs assms(3) by (auto simp: word_less_nat_alt word_unat_eq_iff min_def)
  ultimately show ?thesis
    unfolding name_at_c_string [OF assms(1)] by (auto simp: min_def split: if_splits)
qed

text \<open>The first index from \<open>j\<close> on whose entry has the name, or 62.\<close>

definition lookup_index :: "mem \<Rightarrow> u32 \<Rightarrow> u8 list \<Rightarrow> nat \<Rightarrow> nat" where
  "lookup_index m first_file xs j =
     j + length (takeWhile (\<lambda>i. name_at m (first_file + of_nat i * 64) \<noteq> xs) [j..<62])"

lemma strlen_total: "0 \<in> range m \<Longrightarrow> \<exists>es. strlen (at_ptr m p) = Some (of_nat (length es)) \<and>
    c_string (at_ptr m p) es"
proof -
  assume "0 \<in> range m"
  then obtain x where "m x = 0" by auto
  then have "at_ptr m p (x - p) = 0" by (simp add: at_ptr_def)
  then have "strlen (at_ptr m p) \<noteq> None"
    using strlen_from_None [of "at_ptr m p" 0 "x - p"] by (auto simp: strlen_def)
  then show ?thesis by (auto simp: strlen_Some_iff)
qed

lemma find_dentry_lookup:
  assumes "0 \<in> range m" "c_string name xs" "j \<le> 62"
  shows "find_dentry m first_file name (of_nat (length xs)) j = Some (lookup_index m first_file xs j)"
  using assms(3)
proof (induction "62 - j" arbitrary: j rule: less_induct)
  case less
  show ?case
  proof (cases "j < 62")
    case False
    then show ?thesis
      using less.prems by (simp add: find_dentry.simps [of _ _ _ _ 62] lookup_index_def)
  next
    case True
    let ?p = "first_file + of_nat j * 64"
    obtain es where es: "strlen (at_ptr m ?p) = Some (of_nat (length es))" "c_string (at_ptr m ?p) es"
      using strlen_total [OF assms(1)] by blast
    have "length es < 2 ^ 32" using es(2) by (simp add: c_string_def)
    note match = entry_matches_iff [OF es(2) assms(2) this]
    have "lookup_index m first_file xs j =
        (if name_at m ?p = xs then j else lookup_index m first_file xs (j + 1))"
      using True by (simp add: lookup_index_def upt_conv_Cons)
    moreover have "find_dentry m first_file name (of_nat (length xs)) j =
        (if name_at m ?p = xs then Some j
         else find_dentry m first_file name (of_nat (length xs)) (j + 1))"
      unfolding match [symmetric] using True es(1)
      by (simp add: find_dentry.simps [of _ _ _ _ j] Let_def)
    ultimately show ?thesis using less.hyps [of "j + 1"] True by simp
  qed
qed

lemma lookup_index_first:
  "lookup_index m first_file xs 0 \<le> 62"
  "lookup_index m first_file xs 0 < 62 \<Longrightarrow>
     name_at m (first_file + of_nat (lookup_index m first_file xs 0) * 64) = xs"
  "i < lookup_index m first_file xs 0 \<Longrightarrow> name_at m (first_file + of_nat i * 64) \<noteq> xs"
proof -
  let ?P = "\<lambda>i. name_at m (first_file + of_nat i * 64) \<noteq> xs"
  let ?k = "length (takeWhile ?P [0..<62])"
  have k: "lookup_index m first_file xs 0 = ?k"
    by (simp add: lookup_index_def del: upt_rec_numeral)
  have len: "length [0..<62] = (62 :: nat)" by (rule trans [OF length_upt]) simp
  show "lookup_index m first_file xs 0 \<le> 62"
    unfolding k by (metis length_takeWhile_le len)
  show "name_at m (first_file + of_nat (lookup_index m first_file xs 0) * 64) = xs"
    if "lookup_index m first_file xs 0 < 62"
    using nth_length_takeWhile [of ?P "[0..<62]"] that unfolding k len
    by (metis (no_types, lifting) add_0 nth_upt)
  show "?P i" if "i < lookup_index m first_file xs 0"
  proof -
    have "takeWhile ?P [0..<62] ! i \<in> set (takeWhile ?P [0..<62])"
      using that unfolding k by (rule nth_mem)
    moreover have "takeWhile ?P [0..<62] ! i = i"
      using that unfolding k
      by (metis (no_types, lifting) add_0 length_takeWhile_le len less_le_trans nth_upt takeWhile_nth)
    ultimately have "i \<in> set (takeWhile ?P [0..<62])" by simp
    from set_takeWhileD [OF this] show ?thesis by simp
  qed
qed


lemma dir_match_iff:
  assumes "0 \<in> range m" "c_string name xs" "length xs \<le> 32"
  shows "strncmp (at_ptr m p) name (of_nat (length xs)) = 0 \<longleftrightarrow> take (length xs) (name_at m p) = xs"
proof -
  obtain es where es: "c_string (at_ptr m p) es" using strlen_total [OF assms(1)] by blast
  have "strncmp (at_ptr m p) name (of_nat (length xs)) = 0 \<longleftrightarrow> take (length xs) es = xs"
    using strncmp_from_0_iff [of 0 "at_ptr m p" es name xs "of_nat (length xs)"] es assms(2,3)
    by (simp add: strncmp_def)
  then show ?thesis unfolding name_at_c_string [OF es] using assms(3) by (simp add: min_def)
qed

lemma lookup_by_name:
  assumes "boot_block_addr fs \<noteq> 0" "0 \<in> range m" "c_string name xs" "length xs \<le> 32" "wf_dentry d"
    "take (length xs) (name_at m (boot_block_addr fs + 64)) \<noteq> xs"
  shows "\<exists>k \<le> 62. (\<forall>i < k. name_at m (boot_block_addr fs + 128 + of_nat i * 64) \<noteq> xs) \<and>
    (k < 62 \<longrightarrow> name_at m (boot_block_addr fs + 128 + of_nat k * 64) = xs) \<and>
    read_dentry_by_name m (Some name) (Some d) fs =
      (if k < 62 then
         Some (0, Some (d\<lparr>fname := xs @ replicate (32 - length xs) 0,
           file_type := sext8 (m (boot_block_addr fs + 128 + of_nat k * 64 + 32)),
           inode_num := sext8 (m (boot_block_addr fs + 128 + of_nat k * 64 + 36))\<rparr>), read_counts m fs)
       else Some (-1, Some d, read_counts m fs))"
proof -
  let ?first = "boot_block_addr fs + 128" and ?len = "of_nat (length xs) :: u32"
  let ?k = "lookup_index m ?first xs 0"
  have len: "strlen name = Some ?len" using assms(3) by (rule strlen_c_string)
  have nodir: "strncmp (at_ptr m (boot_block_addr fs + 64)) name ?len \<noteq> 0"
    using dir_match_iff [OF assms(2,3,4)] assms(6) by simp
  have find: "find_dentry m ?first name ?len 0 = Some ?k"
    using find_dentry_lookup [OF assms(2,3)] by simp
  have copy: "strncpy (\<lambda>_. name) dentry_put 32 d = Some (d\<lparr>fname := xs @ replicate (32 - length xs) 0\<rparr>)"
    using strncpy_name [OF assms(5,3)] assms(4) by (simp add: name_field_def)
  have counts: "boot_block_addr (read_counts m fs) = boot_block_addr fs"
    by (simp add: read_counts_def)
  have "read_dentry_by_name m (Some name) (Some d) fs =
      (if ?k < 62 then
         Some (0, Some (d\<lparr>fname := xs @ replicate (32 - length xs) 0,
           file_type := sext8 (m (?first + of_nat ?k * 64 + 32)),
           inode_num := sext8 (m (?first + of_nat ?k * 64 + 36))\<rparr>), read_counts m fs)
       else Some (-1, Some d, read_counts m fs))"
    using assms(1) len nodir find copy lookup_index_first(1) [of m ?first xs]
    by (auto simp: read_dentry_by_name_def counts Let_def add_ac)
  then show ?thesis
    using lookup_index_first [where m = m and first_file = ?first and xs = xs] by blast
qed

text \<open>[C30] Lookup by name when the name is not a prefix of the directory's own entry: the first of
  the 62 file entries with exactly this name is found, its name is put into the result padded with
  NULs, and the type and inode number are the sign-extended low bytes of the entry's fields. If no
  entry has the name, the result is -1 and the entry is untouched. The search returns on every
  memory that holds a zero byte.\<close>

theorem read_dentry_by_name_file:
  assumes "boot_block_addr fs \<noteq> 0" "0 \<in> range m" "c_string name xs" "length xs \<le> 32" "wf_dentry d"
    "take (length xs) (name_at m (boot_block_addr fs + 64)) \<noteq> xs"
  shows "\<exists>k \<le> 62. (\<forall>i < k. name_at m (boot_block_addr fs + 128 + of_nat i * 64) \<noteq> xs) \<and>
    (k < 62 \<longrightarrow> name_at m (boot_block_addr fs + 128 + of_nat k * 64) = xs) \<and>
    read_dentry_by_name m (Some name) (Some d) fs =
      (if k < 62 then
         Some (0, Some (d\<lparr>fname := xs @ replicate (32 - length xs) 0,
           file_type := sext8 (m (boot_block_addr fs + 128 + of_nat k * 64 + 32)),
           inode_num := sext8 (m (boot_block_addr fs + 128 + of_nat k * 64 + 36))\<rparr>), read_counts m fs)
       else Some (-1, Some d, read_counts m fs))"
  using lookup_by_name [OF assms] .

text \<open>Lookup by name when the name is a prefix of the directory's entry (the empty name
  is one): it always succeeds with type 1 and inode 0, whatever the file entries hold.\<close>

theorem read_dentry_by_name_directory:
  assumes "boot_block_addr fs \<noteq> 0" "0 \<in> range m" "c_string name xs" "length xs \<le> 32" "wf_dentry d"
    "take (length xs) (name_at m (boot_block_addr fs + 64)) = xs"
  shows "\<exists>d'. read_dentry_by_name m (Some name) (Some d) fs = Some (0, Some d', read_counts m fs)
    \<and> file_type d' = 1 \<and> inode_num d' = 0 \<and> take (length xs) (fname d') = xs \<and> wf_dentry d'"
proof -
  let ?len = "of_nat (length xs) :: u32"
  have len: "strlen name = Some ?len" using assms(3) by (rule strlen_c_string)
  have dir: "strncmp (at_ptr m (boot_block_addr fs + 64)) name ?len = 0"
    using dir_match_iff [OF assms(2,3,4)] assms(6) by simp
  have "unat ?len \<le> 32" using assms(4) by simp
  then obtain d' where d': "strncpy (\<lambda>_. name) dentry_put ?len d = Some d'" "wf_dentry d'"
    "\<forall>j. unat j < 32 \<longrightarrow> dentry_reader (\<lambda>_. 0) d' j =
      (if j < ?len then (if \<forall>k \<le> j. name k \<noteq> 0 then name j else 0) else dentry_reader (\<lambda>_. 0) d j)"
    using dentry_name.strncpy_object [OF assms(5), of ?len name "\<lambda>_. 0"] by blast
  have "fname d' ! i = xs ! i" if "i < length xs" for i
  proof -
    have i: "unat (of_nat i :: u32) < 32" "(of_nat i :: u32) < ?len" "unat (of_nat i :: u32) = i"
      using that assms(4) by (simp_all add: word_less_nat_alt)
    have "fname d' ! i = name (of_nat i)"
      using d'(3) dentry_reader_name [OF d'(2) i(1), of "\<lambda>_. 0"] nul_free_prefix [OF assms(3) i(1)]
        i that by simp
    then show ?thesis using assms(3) that by (simp add: c_string_def)
  qed
  then have "take (length xs) (fname d') = xs"
    using d'(2) assms(4) by (intro nth_equalityI) (auto simp: wf_dentry_def)
  moreover have "read_dentry_by_name m (Some name) (Some d) fs =
      Some (0, Some (d'\<lparr>file_type := 1, inode_num := 0\<rparr>), read_counts m fs)"
    using assms(1) len dir d'(1) by (simp add: read_dentry_by_name_def read_counts_def Let_def)
  ultimately show ?thesis using d'(2) by (simp add: wf_dentry_def)
qed

text \<open>Lookup by index: it fails exactly when the index is above 62 or not below the count of
  entries in the boot block. Otherwise the name and the inode number are those of the entry, but
  the terminator written behind the name array clears the low byte of the file type.\<close>

theorem read_dentry_by_index_correct:
  assumes "0 \<in> range m" "wf_dentry d"
  shows "read_dentry_by_index m index (Some d) fs =
    (let entry = boot_block_addr fs + 64 + index * 64 in
     if index > 62 \<or> index \<ge> load32 m (boot_block_addr fs) then Some (-1, Some d, read_counts m fs)
     else Some (0, Some (d\<lparr>
         fname := name_at m entry @ replicate (32 - length (name_at m entry)) 0,
         file_type := load32 m (entry + 32) AND NOT 0xFF,
         inode_num := load32 m (entry + 36)\<rparr>), read_counts m fs))"
proof -
  let ?entry = "boot_block_addr fs + 64 + index * 64"
  obtain es where es: "c_string (at_ptr m ?entry) es" using strlen_total [OF assms(1)] by blast
  have "name_field es = name_at m ?entry @ replicate (32 - length (name_at m ?entry)) 0"
    unfolding name_at_c_string [OF es] by (auto simp: name_field_def min_def)
  then have "strncpy (\<lambda>_. at_ptr m ?entry) dentry_put 32 d =
      Some (d\<lparr>fname := name_at m ?entry @ replicate (32 - length (name_at m ?entry)) 0\<rparr>)"
      (is "_ = Some ?d")
    using strncpy_name [OF assms(2) es] by simp
  moreover have "wf_dentry (d\<lparr>fname := name_at m ?entry @ replicate (32 - length (name_at m ?entry)) 0,
      file_type := t, inode_num := n\<rparr>)" for t n
    using assms(2) unfolding name_at_c_string [OF es] by (auto simp: wf_dentry_def)
  note dentry_put_32 [OF this]
  ultimately show ?thesis
    by (simp add: read_dentry_by_index_def read_counts_def Let_def set_byte_def)
qed


subsection \<open>An example image\<close>

text \<open>
  An image at \<open>0x1000\<close> with the directory entry ``.'' and the file ``a'' (type 2, inode 0), one
  inode of 5000 bytes whose blocks are the data blocks 1 and 0. It shows that the hypotheses of
  the theorems below and above can be met.
\<close>

definition example_image :: mem where
  "example_image = (\<lambda>x. if 0x3000 \<le> x then ucast (x div 256) else 0)
     (0x1000 := 2, 0x1004 := 1, 0x1008 := 2, 0x1040 := 46, 0x1060 := 1,
      0x1080 := 97, 0x10A0 := 2, 0x10A4 := 0, 0x2000 := 0x88, 0x2001 := 0x13, 0x2004 := 1)"

definition example_dentry :: dentry where
  "example_dentry = \<lparr>fname = replicate 32 7, file_type = 7, inode_num = 7, reserved = replicate 6 7\<rparr>"

definition example_fs :: fs_state where
  "example_fs = \<lparr>dir_entries = 0, num_inodes = 0, num_dblocks = 0, dentry_a = example_dentry,
     dentry_b = example_dentry, boot_block_addr = 0x1000\<rparr>"

lemma example_image_nul: "0 \<in> range example_image"
  by (rule image_eqI [where x = 0]) (simp_all add: example_image_def)

lemma wf_example_dentry: "wf_dentry example_dentry"
  by (simp add: example_dentry_def wf_dentry_def)

lemma example_name_dot: "name_at example_image 0x1040 = [46]"
  by (simp add: name_at_def example_image_def upt_rec)

lemma example_name_a: "name_at example_image 0x1080 = [97]"
  by (simp add: name_at_def example_image_def upt_rec)

lemma c_string_single: "c \<noteq> 0 \<Longrightarrow> c_string (arr_reader (\<lambda>_. 0) [c]) [c]"
  by (simp add: c_string_def arr_reader_def)

lemma read_dentry_by_name_file_witness:
  "\<exists>d. read_dentry_by_name example_image (Some (arr_reader (\<lambda>_. 0) [97])) (Some example_dentry) example_fs
      = Some (0, Some d, read_counts example_image example_fs)
    \<and> fname d = 97 # replicate 31 0 \<and> file_type d = 2 \<and> inode_num d = 0"
proof -
  have bb: "boot_block_addr example_fs = 0x1000" by (simp add: example_fs_def)
  obtain k where k: "\<forall>i < k. name_at example_image (0x1000 + 128 + of_nat i * 64) \<noteq> [97]"
    "read_dentry_by_name example_image (Some (arr_reader (\<lambda>_. 0) [97])) (Some example_dentry) example_fs =
      (if k < 62 then
         Some (0, Some (example_dentry\<lparr>fname := [97] @ replicate (32 - length [97 :: u8]) 0,
           file_type := sext8 (example_image (0x1000 + 128 + of_nat k * 64 + 32)),
           inode_num := sext8 (example_image (0x1000 + 128 + of_nat k * 64 + 36))\<rparr>),
           read_counts example_image example_fs)
       else Some (-1, Some example_dentry, read_counts example_image example_fs))"
    using read_dentry_by_name_file [of example_fs example_image "arr_reader (\<lambda>_. 0) [97]" "[97]" example_dentry]
      example_image_nul wf_example_dentry example_name_dot c_string_single [of 97]
    unfolding bb by auto
  have "\<not> 0 < k" using k(1) example_name_a by auto
  then show ?thesis using k(2) by (simp add: example_image_def sext8_def)
qed

lemma read_dentry_by_name_directory_witness:
  "\<exists>d'. read_dentry_by_name example_image (Some (arr_reader (\<lambda>_. 0) [46])) (Some example_dentry) example_fs
      = Some (0, Some d', read_counts example_image example_fs) \<and> file_type d' = 1"
  using read_dentry_by_name_directory [of example_fs example_image "arr_reader (\<lambda>_. 0) [46]" "[46]" example_dentry]
    example_image_nul wf_example_dentry example_name_dot c_string_single [of 46]
  by (auto simp: example_fs_def)

lemma example_counts:
  "load32 example_image 0x1000 = 2" "load32 example_image 0x10A0 = 2"
  by (simp_all add: load32_def example_image_def)

lemma read_dentry_by_index_correct_witness:
  "\<exists>d fs. read_dentry_by_index example_image 1 (Some example_dentry) example_fs = Some (0, Some d, fs)
    \<and> fname d = 97 # replicate 31 0 \<and> file_type d = 0"
  using read_dentry_by_index_correct [OF example_image_nul wf_example_dentry, of 1 example_fs]
    example_name_a
  by (simp add: example_fs_def Let_def example_counts word_le_nat_alt)


subsection \<open>Correctness of \<open>read_data\<close>\<close>

text \<open>
  The abstract contents of a file: byte \<open>k\<close> lies in the data block that entry \<open>k div 4096\<close> of the
  inode's block list names.
\<close>

definition inode_at :: "u32 \<Rightarrow> u32 \<Rightarrow> u32" where
  "inode_at bb inode = bb + 4096 + 4096 * inode"

definition block_at :: "mem \<Rightarrow> u32 \<Rightarrow> u32 \<Rightarrow> nat \<Rightarrow> u32" where
  "block_at m inode_addr dblock_start q =
     dblock_start + 4096 * load32 m (inode_addr + 4 + 4 * of_nat q)"

definition file_byte :: "mem \<Rightarrow> u32 \<Rightarrow> u32 \<Rightarrow> nat \<Rightarrow> u8" where
  "file_byte m inode_addr dblock_start k =
     m (block_at m inode_addr dblock_start (k div 4096) + of_nat (k mod 4096))"

text \<open>The buffer shares no byte with the inode and the first \<open>blocks\<close> data blocks of the file.\<close>

definition buffer_apart :: "mem \<Rightarrow> u32 \<Rightarrow> u32 \<Rightarrow> u32 \<Rightarrow> nat \<Rightarrow> nat \<Rightarrow> bool" where
  "buffer_apart m inode_addr dblock_start buf n blocks \<longleftrightarrow> apart buf n inode_addr 4096 \<and>
     (\<forall>q < blocks. apart buf n (block_at m inode_addr dblock_start q) 4096)"

text \<open>Memory in which the first \<open>k\<close> bytes of the buffer hold the file from \<open>offset\<close> on.\<close>

definition filled :: "mem \<Rightarrow> u32 \<Rightarrow> u32 \<Rightarrow> u32 \<Rightarrow> nat \<Rightarrow> nat \<Rightarrow> mem" where
  "filled m inode_addr dblock_start buf offset k =
     (\<lambda>x. if in_region buf k x
          then file_byte m inode_addr dblock_start (offset + unat (x - buf)) else m x)"

lemma filled_0 [simp]: "filled m i d buf offset 0 = m"
  by (simp add: filled_def)

lemma filled_same:
  "in_region p j x \<Longrightarrow> apart buf n p j \<Longrightarrow> k \<le> n \<Longrightarrow> filled m i d buf offset k x = m x"
  unfolding filled_def by (meson apartD in_region_mono)

lemma load32_cong_region:
  assumes "\<And>x. in_region p n x \<Longrightarrow> m' x = m x" "unat a + 4 \<le> n" "n \<le> 2 ^ 32"
  shows "load32 m' (p + a) = load32 m (p + a)"
proof -
  have "m' (p + a + of_nat j) = m (p + a + of_nat j)" if "j < 4" for j
  proof -
    have "unat (a + of_nat j) < n"
      using that assms(2,3) by (simp add: unat_word_ariths)
    then have "in_region p n (p + (a + of_nat j))" by (rule in_region_offset)
    then show ?thesis using assms(1) by (simp add: add.assoc)
  qed
  from this [of 0] this [of 1] this [of 2] this [of 3] show ?thesis
    by (simp add: load32_def)
qed

lemma filled_block_index:
  assumes "apart buf n i 4096" "k \<le> n" "q < 1023"
  shows "load32 (filled m i d buf offset k) (i + 4 + 4 * of_nat q) = load32 m (i + 4 + 4 * of_nat q)"
proof -
  have "4 + 4 * of_nat q = (of_nat (4 + 4 * q) :: u32)" by simp
  then have "unat (4 + 4 * of_nat q :: u32) = 4 + 4 * q"
    using assms(3) by (simp del: of_nat_add of_nat_mult)
  then have "load32 (filled m i d buf offset k) (i + (4 + 4 * of_nat q)) = load32 m (i + (4 + 4 * of_nat q))"
    using assms by (intro load32_cong_region [where n = 4096] filled_same [of i 4096 _ buf n]) auto
  then show ?thesis by (simp add: add.assoc)
qed

lemma same_block:
  assumes "p = pos mod 4096" "q = pos div 4096" "p + j < (4096 :: nat)"
  shows "(pos + j) div 4096 = q" "(pos + j) mod 4096 = p + j"
proof -
  have eq: "pos + j = (p + j) + q * 4096" using assms(1,2) by presburger
  show "(pos + j) div 4096 = q" "(pos + j) mod 4096 = p + j"
    unfolding eq using assms(3) by simp_all
qed

text \<open>One \<open>memcpy\<close> out of a data block extends the filled part.\<close>

lemma copy_step:
  assumes ap: "buffer_apart m i d buf n blocks" and c: "k + c \<le> n" "n < 2 ^ 32"
    and pos: "q = (offset + k) div 4096" "p = (offset + k) mod 4096" "p + c \<le> 4096"
    and q: "c = 0 \<or> q < blocks" "blocks \<le> 1023"
  shows "memcpy (filled m i d buf offset k) (buf + of_nat k)
      (d + 4 * (load32 (filled m i d buf offset k) (i + 4 * (1 + of_nat q)) * 1024) + of_nat p) (of_nat c) =
    filled m i d buf offset (k + c)"
proof (cases "c = 0")
  case True
  then show ?thesis by (simp add: memcpy_copy_bytes apart_def)
next
  case False
  let ?blk = "block_at m i d q" and ?M = "filled m i d buf offset k"
  have cc: "unat (of_nat c :: u32) = c" using c by simp
  have "load32 ?M (i + 4 + 4 * of_nat q) = load32 m (i + 4 + 4 * of_nat q)"
    using ap c q False by (intro filled_block_index [of buf n]) (auto simp: buffer_apart_def)
  then have addr: "d + 4 * (load32 ?M (i + 4 * (1 + of_nat q)) * 1024) = ?blk"
    by (simp add: block_at_def algebra_simps)
  have block: "apart buf n ?blk 4096" using ap q False by (simp add: buffer_apart_def)
  then have "apart (buf + of_nat k) c (?blk + of_nat p) c"
    using c pos(3) by (intro apart_sub [of buf n ?blk 4096]) auto
  then have copy: "memcpy ?M (buf + of_nat k) (?blk + of_nat p) (of_nat c) =
      copy_bytes ?M (buf + of_nat k) (?blk + of_nat p) c"
    using memcpy_copy_bytes [of "buf + of_nat k" "of_nat c"] by (simp add: cc)
  have "copy_bytes ?M (buf + of_nat k) (?blk + of_nat p) c x = filled m i d buf offset (k + c) x" for x
  proof (cases "in_region (buf + of_nat k) c x")
    case False
    moreover have "in_region buf (k + c) x \<longleftrightarrow> in_region buf k x"
      using False c by (subst in_region_split) auto
    ultimately show ?thesis by (simp add: copy_bytes_outside filled_def)
  next
    case True
    then have "k \<le> unat (x - buf)" "unat (x - buf) < k + c"
      using in_region_shift [of k c buf x] c by auto
    then obtain j where j: "unat (x - buf) = k + j" "j < c"
      by (metis add_less_cancel_left le_Suc_ex)
    have "x - buf = of_nat (unat (x - buf))" by simp
    then have "x - buf = of_nat k + of_nat j" unfolding j(1) by simp
    then have x: "x - (buf + of_nat k) = of_nat j" by (simp add: algebra_simps)
    have "?M (?blk + of_nat (p + j)) = m (?blk + of_nat (p + j))"
      using block c pos(3) j(2)
      by (intro filled_same [where n = n and p = ?blk and j = 4096] in_region_offset)
        (auto simp del: of_nat_add)
    then have "copy_bytes ?M (buf + of_nat k) (?blk + of_nat p) c x = m (?blk + of_nat (p + j))"
      using True by (simp add: copy_bytes_inside x add.assoc)
    also have "\<dots> = file_byte m i d (offset + k + j)"
      using same_block [OF pos(2,1), of j] pos(3) j(2) by (simp add: file_byte_def)
    also have "\<dots> = filled m i d buf offset (k + c) x"
      using j by (simp add: filled_def in_region_def add.assoc)
    finally show ?thesis .
  qed
  then show ?thesis unfolding addr copy by blast
qed


lemma read_blocks_filled:
  assumes ap: "buffer_apart m i d buf n blocks" and n: "n < 2 ^ 32" "blocks \<le> 1023"
    and e: "e = (offset + n) div 4096" "e \<le> blocks"
  shows "offset \<le> 4096 * j \<Longrightarrow> j \<le> e \<Longrightarrow>
    read_blocks (filled m i d buf offset (4096 * j - offset)) i d buf (of_nat e) (of_nat j)
      (of_nat (4096 * j - offset)) (of_nat n - of_nat (4096 * j - offset)) =
    (filled m i d buf offset (4096 * e - offset), of_nat e, of_nat (4096 * e - offset),
     of_nat n - of_nat (4096 * e - offset))"
proof (induction "e - j" arbitrary: j rule: less_induct)
  case less
  have small: "(of_nat j :: u32) = of_nat e \<longleftrightarrow> j = e"
    using less.prems n(2) e(2) by (simp add: word_unat_eq_iff)
  show ?case
  proof (cases "j = e")
    case True
    then show ?thesis by (simp add: read_blocks.simps [of _ _ _ _ "of_nat e" "of_nat e"])
  next
    case False
    let ?k = "4096 * j - offset"
    have j: "j < e" using False less.prems(2) by simp
    have pos: "offset + ?k = 4096 * j" using less.prems(1) by simp
    have "4096 * (j + 1) \<le> 4096 * e" using j by simp
    then have "4096 * (j + 1) \<le> offset + n" unfolding e(1) by linarith
    then have fits: "?k + 4096 \<le> n" using pos by auto
    have "j < blocks" using j e(2) by simp
    have next_k: "4096 * (j + 1) - offset = ?k + 4096" using less.prems(1) by simp
    have step: "memcpy (filled m i d buf offset ?k) (buf + of_nat ?k)
        (d + 4 * (load32 (filled m i d buf offset ?k) (i + 4 * (1 + of_nat j)) * 1024)) 4096 =
      filled m i d buf offset (4096 * (j + 1) - offset)"
      unfolding next_k
      using copy_step [OF ap fits n(1), of j offset 0] \<open>j < blocks\<close> n(2) by (simp add: pos)
    have "read_blocks (filled m i d buf offset ?k) i d buf (of_nat e) (of_nat j) (of_nat ?k)
        (of_nat n - of_nat ?k) =
      read_blocks (filled m i d buf offset (4096 * (j + 1) - offset)) i d buf (of_nat e) (of_nat j + 1)
        (of_nat ?k + 4096) (of_nat n - of_nat ?k - 4096)"
      using False small step by (simp add: read_blocks.simps [of _ _ _ _ "of_nat e" "of_nat j"] Let_def)
    also have "\<dots> = read_blocks (filled m i d buf offset (4096 * (j + 1) - offset)) i d buf (of_nat e)
        (of_nat (j + 1)) (of_nat (4096 * (j + 1) - offset))
        (of_nat n - of_nat (4096 * (j + 1) - offset))"
      unfolding next_k by (simp add: algebra_simps)
    also have "\<dots> = (filled m i d buf offset (4096 * e - offset), of_nat e, of_nat (4096 * e - offset),
        of_nat n - of_nat (4096 * e - offset))"
      using j less.prems(1) by (intro less.hyps) auto
    finally show ?thesis .
  qed
qed

lemma of_nat_div_mod_4096:
  assumes "k < 2 ^ 32"
  shows "(of_nat k :: u32) div 4096 = of_nat (k div 4096)" "(of_nat k :: u32) mod 4096 = of_nat (k mod 4096)"
proof -
  have "k div 4096 < 4294967296" "k mod 4096 < 4294967296" using assms by simp_all
  then show "(of_nat k :: u32) div 4096 = of_nat (k div 4096)"
      "(of_nat k :: u32) mod 4096 = of_nat (k mod 4096)"
    using assms by (simp_all add: word_unat_eq_iff unat_div unat_mod)
qed

lemma copy_file_data_filled:
  assumes ap: "buffer_apart m i d buf n blocks" "blocks \<le> 1023" and len: "offset + n \<le> 4096 * blocks"
  shows "copy_file_data m i d (of_nat offset) buf (of_nat n) = (of_nat n, filled m i d buf offset n)"
proof -
  define s where "s = offset div 4096"
  define p where "p = offset mod 4096"
  define e where "e = (offset + n) div 4096"
  define r where "r = (offset + n) mod 4096"
  have split: "offset = 4096 * s + p" "p < 4096" "offset + n = 4096 * e + r" "r < 4096"
    by (simp_all add: s_def p_def e_def r_def)
  have small: "offset < 2 ^ 32" "offset + n < 2 ^ 32" "n < 2 ^ 32" using len ap(2) by simp_all
  have e: "e \<le> blocks" using len by (simp add: e_def)
  have divs: "(of_nat offset :: u32) div 4096 = of_nat s"
    "(of_nat offset + of_nat n :: u32) div 4096 = of_nat e"
    "(of_nat offset :: u32) mod 4096 = of_nat p"
    using of_nat_div_mod_4096 [OF small(1)] of_nat_div_mod_4096 [OF small(2)]
    by (simp_all add: s_def e_def p_def)
  have "s \<le> e" by (simp add: s_def e_def div_le_mono)
  then have se: "(of_nat s :: u32) = of_nat e \<longleftrightarrow> s = e"
    using e ap(2) by (simp add: word_unat_eq_iff)
  note step0 = copy_step [OF ap(1) _ small(3), of 0, simplified]
  show ?thesis
  proof (cases "s = e")
    case True
    then have "p + n \<le> 4096" using split by linarith
    moreover have "n = 0 \<or> s < blocks" using len split(1) by linarith
    ultimately have "memcpy m buf (d + 4 * (load32 m (i + 4 * (1 + of_nat s)) * 1024) + of_nat p) (of_nat n)
        = filled m i d buf offset n"
      using step0 [of n s offset p] ap(2) by (simp add: s_def p_def)
    then show ?thesis using True by (simp add: copy_file_data_def divs Let_def)
  next
    case False
    let ?c = "4096 - p" and ?k = "4096 * e - offset"
    have lt: "s < e" using False \<open>s \<le> e\<close> by simp
    then have le: "4096 * (s + 1) - offset = ?c" "offset \<le> 4096 * (s + 1)" "?c \<le> n" "offset \<le> 4096 * e"
      using split by auto
    have cw: "(4096 :: u32) - of_nat p = of_nat ?c" using split(2) by (simp add: of_nat_diff)
    have first: "memcpy m buf (d + 4 * (load32 m (i + 4 * (1 + of_nat s)) * 1024) + of_nat p) (of_nat ?c)
        = filled m i d buf offset ?c"
      using step0 [of ?c s offset p] ap(2) le(3) lt e split(2) by (simp add: s_def p_def)
    have middle: "read_blocks (filled m i d buf offset ?c) i d buf (of_nat e) (of_nat s + 1)
        (of_nat ?c) (of_nat n - of_nat ?c) =
      (filled m i d buf offset ?k, of_nat e, of_nat ?k, of_nat n - of_nat ?k)"
      using read_blocks_filled [OF ap(1) small(3) ap(2) e_def e le(2)] lt
      unfolding le(1) by (simp add: add.commute)
    have last: "memcpy (filled m i d buf offset ?k) (buf + of_nat ?k)
        (d + 4 * (load32 (filled m i d buf offset ?k) (i + 4 * (1 + of_nat e)) * 1024)) (of_nat n - of_nat ?k)
      = filled m i d buf offset n"
    proof -
      have k: "offset + ?k = 4096 * e" "?k + (n - ?k) = n" "n - ?k < 4096" "n - ?k = r"
        using le(4) split by linarith+
      have "n = ?k + r" using k by linarith
      then have "of_nat n = (of_nat ?k + of_nat r :: u32)" by (metis of_nat_add)
      then have nw: "of_nat n - of_nat ?k = (of_nat r :: u32)" by (simp only: add_diff_cancel_left')
      have "r = 0 \<or> e < blocks" using len split(3) by linarith
      then show ?thesis
        unfolding nw
        using copy_step [OF ap(1) _ small(3), of ?k r e offset 0] k ap(2) \<open>n = ?k + r\<close>
        by simp
    qed
    show ?thesis
      using False se first middle last by (simp add: copy_file_data_def divs Let_def cw)
  qed
qed


text \<open>The length after the four clipping steps of the code, and the whole function on the path that
  reaches the copy.\<close>

definition clipped_len :: "u32 \<Rightarrow> u32 \<Rightarrow> u32 \<Rightarrow> u32" where
  "clipped_len fsize offset len =
     (let len = (if len > MAX_FILE_SIZE then MAX_FILE_SIZE - offset else len);
          len = (if offset + len > MAX_FILE_SIZE then MAX_FILE_SIZE - offset else len);
          len = (if fsize < len then fsize - offset else len)
      in if fsize < offset + len then fsize - offset else len)"

definition read_data_rejects :: "mem \<Rightarrow> fs_state \<Rightarrow> u32 \<Rightarrow> u32 \<Rightarrow> u32 \<Rightarrow> u32 \<Rightarrow> bool" where
  "read_data_rejects m fs inode offset buf len \<longleftrightarrow>
     buf = 0 \<or> len = 0 \<or> offset > MAX_FILE_SIZE \<or> boot_block_addr fs = 0 \<or> inode > 64 \<or>
     load32 m (inode_at (boot_block_addr fs) inode) < offset"

lemma read_counts_simps [simp]:
  "boot_block_addr (read_counts m fs) = boot_block_addr fs"
  "num_inodes (read_counts m fs) = load32 m (boot_block_addr fs + 4)"
  "dir_entries (read_counts m fs) = load32 m (boot_block_addr fs)"
  by (simp_all add: read_counts_def)

lemma inode_addr_eq: "bb + 4 * ABS_BLK_OFFSET + 4 * (inode * ABS_BLK_OFFSET) = inode_at bb inode"
  by (simp add: inode_at_def)

lemma read_data_accepted:
  assumes "\<not> read_data_rejects m fs inode offset buf len"
  shows "read_data m fs inode offset buf len =
    (let (ret, m') = copy_file_data m (inode_at (boot_block_addr fs) inode)
        (boot_block_addr fs + 4 * ABS_BLK_OFFSET + 4 * (load32 m (boot_block_addr fs + 4) * ABS_BLK_OFFSET))
        offset buf (clipped_len (load32 m (inode_at (boot_block_addr fs) inode)) offset len)
     in (ret, m', read_counts m fs))"
  using assms
  unfolding read_data_rejects_def read_data_def clipped_len_def Let_def read_counts_simps
    inode_addr_eq de_Morgan_disj
  by (simp only: if_False)

lemma read_data_rejected:
  "read_data_rejects m fs inode offset buf len \<Longrightarrow>
    fst (read_data m fs inode offset buf len) = -1 \<and> fst (snd (read_data m fs inode offset buf len)) = m"
  unfolding read_data_rejects_def read_data_def Let_def read_counts_simps inode_addr_eq
  by (simp only: split: if_split) (auto simp only: fst_conv snd_conv)

text \<open>The clipping never underflows.\<close>

lemma clipped_len:
  assumes "offset \<le> MAX_FILE_SIZE" "offset \<le> fsize"
  shows "unat (clipped_len fsize offset len) =
    min (unat len) (min (1023 * 4096) (unat fsize) - unat offset)"
proof -
  define len1 where "len1 = (if len > MAX_FILE_SIZE then MAX_FILE_SIZE - offset else len)"
  define len2 where "len2 = (if offset + len1 > MAX_FILE_SIZE then MAX_FILE_SIZE - offset else len1)"
  define len3 where "len3 = (if fsize < len2 then fsize - offset else len2)"
  have off: "unat offset \<le> 1023 * 4096" "unat offset \<le> unat fsize"
    using assms by (simp_all add: word_le_nat_alt)
  have sub: "unat (MAX_FILE_SIZE - offset) = 1023 * 4096 - unat offset"
    "unat (fsize - offset) = unat fsize - unat offset"
    using assms by (simp_all add: unat_sub)
  have add: "unat (offset + l) = unat offset + unat l" if "unat l \<le> 1023 * 4096" for l
    using that off by (subst unat_add_lem [THEN iffD1]) simp_all
  have l1: "unat len1 \<le> 1023 * 4096"
    "min (unat len1) (1023 * 4096 - unat offset) = min (unat len) (1023 * 4096 - unat offset)"
    using sub(1) by (auto simp: len1_def word_less_nat_alt not_less min_def)
  have l2: "unat len2 = min (unat len) (1023 * 4096 - unat offset)"
    using l1 sub(1) add [OF l1(1)] off
    by (auto simp: len2_def word_less_nat_alt not_less min_def split: if_splits)
  have l3: "unat len3 \<le> 1023 * 4096"
    "min (unat len3) (unat fsize - unat offset) = min (unat len2) (unat fsize - unat offset)"
    using l2 sub(2) by (auto simp: len3_def word_less_nat_alt not_less min_def)
  have eq: "clipped_len fsize offset len = (if fsize < offset + len3 then fsize - offset else len3)"
    unfolding clipped_len_def Let_def len3_def len2_def len1_def ..
  have "unat (if fsize < offset + len3 then fsize - offset else len3) =
      min (unat len3) (unat fsize - unat offset)"
    using sub(2) add [OF l3(1)] off(2)
    by (auto simp: word_less_nat_alt not_less min_def split: if_splits)
  then show ?thesis
    unfolding eq l3(2) l2 by (simp add: min_def)
qed

lemma read_data_filled:
  fixes offset :: u32
  assumes "boot_block_addr fs \<noteq> 0" "buf \<noteq> 0" "len \<noteq> 0" "inode \<le> 64"
    and fsize: "fsize = load32 m (inode_at (boot_block_addr fs) inode)"
      "unat fsize \<le> 1023 * 4096" "unat offset \<le> unat fsize"
    and n: "n = min (unat len) (unat fsize - unat offset)"
    and start: "dblock_start = boot_block_addr fs + 4096 + 4096 * load32 m (boot_block_addr fs + 4)"
    and ap: "buffer_apart m (inode_at (boot_block_addr fs) inode) dblock_start buf n
      ((unat fsize + 4095) div 4096)"
  shows "read_data m fs inode offset buf len =
    (of_nat n, filled m (inode_at (boot_block_addr fs) inode) dblock_start buf (unat offset) n, read_counts m fs)"
proof -
  let ?i = "inode_at (boot_block_addr fs) inode"
  have blocks: "(unat fsize + 4095) div 4096 \<le> 1023" using fsize(2) by linarith
  have fits: "unat offset + n \<le> 4096 * ((unat fsize + 4095) div 4096)"
    using n fsize(3) by linarith
  have copy: "copy_file_data m ?i dblock_start offset buf (of_nat n) =
      (of_nat n, filled m ?i dblock_start buf (unat offset) n)"
    using copy_file_data_filled [OF ap blocks fits] by simp
  have off: "offset \<le> MAX_FILE_SIZE" "offset \<le> fsize"
    using fsize(2,3) by (simp_all add: word_le_nat_alt)
  have "unat (clipped_len fsize offset len) = n"
    unfolding clipped_len [OF off] n using fsize(2) by (simp add: min_def)
  then have "clipped_len fsize offset len = of_nat n" by auto
  moreover have "read_data m fs inode offset buf len =
      (let (ret, m') = copy_file_data m ?i dblock_start offset buf (clipped_len fsize offset len)
       in (ret, m', read_counts m fs))"
    using assms(1-4) off by (subst read_data_accepted)
      (auto simp: read_data_rejects_def start fsize(1) not_less)
  ultimately show ?thesis using copy by simp
qed

text \<open>[C13] The main property of the file system: for an inode whose size is at most 1023 blocks, a
  non-null buffer apart from the inode and the file's data blocks, an offset within the file and a
  positive length, \<open>read_data\<close> returns \<open>min(length, size - offset)\<close>; exactly that many bytes of
  the buffer become the bytes of the file from the offset on, block boundaries included, and no
  other byte of memory changes.\<close>

theorem read_data_correct:
  fixes offset :: u32
  assumes "boot_block_addr fs \<noteq> 0" "buf \<noteq> 0" "len \<noteq> 0" "inode \<le> 64"
    and fsize: "fsize = load32 m (inode_at (boot_block_addr fs) inode)"
      "unat fsize \<le> 1023 * 4096" "unat offset \<le> unat fsize"
    and n: "n = min (unat len) (unat fsize - unat offset)"
    and start: "dblock_start = boot_block_addr fs + 4096 + 4096 * load32 m (boot_block_addr fs + 4)"
    and ap: "buffer_apart m (inode_at (boot_block_addr fs) inode) dblock_start buf n
      ((unat fsize + 4095) div 4096)"
  shows "\<exists>m'. read_data m fs inode offset buf len = (of_nat n, m', read_counts m fs) \<and>
    (\<forall>x. m' x = (if unat (x - buf) < n
      then file_byte m (inode_at (boot_block_addr fs) inode) dblock_start (unat offset + unat (x - buf))
      else m x))"
  unfolding read_data_filled [OF assms] by (simp add: filled_def in_region_def)


lemma example_inode:
  "load32 example_image 0x1004 = 1" "load32 example_image 0x2000 = 5000"
  "load32 example_image 0x2004 = 1" "load32 example_image 0x2008 = 0"
  by (simp_all add: load32_def example_image_def)

lemma read_data_correct_witness:
  "\<exists>m'. read_data example_image example_fs 0 4000 0x8000 2000 = (1000, m', read_counts example_image example_fs)
    \<and> m' 0x8000 = 0x4F \<and> m' 0x8060 = 0x30 \<and> m' 0x83E8 = example_image 0x83E8"
proof -
  have bb: "boot_block_addr example_fs = 0x1000" by (simp add: example_fs_def)
  have "apart (0x8000 :: u32) 1000 0x2000 4096" "apart (0x8000 :: u32) 1000 0x3000 4096"
    "apart (0x8000 :: u32) 1000 0x4000 4096"
    by (rule apart_intervals; simp)+
  then have ap: "buffer_apart example_image 0x2000 0x3000 0x8000 1000 2"
    by (auto simp: buffer_apart_def block_at_def example_inode less_2_cases_iff)
  obtain m' where "read_data example_image example_fs 0 4000 0x8000 2000 =
      (of_nat 1000, m', read_counts example_image example_fs)"
    "\<And>x. m' x = (if unat (x - 0x8000) < 1000
      then file_byte example_image 0x2000 0x3000 (4000 + unat (x - 0x8000)) else example_image x)"
    using read_data_correct [where fs = example_fs and m = example_image and inode = 0
        and offset = 4000 and buf = "0x8000" and len = 2000 and fsize = 5000 and n = 1000
        and dblock_start = "0x3000"] ap
    by (auto simp: bb inode_at_def example_inode)
  from this(1) this(2) [of "0x8000"] this(2) [of "0x8060"] this(2) [of "0x83E8"]
  show ?thesis
    by (auto simp: file_byte_def block_at_def example_inode)
      (auto simp: example_image_def)
qed

text \<open>[C29] \<open>read_data\<close> returns -1 exactly for a null buffer, a length of 0, an offset above the
  largest file size, a missing image, an inode above 64 and an offset behind the end of the
  file; memory is then unchanged.\<close>

theorem read_data_error_iff:
  "(fst (read_data m fs inode offset buf len) = -1 \<longleftrightarrow>
      buf = 0 \<or> len = 0 \<or> offset > 1023 * 4096 \<or> boot_block_addr fs = 0 \<or> inode > 64 \<or>
      load32 m (inode_at (boot_block_addr fs) inode) < offset)
   \<and> (fst (read_data m fs inode offset buf len) = -1 \<longrightarrow>
      fst (snd (read_data m fs inode offset buf len)) = m)"
proof -
  have "fst (read_data m fs inode offset buf len) \<noteq> -1"
    if ok: "\<not> read_data_rejects m fs inode offset buf len"
  proof -
    let ?fsize = "load32 m (inode_at (boot_block_addr fs) inode)"
    let ?len = "clipped_len ?fsize offset len"
    have "offset \<le> MAX_FILE_SIZE" "offset \<le> ?fsize"
      using ok by (simp_all add: read_data_rejects_def not_less)
    from clipped_len [OF this, of len] have "unat ?len \<le> 1023 * 4096" by linarith
    then have "?len \<noteq> -1" by (auto simp: unsigned_minus_1_eq_mask mask_eq_exp_minus_1)
    moreover have "fst (copy_file_data m i d offset buf l) = l" for i d l
      by (simp add: copy_file_data_def Let_def split: prod.split)
    ultimately show ?thesis
      unfolding read_data_accepted [OF ok] by (simp add: Let_def split: prod.split) (metis fst_conv)
  qed
  then show ?thesis
    using read_data_rejected [of m fs inode offset buf len] unfolding read_data_rejects_def by metis
qed

lemma read_data_error_iff_witness:
  "fst (read_data example_image example_fs 0 6000 0x8000 10) = -1"
  using read_data_error_iff [of example_image example_fs 0 6000 "0x8000" 10]
  by (simp add: example_fs_def inode_at_def example_inode)

end
