(* ===== verification/Paging.thy ===== *)
theory Paging imports Prelude begin

text \<open>
  The page tables of \<open>paging.c\<close> and the processor's view of them.

  The three static arrays are lists of 1024 words; their addresses, which the linker chooses, are
  fields of the state. \<open>walk\<close> is the address translation of the x86 without PAE and with 4 MB
  pages; \<open>tlb\<close> holds the translations the processor has cached, so that a missing \<open>_flush\<close> would
  be visible. The step relation interleaves memory accesses, which fill the cache, with the
  operations of the file.
\<close>

subsection \<open>State\<close>

record paging_state =
  page_directory :: "u32 list"
  page_table_0M_4M :: "u32 list"
  new_page_table :: "u32 list"
  page_directory_addr :: u32
  page_table_0M_4M_addr :: u32
  new_page_table_addr :: u32
  cr0 :: u32
  cr3 :: u32
  cr4 :: u32
  tlb :: "u32 \<rightharpoonup> u32 \<times> bool \<times> bool"

abbreviation (input) "VMEM_OR_MASK \<equiv> (0x7 :: u32)"
abbreviation (input) "PTABLE_OR_MASK \<equiv> (0x13 :: u32)"
abbreviation (input) "PTABLE_OR_MASK_USER \<equiv> (0x17 :: u32)"
abbreviation (input) "KMEM_OR_MASK \<equiv> (0x183 :: u32)"
abbreviation (input) "UMEM_OR_MASK \<equiv> (0x87 :: u32)"
abbreviation (input) "VID_START_ADDR \<equiv> (0xB8000 :: u32)"
abbreviation (input) "T1_BUF_ADDR \<equiv> (0xB9000 :: u32)"
abbreviation (input) "T2_BUF_ADDR \<equiv> (0xBA000 :: u32)"
abbreviation (input) "T3_BUF_ADDR \<equiv> (0xBB000 :: u32)"

subsection \<open>The processor\<close>

definition pde_index :: "u32 \<Rightarrow> nat" where
  "pde_index va = unat (drop_bit 22 va)"

definition pte_index :: "u32 \<Rightarrow> nat" where
  "pte_index va = unat (drop_bit 12 va AND 0x3FF)"

definition page_table_at :: "paging_state \<Rightarrow> u32 \<Rightarrow> u32 list option" where
  "page_table_at st base =
     (if base = page_table_0M_4M_addr st then Some (page_table_0M_4M st)
      else if base = new_page_table_addr st then Some (new_page_table st)
      else None)"

text \<open>Frame, user bit and global bit of the page that holds an address.\<close>

definition walk :: "paging_state \<Rightarrow> u32 \<Rightarrow> (u32 \<times> bool \<times> bool) option" where
  "walk st va =
     (let pde = page_directory st ! pde_index va in
      if pde AND 1 = 0 then None
      else if pde AND 0x80 \<noteq> 0 \<and> cr4 st AND 0x10 \<noteq> 0
      then Some ((pde AND 0xFFC00000) OR (va AND 0x3FF000), pde AND 4 \<noteq> 0, pde AND 0x100 \<noteq> 0)
      else case page_table_at st (pde AND 0xFFFFF000) of
             None \<Rightarrow> None
           | Some table \<Rightarrow>
               let pte = table ! pte_index va in
               if pte AND 1 = 0 then None
               else Some (pte AND 0xFFFFF000, pde AND pte AND 4 \<noteq> 0, pte AND 0x100 \<noteq> 0))"

text \<open>Translation by the tables: physical address and whether user code may use it.\<close>

definition xlate :: "paging_state \<Rightarrow> u32 \<Rightarrow> (u32 \<times> bool) option" where
  "xlate st va = map_option (\<lambda>(frame, user, _). (frame OR (va AND 0xFFF), user)) (walk st va)"

text \<open>What an access really uses: a cached entry if there is one.\<close>

definition lookup :: "paging_state \<Rightarrow> u32 \<Rightarrow> (u32 \<times> bool \<times> bool) option" where
  "lookup st va = (case tlb st (va AND 0xFFFFF000) of None \<Rightarrow> walk st va | Some e \<Rightarrow> Some e)"

definition access :: "paging_state \<Rightarrow> u32 \<Rightarrow> paging_state" where
  "access st va = st\<lparr>tlb := (tlb st)(va AND 0xFFFFF000 := lookup st va)\<rparr>"

text \<open>A write to \<open>cr3\<close> drops the cached entries, except global ones when \<open>cr4.PGE\<close> is set.\<close>

definition flush_entry :: "paging_state \<Rightarrow> u32 \<times> bool \<times> bool \<Rightarrow> bool" where
  "flush_entry st e \<longleftrightarrow> \<not> (snd (snd e) \<and> cr4 st AND 0x80 \<noteq> 0)"

definition write_cr3 :: "paging_state \<Rightarrow> u32 \<Rightarrow> paging_state" where
  "write_cr3 st v = st\<lparr>cr3 := v,
     tlb := (\<lambda>p. case tlb st p of None \<Rightarrow> None | Some e \<Rightarrow> if flush_entry st e then None else Some e)\<rparr>"

subsection \<open>The operations of \<open>paging.c\<close>\<close>

definition flush_tlb :: "paging_state \<Rightarrow> paging_state" where
  "flush_tlb st = write_cr3 st (cr3 st)"

definition initial_pte :: "nat \<Rightarrow> u32" where
  "initial_pte i =
     (if i = 184 then VID_START_ADDR OR VMEM_OR_MASK
      else if i = 185 then T1_BUF_ADDR OR VMEM_OR_MASK
      else if i = 186 then T2_BUF_ADDR OR VMEM_OR_MASK
      else if i = 187 then T3_BUF_ADDR OR VMEM_OR_MASK
      else 0)"

definition initial_pde :: "u32 \<Rightarrow> nat \<Rightarrow> u32" where
  "initial_pde table_addr i =
     (if i = 0 then table_addr OR PTABLE_OR_MASK
      else if i = 1 then 0x400000 OR KMEM_OR_MASK
      else 0)"

definition paging_initialize :: "paging_state \<Rightarrow> paging_state" where
  "paging_initialize st =
     (let st = st\<lparr>page_table_0M_4M := map initial_pte [0..<1024]\<rparr>;
          st = st\<lparr>page_directory := map (initial_pde (page_table_0M_4M_addr st)) [0..<1024]\<rparr>;
          st = write_cr3 st (page_directory_addr st);
          st = st\<lparr>cr4 := cr4 st OR 0x10\<rparr>
      in st\<lparr>cr0 := cr0 st OR 0x80000000\<rparr>)"

definition paging_change_process :: "u32 \<Rightarrow> paging_state \<Rightarrow> u32 \<times> paging_state" where
  "paging_change_process pid st =
     (let pid = pid - 1 in
      if pid < 0 \<or> pid > 5 then (-1, st)
      else (0, flush_tlb (st\<lparr>page_directory :=
        (page_directory st)[32 := (0x800000 + 0x400000 * pid) OR UMEM_OR_MASK]\<rparr>)))"

definition paging_vidmap :: "paging_state \<Rightarrow> u32 \<times> paging_state" where
  "paging_vidmap st =
     (let st = st\<lparr>new_page_table :=
            map (\<lambda>i. if i = 256 then VID_START_ADDR OR UMEM_OR_MASK else 0) [0..<1024]\<rparr>;
          st = st\<lparr>page_directory :=
            (page_directory st)[33 := new_page_table_addr st OR PTABLE_OR_MASK_USER]\<rparr>
      in (0, flush_tlb st))"

definition set_video_frame :: "u32 \<Rightarrow> paging_state \<Rightarrow> paging_state" where
  "set_video_frame addr st = flush_tlb (st\<lparr>
     page_table_0M_4M := (page_table_0M_4M st)[184 := addr OR VMEM_OR_MASK],
     new_page_table := (new_page_table st)[256 := addr OR UMEM_OR_MASK]\<rparr>)"

definition paging_set_write_to_videomem :: "paging_state \<Rightarrow> paging_state" where
  "paging_set_write_to_videomem st = set_video_frame VID_START_ADDR st"

definition paging_set_write_to_buffer :: "i32 \<Rightarrow> paging_state \<Rightarrow> paging_state" where
  "paging_set_write_to_buffer buffer st =
     set_video_frame
       (if buffer = 0 then T1_BUF_ADDR else if buffer = 1 then T2_BUF_ADDR
        else if buffer = 2 then T3_BUF_ADDR else T1_BUF_ADDR) st"

subsection \<open>Runs of the machine\<close>

inductive paging_step :: "paging_state \<Rightarrow> paging_state \<Rightarrow> bool" where
  access: "paging_step st (access st va)"
| change_process: "paging_step st (snd (paging_change_process pid st))"
| vidmap: "paging_step st (snd (paging_vidmap st))"
| write_to_videomem: "paging_step st (paging_set_write_to_videomem st)"
| write_to_buffer: "paging_step st (paging_set_write_to_buffer b st)"

text \<open>The state the boot loader leaves: paging off, nothing cached, the new table cleared, and the
  tables at distinct addresses that are aligned to their size.\<close>

definition boot_state :: "paging_state \<Rightarrow> bool" where
  "boot_state st \<longleftrightarrow> tlb st = Map.empty \<and> new_page_table st = replicate 1024 0 \<and>
     page_table_0M_4M_addr st AND 0xFFF = 0 \<and> new_page_table_addr st AND 0xFFF = 0 \<and>
     page_table_0M_4M_addr st \<noteq> new_page_table_addr st"

inductive paging_reachable :: "paging_state \<Rightarrow> bool" where
  init: "boot_state st \<Longrightarrow> paging_reachable (paging_initialize st)"
| step: "paging_reachable st \<Longrightarrow> paging_step st st' \<Longrightarrow> paging_reachable st'"


subsection \<open>Address arithmetic\<close>

lemma paging_masks:
  "(0xFFF :: u32) = mask 12" "(0x3FF :: u32) = mask 10" "(0x3FFFFF :: u32) = mask 22"
  "(0xFFFFF000 :: u32) = NOT (mask 12)" "(0xFFC00000 :: u32) = NOT (mask 22)"
  by (simp_all add: mask_eq_exp_minus_1)

lemma page_mask_idem: "((va :: u32) AND 0xFFFFF000) AND 0xFFFFF000 = va AND 0xFFFFF000"
  by (simp add: and.assoc)

lemma aligned_and:
  assumes "(a :: u32) AND 0xFFF = 0" "k AND 0xFFF = k"
  shows "a AND k = 0"
proof -
  have "a AND k = a AND (0xFFF AND k)" using assms(2) by (simp add: and.commute)
  also have "\<dots> = (a AND 0xFFF) AND k" by (simp only: and.assoc)
  finally show ?thesis using assms(1) by simp
qed

lemma aligned_or_low:
  "(a :: u32) AND 0xFFF = 0 \<Longrightarrow> k AND 0xFFF = k \<Longrightarrow> (a OR f) AND k = f AND k"
  by (simp add: bit.conj_disj_distrib2 aligned_and)

lemma aligned_or_high:
  assumes "(a :: u32) AND 0xFFF = 0" "f AND 0xFFFFF000 = 0"
  shows "(a OR f) AND 0xFFFFF000 = a"
proof -
  have "a = a AND (mask 12 OR NOT (mask 12))" by simp
  also have "\<dots> = (a AND 0xFFF) OR (a AND 0xFFFFF000)" by (simp only: bit.conj_disj_distrib paging_masks)
  finally have "a AND 0xFFFFF000 = a" using assms(1) by simp
  then show ?thesis using assms(2) by (simp add: bit.conj_disj_distrib2)
qed

lemma pde_index_div: "pde_index va = unat va div 0x400000"
  unfolding pde_index_def unat_drop_bit_eq by (simp add: drop_bit_eq_div)

lemma pte_index_mod: "pte_index va = unat va div 0x1000 mod 1024"
  unfolding pte_index_def paging_masks
  by (simp flip: take_bit_eq_mask add: unsigned_take_bit_eq unat_drop_bit_eq take_bit_eq_mod drop_bit_eq_div
      unat_div unat_mod)

lemma pde_index_less [simp]: "pde_index va < 1024"
  unfolding pde_index_div by (simp add: less_mult_imp_div_less)

lemma pte_index_less [simp]: "pte_index va < 1024"
  by (simp add: pte_index_mod)

lemma pde_index_range: "pde_index va = k \<longleftrightarrow> k * 0x400000 \<le> unat va \<and> unat va < (k + 1) * 0x400000"
  unfolding pde_index_div by (auto simp: div_less_iff_less_mult)

lemma page_indices:
  "pde_index (va AND 0xFFFFF000) = pde_index va" "pte_index (va AND 0xFFFFF000) = pte_index va"
proof -
  have "drop_bit 22 (va AND 0xFFFFF000) = drop_bit 22 va" "drop_bit 12 (va AND 0xFFFFF000) = drop_bit 12 va"
    unfolding paging_masks by (rule bit_word_eqI; auto simp: bit_simps dest: bit_imp_le_length)+
  then show "pde_index (va AND 0xFFFFF000) = pde_index va" "pte_index (va AND 0xFFFFF000) = pte_index va"
    by (simp_all add: pde_index_def pte_index_def)
qed

lemma walk_page: "walk st (va AND 0xFFFFF000) = walk st va"
proof -
  have "(va AND 0xFFFFF000) AND 0x3FF000 = va AND (0x3FF000 :: u32)" by (simp add: and.assoc)
  then show ?thesis unfolding walk_def page_indices by presburger
qed


subsection \<open>The shape of the tables\<close>

definition video_frames :: "u32 set" where
  "video_frames = {VID_START_ADDR, T1_BUF_ADDR, T2_BUF_ADDR, T3_BUF_ADDR}"

definition user_pde :: "nat \<Rightarrow> u32" where
  "user_pde p = (0x800000 + 0x400000 * of_nat p) OR UMEM_OR_MASK"

text \<open>Everything the operations keep true of the three tables.\<close>

definition tables_ok :: "paging_state \<Rightarrow> bool" where
  "tables_ok st \<longleftrightarrow>
     length (page_directory st) = 1024 \<and> length (page_table_0M_4M st) = 1024 \<and>
     length (new_page_table st) = 1024 \<and>
     page_table_0M_4M_addr st AND 0xFFF = 0 \<and> new_page_table_addr st AND 0xFFF = 0 \<and>
     page_table_0M_4M_addr st \<noteq> new_page_table_addr st \<and> cr4 st AND 0x10 \<noteq> 0 \<and>
     page_directory st ! 0 = page_table_0M_4M_addr st OR PTABLE_OR_MASK \<and>
     page_directory st ! 1 = 0x400000 OR KMEM_OR_MASK \<and>
     (page_directory st ! 32 = 0 \<or> (\<exists>p < 6. page_directory st ! 32 = user_pde p)) \<and>
     (page_directory st ! 33 = 0 \<or> page_directory st ! 33 = new_page_table_addr st OR PTABLE_OR_MASK_USER) \<and>
     (\<forall>i < 1024. i \<notin> {0, 1, 32, 33} \<longrightarrow> page_directory st ! i = 0) \<and>
     (\<exists>f \<in> video_frames. page_table_0M_4M st ! 184 = f OR VMEM_OR_MASK) \<and>
     (\<forall>i < 1024. i \<noteq> 184 \<longrightarrow> page_table_0M_4M st ! i = initial_pte i) \<and>
     (new_page_table st ! 256 = 0 \<or> (\<exists>f \<in> video_frames. new_page_table st ! 256 = f OR UMEM_OR_MASK)) \<and>
     (\<forall>i < 1024. i \<noteq> 256 \<longrightarrow> new_page_table st ! i = 0)"

lemma tables_okD:
  assumes "tables_ok st"
  shows "length (page_directory st) = 1024" "length (page_table_0M_4M st) = 1024"
    "length (new_page_table st) = 1024"
    "page_table_0M_4M_addr st AND 0xFFF = 0" "new_page_table_addr st AND 0xFFF = 0"
    "page_table_0M_4M_addr st \<noteq> new_page_table_addr st" "cr4 st AND 0x10 \<noteq> 0"
    "page_directory st ! 0 = page_table_0M_4M_addr st OR PTABLE_OR_MASK"
    "page_directory st ! 1 = 0x400000 OR KMEM_OR_MASK"
    "page_directory st ! 32 = 0 \<or> (\<exists>p < 6. page_directory st ! 32 = user_pde p)"
    "page_directory st ! 33 = 0 \<or> page_directory st ! 33 = new_page_table_addr st OR PTABLE_OR_MASK_USER"
    "i < 1024 \<Longrightarrow> i \<notin> {0, 1, 32, 33} \<Longrightarrow> page_directory st ! i = 0"
    "\<exists>f \<in> video_frames. page_table_0M_4M st ! 184 = f OR VMEM_OR_MASK"
    "i < 1024 \<Longrightarrow> i \<noteq> 184 \<Longrightarrow> page_table_0M_4M st ! i = initial_pte i"
    "new_page_table st ! 256 = 0 \<or> (\<exists>f \<in> video_frames. new_page_table st ! 256 = f OR UMEM_OR_MASK)"
    "i < 1024 \<Longrightarrow> i \<noteq> 256 \<Longrightarrow> new_page_table st ! i = 0"
  using assms unfolding tables_ok_def by blast+

lemma user_pde_bits:
  assumes "p < 6"
  shows "user_pde p AND 1 \<noteq> 0" "user_pde p AND 0x80 \<noteq> 0" "user_pde p AND 4 \<noteq> 0"
    "user_pde p AND 0x100 = 0" "user_pde p AND 0xFFC00000 = 0x800000 + 0x400000 * of_nat p"
proof -
  have "p \<in> {0, 1, 2, 3, 4, 5}" using assms by auto
  then show "user_pde p AND 1 \<noteq> 0" "user_pde p AND 0x80 \<noteq> 0" "user_pde p AND 4 \<noteq> 0"
    "user_pde p AND 0x100 = 0" "user_pde p AND 0xFFC00000 = 0x800000 + 0x400000 * of_nat p"
    by (auto simp: user_pde_def)
qed

text \<open>What the tables say about each part of the address space.\<close>

lemma and_flag: "(a :: u32) AND b AND k = (a AND k) AND b"
  by (simp only: ac_simps)

lemma walk_kernel:
  assumes "tables_ok st" "pde_index va = 1"
  shows "walk st va = Some (0x400000 OR (va AND 0x3FF000), False, True)"
  unfolding walk_def Let_def assms(2) tables_okD(9) [OF assms(1)]
  using tables_okD(7) [OF assms(1)] by simp

lemma initial_pte_bits:
  "initial_pte k AND 1 = (if 184 \<le> k \<and> k \<le> 187 then 1 else 0)" "initial_pte k AND 0x100 = 0"
  by (auto simp: initial_pte_def)

lemma video_pte_bits:
  assumes "tables_ok st" "k < 1024"
  shows "page_table_0M_4M st ! k AND 1 = (if 184 \<le> k \<and> k \<le> 187 then 1 else 0)"
    "page_table_0M_4M st ! k AND 0x100 = 0"
proof -
  have "page_table_0M_4M st ! 184 AND 1 = 1" "page_table_0M_4M st ! 184 AND 0x100 = 0"
    using tables_okD(13) [OF assms(1)] by (auto simp: video_frames_def)
  then show "page_table_0M_4M st ! k AND 1 = (if 184 \<le> k \<and> k \<le> 187 then 1 else 0)"
    "page_table_0M_4M st ! k AND 0x100 = 0"
    using tables_okD(14) [OF assms] initial_pte_bits by (cases "k = 184"; simp)+
qed

lemma walk_low:
  assumes "tables_ok st" "pde_index va = 0"
  shows "walk st va = (if 184 \<le> pte_index va \<and> pte_index va \<le> 187
    then Some (page_table_0M_4M st ! pte_index va AND 0xFFFFF000, False, False) else None)"
proof -
  note t = tables_okD [OF assms(1)]
  have pde: "page_directory st ! 0 AND 1 \<noteq> 0" "page_directory st ! 0 AND 0x80 = 0"
    "page_directory st ! 0 AND 4 = 0" "page_directory st ! 0 AND 0xFFFFF000 = page_table_0M_4M_addr st"
    unfolding t(8) by (simp_all add: aligned_or_low [OF t(4)] aligned_or_high [OF t(4)])
  have "page_directory st ! 0 AND page_table_0M_4M st ! pte_index va AND 4 = 0"
    unfolding and_flag [of _ _ 4] pde(3) by simp
  then show ?thesis
    using pde video_pte_bits [OF assms(1) pte_index_less, of va] assms(2)
    by (simp add: walk_def Let_def page_table_at_def)
qed

lemma walk_user:
  assumes "tables_ok st" "pde_index va = 32"
  shows "walk st va = (if page_directory st ! 32 = 0 then None
    else Some ((page_directory st ! 32 AND 0xFFC00000) OR (va AND 0x3FF000), True, False))"
  using tables_okD(7,10) [OF assms(1)] user_pde_bits assms(2) by (auto simp: walk_def Let_def)

lemma walk_vidmap:
  assumes "tables_ok st" "pde_index va = 33"
  shows "walk st va =
    (if page_directory st ! 33 = 0 \<or> new_page_table st ! 256 = 0 \<or> pte_index va \<noteq> 256 then None
     else Some (new_page_table st ! 256 AND 0xFFFFF000, True, False))"
proof (cases "page_directory st ! 33 = 0")
  case True
  then show ?thesis using assms(2) by (simp add: walk_def)
next
  case False
  note t = tables_okD [OF assms(1)]
  have eq: "page_directory st ! 33 = new_page_table_addr st OR PTABLE_OR_MASK_USER" using False t(11) by blast
  have pde: "page_directory st ! 33 AND 1 \<noteq> 0" "page_directory st ! 33 AND 0x80 = 0"
    "page_directory st ! 33 AND 4 = 4" "page_directory st ! 33 AND 0xFFFFF000 = new_page_table_addr st"
    unfolding eq by (simp_all add: aligned_or_low [OF t(5)] aligned_or_high [OF t(5)])
  have pte: "new_page_table st ! 256 \<noteq> 0 \<Longrightarrow> new_page_table st ! 256 AND 1 \<noteq> 0"
    "new_page_table st ! 256 AND 0x100 = 0"
    "new_page_table st ! 256 \<noteq> 0 \<Longrightarrow> new_page_table st ! 256 AND 4 = 4"
    using t(15) by (auto simp: video_frames_def)
  have user: "page_directory st ! 33 AND new_page_table st ! 256 AND 4 = 4" if "new_page_table st ! 256 \<noteq> 0"
    unfolding and_flag [of _ _ 4] pde(3) using pte(3) [OF that] by (simp add: and.commute)
  show ?thesis
  proof (cases "pte_index va = 256")
    case True
    then show ?thesis using pde pte user t(6) \<open>page_directory st ! 33 \<noteq> 0\<close> assms(2)
      by (auto simp: walk_def Let_def page_table_at_def)
  next
    case False
    then have "new_page_table st ! pte_index va = 0" by (simp add: t(16))
    then show ?thesis using False pde t(6) assms(2) by (simp add: walk_def Let_def page_table_at_def)
  qed
qed

lemma walk_elsewhere:
  "tables_ok st \<Longrightarrow> pde_index va \<notin> {0, 1, 32, 33} \<Longrightarrow> walk st va = None"
  by (simp add: walk_def tables_okD(12))

lemma walk_global: "tables_ok st \<Longrightarrow> walk st va = Some (f, u, True) \<Longrightarrow> pde_index va = 1"
  using walk_low [of st va] walk_user [of st va] walk_vidmap [of st va] walk_elsewhere [of st va]
  by (cases "pde_index va \<in> {0, 1, 32, 33}") (auto split: if_splits)


subsection \<open>The operations keep the tables in shape and the cache coherent\<close>

definition tlb_ok :: "paging_state \<Rightarrow> bool" where
  "tlb_ok st \<longleftrightarrow> (\<forall>va e. tlb st (va AND 0xFFFFF000) = Some e \<longrightarrow> walk st va = Some e)"

lemma tlb_okD: "tlb_ok st \<Longrightarrow> tlb st (va AND 0xFFFFF000) = Some e \<Longrightarrow> walk st va = Some e"
  unfolding tlb_ok_def by blast

lemma lookup_walk: "tlb_ok st \<Longrightarrow> lookup st va = walk st va"
  by (auto simp: lookup_def tlb_ok_def split: option.split)

lemma walk_tlb [simp]: "walk (st\<lparr>tlb := t\<rparr>) va = walk st va" "walk (st\<lparr>cr3 := v\<rparr>) va = walk st va"
  by (simp_all add: walk_def page_table_at_def Let_def)

lemma walk_flush [simp]: "walk (flush_tlb st) va = walk st va"
  by (simp add: flush_tlb_def write_cr3_def)

lemma flush_tlb_simps [frame_simps]:
  "page_directory (flush_tlb st) = page_directory st"
  "page_table_0M_4M (flush_tlb st) = page_table_0M_4M st"
  "new_page_table (flush_tlb st) = new_page_table st"
  "page_table_0M_4M_addr (flush_tlb st) = page_table_0M_4M_addr st"
  "new_page_table_addr (flush_tlb st) = new_page_table_addr st"
  "cr4 (flush_tlb st) = cr4 st"
  by (simp_all add: flush_tlb_def write_cr3_def)

lemma tables_ok_flush [simp]: "tables_ok (flush_tlb st) = tables_ok st"
  by (simp add: tables_ok_def frame_simps)

lemma tables_ok_tlb [simp]: "tables_ok (st\<lparr>tlb := t\<rparr>) = tables_ok st"
  by (simp add: tables_ok_def)

text \<open>After a change of the tables, the flush restores coherence: what survives it is global, and
  only the kernel page is.\<close>

lemma flush_coherent:
  assumes "tables_ok st" "tlb_ok st" "tables_ok st'" "tlb st' = tlb st"
  shows "tlb_ok (flush_tlb st')"
  unfolding tlb_ok_def
proof (intro allI impI)
  fix va e
  assume "tlb (flush_tlb st') (va AND 0xFFFFF000) = Some e"
  then have e: "tlb st (va AND 0xFFFFF000) = Some e" "snd (snd e)"
    using assms(4) by (auto simp: flush_tlb_def write_cr3_def flush_entry_def
        split: option.splits if_splits)
  then have w: "walk st va = Some e" using tlb_okD [OF assms(2)] by blast
  then have "walk st va = Some (fst e, fst (snd e), True)" using e(2) by (cases e) auto
  then have "pde_index va = 1" using walk_global [OF assms(1)] by blast
  then have "walk st' va = walk st va"
    using walk_kernel [OF assms(1)] walk_kernel [OF assms(3)] by simp
  then show "walk (flush_tlb st') va = Some e" using w by simp
qed

lemma tlb_ok_access:
  assumes "tlb_ok st"
  shows "tlb_ok (access st va)"
  unfolding tlb_ok_def
proof (intro allI impI)
  fix va' e
  assume e: "tlb (access st va) (va' AND 0xFFFFF000) = Some e"
  show "walk (access st va) va' = Some e"
  proof (cases "va' AND 0xFFFFF000 = va AND 0xFFFFF000")
    case True
    then have "walk st va = Some e" using e lookup_walk [OF assms] by (simp add: access_def)
    then have "walk st va' = Some e" using walk_page [of st va] walk_page [of st va'] True by simp
    then show ?thesis by (simp add: access_def)
  next
    case False
    then show ?thesis using e tlb_okD [OF assms, of va' e] by (simp add: access_def)
  qed
qed

lemma tables_ok_set_pde_32:
  assumes "tables_ok st" "p < 6"
  shows "tables_ok (st\<lparr>page_directory := (page_directory st)[32 := user_pde p]\<rparr>)"
  using assms unfolding tables_ok_def by (auto simp: nth_list_update)

lemma pid_minus_1: "\<not> (pid - 1 > (5 :: u32)) \<Longrightarrow> \<exists>p < 6. pid - 1 = of_nat p"
  by (rule exI [of _ "unat (pid - 1)"]) (simp add: word_less_nat_alt)

lemma tables_ok_change_process:
  assumes "tables_ok st" "tlb_ok st"
  shows "tables_ok (snd (paging_change_process pid st)) \<and> tlb_ok (snd (paging_change_process pid st))"
proof (cases "pid - 1 > 5")
  case True
  then show ?thesis using assms by (simp add: paging_change_process_def)
next
  case False
  then obtain p where p: "p < 6" "pid - 1 = of_nat p" using pid_minus_1 by blast
  let ?st = "st\<lparr>page_directory := (page_directory st)[32 := user_pde p]\<rparr>"
  have "snd (paging_change_process pid st) = flush_tlb ?st"
    using False unfolding paging_change_process_def Let_def p(2) by (simp add: user_pde_def)
  moreover have "tlb ?st = tlb st" by simp
  ultimately show ?thesis
    using flush_coherent [OF assms tables_ok_set_pde_32 [OF assms(1) p(1)]]
      tables_ok_set_pde_32 [OF assms(1) p(1)] by simp
qed

lemma tables_ok_vidmap:
  assumes "tables_ok st" "tlb_ok st"
  shows "tables_ok (snd (paging_vidmap st)) \<and> tlb_ok (snd (paging_vidmap st))"
proof -
  let ?st = "st\<lparr>new_page_table :=
      map (\<lambda>i. if i = 256 then VID_START_ADDR OR UMEM_OR_MASK else 0) [0..<1024],
    page_directory := (page_directory st)[33 := new_page_table_addr st OR PTABLE_OR_MASK_USER]\<rparr>"
  have "tables_ok ?st"
    using assms(1) unfolding tables_ok_def
    by (auto simp: nth_list_update video_frames_def simp del: upt_rec_numeral)
  moreover have "snd (paging_vidmap st) = flush_tlb ?st" by (simp add: paging_vidmap_def Let_def)
  ultimately show ?thesis using flush_coherent [OF assms, of ?st] by simp
qed

lemma tables_ok_video_frame:
  assumes "tables_ok st" "tlb_ok st" "addr \<in> video_frames"
  shows "tables_ok (set_video_frame addr st) \<and> tlb_ok (set_video_frame addr st)"
proof -
  let ?st = "st\<lparr>page_table_0M_4M := (page_table_0M_4M st)[184 := addr OR VMEM_OR_MASK],
     new_page_table := (new_page_table st)[256 := addr OR UMEM_OR_MASK]\<rparr>"
  have "tables_ok ?st"
    using assms(1,3) unfolding tables_ok_def by (auto simp: nth_list_update)
  moreover have "set_video_frame addr st = flush_tlb ?st" by (simp add: set_video_frame_def)
  ultimately show ?thesis using flush_coherent [OF assms(1,2), of ?st] by simp
qed

lemma tables_ok_initialize:
  assumes "boot_state st"
  shows "tables_ok (paging_initialize st) \<and> tlb_ok (paging_initialize st)"
proof -
  have cr4: "(cr4 st OR 0x10) AND 0x10 \<noteq> 0" by (simp add: bit.conj_disj_distrib2)
  have "tables_ok (paging_initialize st)"
    using assms cr4 unfolding tables_ok_def boot_state_def
    by (auto simp: paging_initialize_def Let_def write_cr3_def initial_pde_def initial_pte_def
        video_frames_def simp del: upt_rec_numeral)
  moreover have "tlb (paging_initialize st) = Map.empty"
    using assms by (simp add: boot_state_def paging_initialize_def Let_def write_cr3_def)
  ultimately show ?thesis by (simp add: tlb_ok_def)
qed

lemma paging_step_ok:
  assumes "paging_step st st'" "tables_ok st" "tlb_ok st"
  shows "tables_ok st' \<and> tlb_ok st'"
  using assms
proof (induction rule: paging_step.induct)
  case (access st va)
  then show ?case using tlb_ok_access by (simp add: access_def)
next
  case (write_to_videomem st)
  then show ?case
    unfolding paging_set_write_to_videomem_def by (intro tables_ok_video_frame) (auto simp: video_frames_def)
next
  case (write_to_buffer st b)
  then show ?case
    unfolding paging_set_write_to_buffer_def by (intro tables_ok_video_frame) (auto simp: video_frames_def)
qed (use tables_ok_change_process tables_ok_vidmap in blast)+

lemma paging_reachable_ok: "paging_reachable st \<Longrightarrow> tables_ok st \<and> tlb_ok st"
  by (induction rule: paging_reachable.induct) (use tables_ok_initialize paging_step_ok in blast)+


subsection \<open>Properties\<close>

text \<open>[C17] In every state that the paging operations and memory accesses can reach in any order, an
  access uses the translation that the tables hold now: no operation leaves a stale entry in the
  processor's cache, the global kernel page included.\<close>

theorem no_stale_translation:
  assumes "paging_reachable st"
  shows "lookup st va = walk st va"
  using assms paging_reachable_ok lookup_walk by blast

text \<open>The physical memory user code may touch: the six process images and the four video pages.\<close>

lemma and_disjoint: "(a :: u32) AND k = 0 \<Longrightarrow> a AND (b AND k) = 0"
  by (simp only: and.left_commute [of a b k] and_zero_eq)

lemma or_disjoint_add: "(a :: u32) AND k = 0 \<Longrightarrow> a OR (b AND k) = a + (b AND k)"
  using disjunctive_add_eq_or [OF and_disjoint, of a k b] by simp

lemma user_window:
  fixes va :: u32
  assumes "p < 6"
  shows "((0x800000 + 0x400000 * of_nat p) OR (va AND 0x3FF000)) OR (va AND 0xFFF)
    = 0x800000 + 0x400000 * of_nat p + (va AND 0x3FFFFF)"
proof -
  have split: "(va AND 0x3FF000) OR (va AND 0xFFF) = va AND 0x3FFFFF"
    by (simp flip: bit.conj_disj_distrib)
  have "p \<in> {0, 1, 2, 3, 4, 5}" using assms by auto
  then have "(0x800000 + 0x400000 * of_nat p) AND (0x3FFFFF :: u32) = 0" by auto
  then show ?thesis unfolding or.assoc split by (rule or_disjoint_add)
qed

lemma xlate_user:
  assumes "tables_ok st" "pde_index va = 32" "p < 6" "page_directory st ! 32 = user_pde p"
  shows "xlate st va = Some (0x800000 + 0x400000 * of_nat p + (va AND 0x3FFFFF), True)"
  using assms user_pde_bits [OF assms(3)] user_window [OF assms(3)]
  by (auto simp: xlate_def walk_user)

text \<open>Switching to process \<open>pid\<close> (1 to 6) in any reachable state maps the whole window from
  128 MB to 132 MB, with user access, to the 4 MB of physical memory that start at
  8 MB + (pid - 1) * 4 MB, and no translation outside the window changes. Any other \<open>pid\<close> is
  refused with -1 and the state is as before.\<close>

theorem change_process_maps:
  assumes "paging_reachable st" "paging_change_process pid st = (ret, st')"
  shows "(1 \<le> pid \<and> pid \<le> 6 \<longrightarrow> ret = 0 \<and>
      (\<forall>va. 0x8000000 \<le> unat va \<and> unat va < 0x8400000 \<longrightarrow>
        xlate st' va = Some (0x800000 + 0x400000 * (pid - 1) + (va AND 0x3FFFFF), True)) \<and>
      (\<forall>va. \<not> (0x8000000 \<le> unat va \<and> unat va < 0x8400000) \<longrightarrow> xlate st' va = xlate st va))
    \<and> (\<not> (1 \<le> pid \<and> pid \<le> 6) \<longrightarrow> ret = -1 \<and> st' = st)"
proof -
  have ok: "tables_ok st" "tlb_ok st" using paging_reachable_ok [OF assms(1)] by auto
  show ?thesis
  proof (cases "pid - 1 > 5")
    case True
    then have "\<not> (1 \<le> pid \<and> pid \<le> 6)"
      by (auto simp: word_less_nat_alt word_le_nat_alt unat_sub)
    then show ?thesis using True assms(2) by (auto simp: paging_change_process_def Let_def)
  next
    case False
    then obtain p where p: "p < 6" "pid - 1 = of_nat p" using pid_minus_1 by blast
    then have "pid = of_nat (p + 1)" by (simp add: algebra_simps)
    then have "unat pid = p + 1" using p(1) unat_of_nat_u32 [of "p + 1"] by simp
    then have range: "1 \<le> pid \<and> pid \<le> 6" using p(1) by (simp add: word_le_nat_alt)
    let ?st = "st\<lparr>page_directory := (page_directory st)[32 := user_pde p]\<rparr>"
    have st': "ret = 0" "st' = flush_tlb ?st"
      using False assms(2) unfolding paging_change_process_def Let_def p(2) by (simp_all add: user_pde_def)
    have window: "xlate st' va = Some (0x800000 + 0x400000 * of_nat p + (va AND 0x3FFFFF), True)"
      if "pde_index va = 32" for va
      using tables_ok_set_pde_32 [OF ok(1) p(1)] tables_okD(1) [OF ok(1)] that p(1)
      by (intro xlate_user) (simp_all add: st' frame_simps)
    have other: "xlate st' va = xlate st va" if "pde_index va \<noteq> 32" for va
      using that by (simp add: st' xlate_def walk_def page_table_at_def Let_def frame_simps)
    show ?thesis
      using range st'(1) window other unfolding p(2) pde_index_range by simp
  qed
qed


text \<open>A concrete run: boot, paging on, process 2.\<close>

definition example_boot :: paging_state where
  "example_boot = \<lparr>page_directory = replicate 1024 0, page_table_0M_4M = replicate 1024 0,
     new_page_table = replicate 1024 0, page_directory_addr = 0x401000,
     page_table_0M_4M_addr = 0x402000, new_page_table_addr = 0x403000,
     cr0 = 1, cr3 = 0, cr4 = 0, tlb = Map.empty\<rparr>"

definition example_run :: paging_state where
  "example_run = snd (paging_change_process 2 (paging_initialize example_boot))"

lemma example_boot_reachable: "paging_reachable (paging_initialize example_boot)"
  by (rule paging_reachable.init) (simp add: boot_state_def example_boot_def)

lemma example_run_reachable: "paging_reachable example_run"
  unfolding example_run_def
  by (rule paging_reachable.step [OF example_boot_reachable paging_step.change_process])

lemma example_change: "paging_change_process 2 (paging_initialize example_boot) = (0, example_run)"
  by (simp add: example_run_def paging_change_process_def Let_def)

lemma unat_and_mask:
  "unat (va AND 0x3FFFFF :: u32) < 0x400000" "unat (va AND 0xFFF :: u32) < 0x1000"
  using take_bit_nat_less_exp [of 22 "unat va"] take_bit_nat_less_exp [of 12 "unat va"]
  unfolding paging_masks by (simp_all flip: take_bit_eq_mask add: unsigned_take_bit_eq)

lemma unat_add_and:
  "unat a + 0x3FFFFF < 2 ^ 32 \<Longrightarrow> unat (a + (va AND 0x3FFFFF)) = unat a + unat (va AND 0x3FFFFF :: u32)"
  using unat_and_mask(1) [of va] by (simp add: unat_word_ariths)

lemma unat_user_base: "p < 6 \<Longrightarrow> unat (0x800000 + 0x400000 * of_nat p :: u32) = 0x800000 + 0x400000 * p"
  using unat_of_nat_u32 [of "0x800000 + 0x400000 * p"] by simp

lemma walk_user_index: "tables_ok st \<Longrightarrow> walk st va = Some (f, True, g) \<Longrightarrow> pde_index va = 32 \<or> pde_index va = 33"
  using walk_low [of st va] walk_kernel [of st va] walk_elsewhere [of st va]
  by (cases "pde_index va \<in> {0, 1, 32, 33}") (auto split: if_splits)

lemma change_process_maps_witness:
  "paging_change_process 2 (paging_initialize example_boot) = (0, example_run) \<and>
    xlate example_run 0x8048000 = Some (0xC48000, True)"
proof -
  note change_process_maps [OF example_boot_reachable example_change]
  from conjunct1 [OF this] have "\<forall>va. 0x8000000 \<le> unat va \<and> unat va < 0x8400000 \<longrightarrow>
      xlate example_run va = Some (0x800000 + 0x400000 * (2 - 1) + (va AND 0x3FFFFF), True)"
    by (simp add: word_le_nat_alt)
  from this [rule_format, of "0x8048000"] show ?thesis using example_change by simp
qed

lemma no_stale_translation_witness: "lookup example_run 0x8048000 = walk example_run 0x8048000"
  by (rule no_stale_translation [OF example_run_reachable])

lemma example_xlate: "xlate example_run 0x8048000 = Some (0xC48000, True)"
proof -
  have "tables_ok example_run" using paging_reachable_ok [OF example_run_reachable] by blast
  moreover have "pde_index 0x8048000 = 32" by (simp add: pde_index_div)
  moreover have "page_directory example_run ! 32 = user_pde 1"
    by (simp add: example_run_def paging_change_process_def Let_def frame_simps user_pde_def
        paging_initialize_def write_cr3_def del: upt_rec_numeral)
  ultimately show ?thesis using xlate_user [of example_run "0x8048000" 1] by simp
qed

text \<open>[C2] Processes are isolated: if the window is switched to two different processes, no two
  addresses in it, one under each process, reach the same physical byte.\<close>

theorem processes_isolated:
  assumes "paging_reachable st1" "paging_reachable st2" "pid1 \<noteq> pid2"
    "paging_change_process pid1 st1 = (0, st1')" "paging_change_process pid2 st2 = (0, st2')"
    "pde_index va1 = 32" "pde_index va2 = 32"
  shows "\<exists>pa1 pa2. xlate st1' va1 = Some (pa1, True) \<and> xlate st2' va2 = Some (pa2, True) \<and> pa1 \<noteq> pa2"
proof -
  have run: "\<exists>p < 6. pid = of_nat p + 1 \<and>
      xlate st' va = Some (0x800000 + 0x400000 * of_nat p + (va AND 0x3FFFFF), True)"
    if st: "paging_reachable st" "paging_change_process pid st = (0, st')" "pde_index va = 32"
    for st st' pid va
  proof -
    have ok: "tables_ok st" using paging_reachable_ok [OF st(1)] by blast
    have "\<not> pid - 1 > 5" using st(2) by (auto simp: paging_change_process_def Let_def split: if_splits)
    then obtain p where p: "p < 6" "pid - 1 = of_nat p" using pid_minus_1 by blast
    have "st' = flush_tlb (st\<lparr>page_directory := (page_directory st)[32 := user_pde p]\<rparr>)"
      using \<open>\<not> pid - 1 > 5\<close> st(2) unfolding paging_change_process_def Let_def p(2)
      by (simp add: user_pde_def)
    then have "xlate st' va = Some (0x800000 + 0x400000 * of_nat p + (va AND 0x3FFFFF), True)"
      using tables_ok_set_pde_32 [OF ok p(1)] tables_okD(1) [OF ok] st(3) p(1)
      by (intro xlate_user) (simp_all add: frame_simps)
    moreover have "pid = of_nat p + 1" using p(2) by (simp add: algebra_simps)
    ultimately show ?thesis using p(1) by blast
  qed
  obtain p1 where p1: "p1 < 6" "pid1 = of_nat p1 + 1"
    "xlate st1' va1 = Some (0x800000 + 0x400000 * of_nat p1 + (va1 AND 0x3FFFFF), True)"
    using run [OF assms(1,4,6)] by blast
  obtain p2 where p2: "p2 < 6" "pid2 = of_nat p2 + 1"
    "xlate st2' va2 = Some (0x800000 + 0x400000 * of_nat p2 + (va2 AND 0x3FFFFF), True)"
    using run [OF assms(2,5,7)] by blast
  have "p1 \<noteq> p2" using assms(3) p1(2) p2(2) by blast
  have pa: "unat (0x800000 + 0x400000 * of_nat p + (va AND 0x3FFFFF :: u32)) div 0x400000 = p + 2"
    if "p < 6" for p va
    using unat_add_and [of _ va] unat_user_base [OF that] unat_and_mask(1) [of va] that by simp
  have "0x800000 + 0x400000 * of_nat p1 + (va1 AND 0x3FFFFF) \<noteq>
      0x800000 + 0x400000 * of_nat p2 + (va2 AND 0x3FFFFF)" (is "?a1 \<noteq> ?a2")
  proof
    assume eq: "?a1 = ?a2"
    have "p1 + 2 = unat ?a1 div 0x400000" by (rule pa [OF p1(1), symmetric])
    also have "\<dots> = p2 + 2" unfolding eq by (rule pa [OF p2(1)])
    finally show False using \<open>p1 \<noteq> p2\<close> by simp
  qed
  then show ?thesis using p1(3) p2(3) by blast
qed


lemma processes_isolated_witness:
  "\<exists>pa1 pa2. xlate example_run 0x8048000 = Some (pa1, True) \<and>
     xlate (snd (paging_change_process 3 example_run)) 0x8048000 = Some (pa2, True) \<and> pa1 \<noteq> pa2"
proof -
  have "paging_change_process 3 example_run = (0, snd (paging_change_process 3 example_run))"
    by (simp add: paging_change_process_def Let_def)
  from processes_isolated [OF example_boot_reachable example_run_reachable _ example_change this,
      of "0x8048000" "0x8048000"]
  show ?thesis by (simp add: pde_index_div)
qed

lemma page_number: "unat va div 0x1000 = pde_index va * 1024 + pte_index va"
proof -
  have "pde_index va = unat va div 0x1000 div 1024"
    by (simp add: pde_index_div flip: div_mult2_eq)
  then show ?thesis by (simp add: pte_index_mod)
qed

lemma unat_offsets:
  "unat (va AND 0xFFF :: u32) = unat va mod 0x1000" "unat (va AND 0x3FFFFF :: u32) = unat va mod 0x400000"
  unfolding paging_masks
  by (simp_all flip: take_bit_eq_mask add: unsigned_take_bit_eq) (simp_all add: take_bit_eq_mod)

lemma xlate_kernel:
  assumes "tables_ok st" "pde_index va = 1"
  shows "xlate st va = Some (va, False)"
proof -
  have split: "(va AND 0x3FF000) OR (va AND 0xFFF) = va AND (0x3FFFFF :: u32)"
    by (simp flip: bit.conj_disj_distrib)
  have "(0x400000 OR (va AND 0x3FF000)) OR (va AND 0xFFF) = 0x400000 + (va AND 0x3FFFFF)"
    unfolding or.assoc split by (rule or_disjoint_add) simp
  also have "\<dots> = va"
  proof -
    have "unat (0x400000 + (va AND 0x3FFFFF)) = 0x400000 + unat va mod 0x400000"
      using unat_add_and [of "0x400000" va] by (simp add: unat_offsets)
    also have "\<dots> = unat va"
      using assms(2) div_mult_mod_eq [of "unat va" "0x400000"] unfolding pde_index_div by simp
    finally show ?thesis by (simp only: word_unat_eq_iff)
  qed
  finally show ?thesis by (simp add: xlate_def walk_kernel [OF assms])
qed

lemma page_base_offset: "of_nat (unat va div 0x1000 * 0x1000) + (va AND 0xFFF) = (va :: u32)"
proof -
  have le: "unat va div 0x1000 * 0x1000 \<le> unat va" by (rule div_times_less_eq_dividend)
  then have k: "unat (of_nat (unat va div 0x1000 * 0x1000) :: u32) = unat va div 0x1000 * 0x1000"
    by (intro unat_of_nat_u32) (rule le_less_trans [OF _ unat_u32_less])
  have "unat (of_nat (unat va div 0x1000 * 0x1000) + (va AND 0xFFF)) =
      unat va div 0x1000 * 0x1000 + unat va mod 0x1000"
    by (subst unat_add_small) (simp_all only: k unat_offsets div_mult_mod_eq unat_u32_less)
  then show ?thesis by (simp only: word_unat_eq_iff div_mult_mod_eq)
qed

lemma window_offset:
  assumes "unat off < 0x1000" "k < 0x100000"
  shows "unat (of_nat (k * 0x1000) + off) div 0x1000 = k \<and> (of_nat (k * 0x1000) + off) AND 0xFFF = (off :: u32)"
proof -
  have k: "unat (of_nat (k * 0x1000) :: u32) = k * 0x1000"
    by (rule unat_of_nat_u32) (use assms(2) in linarith)
  have u: "unat (of_nat (k * 0x1000) + off) = k * 0x1000 + unat off"
  proof -
    have "unat (of_nat (k * 0x1000) + off) = unat (of_nat (k * 0x1000) :: u32) + unat off"
      by (rule unat_add_small) (use assms k in linarith)
    then show ?thesis unfolding k .
  qed
  have "(k * 0x1000 + unat off) mod 0x1000 = unat off" "(k * 0x1000 + unat off) div 0x1000 = k"
    using assms(1) by simp_all
  then show ?thesis using u by (simp only: word_unat_eq_iff unat_offsets)
qed

lemma xlate_low_page:
  assumes "tables_ok st" "184 \<le> k" "k \<le> 187" "page_table_0M_4M st ! k = f OR VMEM_OR_MASK" "f \<in> video_frames"
    "unat va div 0x1000 = k"
  shows "xlate st va = Some (f + (va AND 0xFFF), False)"
proof -
  have "pde_index va = 0"
    using assms(3) page_number [of va] unfolding assms(6) by (cases "pde_index va") auto
  moreover from this have "pte_index va = k" using page_number [of va] assms(6) by simp
  moreover have "(f OR VMEM_OR_MASK) AND 0xFFFFF000 = f" "f OR (va AND 0xFFF) = f + (va AND 0xFFF)"
    using assms(5) or_disjoint_add [of f "0xFFF" va] by (auto simp: video_frames_def)
  ultimately show ?thesis using assms(1-4) by (simp add: xlate_def walk_low)
qed

text \<open>The kernel can always reach itself: in every reachable state the 4 MB from 4 MB on are
  mapped to themselves, for the kernel only, and the text window at \<open>0xB8000\<close> is mapped, for the
  kernel only, to the video memory or one of the three backing buffers, which are always mapped
  to themselves.\<close>

theorem kernel_always_mapped:
  assumes "paging_reachable st"
  shows "(\<forall>va. 0x400000 \<le> unat va \<and> unat va < 0x800000 \<longrightarrow> xlate st va = Some (va, False))
    \<and> (\<exists>f \<in> video_frames. \<forall>off. unat off < 0x1000 \<longrightarrow> xlate st (0xB8000 + off) = Some (f + off, False))
    \<and> (\<forall>va. 0xB9000 \<le> unat va \<and> unat va < 0xBC000 \<longrightarrow> xlate st va = Some (va, False))"
proof (intro conjI)
  have ok: "tables_ok st" using paging_reachable_ok [OF assms] by blast
  show "\<forall>va. 0x400000 \<le> unat va \<and> unat va < 0x800000 \<longrightarrow> xlate st va = Some (va, False)"
    using xlate_kernel [OF ok] by (simp add: pde_index_range)
  obtain f where f: "f \<in> video_frames" "page_table_0M_4M st ! 184 = f OR VMEM_OR_MASK"
    using tables_okD(13) [OF ok] by blast
  have "xlate st (0xB8000 + off) = Some (f + off, False)" if "unat off < 0x1000" for off
  proof -
    show ?thesis
      using xlate_low_page [OF ok _ _ f(2,1), of "0xB8000 + off"] window_offset [OF that, of 184] by simp
  qed
  then show "\<exists>f \<in> video_frames. \<forall>off. unat off < 0x1000 \<longrightarrow> xlate st (0xB8000 + off) = Some (f + off, False)"
    using f(1) by blast
  have "xlate st va = Some (va, False)" if "0xB9000 \<le> unat va" "unat va < 0xBC000" for va
  proof -
    define k where "k = unat va div 0x1000"
    have k: "k = 185 \<or> k = 186 \<or> k = 187" using that unfolding k_def by linarith
    then have "page_table_0M_4M st ! k = of_nat (0x1000 * k) OR VMEM_OR_MASK"
      "of_nat (0x1000 * k) \<in> video_frames"
      using tables_okD(14) [OF ok, of k] by (auto simp: initial_pte_def video_frames_def)
    then have "xlate st va = Some (of_nat (0x1000 * k) + (va AND 0xFFF), False)"
      using k by (intro xlate_low_page [OF ok _ _ _ _ k_def [symmetric]]) auto
    moreover have "of_nat (0x1000 * k) + (va AND 0xFFF) = va"
      using page_base_offset [of va] by (simp only: k_def mult.commute)
    ultimately show ?thesis by simp
  qed
  then show "\<forall>va. 0xB9000 \<le> unat va \<and> unat va < 0xBC000 \<longrightarrow> xlate st va = Some (va, False)" by blast
qed

lemma kernel_always_mapped_witness: "xlate example_run 0x400123 = Some (0x400123, False)"
proof -
  from conjunct1 [OF kernel_always_mapped [OF example_run_reachable]]
  show ?thesis by (simp add: allE [where x = "0x400123"])
qed

text \<open>Redirecting the text window: after \<open>paging_set_write_to_buffer b\<close> the window at
  \<open>0xB8000\<close>, and the user's window at 133 MB once \<open>vidmap\<close> has been called, reach the buffer of
  terminal \<open>b\<close> (the first one for a number out of range), after \<open>paging_set_write_to_videomem\<close>
  the video memory; no other translation changes.\<close>

theorem redirect_video_window:
  assumes "paging_reachable st"
    "(st' = paging_set_write_to_videomem st \<and> f = 0xB8000) \<or>
     (st' = paging_set_write_to_buffer b st \<and> f = (if b = 1 then 0xBA000 else if b = 2 then 0xBB000 else 0xB9000))"
  shows "(\<forall>off. unat off < 0x1000 \<longrightarrow> xlate st' (0xB8000 + off) = Some (f + off, False))
    \<and> (page_directory st ! 33 \<noteq> 0 \<longrightarrow>
        (\<forall>off. unat off < 0x1000 \<longrightarrow> xlate st' (0x8500000 + off) = Some (f + off, True)))
    \<and> (\<forall>va. \<not> (0xB8000 \<le> unat va \<and> unat va < 0xB9000) \<and> \<not> (0x8500000 \<le> unat va \<and> unat va < 0x8501000)
        \<longrightarrow> xlate st' va = xlate st va)"
proof -
  have ok: "tables_ok st" "tlb_ok st" using paging_reachable_ok [OF assms(1)] by auto
  have st': "st' = set_video_frame f st" "f \<in> video_frames"
    using assms(2) by (auto simp: paging_set_write_to_videomem_def paging_set_write_to_buffer_def video_frames_def split: if_splits)
  have ok': "tables_ok st'" unfolding st'(1) using tables_ok_video_frame [OF ok st'(2)] by blast
  have tables: "page_table_0M_4M st' = (page_table_0M_4M st)[184 := f OR VMEM_OR_MASK]"
    "new_page_table st' = (new_page_table st)[256 := f OR UMEM_OR_MASK]"
    "page_directory st' = page_directory st"
    unfolding st'(1) set_video_frame_def by (simp_all add: frame_simps)
  have pte: "page_table_0M_4M st' ! 184 = f OR VMEM_OR_MASK" "new_page_table st' ! 256 = f OR UMEM_OR_MASK"
    unfolding tables using tables_okD(2,3) [OF ok(1)] by simp_all
  have kernel: "xlate st' (0xB8000 + off) = Some (f + off, False)" if "unat off < 0x1000" for off
    using xlate_low_page [OF ok' _ _ pte(1) st'(2), of "0xB8000 + off"] window_offset [OF that, of 184]
    by simp
  have user: "xlate st' (0x8500000 + off) = Some (f + off, True)"
    if "unat off < 0x1000" "page_directory st ! 33 \<noteq> 0" for off
  proof -
    let ?va = "0x8500000 + off"
    have va: "unat ?va div 0x1000 = 33 * 1024 + 256" "?va AND 0xFFF = off"
      using window_offset [OF that(1), of "33 * 1024 + 256"] by simp_all
    have "pde_index ?va = 33" using page_number [of ?va] va(1) pte_index_less [of ?va] by linarith
    moreover from this have "pte_index ?va = 256" using page_number [of ?va] va(1) by linarith
    moreover have "(f OR UMEM_OR_MASK) AND 0xFFFFF000 = f" "f OR (?va AND 0xFFF) = f + off" "f OR UMEM_OR_MASK \<noteq> 0"
      using st'(2) or_disjoint_add [of f "0xFFF" ?va] va(2) by (auto simp: video_frames_def)
    ultimately show ?thesis using ok' that(2) pte(2) by (simp add: xlate_def walk_vidmap tables(3))
  qed
  have other: "xlate st' va = xlate st va"
    if "unat va div 0x1000 \<noteq> 184" "unat va div 0x1000 \<noteq> 33 * 1024 + 256" for va
  proof -
    have "\<not> (pde_index va = 0 \<and> pte_index va = 184)" "\<not> (pde_index va = 33 \<and> pte_index va = 256)"
      using that page_number [of va] by auto
    then have "walk st' va = walk st va"
      using walk_low [OF ok'] walk_low [OF ok(1)] walk_kernel [OF ok'] walk_kernel [OF ok(1)]
        walk_user [OF ok'] walk_user [OF ok(1)] walk_vidmap [OF ok'] walk_vidmap [OF ok(1)]
        walk_elsewhere [OF ok', of va] walk_elsewhere [OF ok(1), of va]
      by (cases "pde_index va \<in> {0, 1, 32, 33}") (auto simp: tables)
    then show ?thesis by (simp add: xlate_def)
  qed
  have "unat va div 0x1000 \<noteq> 184" if "\<not> (0xB8000 \<le> unat va \<and> unat va < 0xB9000)" for va :: u32
    using that by (auto simp: div_eq_dividend_iff)
  moreover have "unat va div 0x1000 \<noteq> 33 * 1024 + 256"
    if "\<not> (0x8500000 \<le> unat va \<and> unat va < 0x8501000)" for va :: u32
    using that by auto
  ultimately show ?thesis using kernel user other by blast
qed


lemma redirect_video_window_witness:
  "xlate (paging_set_write_to_buffer 1 example_run) 0xB8010 = Some (0xBA010, False) \<and>
   xlate (paging_set_write_to_buffer 1 example_run) 0x8048000 = Some (0xC48000, True)"
proof -
  have "(paging_set_write_to_buffer 1 example_run = paging_set_write_to_videomem example_run \<and>
      (0xBA000 :: u32) = 0xB8000) \<or>
    (paging_set_write_to_buffer 1 example_run = paging_set_write_to_buffer 1 example_run \<and>
      (0xBA000 :: u32) = (if (1 :: i32) = 1 then 0xBA000 else if (1 :: i32) = 2 then 0xBB000 else 0xB9000))"
    by simp
  note r = redirect_video_window [OF example_run_reachable this]
  have "xlate (paging_set_write_to_buffer 1 example_run) (0xB8000 + 0x10) = Some (0xBA000 + 0x10, False)"
    by (rule conjunct1 [OF r, rule_format]) simp
  moreover have "xlate (paging_set_write_to_buffer 1 example_run) 0x8048000 = xlate example_run 0x8048000"
    by (rule conjunct2 [OF conjunct2 [OF r], rule_format]) simp
  ultimately show ?thesis using example_xlate by simp
qed

text \<open>The state that \<open>paging_initialize\<close> sets up, completely: user code can reach nothing;
  the kernel can reach exactly its own 4 MB and the four video pages, at their own addresses.\<close>

theorem paging_initialize_maps:
  assumes "boot_state st"
  shows "xlate (paging_initialize st) va =
    (if (0x400000 \<le> unat va \<and> unat va < 0x800000) \<or> (0xB8000 \<le> unat va \<and> unat va < 0xBC000)
     then Some (va, False) else None)"
proof -
  let ?st = "paging_initialize st"
  have ok: "tables_ok ?st" using tables_ok_initialize [OF assms] by blast
  have pde: "page_directory ?st ! 32 = 0" "page_directory ?st ! 33 = 0"
    by (simp_all add: paging_initialize_def write_cr3_def initial_pde_def Let_def del: upt_rec_numeral)
  have pte: "page_table_0M_4M ?st ! k = initial_pte k" if "k < 1024" for k
    using that by (simp add: paging_initialize_def write_cr3_def Let_def del: upt_rec_numeral)
  have low: "xlate ?st va = (if 184 \<le> pte_index va \<and> pte_index va \<le> 187 then Some (va, False) else None)"
    if "pde_index va = 0"
  proof (cases "184 \<le> pte_index va \<and> pte_index va \<le> 187")
    case False
    then show ?thesis unfolding xlate_def walk_low [OF ok that] by (simp only: if_False option.map)
  next
    case True
    then have k: "pte_index va \<in> {184, 185, 186, 187}" by auto
    have number: "unat va div 0x1000 = pte_index va" using page_number [of va] that by simp
    let ?f = "of_nat (pte_index va * 0x1000) :: u32"
    have f: "page_table_0M_4M ?st ! pte_index va = ?f OR VMEM_OR_MASK" "?f \<in> video_frames"
      using k pte [of "pte_index va"] by (auto simp: initial_pte_def video_frames_def)
    have "xlate ?st va = Some (?f + (va AND 0xFFF), False)"
      by (rule xlate_low_page [OF ok _ _ f number]) (use True in auto)
    then show ?thesis using page_base_offset [of va] number True by simp
  qed
  consider "pde_index va = 0" | "pde_index va = 1" | "pde_index va = 32" | "pde_index va = 33"
    | "pde_index va \<notin> {0, 1, 32, 33}" by auto
  then show ?thesis
  proof cases
    case 1
    have "(184 \<le> pte_index va \<and> pte_index va \<le> 187) \<longleftrightarrow> 0xB8000 \<le> unat va \<and> unat va < 0xBC000"
      using page_number [of va] 1 by (auto simp: )
    then show ?thesis using low [OF 1] 1 by (auto simp: pde_index_range)
  next
    case 2
    then show ?thesis using xlate_kernel [OF ok 2] by (simp add: pde_index_range)
  qed (use walk_user [OF ok, of va] walk_vidmap [OF ok, of va] walk_elsewhere [OF ok, of va] pde in
      \<open>auto simp: xlate_def pde_index_div\<close>)
qed

lemma paging_initialize_maps_witness:
  "xlate (paging_initialize example_boot) 0x400123 = Some (0x400123, False) \<and>
   xlate (paging_initialize example_boot) 0x8048000 = None"
  using paging_initialize_maps [of example_boot "0x400123"] paging_initialize_maps [of example_boot "0x8048000"]
  by (simp add: boot_state_def example_boot_def)

text \<open>\<open>paging_vidmap\<close> gives user code exactly one page of the 4 MB from 132 MB on, the one at
  133 MB, and it is the real video memory whatever the text window is redirected to; nothing else
  changes.\<close>

theorem vidmap_maps:
  assumes "paging_reachable st" "paging_vidmap st = (ret, st')"
  shows "ret = 0 \<and> (\<forall>off. unat off < 0x1000 \<longrightarrow> xlate st' (0x8500000 + off) = Some (0xB8000 + off, True))
    \<and> (\<forall>va. 0x8400000 \<le> unat va \<and> unat va < 0x8800000 \<longrightarrow>
        \<not> (0x8500000 \<le> unat va \<and> unat va < 0x8501000) \<longrightarrow> xlate st' va = None)
    \<and> (\<forall>va. \<not> (0x8400000 \<le> unat va \<and> unat va < 0x8800000) \<longrightarrow> xlate st' va = xlate st va)"
proof -
  have ok: "tables_ok st" "tlb_ok st" using paging_reachable_ok [OF assms(1)] by auto
  have ret: "ret = 0" and st': "st' = snd (paging_vidmap st)" using assms(2) by (auto simp: paging_vidmap_def)
  have ok': "tables_ok st'" unfolding st' using tables_ok_vidmap [OF ok] by blast
  have tables: "page_table_0M_4M st' = page_table_0M_4M st"
    "page_directory st' = (page_directory st)[33 := new_page_table_addr st OR PTABLE_OR_MASK_USER]"
    "new_page_table st' ! 256 = VID_START_ADDR OR UMEM_OR_MASK"
    unfolding st' by (simp_all add: paging_vidmap_def Let_def frame_simps del: upt_rec_numeral)
  have "page_directory st' ! 33 AND 1 = 1"
    unfolding tables(2) using tables_okD(1,5) [OF ok(1)] by (simp add: aligned_or_low)
  then have pde: "page_directory st' ! 33 \<noteq> 0" by auto
  have window: "xlate st' va = (if unat va div 0x1000 = 33 * 1024 + 256
      then Some (0xB8000 + (va AND 0xFFF), True) else None)" if i: "pde_index va = 33" for va
    using walk_vidmap [OF ok' i] pde page_number [of va] i or_disjoint_add [of "0xB8000" "0xFFF" va]
    by (simp add: xlate_def tables(3))
  have "xlate st' (0x8500000 + off) = Some (0xB8000 + off, True)" if "unat off < 0x1000" for off
  proof -
    let ?va = "0x8500000 + off"
    have va: "unat ?va div 0x1000 = 33 * 1024 + 256" "?va AND 0xFFF = off"
      using window_offset [OF that, of "33 * 1024 + 256"] by simp_all
    then have "pde_index ?va = 33" using page_number [of ?va] pte_index_less [of ?va] by linarith
    then show ?thesis using window va by simp
  qed
  moreover have "xlate st' va = None"
    if "0x8400000 \<le> unat va \<and> unat va < 0x8800000" "\<not> (0x8500000 \<le> unat va \<and> unat va < 0x8501000)" for va
    using window [of va] that by (simp add: pde_index_range) linarith
  moreover have "xlate st' va = xlate st va" if "\<not> (0x8400000 \<le> unat va \<and> unat va < 0x8800000)" for va
  proof -
    have "pde_index va \<noteq> 33" using that by (simp add: pde_index_range)
    then have "walk st' va = walk st va"
      using walk_low [OF ok'] walk_low [OF ok(1)] walk_kernel [OF ok'] walk_kernel [OF ok(1)]
        walk_user [OF ok'] walk_user [OF ok(1)] walk_elsewhere [OF ok', of va] walk_elsewhere [OF ok(1), of va]
      by (cases "pde_index va \<in> {0, 1, 32, 33}") (auto simp: tables)
    then show ?thesis by (simp add: xlate_def)
  qed
  ultimately show ?thesis using ret by blast
qed

lemma vidmap_maps_witness:
  "xlate (snd (paging_vidmap (paging_set_write_to_buffer 1 example_run))) 0x8500010 = Some (0xB8010, True)"
proof -
  have "paging_reachable (paging_set_write_to_buffer 1 example_run)"
    by (rule paging_reachable.step [OF example_run_reachable paging_step.write_to_buffer])
  note v = vidmap_maps [OF this, of 0 "snd (paging_vidmap (paging_set_write_to_buffer 1 example_run))"]
  have "paging_vidmap (paging_set_write_to_buffer 1 example_run) =
      (0, snd (paging_vidmap (paging_set_write_to_buffer 1 example_run)))"
    by (simp add: paging_vidmap_def Let_def)
  from conjunct1 [OF conjunct2 [OF v [OF this]], rule_format, of "0x10"] show ?thesis by simp
qed

subsection \<open>What user code can reach\<close>

text \<open>
  The runs with what user code has been given: the process the window was last switched to, and the frame
  behind the page of \<open>vidmap\<close> once a program has asked for it.
\<close>

definition redirect_frame :: "i32 \<Rightarrow> u32" where
  "redirect_frame b = (if b = 0 then T1_BUF_ADDR else if b = 1 then T2_BUF_ADDR
     else if b = 2 then T3_BUF_ADDR else T1_BUF_ADDR)"

inductive paging_run :: "paging_state \<Rightarrow> u32 option \<Rightarrow> u32 option \<Rightarrow> bool" where
  boot: "boot_state st \<Longrightarrow> paging_run (paging_initialize st) None None"
| memory: "paging_run st own video \<Longrightarrow> paging_run (access st va) own video"
| switch: "paging_run st own video \<Longrightarrow> paging_change_process pid st = (0, st') \<Longrightarrow> paging_run st' (Some pid) video"
| refused: "paging_run st own video \<Longrightarrow> paging_change_process pid st = (-1, st') \<Longrightarrow> paging_run st' own video"
| vidmap: "paging_run st own video \<Longrightarrow> paging_vidmap st = (r, st') \<Longrightarrow> paging_run st' own (Some VID_START_ADDR)"
| to_video: "paging_run st own video \<Longrightarrow>
    paging_run (paging_set_write_to_videomem st) own (map_option (\<lambda>_. VID_START_ADDR) video)"
| to_buffer: "paging_run st own video \<Longrightarrow>
    paging_run (paging_set_write_to_buffer b st) own (map_option (\<lambda>_. redirect_frame b) video)"

lemma paging_run_reachable: "paging_run st own video \<Longrightarrow> paging_reachable st"
proof (induction rule: paging_run.induct)
  case (switch st own video pid st')
  then show ?case using paging_reachable.step [OF switch.IH paging_step.change_process [of st pid]] by simp
next
  case (refused st own video pid st')
  then show ?case using paging_reachable.step [OF refused.IH paging_step.change_process [of st pid]] by simp
next
  case (vidmap st own video r st')
  then show ?case using paging_reachable.step [OF vidmap.IH paging_step.vidmap [of st]] by simp
qed (blast intro: paging_reachable.intros paging_step.intros)+

lemma change_process_cases: "paging_change_process pid st = (0, st') \<or> paging_change_process pid st = (-1, st)"
  if "st' = snd (paging_change_process pid st)" for st'
  using that by (simp add: paging_change_process_def Let_def)

lemma paging_reachable_run: "paging_reachable st \<Longrightarrow> \<exists>own video. paging_run st own video"
proof (induction rule: paging_reachable.induct)
  case (step st st')
  then obtain own video where run: "paging_run st own video" by blast
  show ?case using step.hyps(2)
  proof cases
    case (change_process pid)
    then show ?thesis using change_process_cases [of _ pid st] run paging_run.switch by fastforce
  next
    case vidmap
    then show ?thesis using run paging_run.vidmap [OF run] by (metis prod.collapse)
  qed (metis run paging_run.to_video paging_run.to_buffer paging_run.memory)+
qed (use paging_run.boot in blast)

text \<open>What the directory holds then.\<close>

definition given :: "paging_state \<Rightarrow> u32 option \<Rightarrow> u32 option \<Rightarrow> bool" where
  "given st own video \<longleftrightarrow>
     (case own of None \<Rightarrow> page_directory st ! 32 = 0
      | Some pid \<Rightarrow> unat (pid - 1) < 6 \<and> page_directory st ! 32 = user_pde (unat (pid - 1))) \<and>
     (case video of None \<Rightarrow> page_directory st ! 33 = 0
      | Some f \<Rightarrow> page_directory st ! 33 \<noteq> 0 \<and> f \<in> video_frames \<and> new_page_table st ! 256 = f OR UMEM_OR_MASK)"

lemma table_entry_nonzero: "(a :: u32) AND 0xFFF = 0 \<Longrightarrow> a OR PTABLE_OR_MASK_USER \<noteq> 0"
  using aligned_or_low [of a 1 PTABLE_OR_MASK_USER] by auto

lemma given_change_process:
  assumes "given st own video" "tables_ok st" "paging_change_process pid st = (0, st')"
  shows "given st' (Some pid) video"
proof -
  have pid: "\<not> pid - 1 > 5" using assms(3) by (auto simp: paging_change_process_def Let_def split: if_splits)
  then obtain p where p: "p < 6" "pid - 1 = of_nat p" using pid_minus_1 by blast
  have "st' = flush_tlb (st\<lparr>page_directory := (page_directory st)[32 := user_pde p]\<rparr>)"
    using pid assms(3) unfolding paging_change_process_def Let_def p(2) by (simp add: user_pde_def)
  then show ?thesis
    using assms(1) tables_okD(1) [OF assms(2)] p by (cases video) (simp_all add: given_def frame_simps)
qed

lemma given_video_frame:
  assumes "given st own video" "tables_ok st" "f \<in> video_frames"
  shows "given (set_video_frame f st) own (map_option (\<lambda>_. f) video)"
  using assms tables_okD(3) [OF assms(2)]
  by (cases own; cases video) (simp_all add: given_def set_video_frame_def frame_simps)

lemma paging_run_given: "paging_run st own video \<Longrightarrow> given st own video"
proof (induction rule: paging_run.induct)
  case (boot st)
  then show ?case
    by (simp add: given_def paging_initialize_def Let_def write_cr3_def initial_pde_def del: upt_rec_numeral)
next
  case (memory st own video va)
  then show ?case by (cases own; cases video) (simp_all add: given_def access_def)
next
  case (switch st own video pid st')
  then show ?case using given_change_process paging_reachable_ok paging_run_reachable by blast
next
  case (refused st own video pid st')
  then have "st' = st" by (auto simp: paging_change_process_def Let_def split: if_splits)
  then show ?case using refused.IH by simp
next
  case (vidmap st own video r st')
  then have "tables_ok st" using paging_reachable_ok paging_run_reachable by blast
  then show ?case
    using vidmap.IH vidmap.hyps(2) tables_okD(1,5) [of st] table_entry_nonzero
    by (cases own) (auto simp: given_def paging_vidmap_def Let_def frame_simps video_frames_def simp del: upt_rec_numeral)
next
  case (to_video st own video)
  then have "tables_ok st" using paging_reachable_ok paging_run_reachable by blast
  from given_video_frame [OF to_video.IH this] show ?case
    by (simp add: paging_set_write_to_videomem_def video_frames_def)
next
  case (to_buffer st own video b)
  then have "tables_ok st" using paging_reachable_ok paging_run_reachable by blast
  from given_video_frame [OF to_buffer.IH this, of "redirect_frame b"] show ?case
    by (simp add: paging_set_write_to_buffer_def video_frames_def redirect_frame_def)
qed

lemma xlate_index_32:
  assumes "tables_ok st" "given st own video" "pde_index va = 32"
  shows "xlate st va = map_option (\<lambda>pid. (0x800000 + 0x400000 * (pid - 1) + (va AND 0x3FFFFF), True)) own"
proof (cases own)
  case None
  then show ?thesis using assms(2) walk_user [OF assms(1,3)] by (simp add: given_def xlate_def)
next
  case (Some pid)
  then have "unat (pid - 1) < 6" "page_directory st ! 32 = user_pde (unat (pid - 1))"
    using assms(2) by (simp_all add: given_def)
  from xlate_user [OF assms(1,3) this] show ?thesis by (simp add: Some)
qed

lemma xlate_index_33:
  assumes "tables_ok st" "given st own video" "pde_index va = 33"
  shows "xlate st va = (if unat va div 0x1000 = 0x8500
    then map_option (\<lambda>f. (f + (va AND 0xFFF), True)) video else None)"
proof (cases video)
  case None
  then show ?thesis using assms(2) walk_vidmap [OF assms(1,3)] by (simp add: given_def xlate_def)
next
  case (Some f)
  then have f: "page_directory st ! 33 \<noteq> 0" "f \<in> video_frames" "new_page_table st ! 256 = f OR UMEM_OR_MASK"
    using assms(2) by (simp_all add: given_def)
  then have "new_page_table st ! 256 \<noteq> 0" "new_page_table st ! 256 AND 0xFFFFF000 = f"
    "f OR (va AND 0xFFF) = f + (va AND 0xFFF)"
    using or_disjoint_add [of f "0xFFF" va] by (auto simp: video_frames_def)
  then show ?thesis
    using walk_vidmap [OF assms(1,3)] f(1) page_number [of va] assms(3) by (simp add: xlate_def Some)
qed

lemma given_pid:
  assumes "unat (pid - 1 :: u32) < 6"
  shows "1 \<le> unat pid \<and> unat pid \<le> 6 \<and> (\<exists>p < 6. pid - 1 = of_nat p)"
proof -
  have "pid = of_nat (unat (pid - 1) + 1)" by simp
  then have "unat pid = unat (pid - 1) + 1" using assms unat_of_nat_u32 [of "unat (pid - 1) + 1"] by simp
  then show ?thesis using assms by (intro conjI exI [of _ "unat (pid - 1)"]) simp_all
qed

text \<open>[C18] User code can reach exactly what it has been given. In every state the paging operations and memory
  accesses can reach, in any order, where \<open>own\<close> is the process the window was last switched to and \<open>video\<close> the
  frame \<open>vidmap\<close> has been given and the redirections have set since: user code can translate an address if and
  only if it lies in the window at 128 MB, and then it reaches the byte at its offset in the 4 MB of that very
  process, or in the page of \<open>vidmap\<close>, and then it reaches the byte at its offset in that frame. Before a switch
  there is no window and before \<open>vidmap\<close> no video page. The frame is one of the four video pages and the 4 MB lie
  between 8 MB and 32 MB, so no address of the kernel's page is among them. (The page of \<open>vidmap\<close> is never taken
  away again: it stays when the window is switched to another process.)\<close>

theorem kernel_memory_protected:
  assumes "paging_run st own video"
  shows "(xlate st va = Some (pa, True) \<longleftrightarrow>
      (\<exists>pid. own = Some pid \<and> 0x8000000 \<le> unat va \<and> unat va < 0x8400000 \<and>
         pa = 0x800000 + 0x400000 * (pid - 1) + (va AND 0x3FFFFF)) \<or>
      (\<exists>f. video = Some f \<and> 0x8500000 \<le> unat va \<and> unat va < 0x8501000 \<and> pa = f + (va AND 0xFFF)))
    \<and> (\<forall>pid. own = Some pid \<longrightarrow> 1 \<le> unat pid \<and> unat pid \<le> 6)
    \<and> (\<forall>f. video = Some f \<longrightarrow> f \<in> {0xB8000, 0xB9000, 0xBA000, 0xBB000})
    \<and> (xlate st va = Some (pa, True) \<longrightarrow>
        (0x800000 \<le> unat pa \<and> unat pa < 0x2000000) \<or> (0xB8000 \<le> unat pa \<and> unat pa < 0xBC000))"
proof -
  have ok: "tables_ok st" using paging_reachable_ok [OF paging_run_reachable [OF assms]] by blast
  note given = paging_run_given [OF assms]
  have pid: "1 \<le> unat pid \<and> unat pid \<le> 6 \<and> (\<exists>p < 6. pid - 1 = of_nat p)" if "own = Some pid" for pid
    using given that given_pid [of pid] by (simp add: given_def)
  have frame: "f \<in> {0xB8000, 0xB9000, 0xBA000, 0xBB000}" if "video = Some f" for f
    using given that by (simp add: given_def video_frames_def)
  have reach: "xlate st va = Some (pa, True) \<longleftrightarrow>
      (\<exists>pid. own = Some pid \<and> pde_index va = 32 \<and> pa = 0x800000 + 0x400000 * (pid - 1) + (va AND 0x3FFFFF)) \<or>
      (\<exists>f. video = Some f \<and> unat va div 0x1000 = 0x8500 \<and> pa = f + (va AND 0xFFF))"
  proof -
    have index: "unat va div 0x1000 = 0x8500 \<Longrightarrow> pde_index va = 33"
      using page_number [of va] pte_index_less [of va] by linarith
    have "pde_index va = 32 \<or> pde_index va = 33" if "xlate st va = Some (pa, True)"
      using that walk_user_index [OF ok, of va] by (auto simp: xlate_def)
    then consider "pde_index va = 32" | "pde_index va = 33" | "pde_index va \<notin> {32, 33}" "xlate st va \<noteq> Some (pa, True)" by blast
    then show ?thesis
    proof cases
      case 1
      then show ?thesis using xlate_index_32 [OF ok given 1] index by auto
    next
      case 2
      then show ?thesis using xlate_index_33 [OF ok given 2] by auto
    qed (use index in auto)
  qed
  have range: "(pde_index va = 32 \<longleftrightarrow> 0x8000000 \<le> unat va \<and> unat va < 0x8400000)"
    "(unat va div 0x1000 = 0x8500 \<longleftrightarrow> 0x8500000 \<le> unat va \<and> unat va < 0x8501000)"
    by (simp add: pde_index_range) linarith
  have "(0x800000 \<le> unat pa \<and> unat pa < 0x2000000) \<or> (0xB8000 \<le> unat pa \<and> unat pa < 0xBC000)"
    if user: "xlate st va = Some (pa, True)"
    using user unfolding reach
  proof (elim disjE exE conjE)
    fix i assume own: "own = Some i" and pa: "pa = 0x800000 + 0x400000 * (i - 1) + (va AND 0x3FFFFF)"
    obtain p where p: "p < 6" "i - 1 = of_nat p" using pid [OF own] by blast
    show ?thesis
      using unat_add_and [of "0x800000 + 0x400000 * of_nat p" va] unat_user_base [OF p(1)] unat_and_mask(1) [of va] p(1)
      unfolding pa p(2) by auto
  next
    fix f assume f: "video = Some f" "pa = f + (va AND 0xFFF)"
    then show ?thesis using frame [OF f(1)] unat_and_mask(2) [of va] by (auto simp: unat_word_ariths)
  qed
  then show ?thesis using reach pid frame unfolding range by blast
qed

text \<open>Process 2 runs after process 1 has called \<open>vidmap\<close>: it reaches its own memory and the page.\<close>

lemma kernel_memory_protected_witness:
  "\<exists>st. paging_run st (Some 2) (Some 0xB8000) \<and> xlate st 0x8048000 = Some (0xC48000, True) \<and>
    xlate st 0x8500010 = Some (0xB8010, True) \<and> (\<forall>pa. xlate st 0x400000 \<noteq> Some (pa, True))"
proof -
  define st0 where "st0 = snd (paging_vidmap (paging_initialize example_boot))"
  define st where "st = snd (paging_change_process 2 st0)"
  have "paging_run (paging_initialize example_boot) None None"
    by (rule paging_run.boot) (simp add: boot_state_def example_boot_def)
  then have "paging_run st0 None (Some VID_START_ADDR)"
    by (rule paging_run.vidmap [of _ _ _ 0]) (simp add: st0_def paging_vidmap_def Let_def)
  then have run: "paging_run st (Some 2) (Some VID_START_ADDR)"
    by (rule paging_run.switch) (simp add: st_def paging_change_process_def Let_def)
  have "xlate st 0x8048000 = Some (0xC48000, True)" "xlate st 0x8500010 = Some (0xB8010, True)"
    "xlate st 0x400000 \<noteq> Some (pa, True)" for pa
    using kernel_memory_protected [OF run, of "0x8048000" "0xC48000"] kernel_memory_protected [OF run, of "0x8500010" "0xB8010"]
      kernel_memory_protected [OF run, of "0x400000" pa] by simp_all
  with run show ?thesis by blast
qed

end
