(* ===== verification/Console.thy ===== *)
theory Console imports LibMem Paging begin

text \<open>
  The text console: the cursor bookkeeping of \<open>scheduler.c\<close>, the character output of \<open>lib.c\<close>
  (\<open>putc\<close>, \<open>putc_modified\<close>, \<open>scroll\<close>, \<open>scroll_modified\<close>, \<open>handlebackspace\<close>, \<open>clear\<close>, \<open>puts\<close>),
  the hardware cursor of \<open>terminal.c\<close> and the screen switch of \<open>switch_terminals\<close>.

  The state holds the page tables, the physical memory and the scheduler's global object. The
  pointer \<open>video_mem\<close> is the virtual address \<open>0xB8000\<close>; what it reaches is the frame of page table
  entry 184, which the theory of the page tables shows to be the video memory or the backing
  buffer of a terminal. Terminal numbers are natural numbers (the code only ever stores 0, 1 and
  2), cursor coordinates are integers.
\<close>

subsection \<open>State\<close>

record terminal =
  lb :: "u8 list"
  noc :: int
  t_esp :: i32
  t_ebp :: i32
  t_pid :: u32
  screen_x :: int
  screen_y :: int

record scheduler =
  terminals :: "terminal list"
  vid_bufs :: "u32 list"
  visable_term :: nat
  current_term :: nat
  is_on :: "u8 list"
  exe_bytes :: "u8 list"

record console =
  paging :: paging_state
  phys :: mem
  sched :: scheduler
  crtc_index :: u8
  crtc_reg :: "u8 \<Rightarrow> u8"

abbreviation (input) "NUM_COLS \<equiv> 80"
abbreviation (input) "NUM_ROWS \<equiv> 25"
abbreviation (input) "ATTRIB \<equiv> (7 :: u8)"

text \<open>A terminal is addressed either as the visible or as the scheduled one.\<close>

type_synonym 'a selector = "'a console_scheme \<Rightarrow> nat"

definition visible :: "'a selector" where
  "visible k = visable_term (sched k)"

definition current :: "'a selector" where
  "current k = current_term (sched k)"

definition upd_terminal :: "nat \<Rightarrow> (terminal \<Rightarrow> terminal) \<Rightarrow> 'a console_scheme \<Rightarrow> 'a console_scheme" where
  "upd_terminal t f k = k\<lparr>sched := (sched k)\<lparr>terminals :=
     (terminals (sched k))[t := f (terminals (sched k) ! t)]\<rparr>\<rparr>"

definition get_screen_x :: "'a selector \<Rightarrow> 'a console_scheme \<Rightarrow> int" where
  "get_screen_x sel k = screen_x (terminals (sched k) ! sel k)"

definition get_screen_y :: "'a selector \<Rightarrow> 'a console_scheme \<Rightarrow> int" where
  "get_screen_y sel k = screen_y (terminals (sched k) ! sel k)"

definition set_screen_x :: "'a selector \<Rightarrow> int \<Rightarrow> 'a console_scheme \<Rightarrow> 'a console_scheme" where
  "set_screen_x sel x k = upd_terminal (sel k) (screen_x_update (\<lambda>_. x)) k"

definition set_screen_y :: "'a selector \<Rightarrow> int \<Rightarrow> 'a console_scheme \<Rightarrow> 'a console_scheme" where
  "set_screen_y sel y k = upd_terminal (sel k) (screen_y_update (\<lambda>_. y)) k"

definition get_global_screen_x :: "'a console_scheme \<Rightarrow> int" where
  "get_global_screen_x = get_screen_x visible"

definition get_global_screen_y :: "'a console_scheme \<Rightarrow> int" where
  "get_global_screen_y = get_screen_y visible"

definition set_global_screen_x :: "int \<Rightarrow> 'a console_scheme \<Rightarrow> 'a console_scheme" where
  "set_global_screen_x = set_screen_x visible"

definition set_global_screen_y :: "int \<Rightarrow> 'a console_scheme \<Rightarrow> 'a console_scheme" where
  "set_global_screen_y = set_screen_y visible"

definition get_current_screen_x :: "'a console_scheme \<Rightarrow> int" where
  "get_current_screen_x = get_screen_x current"

definition get_current_screen_y :: "'a console_scheme \<Rightarrow> int" where
  "get_current_screen_y = get_screen_y current"

definition set_current_screen_x :: "int \<Rightarrow> 'a console_scheme \<Rightarrow> 'a console_scheme" where
  "set_current_screen_x = set_screen_x current"

definition set_current_screen_y :: "int \<Rightarrow> 'a console_scheme \<Rightarrow> 'a console_scheme" where
  "set_current_screen_y = set_screen_y current"


definition setposition :: "int \<Rightarrow> int \<Rightarrow> 'a console_scheme \<Rightarrow> 'a console_scheme" where
  "setposition x y k = set_global_screen_y y (set_global_screen_x x k)"

subsection \<open>Video memory\<close>

text \<open>The physical frame behind \<open>video_mem\<close>, and a byte store through that pointer.\<close>

definition window_frame :: "'a console_scheme \<Rightarrow> u32" where
  "window_frame k = page_table_0M_4M (paging k) ! 184 AND 0xFFFFF000"

definition video_store :: "int \<Rightarrow> u8 \<Rightarrow> 'a console_scheme \<Rightarrow> 'a console_scheme" where
  "video_store off b k = k\<lparr>phys := (phys k)(window_frame k + word_of_int off := b)\<rparr>"

definition video_load :: "int \<Rightarrow> 'a console_scheme \<Rightarrow> u8" where
  "video_load off k = phys k (window_frame k + word_of_int off)"

definition clear_cell :: "nat \<Rightarrow> 'a console_scheme \<Rightarrow> 'a console_scheme" where
  "clear_cell i k = video_store (2 * int i + 1) ATTRIB (video_store (2 * int i) (chr8 CHR '' '') k)"

definition clear :: "'a console_scheme \<Rightarrow> 'a console_scheme" where
  "clear k = fold clear_cell [0..<NUM_ROWS * NUM_COLS] k"

definition scroll_cell :: "nat \<Rightarrow> nat \<Rightarrow> 'a console_scheme \<Rightarrow> 'a console_scheme" where
  "scroll_cell y x k =
     (let i = NUM_COLS * y + x;
          j = NUM_COLS * (y + 1) + x;
          k = (if y = NUM_ROWS - 1 then video_store (2 * int i) (chr8 CHR '' '') k
               else video_store (2 * int i) (video_load (2 * int j) k) k)
      in video_store (2 * int i + 1) ATTRIB k)"

definition scroll_screen :: "'a console_scheme \<Rightarrow> 'a console_scheme" where
  "scroll_screen k = fold (\<lambda>y. fold (scroll_cell y) [0..<NUM_COLS]) [0..<NUM_ROWS] k"

definition scroll_with :: "'a selector \<Rightarrow> 'a console_scheme \<Rightarrow> 'a console_scheme" where
  "scroll_with sel k = set_screen_x sel 0 (set_screen_y sel (NUM_ROWS - 1) (scroll_screen k))"

definition scroll :: "'a console_scheme \<Rightarrow> 'a console_scheme" where
  "scroll = scroll_with visible"

definition scroll_modified :: "'a console_scheme \<Rightarrow> 'a console_scheme" where
  "scroll_modified = scroll_with current"


subsection \<open>The hardware cursor\<close>

text \<open>The CRT controller: port \<open>0x3D4\<close> selects a register, port \<open>0x3D5\<close> writes it.\<close>

definition crtc_outb :: "u8 \<Rightarrow> u16 \<Rightarrow> 'a console_scheme \<Rightarrow> 'a console_scheme" where
  "crtc_outb v port k =
     (if port = 0x3D4 then k\<lparr>crtc_index := v\<rparr>
      else if port = 0x3D5 then k\<lparr>crtc_reg := (crtc_reg k)(crtc_index k := v)\<rparr>
      else k)"

definition update_cursor :: "'a console_scheme \<Rightarrow> 'a console_scheme" where
  "update_cursor k =
     (let x = get_global_screen_x k;
          y = get_global_screen_y k;
          pos = y * 80 + x;
          k = crtc_outb 0x0F 0x3D4 k;
          k = crtc_outb (word_of_int (pos AND 0xFF)) 0x3D5 k;
          k = crtc_outb 0x0E 0x3D4 k;
          pos = drop_bit 8 pos
      in crtc_outb (word_of_int (pos AND 0xFF)) 0x3D5 k)"

subsection \<open>Character output\<close>

definition putc_with :: "'a selector \<Rightarrow> u8 \<Rightarrow> 'a console_scheme \<Rightarrow> 'a console_scheme" where
  "putc_with sel c k =
     (if c = 10 \<or> c = 13 then
        let k = set_screen_y sel (get_screen_y sel k + 1) k;
            k = (if \<not> get_screen_y sel k < NUM_ROWS then scroll_with sel k else k)
        in set_screen_x sel 0 k
      else
        let k = video_store (2 * (NUM_COLS * get_screen_y sel k + get_screen_x sel k)) c k;
            k = video_store (2 * (NUM_COLS * get_screen_y sel k + get_screen_x sel k) + 1) ATTRIB k;
            k = set_screen_x sel (get_screen_x sel k + 1) k;
            k = (if \<not> get_screen_x sel k < NUM_COLS then
                   let k = set_screen_y sel (get_screen_y sel k + 1) k in
                   if \<not> get_screen_y sel k < NUM_ROWS then scroll_with sel k
                   else set_screen_x sel 0 k
                 else set_screen_x sel (get_screen_x sel k mod NUM_COLS) k)
        in if \<not> get_screen_y sel k < NUM_ROWS then scroll_with sel k
           else set_screen_y sel ((get_screen_y sel k + get_screen_x sel k div NUM_COLS) mod NUM_ROWS) k)"

definition putc :: "u8 \<Rightarrow> 'a console_scheme \<Rightarrow> 'a console_scheme" where
  "putc c k = update_cursor (putc_with visible c k)"

definition putc_modified :: "u8 \<Rightarrow> 'a console_scheme \<Rightarrow> 'a console_scheme" where
  "putc_modified c k = putc_with current c k"

definition handlebackspace :: "'a console_scheme \<Rightarrow> 'a console_scheme" where
  "handlebackspace k =
     (let k = (if get_global_screen_x k - 1 < 0 then
                 (if get_global_screen_y k \<noteq> 0 then
                    let k = set_global_screen_y (get_global_screen_y k - 1) k
                    in set_global_screen_x (NUM_COLS - 1) k
                  else k)
               else set_global_screen_x (get_global_screen_x k - 1) k);
          k = update_cursor k;
          i = NUM_COLS * get_global_screen_y k + get_global_screen_x k;
          k = video_store (2 * i) (chr8 CHR '' '') k
      in video_store (2 * i + 1) ATTRIB k)"

subsection \<open>Switching the visible terminal\<close>

text \<open>
  The copies run between pages that are mapped to themselves at this point, so they act on the
  physical memory. The interrupt flag is not part of this state.
\<close>

definition switch_terminals :: "nat \<Rightarrow> 'a console_scheme \<Rightarrow> 'a console_scheme" where
  "switch_terminals next_terminal k =
     (let prev_terminal = visable_term (sched k);
          prev_terminal_buf = vid_bufs (sched k) ! prev_terminal
      in if next_terminal = prev_terminal then k
      else let k = k\<lparr>sched := (sched k)\<lparr>visable_term := next_terminal\<rparr>\<rparr>;
               k = update_cursor k;
               next_terminal_buf = vid_bufs (sched k) ! next_terminal;
               vmem = 0xB8000;
               k = k\<lparr>paging := paging_set_write_to_videomem (paging k)\<rparr>;
               k = k\<lparr>phys := memcpy (phys k) prev_terminal_buf vmem 4096\<rparr>;
               k = k\<lparr>phys := memcpy (phys k) vmem next_terminal_buf 4096\<rparr>
           in if current_term (sched k) \<noteq> visable_term (sched k)
              then k\<lparr>paging := paging_set_write_to_buffer (of_nat (current_term (sched k))) (paging k)\<rparr>
              else k)"


subsection \<open>\<open>terminal_write\<close>\<close>

text \<open>A byte behind a pointer of the running process: \<open>None\<close> is a page fault.\<close>

definition user_load :: "u32 \<Rightarrow> 'a console_scheme \<Rightarrow> u8 option" where
  "user_load va k = map_option (\<lambda>(pa, _). phys k pa) (xlate (paging k) va)"

fun write_bytes :: "u32 \<Rightarrow> nat \<Rightarrow> nat \<Rightarrow> 'a console_scheme \<Rightarrow> 'a console_scheme option" where
  "write_bytes buf i 0 k = Some k"
| "write_bytes buf i (Suc n) k = do {
     c \<leftarrow> user_load (buf + of_nat i) k;
     write_bytes buf (i + 1) n (putc_modified c k)
   }"

definition terminal_write :: "i32 \<Rightarrow> u32 \<Rightarrow> i32 \<Rightarrow> 'a console_scheme \<Rightarrow> (i32 \<times> 'a console_scheme) option" where
  "terminal_write fd buf nbytes k = do {
     k \<leftarrow> write_bytes buf 0 (nat (sint nbytes)) k;
     Some (0, update_cursor k)
   }"

subsection \<open>Abstract screen\<close>

text \<open>A screen as its 2000 characters and the cursor, with the effect of one character on it.\<close>

type_synonym screen = "u8 list \<times> nat \<times> nat"

definition spec_newline :: "screen \<Rightarrow> screen" where
  "spec_newline = (\<lambda>(cs, x, y).
     if y = 24 then (drop 80 cs @ replicate 80 32, 0, 24) else (cs, 0, y + 1))"

definition spec_putc :: "u8 \<Rightarrow> screen \<Rightarrow> screen" where
  "spec_putc c = (\<lambda>(cs, x, y).
     if c = 10 \<or> c = 13 then spec_newline (cs, x, y)
     else if x = 79 then spec_newline (cs[80 * y + x := c], x, y)
     else (cs[80 * y + x := c], x + 1, y))"

text \<open>The address at a distance of \<open>n\<close> from a frame.\<close>

definition at_offset :: "u32 \<Rightarrow> nat \<Rightarrow> u32" where
  "at_offset f n = f + of_nat n"

definition cells :: "u32 \<Rightarrow> mem \<Rightarrow> u8 list" where
  "cells f m = map (\<lambda>i. m (at_offset f (2 * i))) [0..<2000]"

definition shown :: "'a selector \<Rightarrow> 'a console_scheme \<Rightarrow> screen" where
  "shown sel k = (cells (window_frame k) (phys k), nat (get_screen_x sel k), nat (get_screen_y sel k))"

definition cursor_ok :: "terminal \<Rightarrow> bool" where
  "cursor_ok t \<longleftrightarrow> 0 \<le> screen_x t \<and> screen_x t < 80 \<and> 0 \<le> screen_y t \<and> screen_y t < 25"

subsection \<open>Cells of a frame\<close>

lemma eq_offset: "n < 4294967296 \<Longrightarrow> a = at_offset f n \<longleftrightarrow> unat (a - f) = n"
proof
  assume "unat (a - f) = n"
  then have "of_nat n = a - f" by auto
  then show "a = at_offset f n" by (simp add: at_offset_def)
qed (simp add: at_offset_def)

lemma unat_at_offset: "n < 4294967296 \<Longrightarrow> unat (at_offset f n - f) = n"
  by (simp add: at_offset_def)

lemma at_offset_eq:
  "n < 4294967296 \<Longrightarrow> n' < 4294967296 \<Longrightarrow> at_offset f n' = at_offset f n \<longleftrightarrow> n' = n"
  by (simp add: eq_offset unat_at_offset)

lemma word_of_int_offset:
  "f + word_of_int (2 * int i) = at_offset f (2 * i)"
  "f + word_of_int (2 * int i + 1) = at_offset f (2 * i + 1)"
  by (simp_all add: at_offset_def)

lemma length_cells [simp]: "length (cells f m) = 2000"
  by (simp add: cells_def del: upt_rec_numeral)

lemma nth_cells [simp]: "i < 2000 \<Longrightarrow> cells f m ! i = m (at_offset f (2 * i))"
  by (simp add: cells_def del: upt_rec_numeral)

lemma cells_store: "i < 2000 \<Longrightarrow> cells f (m(at_offset f (2 * i) := c)) = (cells f m)[i := c]"
  by (intro nth_equalityI) (auto simp: nth_list_update at_offset_eq)

lemma odd_offset: "i < 2000 \<Longrightarrow> j < 2000 \<Longrightarrow> at_offset f (2 * j) \<noteq> at_offset f (2 * i + 1)"
  by (simp add: at_offset_eq) presburger

lemma cells_store_attrib: "i < 2000 \<Longrightarrow> cells f (m(at_offset f (2 * i + 1) := c)) = cells f m"
  by (intro nth_equalityI) (auto simp: odd_offset [unfolded Suc_eq_plus1 [symmetric]])

lemma cells_store_cell:
  "i < 2000 \<Longrightarrow> cells f (m(at_offset f (2 * i) := c, at_offset f (2 * i + 1) := b)) = (cells f m)[i := c]"
  by (simp only: cells_store_attrib cells_store)

text \<open>A frame whose first \<open>n\<close> cells have been scrolled, and one whose first \<open>n\<close> are cleared.\<close>

definition scrolled :: "u32 \<Rightarrow> nat \<Rightarrow> mem \<Rightarrow> mem" where
  "scrolled f n m = (\<lambda>a. let d = unat (a - f) in
     if d < 2 * n then (if even d then (if d < 3840 then m (at_offset f (d + 160)) else 32) else 7) else m a)"

definition cleared :: "u32 \<Rightarrow> nat \<Rightarrow> mem \<Rightarrow> mem" where
  "cleared f n m = (\<lambda>a. let d = unat (a - f) in
     if d < 2 * n then (if even d then 32 else 7) else m a)"

lemma next_cell: "d < 2 * (n + 1) \<longleftrightarrow> d < 2 * n \<or> d = 2 * n \<or> d = 2 * n + (1 :: nat)"
  by auto

lemma scrolled_step:
  assumes "n < 2000"
  shows "(scrolled f n m)(at_offset f (2 * n) :=
      (if n < 1920 then scrolled f n m (at_offset f (2 * (n + 80))) else 32),
      at_offset f (2 * n + 1) := 7) = scrolled f (n + 1) m" (is "?new = _")
proof (rule ext)
  fix a
  have read: "scrolled f n m (at_offset f (2 * (n + 80))) = m (at_offset f (2 * n + 160))"
    using assms by (simp add: scrolled_def Let_def unat_at_offset algebra_simps)
  consider "a = at_offset f (2 * n + 1)" | "a \<noteq> at_offset f (2 * n + 1)" "a = at_offset f (2 * n)"
    | "a \<noteq> at_offset f (2 * n + 1)" "a \<noteq> at_offset f (2 * n)" by blast
  then show "?new a = scrolled f (n + 1) m a"
  proof cases
    case 1
    then show ?thesis using assms by (simp add: scrolled_def Let_def unat_at_offset)
  next
    case 2
    have "scrolled f (n + 1) m (at_offset f (2 * n)) =
        (if n < 1920 then m (at_offset f (2 * n + 160)) else 32)"
      using assms by (simp add: scrolled_def Let_def unat_at_offset)
    then show ?thesis using 2 read by simp
  next
    case 3
    then have "unat (a - f) \<noteq> 2 * n" "unat (a - f) \<noteq> 2 * n + 1"
      using assms eq_offset [of "2 * n" a f] eq_offset [of "2 * n + 1" a f] by simp_all
    then have "unat (a - f) < 2 * (n + 1) \<longleftrightarrow> unat (a - f) < 2 * n"
      using next_cell by blast
    then show ?thesis using 3 unfolding scrolled_def Let_def by (simp only: fun_upd_def if_False)
  qed
qed

lemma cleared_step:
  assumes "n < 2000"
  shows "(cleared f n m)(at_offset f (2 * n) := 32, at_offset f (2 * n + 1) := 7) = cleared f (n + 1) m"
    (is "?new = _")
proof (rule ext)
  fix a
  have "a = at_offset f (2 * n + 1) \<longleftrightarrow> unat (a - f) = 2 * n + 1" "a = at_offset f (2 * n) \<longleftrightarrow> unat (a - f) = 2 * n"
    using assms by (simp_all add: eq_offset)
  then show "?new a = cleared f (n + 1) m a"
    using next_cell [of "unat (a - f)" n] by (simp add: cleared_def Let_def)
qed

lemma cells_scrolled: "cells f (scrolled f 2000 m) = drop 80 (cells f m) @ replicate 80 32"
proof (rule nth_equalityI)
  fix i assume "i < length (cells f (scrolled f 2000 m))"
  then have i: "i < 2000" by simp
  then have "scrolled f 2000 m (at_offset f (2 * i)) =
      (if i < 1920 then m (at_offset f (2 * (i + 80))) else 32)"
    by (simp add: scrolled_def Let_def unat_at_offset algebra_simps)
  then show "cells f (scrolled f 2000 m) ! i = (drop 80 (cells f m) @ replicate 80 32) ! i"
    using i by (simp add: nth_append add.commute)
qed simp

lemma cells_cleared: "cells f (cleared f 2000 m) = replicate 2000 32"
proof (rule nth_equalityI)
  fix i assume "i < length (cells f (cleared f 2000 m))"
  then show "cells f (cleared f 2000 m) ! i = replicate 2000 32 ! i"
    by (simp add: cleared_def Let_def unat_at_offset)
qed simp

subsection \<open>The loops over the screen\<close>

lemma fold_rows:
  "fold (\<lambda>y. fold (g y) [0..<c]) [0..<r] k = fold (\<lambda>i. g (i div c) (i mod c)) [0..<r * c] k"
proof (induction r)
  case 0
  then show ?case by simp
next
  case (Suc r)
  have "[r * c..<r * c + c] = map (\<lambda>x. x + r * c) [0..<c]"
    by (subst map_add_upt) (simp add: add.commute)
  then have "[0..<Suc r * c] = [0..<r * c] @ map (\<lambda>x. x + r * c) [0..<c]"
    using upt_add_eq_append [of 0 "r * c" c] by (simp add: add.commute)
  moreover have "fold (\<lambda>i. g (i div c) (i mod c)) (map (\<lambda>x. x + r * c) [0..<c]) k' = fold (g r) [0..<c] k'" for k'
    unfolding fold_map comp_def by (rule fold_cong) auto
  ultimately show ?case using Suc.IH by simp
qed

lemma window_frame_simps [simp]:
  "window_frame (k\<lparr>phys := p\<rparr>) = window_frame k" "window_frame (k\<lparr>sched := s\<rparr>) = window_frame k"
  "window_frame (k\<lparr>crtc_index := i\<rparr>) = window_frame k" "window_frame (k\<lparr>crtc_reg := r\<rparr>) = window_frame k"
  by (simp_all add: window_frame_def)

lemma video_store_offset:
  "video_store (2 * int i) b k = k\<lparr>phys := (phys k)(at_offset (window_frame k) (2 * i) := b)\<rparr>"
  "video_store (2 * int i + 1) b k = k\<lparr>phys := (phys k)(at_offset (window_frame k) (2 * i + 1) := b)\<rparr>"
  unfolding video_store_def word_of_int_offset by (rule refl)+

lemma video_load_offset: "video_load (2 * int i) k = phys k (at_offset (window_frame k) (2 * i))"
  unfolding video_load_def word_of_int_offset by (rule refl)

lemma clear_cells:
  "n \<le> 2000 \<Longrightarrow> fold clear_cell [0..<n] k = k\<lparr>phys := cleared (window_frame k) n (phys k)\<rparr>"
proof (induction n)
  case 0
  then show ?case by (simp add: cleared_def)
next
  case (Suc n)
  then show ?case
    using cleared_step [of n "window_frame k" "phys k"]
    by (simp add: clear_cell_def video_store_offset)
qed

lemma scroll_cell_step:
  assumes "n < 2000" "phys k = scrolled (window_frame k) n m"
  shows "scroll_cell (n div 80) (n mod 80) k = k\<lparr>phys := scrolled (window_frame k) (n + 1) m\<rparr>"
proof -
  have row: "n div 80 = 25 - 1 \<longleftrightarrow> \<not> n < 1920" using assms(1) by auto
  have i: "80 * (n div 80) + n mod 80 = n" and j: "80 * (n div 80 + 1) + n mod 80 = n + 80" by simp_all
  have "scroll_cell (n div 80) (n mod 80) k = k\<lparr>phys := (phys k)(at_offset (window_frame k) (2 * n) :=
      (if n < 1920 then phys k (at_offset (window_frame k) (2 * (n + 80))) else 32),
      at_offset (window_frame k) (2 * n + 1) := 7)\<rparr>"
    unfolding scroll_cell_def Let_def i j row video_store_offset video_load_offset by simp
  then show ?thesis
    using scrolled_step [OF assms(1), of "window_frame k" m] unfolding assms(2) by simp
qed

lemma scroll_cells:
  "n \<le> 2000 \<Longrightarrow> fold (\<lambda>i. scroll_cell (i div 80) (i mod 80)) [0..<n] k =
    k\<lparr>phys := scrolled (window_frame k) n (phys k)\<rparr>"
proof (induction n)
  case 0
  then show ?case by (simp add: scrolled_def)
next
  case (Suc n)
  let ?k = "k\<lparr>phys := scrolled (window_frame k) n (phys k)\<rparr>"
  have "fold (\<lambda>i. scroll_cell (i div 80) (i mod 80)) [0..<Suc n] k = scroll_cell (n div 80) (n mod 80) ?k"
    using Suc by simp
  also have "\<dots> = k\<lparr>phys := scrolled (window_frame k) (Suc n) (phys k)\<rparr>"
    using Suc.prems scroll_cell_step [of n ?k "phys k"] by simp
  finally show ?case .
qed

lemma clear_phys: "clear k = k\<lparr>phys := cleared (window_frame k) 2000 (phys k)\<rparr>"
  using clear_cells [of 2000 k] by (simp add: clear_def del: upt_rec_numeral)

lemma scroll_screen_phys: "scroll_screen k = k\<lparr>phys := scrolled (window_frame k) 2000 (phys k)\<rparr>"
  using scroll_cells [of 2000 k] unfolding scroll_screen_def fold_rows by (simp del: upt_rec_numeral)


subsection \<open>Characters refine the abstract screen\<close>

text \<open>What the output routines need of the way a terminal is selected.\<close>

locale screen_selector =
  fixes sel :: "'a selector"
  assumes sel_phys: "sel (k\<lparr>phys := p\<rparr>) = sel k"
    and sel_upd: "sel (upd_terminal t f k) = sel k"
begin

definition ready :: "'a console_scheme \<Rightarrow> bool" where
  "ready k \<longleftrightarrow> sel k < length (terminals (sched k)) \<and> cursor_ok (terminals (sched k) ! sel k)"

lemma sel_simps [simp]:
  "sel (k\<lparr>phys := p\<rparr>) = sel k" "sel (set_screen_x sel x k) = sel k" "sel (set_screen_y sel y k) = sel k"
  by (simp_all add: sel_phys sel_upd set_screen_x_def set_screen_y_def)

lemma keep_simps [simp]:
  "phys (set_screen_x sel x k) = phys k" "phys (set_screen_y sel y k) = phys k"
  "window_frame (set_screen_x sel x k) = window_frame k" "window_frame (set_screen_y sel y k) = window_frame k"
  "length (terminals (sched (set_screen_x sel x k))) = length (terminals (sched k))"
  "length (terminals (sched (set_screen_y sel y k))) = length (terminals (sched k))"
  by (simp_all add: set_screen_x_def set_screen_y_def upd_terminal_def window_frame_def)

lemma xy_simps [simp]:
  "sel k < length (terminals (sched k)) \<Longrightarrow> get_screen_x sel (set_screen_x sel x k) = x"
  "sel k < length (terminals (sched k)) \<Longrightarrow> get_screen_y sel (set_screen_y sel y k) = y"
  "sel k < length (terminals (sched k)) \<Longrightarrow> get_screen_y sel (set_screen_x sel x k) = get_screen_y sel k"
  "sel k < length (terminals (sched k)) \<Longrightarrow> get_screen_x sel (set_screen_y sel y k) = get_screen_x sel k"
  "get_screen_x sel (k\<lparr>phys := p\<rparr>) = get_screen_x sel k"
  "get_screen_y sel (k\<lparr>phys := p\<rparr>) = get_screen_y sel k"
  by (simp_all add: get_screen_x_def get_screen_y_def set_screen_x_def set_screen_y_def upd_terminal_def
      sel_phys sel_upd [unfolded upd_terminal_def])

lemma video_store_simps [simp]:
  "get_screen_x sel (video_store off b k) = get_screen_x sel k"
  "get_screen_y sel (video_store off b k) = get_screen_y sel k"
  by (simp_all add: video_store_def)

lemma scroll_simps [simp]:
  "sel (scroll_with sel k) = sel k"
  "phys (scroll_with sel k) = scrolled (window_frame k) 2000 (phys k)"
  "window_frame (scroll_with sel k) = window_frame k"
  "length (terminals (sched (scroll_with sel k))) = length (terminals (sched k))"
  "sel k < length (terminals (sched k)) \<Longrightarrow> get_screen_x sel (scroll_with sel k) = 0"
  "sel k < length (terminals (sched k)) \<Longrightarrow> get_screen_y sel (scroll_with sel k) = 24"
  by (simp_all add: scroll_with_def scroll_screen_phys)

lemma store_cell:
  assumes "ready k"
  shows "video_store (2 * (80 * get_screen_y sel k + get_screen_x sel k) + 1) 7
      (video_store (2 * (80 * get_screen_y sel k + get_screen_x sel k)) c k) =
    k\<lparr>phys := (phys k)
      (at_offset (window_frame k) (2 * (80 * nat (get_screen_y sel k) + nat (get_screen_x sel k))) := c,
       at_offset (window_frame k) (2 * (80 * nat (get_screen_y sel k) + nat (get_screen_x sel k)) + 1) := 7)\<rparr>"
proof -
  have i: "80 * get_screen_y sel k + get_screen_x sel k =
      int (80 * nat (get_screen_y sel k) + nat (get_screen_x sel k))"
    using assms by (simp add: ready_def cursor_ok_def get_screen_x_def get_screen_y_def)
  show ?thesis unfolding i video_store_offset by simp
qed

lemma ready_xy:
  assumes "ready k"
  shows "sel k < length (terminals (sched k))" "0 \<le> get_screen_x sel k" "get_screen_x sel k < 80"
    "0 \<le> get_screen_y sel k" "get_screen_y sel k < 25"
    "80 * nat (get_screen_y sel k) + nat (get_screen_x sel k) < 2000"
proof -
  show "sel k < length (terminals (sched k))" and x: "0 \<le> get_screen_x sel k" "get_screen_x sel k < 80"
    and y: "0 \<le> get_screen_y sel k" "get_screen_y sel k < 25"
    using assms by (simp_all add: ready_def cursor_ok_def get_screen_x_def get_screen_y_def)
  have "nat (get_screen_y sel k) \<le> 24" "nat (get_screen_x sel k) \<le> 79" using x y by auto
  then show "80 * nat (get_screen_y sel k) + nat (get_screen_x sel k) < 2000" by linarith
qed

lemma readyI:
  assumes "sel k < length (terminals (sched k))" "0 \<le> get_screen_x sel k" "get_screen_x sel k < 80"
    "0 \<le> get_screen_y sel k" "get_screen_y sel k < 25"
  shows "ready k"
  using assms by (simp add: ready_def cursor_ok_def get_screen_x_def get_screen_y_def)

lemma putc_refines:
  assumes "ready k"
  shows "shown sel (putc_with sel c k) = spec_putc c (shown sel k)" "ready (putc_with sel c k)"
proof -
  note xy = ready_xy [OF assms]
  let ?x = "get_screen_x sel k" and ?y = "get_screen_y sel k"
  have len: "sel (k\<lparr>phys := p\<rparr>) < length (terminals (sched (k\<lparr>phys := p\<rparr>)))" for p using xy(1) by simp
  have y: "nat ?y = 24 \<longleftrightarrow> ?y = 24" and x: "nat ?x = 79 \<longleftrightarrow> ?x = 79"
    and ny: "nat (?y + 1) = nat ?y + 1" and nx: "nat (?x + 1) = nat ?x + 1" using xy by auto
  have "shown sel (putc_with sel c k) = spec_putc c (shown sel k) \<and> ready (putc_with sel c k)"
  proof (cases "c = 10 \<or> c = 13")
    case True
    then show ?thesis
      using xy y ny by (auto simp: putc_with_def Let_def shown_def spec_putc_def spec_newline_def
          cells_scrolled intro!: readyI)
  next
    case False
    let ?i = "80 * nat ?y + nat ?x"
    define k1 where "k1 = k\<lparr>phys := (phys k)(at_offset (window_frame k) (2 * ?i) := c,
       at_offset (window_frame k) (2 * ?i + 1) := 7)\<rparr>"
    have k1: "sel k1 < length (terminals (sched k1))" "get_screen_x sel k1 = ?x" "get_screen_y sel k1 = ?y"
      "window_frame k1 = window_frame k"
      using xy(1) by (simp_all add: k1_def)
    have cs: "cells (window_frame k) (phys k1) = (cells (window_frame k) (phys k))[?i := c]"
      using cells_store_cell [OF xy(6)] by (simp add: k1_def)
    have store: "video_store (2 * (80 * ?y + ?x) + 1) 7 (video_store (2 * (80 * ?y + ?x)) c k) = k1"
      unfolding k1_def by (rule store_cell [OF assms])
    note step = putc_with_def [of sel c k, unfolded Let_def video_store_simps store if_not_P [OF False]]
    show ?thesis
    proof (cases "?x = 79")
      case True
      show ?thesis
      proof (cases "?y = 24")
        case True
        then have "putc_with sel c k =
            set_screen_y sel 24 (scroll_with sel (set_screen_y sel 25 (set_screen_x sel 80 k1)))"
          unfolding step using \<open>?x = 79\<close> k1 by simp
        then show ?thesis
          using True \<open>?x = 79\<close> k1 cs False
          by (auto simp: shown_def spec_putc_def spec_newline_def cells_scrolled intro!: readyI)
      next
        case ny24: False
        then have "putc_with sel c k = set_screen_y sel (?y + 1)
            (set_screen_x sel 0 (set_screen_y sel (?y + 1) (set_screen_x sel 80 k1)))"
          unfolding step using \<open>?x = 79\<close> k1 xy by simp
        then show ?thesis
          using ny24 \<open>?x = 79\<close> k1 cs False xy y ny
          by (auto simp: shown_def spec_putc_def spec_newline_def intro!: readyI)
      qed
    next
      case nx79: False
      then have "putc_with sel c k = set_screen_y sel ?y (set_screen_x sel (?x + 1) (set_screen_x sel (?x + 1) k1))"
        unfolding step using k1 xy by simp
      then show ?thesis
        using nx79 k1 cs False xy x nx by (auto simp: shown_def spec_putc_def intro!: readyI)
    qed
  qed
  then show "shown sel (putc_with sel c k) = spec_putc c (shown sel k)" "ready (putc_with sel c k)" by auto
qed


text \<open>Everything else stays: memory outside the 4000 bytes of the screen, the page tables, the other
  terminals.\<close>

lemma set_screen_frame:
  "paging (set_screen_x sel x k) = paging k" "paging (set_screen_y sel y k) = paging k"
  "visable_term (sched (set_screen_x sel x k)) = visable_term (sched k)"
  "visable_term (sched (set_screen_y sel y k)) = visable_term (sched k)"
  "current_term (sched (set_screen_x sel x k)) = current_term (sched k)"
  "current_term (sched (set_screen_y sel y k)) = current_term (sched k)"
  "vid_bufs (sched (set_screen_x sel x k)) = vid_bufs (sched k)"
  "vid_bufs (sched (set_screen_y sel y k)) = vid_bufs (sched k)"
  "t \<noteq> sel k \<Longrightarrow> terminals (sched (set_screen_x sel x k)) ! t = terminals (sched k) ! t"
  "t \<noteq> sel k \<Longrightarrow> terminals (sched (set_screen_y sel y k)) ! t = terminals (sched k) ! t"
  by (simp_all add: set_screen_x_def set_screen_y_def upd_terminal_def)

lemma scroll_frame:
  "paging (scroll_with sel k) = paging k"
  "visable_term (sched (scroll_with sel k)) = visable_term (sched k)"
  "current_term (sched (scroll_with sel k)) = current_term (sched k)"
  "vid_bufs (sched (scroll_with sel k)) = vid_bufs (sched k)"
  "t \<noteq> sel k \<Longrightarrow> terminals (sched (scroll_with sel k)) ! t = terminals (sched k) ! t"
  by (simp_all add: scroll_with_def scroll_screen_phys set_screen_frame)

lemma putc_frame:
  assumes "ready k"
  shows "\<not> in_region (window_frame k) 4000 a \<Longrightarrow> phys (putc_with sel c k) a = phys k a"
    "paging (putc_with sel c k) = paging k"
    "visable_term (sched (putc_with sel c k)) = visable_term (sched k)"
    "current_term (sched (putc_with sel c k)) = current_term (sched k)"
    "vid_bufs (sched (putc_with sel c k)) = vid_bufs (sched k)"
    "length (terminals (sched (putc_with sel c k))) = length (terminals (sched k))"
    "t \<noteq> sel k \<Longrightarrow> terminals (sched (putc_with sel c k)) ! t = terminals (sched k) ! t"
proof -
  let ?i = "80 * nat (get_screen_y sel k) + nat (get_screen_x sel k)"
  define k1 where "k1 = k\<lparr>phys := (phys k)(at_offset (window_frame k) (2 * ?i) := c,
     at_offset (window_frame k) (2 * ?i + 1) := 7)\<rparr>"
  have store: "video_store (2 * (80 * get_screen_y sel k + get_screen_x sel k) + 1) 7
      (video_store (2 * (80 * get_screen_y sel k + get_screen_x sel k)) c k) = k1"
    unfolding k1_def by (rule store_cell [OF assms])
  note step = putc_with_def [of sel c k, unfolded Let_def video_store_simps store]
  have k1: "sel k1 = sel k" "paging k1 = paging k" "sched k1 = sched k" "window_frame k1 = window_frame k"
    by (simp_all add: k1_def)
  have "2 * j + 1 < 4000" if "j < 2000" for j :: nat using that by simp
  from this [OF ready_xy(6) [OF assms]] have off: "2 * ?i + 1 < 4000" .
  show "paging (putc_with sel c k) = paging k"
    "visable_term (sched (putc_with sel c k)) = visable_term (sched k)"
    "current_term (sched (putc_with sel c k)) = current_term (sched k)"
    "vid_bufs (sched (putc_with sel c k)) = vid_bufs (sched k)"
    "length (terminals (sched (putc_with sel c k))) = length (terminals (sched k))"
    unfolding step by (simp_all add: set_screen_frame scroll_frame k1)
  show "terminals (sched (putc_with sel c k)) ! t = terminals (sched k) ! t" if "t \<noteq> sel k"
    unfolding step using that by (simp add: set_screen_frame scroll_frame k1)
  show "phys (putc_with sel c k) a = phys k a" if a: "\<not> in_region (window_frame k) 4000 a"
  proof -
    have "phys k1 a = phys k a"
      using a off by (auto simp: k1_def in_region_def unat_at_offset)
    moreover have "scrolled (window_frame k) 2000 p a = p a" for p
      using a by (simp add: scrolled_def Let_def in_region_def)
    ultimately show ?thesis unfolding step by (simp add: k1)
  qed
qed

end

interpretation vis: screen_selector visible
  by unfold_locales (simp_all add: visible_def upd_terminal_def)

interpretation cur: screen_selector current
  by unfold_locales (simp_all add: current_def upd_terminal_def)


lemma cur_ready: "cur.ready k \<longleftrightarrow>
    current_term (sched k) < length (terminals (sched k)) \<and> cursor_ok (terminals (sched k) ! current_term (sched k))"
  by (simp add: cur.ready_def current_def)

lemma vis_ready: "vis.ready k \<longleftrightarrow>
    visable_term (sched k) < length (terminals (sched k)) \<and> cursor_ok (terminals (sched k) ! visable_term (sched k))"
  by (simp add: vis.ready_def visible_def)

lemma update_cursor_simps [simp]:
  "phys (update_cursor k) = phys k" "paging (update_cursor k) = paging k" "sched (update_cursor k) = sched k"
  "window_frame (update_cursor k) = window_frame k"
  by (simp_all add: update_cursor_def crtc_outb_def Let_def window_frame_def)

lemma shown_update_cursor [simp]: "shown visible (update_cursor k) = shown visible k"
  by (simp add: shown_def visible_def get_screen_x_def get_screen_y_def)

text \<open>The cell the hardware cursor is on.\<close>

definition hardware_cursor :: "'a console_scheme \<Rightarrow> nat" where
  "hardware_cursor k = 256 * unat (crtc_reg k 0x0E) + unat (crtc_reg k 0x0F)"

lemma hardware_cursor_update:
  assumes "vis.ready k"
  shows "hardware_cursor (update_cursor k) = nat (80 * get_global_screen_y k + get_global_screen_x k)"
proof -
  let ?pos = "80 * get_global_screen_y k + get_global_screen_x k"
  obtain p where p: "?pos = int p" "p < 2000"
    using vis.ready_xy [OF assms] unfolding get_global_screen_x_def get_global_screen_y_def
    by (metis add_nonneg_nonneg int_nat_eq mult_nonneg_nonneg nat_add_distrib nat_mult_distrib
        of_nat_add of_nat_mult of_nat_numeral zero_le_numeral)
  have ff: "x AND 0xFF = take_bit 8 x" for x :: int
    by (simp add: take_bit_eq_mask mask_eq_exp_minus_1)
  have bytes: "drop_bit 8 ?pos AND 0xFF = int (p div 256)" "?pos AND 0xFF = int (p mod 256)"
    using p(2) unfolding p(1) ff by (simp_all add: drop_bit_eq_div take_bit_eq_mod zdiv_int zmod_int)
  have small: "unat (of_nat n :: u8) = n" if "n < 256" for n
    using that by (simp add: unat_of_nat take_bit_eq_mod)
  have "hardware_cursor (update_cursor k) = 256 * unat (word_of_int (drop_bit 8 ?pos AND 0xFF) :: u8)
      + unat (word_of_int (?pos AND 0xFF) :: u8)"
    by (simp add: hardware_cursor_def update_cursor_def crtc_outb_def Let_def mult.commute)
  also have "\<dots> = 256 * (p div 256) + p mod 256"
    using small [of "p div 256"] small [of "p mod 256"] p(2) unfolding bytes by simp
  finally show ?thesis using p(1) by simp
qed


subsection \<open>Properties of the output\<close>

lemma write_bytes_refines:
  assumes "cur.ready k"
    "\<And>j. j < length xs \<Longrightarrow> \<exists>pa user. xlate (paging k) (buf + of_nat (i + j)) = Some (pa, user) \<and>
       phys k pa = xs ! j \<and> \<not> in_region (window_frame k) 4000 pa"
  shows "\<exists>k'. write_bytes buf i (length xs) k = Some k' \<and> cur.ready k' \<and>
    shown current k' = fold spec_putc xs (shown current k) \<and>
    (\<forall>a. \<not> in_region (window_frame k) 4000 a \<longrightarrow> phys k' a = phys k a) \<and>
    paging k' = paging k \<and> visable_term (sched k') = visable_term (sched k) \<and>
    current_term (sched k') = current_term (sched k) \<and>
    length (terminals (sched k')) = length (terminals (sched k)) \<and>
    (\<forall>t. t \<noteq> current k \<longrightarrow> terminals (sched k') ! t = terminals (sched k) ! t)"
  using assms
proof (induction xs arbitrary: i k)
  case Nil
  then show ?case by simp
next
  case (Cons c xs)
  let ?k = "putc_modified c k"
  note frame = cur.putc_frame [where c = c, OF Cons.prems(1), folded putc_modified_def]
  have ready: "cur.ready ?k" and shown: "shown current ?k = spec_putc c (shown current k)"
    using cur.putc_refines [OF Cons.prems(1)] by (simp_all add: putc_modified_def)
  have window: "window_frame ?k = window_frame k" using frame(2) by (simp add: window_frame_def)
  have cur: "current ?k = current k" using frame(4) by (simp add: current_def)
  have load: "user_load (buf + of_nat i) k = Some c"
    using Cons.prems(2) [of 0] by (auto simp: user_load_def)
  have "\<exists>pa user. xlate (paging ?k) (buf + of_nat (i + 1 + j)) = Some (pa, user) \<and>
       phys ?k pa = xs ! j \<and> \<not> in_region (window_frame ?k) 4000 pa" if "j < length xs" for j
    using Cons.prems(2) [of "j + 1"] that frame(1,2) window by fastforce
  from Cons.IH [OF ready this] obtain k' where k': "write_bytes buf (i + 1) (length xs) ?k = Some k'"
    "cur.ready k'" "shown current k' = fold spec_putc xs (shown current ?k)"
    "\<forall>a. \<not> in_region (window_frame ?k) 4000 a \<longrightarrow> phys k' a = phys ?k a" "paging k' = paging ?k"
    "visable_term (sched k') = visable_term (sched ?k)" "current_term (sched k') = current_term (sched ?k)"
    "length (terminals (sched k')) = length (terminals (sched ?k))"
    "\<forall>t. t \<noteq> current ?k \<longrightarrow> terminals (sched k') ! t = terminals (sched ?k) ! t"
    by blast
  have "write_bytes buf i (length (c # xs)) k = Some k'" using load k'(1) by simp
  moreover have "shown current k' = fold spec_putc (c # xs) (shown current k)" using k'(3) shown by simp
  moreover have "\<forall>a. \<not> in_region (window_frame k) 4000 a \<longrightarrow> phys k' a = phys k a"
    using k'(4) frame(1) window by simp
  moreover have "\<forall>t. t \<noteq> current k \<longrightarrow> terminals (sched k') ! t = terminals (sched k) ! t"
    using k'(9) frame(7) cur by simp
  ultimately show ?case using k'(2,5-8) frame(2-4,6) by auto
qed

text \<open>[C19] \<open>terminal_write\<close>: if the buffer is mapped outside the screen it writes to, the call
  returns 0 (not the number of bytes), the scheduled terminal's screen and cursor change as the
  abstract screen does for the \<open>n\<close> bytes in order, scrolling included, and no memory outside the
  screen's 4000 bytes and no other terminal's cursor changes.\<close>

theorem terminal_write_refines:
  assumes "current_term (sched k) < length (terminals (sched k))"
    "cursor_ok (terminals (sched k) ! current_term (sched k))" "int (length xs) = sint nbytes"
    "\<forall>j < length xs. \<exists>pa user. xlate (paging k) (buf + of_nat j) = Some (pa, user) \<and>
       phys k pa = xs ! j \<and> \<not> in_region (window_frame k) 4000 pa"
  shows "\<exists>k'. terminal_write fd buf nbytes k = Some (0, k') \<and>
    shown current k' = fold spec_putc xs (shown current k) \<and>
    (\<forall>a. \<not> in_region (window_frame k) 4000 a \<longrightarrow> phys k' a = phys k a) \<and> paging k' = paging k \<and>
    (\<forall>t. t \<noteq> current_term (sched k) \<longrightarrow> terminals (sched k') ! t = terminals (sched k) ! t) \<and>
    cursor_ok (terminals (sched k') ! current_term (sched k))"
proof -
  have ready: "cur.ready k" using assms(1,2) by (simp add: cur_ready)
  have n: "nat (sint nbytes) = length xs" using assms(3) by simp
  obtain k' where k': "write_bytes buf 0 (length xs) k = Some k'" "cur.ready k'"
    "shown current k' = fold spec_putc xs (shown current k)"
    "\<forall>a. \<not> in_region (window_frame k) 4000 a \<longrightarrow> phys k' a = phys k a" "paging k' = paging k"
    "current_term (sched k') = current_term (sched k)"
    "\<forall>t. t \<noteq> current k \<longrightarrow> terminals (sched k') ! t = terminals (sched k) ! t"
    using write_bytes_refines [OF ready, of xs buf 0] assms(4) by auto
  have "shown current (update_cursor k') = shown current k'"
    by (simp add: shown_def current_def get_screen_x_def get_screen_y_def)
  moreover have "terminal_write fd buf nbytes k = Some (0, update_cursor k')"
    using k'(1) by (simp add: terminal_write_def n)
  ultimately show ?thesis using k' cur_ready [of k'] by (auto simp: current_def)
qed


text \<open>A console on the example page tables: process 2 runs on terminal 1, terminal 0 is visible.\<close>

definition example_terminal :: terminal where
  "example_terminal = \<lparr>lb = replicate 128 0, noc = 0, t_esp = 0, t_ebp = 0, t_pid = 2, screen_x = 79,
     screen_y = 3\<rparr>"

definition example_console :: console where
  "example_console = \<lparr>paging = example_run, phys = (\<lambda>_. 32)(0xC48000 := 72, 0xB9000 := 1),
     sched = \<lparr>terminals = replicate 3 example_terminal, vid_bufs = [0xB9000, 0xBA000, 0xBB000],
       visable_term = 0, current_term = 1, is_on = [1, 1, 1], exe_bytes = [0, 0, 0, 0]\<rparr>,
     crtc_index = 0, crtc_reg = (\<lambda>_. 0)\<rparr>"

lemma example_window: "window_frame example_console = 0xB8000"
  by (simp add: window_frame_def example_console_def example_run_def paging_change_process_def Let_def
      frame_simps paging_initialize_def write_cr3_def initial_pte_def del: upt_rec_numeral)

lemma example_cursor: "cursor_ok example_terminal"
  by (simp add: example_terminal_def cursor_ok_def)

lemma example_buffer:
  "xlate (paging example_console) 0x8048000 = Some (0xC48000, True)" "phys example_console 0xC48000 = 72"
  "\<not> in_region (window_frame example_console) 4000 0xC48000"
  using example_xlate by (simp_all add: example_window in_region_def) (simp_all add: example_console_def)

lemma terminal_write_refines_witness:
  "\<exists>k'. terminal_write 1 0x8048000 1 example_console = Some (0, k') \<and>
     shown current k' = spec_putc 72 (shown current example_console)"
proof -
  have "\<exists>k'. terminal_write 1 0x8048000 1 example_console = Some (0, k') \<and>
    shown current k' = fold spec_putc [72] (shown current example_console) \<and>
    (\<forall>a. \<not> in_region (window_frame example_console) 4000 a \<longrightarrow> phys k' a = phys example_console a) \<and>
    paging k' = paging example_console \<and>
    (\<forall>t. t \<noteq> current_term (sched example_console) \<longrightarrow>
      terminals (sched k') ! t = terminals (sched example_console) ! t) \<and>
    cursor_ok (terminals (sched k') ! current_term (sched example_console))"
  proof (rule terminal_write_refines)
    show "\<forall>j < length [72 :: u8]. \<exists>pa user. xlate (paging example_console) (0x8048000 + of_nat j) = Some (pa, user) \<and>
       phys example_console pa = [72] ! j \<and> \<not> in_region (window_frame example_console) 4000 pa"
      using example_buffer by (intro allI impI exI [of _ "0xC48000"] exI [of _ True]) simp
  qed (use example_cursor in \<open>simp_all add: example_console_def\<close>)
  then show ?thesis by auto
qed

text \<open>Echoing a key on the visible terminal: \<open>putc\<close> acts on the screen and the cursor as the
  abstract screen does, the hardware cursor ends on the new cursor cell, the cursor stays inside
  the 80 by 25 cells, and memory outside the screen's 4000 bytes does not change.\<close>

theorem putc_refines_screen:
  assumes "visable_term (sched k) < length (terminals (sched k))"
    "cursor_ok (terminals (sched k) ! visable_term (sched k))"
  shows "shown visible (putc c k) = spec_putc c (shown visible k)
    \<and> hardware_cursor (putc c k) = nat (80 * get_global_screen_y (putc c k) + get_global_screen_x (putc c k))
    \<and> cursor_ok (terminals (sched (putc c k)) ! visable_term (sched k))
    \<and> (\<forall>a. \<not> in_region (window_frame k) 4000 a \<longrightarrow> phys (putc c k) a = phys k a)"
proof -
  have ready: "vis.ready k" using assms by (simp add: vis_ready)
  note frame = vis.putc_frame [where c = c, OF ready]
  note refines = vis.putc_refines [OF ready, of c]
  have "get_global_screen_y (putc c k) = get_global_screen_y (putc_with visible c k)"
    "get_global_screen_x (putc c k) = get_global_screen_x (putc_with visible c k)"
    by (simp_all add: putc_def get_global_screen_y_def get_global_screen_x_def get_screen_y_def
        get_screen_x_def visible_def)
  then have "hardware_cursor (putc c k) = nat (80 * get_global_screen_y (putc c k) + get_global_screen_x (putc c k))"
    using hardware_cursor_update [OF refines(2)] by (simp add: putc_def)
  moreover have "cursor_ok (terminals (sched (putc c k)) ! visable_term (sched k))"
    using refines(2) frame(3) vis_ready [of "putc_with visible c k"] by (simp add: putc_def)
  ultimately show ?thesis using refines(1) frame(1) by (simp add: putc_def)
qed

lemma putc_refines_screen_witness:
  "shown visible (putc 72 example_console) =
     ((cells 0xB8000 (phys example_console))[319 := 72], 0, 4)"
proof -
  have "shown visible example_console = (cells 0xB8000 (phys example_console), 79, 3)"
    by (simp add: shown_def example_window get_screen_x_def get_screen_y_def visible_def)
      (simp add: example_console_def example_terminal_def)
  moreover have "shown visible (putc 72 example_console) = spec_putc 72 (shown visible example_console)
    \<and> hardware_cursor (putc 72 example_console) =
      nat (80 * get_global_screen_y (putc 72 example_console) + get_global_screen_x (putc 72 example_console))
    \<and> cursor_ok (terminals (sched (putc 72 example_console)) ! visable_term (sched example_console))
    \<and> (\<forall>a. \<not> in_region (window_frame example_console) 4000 a \<longrightarrow>
        phys (putc 72 example_console) a = phys example_console a)"
    by (rule putc_refines_screen) (use example_cursor in \<open>simp_all add: example_console_def\<close>)
  ultimately show ?thesis by (simp add: spec_putc_def spec_newline_def)
qed

text \<open>Backspace on the abstract screen.\<close>

definition spec_backspace :: "screen \<Rightarrow> screen" where
  "spec_backspace = (\<lambda>(cs, x, y).
     let (x', y') = (if x = 0 then (if y = 0 then (0, 0) else (79, y - 1)) else (x - 1, y))
     in (cs[80 * y' + x' := 32], x', y'))"

lemma backspace_refines:
  assumes ready: "vis.ready k"
  shows "shown visible (handlebackspace k) = spec_backspace (shown visible k)"
    and "hardware_cursor (handlebackspace k) =
      nat (80 * get_global_screen_y (handlebackspace k) + get_global_screen_x (handlebackspace k))"
    and "vis.ready (handlebackspace k)"
proof -
  note xy = vis.ready_xy [OF ready]
  let ?x = "get_screen_x visible k" and ?y = "get_screen_y visible k"
  define x' where "x' = (if ?x = 0 then (if ?y = 0 then 0 else 79) else ?x - 1)"
  define y' where "y' = (if ?x = 0 \<and> ?y \<noteq> 0 then ?y - 1 else ?y)"
  define k1 where "k1 = (if ?x - 1 < 0 then (if ?y \<noteq> 0 then set_screen_x visible (80 - 1) (set_screen_y visible (?y - 1) k)
    else k) else set_screen_x visible (?x - 1) k)"
  have k1: "get_screen_x visible k1 = x'" "get_screen_y visible k1 = y'" "phys k1 = phys k"
    "window_frame k1 = window_frame k" "visible k1 < length (terminals (sched k1))"
    using xy by (auto simp: k1_def x'_def y'_def)
  have range: "0 \<le> x'" "x' < 80" "0 \<le> y'" "y' < 25" using xy by (auto simp: x'_def y'_def)
  have k1_ready: "vis.ready k1" using k1 range by (intro vis.readyI) auto
  let ?k2 = "update_cursor k1"
  have get: "get_screen_x visible ?k2 = x'" "get_screen_y visible ?k2 = y'"
    using k1 by (simp_all add: get_screen_x_def get_screen_y_def visible_def)
  have k2_ready: "vis.ready ?k2" using k1_ready by (simp add: vis_ready)
  define k3 where "k3 = ?k2\<lparr>phys := (phys k)
      (at_offset (window_frame k) (2 * (80 * nat y' + nat x')) := 32,
       at_offset (window_frame k) (2 * (80 * nat y' + nat x') + 1) := 7)\<rparr>"
  have space: "chr8 CHR '' '' = 32" by simp
  have "handlebackspace k = video_store (2 * (80 * get_screen_y visible ?k2 + get_screen_x visible ?k2) + 1) 7
      (video_store (2 * (80 * get_screen_y visible ?k2 + get_screen_x visible ?k2)) 32 ?k2)"
    unfolding handlebackspace_def Let_def get_global_screen_x_def get_global_screen_y_def
      set_global_screen_x_def set_global_screen_y_def k1_def space ..
  also have "\<dots> = k3"
    using vis.store_cell [OF k2_ready, of 32] unfolding get by (simp add: k3_def k1(3,4))
  finally have step: "handlebackspace k = k3" .
  have k3: "get_screen_x visible k3 = x'" "get_screen_y visible k3 = y'" "window_frame k3 = window_frame k"
    "crtc_reg k3 = crtc_reg ?k2" "sched k3 = sched ?k2"
    using get k1(4) by (simp_all add: k3_def get_screen_x_def get_screen_y_def visible_def)
  have i: "80 * nat y' + nat x' < 2000"
    using vis.ready_xy(6) [OF k1_ready] k1(1,2) by simp
  have "shown visible k3 = ((cells (window_frame k) (phys k))[80 * nat y' + nat x' := 32], nat x', nat y')"
    using cells_store_cell [OF i] by (simp add: shown_def k3) (simp add: k3_def)
  then show "shown visible (handlebackspace k) = spec_backspace (shown visible k)"
    using xy unfolding step by (auto simp: shown_def spec_backspace_def x'_def y'_def Let_def nat_diff_distrib)
  show "vis.ready (handlebackspace k)"
    using k2_ready unfolding step by (simp add: vis_ready k3)
  have "hardware_cursor k3 = nat (80 * get_global_screen_y k1 + get_global_screen_x k1)"
    using hardware_cursor_update [OF k1_ready] by (simp add: hardware_cursor_def k3)
  then show "hardware_cursor (handlebackspace k) =
      nat (80 * get_global_screen_y (handlebackspace k) + get_global_screen_x (handlebackspace k))"
    unfolding step by (simp add: get_global_screen_y_def get_global_screen_x_def k1 k3)
qed

text \<open>Backspace undoes typing: if the cell under the cursor is blank and the character neither
  ends the line nor scrolls the screen, echoing it and then pressing backspace gives back the same
  screen, cursor and hardware cursor position.\<close>

theorem backspace_undoes_putc:
  assumes "visable_term (sched k) < length (terminals (sched k))"
    "cursor_ok (terminals (sched k) ! visable_term (sched k))"
    "shown visible k = (cs, x, y)" "cs ! (80 * y + x) = 32" "c \<noteq> 10" "c \<noteq> 13" "\<not> (x = 79 \<and> y = 24)"
  shows "shown visible (handlebackspace (putc c k)) = shown visible k
    \<and> hardware_cursor (handlebackspace (putc c k)) = 80 * y + x"
proof -
  have ready: "vis.ready k" using assms(1,2) by (simp add: vis_ready)
  note xy = vis.ready_xy [OF ready]
  have dims: "x < 80" "y < 25" "length cs = 2000" using assms(3) xy by (auto simp: shown_def)
  have "vis.ready (putc c k)"
    using vis.putc_refines(2) [OF ready, of c] by (simp add: putc_def vis_ready)
  note bs = backspace_refines [OF this]
  have putc: "shown visible (putc c k) = spec_putc c (cs, x, y)"
    using vis.putc_refines(1) [OF ready, of c] assms(3) by (simp add: putc_def)
  have "cs[80 * y + x := c, 80 * y + x := 32] = cs" using assms(4) list_update_id [of cs "80 * y + x"] by simp
  moreover have "80 * y + 79 = 80 * y + x" if "x = 79" using that by simp
  ultimately have eq: "spec_backspace (spec_putc c (cs, x, y)) = (cs, x, y)"
    using assms(5-7) dims by (auto simp: spec_putc_def spec_newline_def spec_backspace_def Let_def)
  then have same: "shown visible (handlebackspace (putc c k)) = (cs, x, y)"
    using bs(1) putc by simp
  moreover have "hardware_cursor (handlebackspace (putc c k)) = 80 * y + x"
    using bs(2) same vis.ready_xy [OF bs(3)]
    by (auto simp: shown_def get_global_screen_x_def get_global_screen_y_def nat_add_distrib nat_mult_distrib)
  ultimately show ?thesis using assms(3) by simp
qed

lemma backspace_undoes_putc_witness:
  "shown visible (handlebackspace (putc 72 example_console)) = shown visible example_console"
proof -
  have shown: "shown visible example_console = (cells 0xB8000 (phys example_console), 79, 3)"
    by (simp add: shown_def example_window get_screen_x_def get_screen_y_def visible_def)
      (simp add: example_console_def example_terminal_def)
  have blank: "cells 0xB8000 (phys example_console) ! (80 * 3 + 79) = 32"
    by (simp add: example_console_def at_offset_def)
  show ?thesis
    using backspace_undoes_putc [OF _ _ shown blank, of 72] example_cursor by (simp add: example_console_def)
qed


subsection \<open>Switching keeps every screen\<close>

text \<open>The frame that holds a terminal's screen: the video memory for the visible one, the backing
  buffer for the others. The window points at the screen of the scheduled terminal.\<close>

definition screen_frame :: "'a console_scheme \<Rightarrow> nat \<Rightarrow> u32" where
  "screen_frame k t = (if t = visable_term (sched k) then 0xB8000 else vid_bufs (sched k) ! t)"

definition displays_ok :: "'a console_scheme \<Rightarrow> bool" where
  "displays_ok k \<longleftrightarrow> tables_ok (paging k) \<and> vid_bufs (sched k) = [0xB9000, 0xBA000, 0xBB000] \<and>
     visable_term (sched k) < 3 \<and> current_term (sched k) < 3 \<and> length (terminals (sched k)) = 3 \<and>
     (\<forall>t < 3. cursor_ok (terminals (sched k) ! t))"

definition screens_ok :: "'a console_scheme \<Rightarrow> bool" where
  "screens_ok k \<longleftrightarrow> displays_ok k \<and> window_frame k = screen_frame k (current_term (sched k))"

lemma frame_of_video_pte: "f \<in> video_frames \<Longrightarrow> (f OR VMEM_OR_MASK) AND 0xFFFFF000 = f"
  by (auto simp: video_frames_def)

lemma window_set_frame:
  assumes "tables_ok st" "f \<in> video_frames"
  shows "page_table_0M_4M (set_video_frame f st) ! 184 AND 0xFFFFF000 = f"
  using frame_of_video_pte [OF assms(2)] tables_okD(2) [OF assms(1)]
  by (simp add: set_video_frame_def frame_simps)

lemma tables_ok_set_video_frame:
  assumes "tables_ok st" "f \<in> video_frames"
  shows "tables_ok (set_video_frame f st)"
proof -
  have "tlb_ok (st\<lparr>tlb := Map.empty\<rparr>)" by (simp add: tlb_ok_def)
  moreover have "tables_ok (set_video_frame f st) = tables_ok (set_video_frame f (st\<lparr>tlb := Map.empty\<rparr>))"
    by (simp add: set_video_frame_def tables_ok_def frame_simps)
  ultimately show ?thesis
    using tables_ok_video_frame [of "st\<lparr>tlb := Map.empty\<rparr>" f] assms by simp
qed

lemma copy_page:
  assumes "d \<in> video_frames" "s \<in> video_frames" "d \<noteq> s"
  shows "memcpy m d s 4096 = copy_bytes m d s 4096"
proof -
  have "apart d 4096 s 4096"
    by (rule apart_intervals) (use assms in \<open>auto simp: video_frames_def\<close>)
  then show ?thesis using memcpy_copy_bytes [of d 4096 s m] by simp
qed

lemma copy_page_read:
  assumes "f \<in> video_frames" "d \<in> video_frames" "unat off < 4096"
  shows "copy_bytes m d s 4096 (f + off) = (if f = d then m (s + off) else m (f + off))"
proof (cases "f = d")
  case True
  then show ?thesis using assms(3) by (simp add: copy_bytes_def in_region_def)
next
  case False
  then have "apart d 4096 f 4096"
    by (intro apart_intervals) (use assms in \<open>auto simp: video_frames_def\<close>)
  then have "\<not> in_region d 4096 (f + off)"
    using assms(3) in_region_offset [of off 4096 f] by (auto simp: apart_def)
  then show ?thesis using False by (simp add: copy_bytes_outside)
qed

lemma buffers_in_video_frames:
  assumes "vid_bufs s = [0xB9000, 0xBA000, 0xBB000]" "t < 3"
  shows "vid_bufs s ! t \<in> video_frames" "vid_bufs s ! t \<noteq> 0xB8000"
    "t' < 3 \<Longrightarrow> vid_bufs s ! t = vid_bufs s ! t' \<longleftrightarrow> t = t'"
  using assms by (auto simp: video_frames_def less_Suc_eq numeral_3_eq_3)

lemma switch_terminals_screens:
  assumes "displays_ok k" "n < 3" "n \<noteq> visable_term (sched k)"
  shows "screens_ok (switch_terminals n k) \<and> visable_term (sched (switch_terminals n k)) = n
    \<and> (\<forall>t < 3. \<forall>off. unat off < 4096 \<longrightarrow>
        phys (switch_terminals n k) (screen_frame (switch_terminals n k) t + off) =
        phys k (screen_frame k t + off))
    \<and> hardware_cursor (switch_terminals n k) =
        nat (80 * screen_y (terminals (sched k) ! n) + screen_x (terminals (sched k) ! n))
    \<and> (\<exists>k1 p pg. switch_terminals n k = k1\<lparr>paging := pg, phys := p\<rparr> \<and>
        k1 = update_cursor (k\<lparr>sched := (sched k)\<lparr>visable_term := n\<rparr>\<rparr>) \<and>
        page_directory pg = page_directory (paging k))"
proof -
  have False: "n \<noteq> visable_term (sched k)" by (rule assms(3))
  let ?v = "visable_term (sched k)" and ?c = "current_term (sched k)"
  let ?pb = "vid_bufs (sched k) ! ?v" and ?nb = "vid_bufs (sched k) ! n"
  have ok: "tables_ok (paging k)" "vid_bufs (sched k) = [0xB9000, 0xBA000, 0xBB000]" "?v < 3" "?c < 3"
    "length (terminals (sched k)) = 3" "\<forall>t < 3. cursor_ok (terminals (sched k) ! t)"
    using assms(1) by (simp_all add: displays_ok_def)
  note bufs = buffers_in_video_frames [OF ok(2)]
  have vid: "0xB8000 \<in> video_frames" by (simp add: video_frames_def)
  define k1 where "k1 = update_cursor (k\<lparr>sched := (sched k)\<lparr>visable_term := n\<rparr>\<rparr>)"
  define p where "p = copy_bytes (copy_bytes (phys k) ?pb 0xB8000 4096) 0xB8000 ?nb 4096"
  define pg where "pg = (if ?c \<noteq> n then set_video_frame (vid_bufs (sched k) ! ?c) (set_video_frame 0xB8000 (paging k))
    else set_video_frame 0xB8000 (paging k))"
  have buffer: "paging_set_write_to_buffer (of_nat ?c) st = set_video_frame (vid_bufs (sched k) ! ?c) st" for st
    using ok(2,4) by (auto simp: paging_set_write_to_buffer_def less_Suc_eq numeral_3_eq_3)
  have k': "switch_terminals n k = k1\<lparr>paging := pg, phys := p\<rparr>"
    using False copy_page [OF bufs(1) [OF ok(3)] vid bufs(2) [OF ok(3)]]
      copy_page [OF vid bufs(1) [OF assms(2)] bufs(2) [OF assms(2), symmetric]]
    unfolding switch_terminals_def Let_def paging_set_write_to_videomem_def buffer
    by (simp add: k1_def p_def pg_def buffer)
  have sched: "sched k1 = (sched k)\<lparr>visable_term := n\<rparr>" by (simp add: k1_def)
  have frame: "screen_frame (switch_terminals n k) t = (if t = n then 0xB8000 else vid_bufs (sched k) ! t)" for t
    by (simp add: screen_frame_def k' sched)
  have content: "p (screen_frame (switch_terminals n k) t + off) = phys k (screen_frame k t + off)"
    if "t < 3" "unat off < 4096" for t off
    using that False bufs [OF that(1)] bufs [OF ok(3)] bufs [OF assms(2)] assms(2) ok(3) vid
    unfolding frame p_def by (auto simp: copy_page_read screen_frame_def)
  have pg: "tables_ok pg" "page_table_0M_4M pg ! 184 AND 0xFFFFF000 = (if ?c = n then 0xB8000 else vid_bufs (sched k) ! ?c)"
    using tables_ok_set_video_frame [OF ok(1) vid] bufs(1) [OF ok(4)]
    by (auto simp: pg_def window_set_frame [OF ok(1) vid] window_set_frame tables_ok_set_video_frame)
  have "screens_ok (switch_terminals n k)"
    unfolding screens_ok_def displays_ok_def frame using ok assms(2) pg by (simp add: k' sched window_frame_def)
  moreover have "vis.ready (k\<lparr>sched := (sched k)\<lparr>visable_term := n\<rparr>\<rparr>)"
    using ok(5,6) assms(2) by (simp add: vis_ready)
  from hardware_cursor_update [OF this]
  have "hardware_cursor (switch_terminals n k) =
      nat (80 * screen_y (terminals (sched k) ! n) + screen_x (terminals (sched k) ! n))"
    by (simp add: k' k1_def hardware_cursor_def get_global_screen_y_def get_global_screen_x_def
        get_screen_y_def get_screen_x_def visible_def)
  moreover have "\<exists>k1 p pg. switch_terminals n k = k1\<lparr>paging := pg, phys := p\<rparr> \<and>
        k1 = update_cursor (k\<lparr>sched := (sched k)\<lparr>visable_term := n\<rparr>\<rparr>) \<and>
        page_directory pg = page_directory (paging k)"
  proof (intro exI conjI)
    show "switch_terminals n k = k1\<lparr>paging := pg, phys := p\<rparr>" by (rule k')
    show "k1 = update_cursor (k\<lparr>sched := (sched k)\<lparr>visable_term := n\<rparr>\<rparr>)" by (rule k1_def)
    show "page_directory pg = page_directory (paging k)"
      by (simp add: pg_def set_video_frame_def frame_simps)
  qed
  ultimately show ?thesis using content by (simp add: k' sched)
qed

text \<open>[C20] Switching the visible terminal loses nothing: afterwards each of the three terminals'
  screens holds, byte for byte, what it held before, the new terminal is the visible one, the
  hardware cursor is on its cursor cell, and output of the scheduled terminal still goes to its own
  screen.\<close>

theorem switch_terminals_keeps_screens:
  assumes "screens_ok k" "n < 3"
  shows "screens_ok (switch_terminals n k) \<and> visable_term (sched (switch_terminals n k)) = n
    \<and> (\<forall>t < 3. \<forall>off. unat off < 4096 \<longrightarrow>
        phys (switch_terminals n k) (screen_frame (switch_terminals n k) t + off) =
        phys k (screen_frame k t + off))
    \<and> (n \<noteq> visable_term (sched k) \<longrightarrow> hardware_cursor (switch_terminals n k) =
        nat (80 * screen_y (terminals (sched k) ! n) + screen_x (terminals (sched k) ! n)))"
proof (cases "n = visable_term (sched k)")
  case True
  then show ?thesis using assms by (simp add: switch_terminals_def)
next
  case False
  then show ?thesis
    using switch_terminals_screens [OF _ assms(2) False] assms(1) by (simp add: screens_ok_def)
qed


lemma switch_terminals_keeps_screens_witness:
  "visable_term (sched (switch_terminals 1 (example_console\<lparr>sched := (sched example_console)\<lparr>current_term := 0\<rparr>\<rparr>))) = 1
   \<and> phys (switch_terminals 1 (example_console\<lparr>sched := (sched example_console)\<lparr>current_term := 0\<rparr>\<rparr>)) 0xB9000 = 32"
proof -
  let ?k = "example_console\<lparr>sched := (sched example_console)\<lparr>current_term := 0\<rparr>\<rparr>"
  have "tables_ok example_run" using paging_reachable_ok [OF example_run_reachable] by blast
  then have ok: "screens_ok ?k"
    using example_cursor
    by (simp add: screens_ok_def displays_ok_def example_window screen_frame_def) (simp add: example_console_def nth_Cons')
  from switch_terminals_keeps_screens [OF ok, of 1]
  have s: "screens_ok (switch_terminals 1 ?k)" "visable_term (sched (switch_terminals 1 ?k)) = 1"
    "\<forall>t < 3. \<forall>off. unat off < 4096 \<longrightarrow>
        phys (switch_terminals 1 ?k) (screen_frame (switch_terminals 1 ?k) t + off) =
        phys ?k (screen_frame ?k t + off)"
    by simp_all
  from s(1,2) have "screen_frame (switch_terminals 1 ?k) 0 = 0xB9000"
    by (simp add: screens_ok_def displays_ok_def screen_frame_def)
  moreover have "screen_frame ?k 0 = 0xB8000" by (simp add: screen_frame_def example_console_def)
  ultimately have "phys (switch_terminals 1 ?k) 0xB9000 = phys ?k 0xB8000"
    using s(3) [rule_format, of 0 0] by simp
  then show ?thesis using s(2) by (simp add: example_console_def)
qed

end
