(* ===== verification/Devices.thy ===== *)
theory Devices imports Prelude begin

text \<open>
  The device code: the interrupt controllers (\<open>i8259.c\<close>), the real-time clock (\<open>rtc.c\<close>) and the
  interval timer (\<open>pit.c\<close>).

  The code acts through port writes; the state keeps them in a log, in order, besides the static
  variables of the files. What a port read returns is an argument. The second part runs the log
  on the devices, as their data sheets describe them, to say what the code achieves.
\<close>

subsection \<open>State\<close>

record devices =
  port_log :: "(u16 \<times> u8) list"
  master_mask :: u8
  slave_mask :: u8
  rtc_interrupt_occurred :: i32
  rtcInterruptCount :: i32
  interrupts_on :: bool

definition outb :: "u8 \<Rightarrow> u16 \<Rightarrow> devices \<Rightarrow> devices" where
  "outb data port d = d\<lparr>port_log := port_log d @ [(port, data)]\<rparr>"

definition cli :: "devices \<Rightarrow> devices" where
  "cli d = d\<lparr>interrupts_on := False\<rparr>"

definition sti :: "devices \<Rightarrow> devices" where
  "sti d = d\<lparr>interrupts_on := True\<rparr>"

subsection \<open>\<open>i8259.c\<close>\<close>

abbreviation (input) "MASTER_8259_PORT \<equiv> (0x20 :: u16)"
abbreviation (input) "SLAVE_8259_PORT \<equiv> (0xA0 :: u16)"
abbreviation (input) "MASTER_8259_PORT_DATA \<equiv> (0x21 :: u16)"
abbreviation (input) "SLAVE_8259_PORT_DATA \<equiv> (0xA1 :: u16)"

definition i8259_init :: "devices \<Rightarrow> devices" where
  "i8259_init d =
     (let d = outb 0xFF MASTER_8259_PORT_DATA d;
          d = outb 0xFF SLAVE_8259_PORT_DATA d;
          d = outb 0x11 MASTER_8259_PORT d;
          d = outb 0x20 MASTER_8259_PORT_DATA d;
          d = outb 0x04 MASTER_8259_PORT_DATA d;
          d = outb 0x01 MASTER_8259_PORT_DATA d;
          d = outb 0x11 SLAVE_8259_PORT d;
          d = outb 0x28 SLAVE_8259_PORT_DATA d;
          d = outb 0x02 SLAVE_8259_PORT_DATA d;
          d = outb 0x01 SLAVE_8259_PORT_DATA d;
          d = outb (master_mask d) MASTER_8259_PORT_DATA d
      in outb (slave_mask d) SLAVE_8259_PORT_DATA d)"

definition enable_irq :: "u32 \<Rightarrow> devices \<Rightarrow> devices" where
  "enable_irq irq_num d =
     (let d = (if irq_num \<ge> 0 \<and> irq_num < 8 then
                 let d = d\<lparr>master_mask := master_mask d AND NOT (push_bit (unat irq_num) 1)\<rparr>
                 in outb (master_mask d) MASTER_8259_PORT_DATA d
               else d)
      in if irq_num \<ge> 8 \<and> irq_num < 16 then
           let d = d\<lparr>master_mask := master_mask d AND NOT (push_bit 2 1)\<rparr>;
               d = outb (master_mask d) MASTER_8259_PORT_DATA d;
               d = d\<lparr>slave_mask := slave_mask d AND NOT (push_bit (unat (irq_num - 8)) 1)\<rparr>
           in outb (slave_mask d) SLAVE_8259_PORT_DATA d
         else d)"

definition disable_irq :: "u32 \<Rightarrow> devices \<Rightarrow> devices" where
  "disable_irq irq_num d =
     (let d = (if irq_num \<ge> 0 \<and> irq_num < 8 then
                 let d = d\<lparr>master_mask := master_mask d OR push_bit (unat irq_num) 1\<rparr>
                 in outb (master_mask d) MASTER_8259_PORT_DATA d
               else d)
      in if irq_num \<ge> 8 \<and> irq_num < 16 then
           let d = d\<lparr>master_mask := master_mask d OR push_bit 2 1\<rparr>;
               d = outb (master_mask d) MASTER_8259_PORT_DATA d;
               d = d\<lparr>slave_mask := slave_mask d OR push_bit (unat (irq_num - 8)) 1\<rparr>
           in outb (slave_mask d) SLAVE_8259_PORT_DATA d
         else d)"

definition send_eoi :: "u32 \<Rightarrow> devices \<Rightarrow> devices" where
  "send_eoi irq_num d =
     (if irq_num \<ge> 8 then outb (ucast (0x60 OR (irq_num - 8))) SLAVE_8259_PORT d
      else outb (ucast (0x60 OR irq_num)) MASTER_8259_PORT d)"

subsection \<open>\<open>rtc.c\<close>\<close>

text \<open>\<open>prev\<close> is what the read of port \<open>0x71\<close> returns.\<close>

definition init_rtc :: "u8 \<Rightarrow> devices \<Rightarrow> devices" where
  "init_rtc prev d =
     (let d = outb 0x8B 0x70 d;
          d = outb 0x8B 0x70 d;
          d = outb (prev OR 0x40) 0x71 d
      in enable_irq 8 d)"

text \<open>
  The loop that looks for the rate. \<open>tmp\<close> starts at 1024 and is never negative; once it is 0 it stays 0, so a
  frequency that is not met by then is never met.
\<close>

function rtc_rate :: "i32 \<Rightarrow> i32 \<Rightarrow> u8 \<Rightarrow> u8 option" where
  "rtc_rate tmp freq rate =
     (if tmp = freq then Some rate
      else if tmp = 0 then None
      else rtc_rate (drop_bit 1 tmp) freq (rate + 1))"
  by pat_completeness auto
termination
proof (relation "measure (\<lambda>(tmp, freq, rate). unat tmp)", goal_cases)
  case (2 tmp freq rate)
  then have "0 < unat tmp" by (simp add: unat_gt_0)
  then show ?case by (simp add: drop_bit_eq_div unat_div)
qed simp

declare rtc_rate.simps [simp del]

text \<open>\<open>buf\<close> is \<open>None\<close> for a null pointer and otherwise the 32-bit integer it points to.\<close>

definition rtc_write :: "i32 option \<Rightarrow> u8 \<Rightarrow> devices \<Rightarrow> (i32 \<times> devices) option" where
  "rtc_write buf prev d =
     (case buf of
        None \<Rightarrow> Some (-1, d)
      | Some freq \<Rightarrow>
          if freq AND (freq - 1) \<noteq> 0 \<or> sint freq > 1024 then Some (-1, d)
          else do {
            rate \<leftarrow> rtc_rate 1024 freq 5;
            let d = cli d;
            let d = outb 0x8A 0x70 d;
            let d = outb 0x8A 0x70 d;
            let d = outb ((prev AND 0xF0) OR rate) 0x71 d;
            Some (0, sti d)
          })"

definition rtc_open :: "u8 \<Rightarrow> devices \<Rightarrow> (i32 \<times> devices) option" where
  "rtc_open prev d = do {
     (_, d) \<leftarrow> rtc_write (Some 2) prev d;
     Some (0, d)
   }"

definition rtc_close :: "i32 \<Rightarrow> i32" where
  "rtc_close fd = 0"

text \<open>
  \<open>rtc_read\<close> spins until the handler has set the flag. \<open>ticks i\<close> says whether the interrupt comes
  while the flag is tested for the \<open>i\<close>-th time; the fuel bounds the number of tests.
\<close>

definition test_interrupts :: "devices \<Rightarrow> devices" where
  "test_interrupts d = d\<lparr>rtcInterruptCount := rtcInterruptCount d + 1\<rparr>"

definition rtchandler :: "devices \<Rightarrow> devices" where
  "rtchandler d =
     (let d = d\<lparr>rtc_interrupt_occurred := 1\<rparr>;
          d = outb 0x0C 0x70 d;
          d = test_interrupts d;
          d = send_eoi 8 d
      in send_eoi 2 d)"

fun rtc_spin :: "nat \<Rightarrow> (nat \<Rightarrow> bool) \<Rightarrow> nat \<Rightarrow> devices \<Rightarrow> devices option" where
  "rtc_spin 0 ticks i d = None"
| "rtc_spin (Suc fuel) ticks i d =
     (if rtc_interrupt_occurred d \<noteq> 0 then Some d
      else rtc_spin fuel ticks (i + 1) (if ticks i then rtchandler d else d))"

definition rtc_read :: "nat \<Rightarrow> (nat \<Rightarrow> bool) \<Rightarrow> devices \<Rightarrow> (i32 \<times> devices) option" where
  "rtc_read fuel ticks d = do {
     d \<leftarrow> rtc_spin fuel ticks 0 (d\<lparr>rtc_interrupt_occurred := 0\<rparr>);
     Some (0, d)
   }"

subsection \<open>\<open>pit.c\<close>\<close>

text \<open>A rate of 0 traps in the division. The message at the end is not modelled.\<close>

definition init_pit :: "u32 \<Rightarrow> devices \<Rightarrow> devices option" where
  "init_pit rate d =
     (if rate = 0 then None
      else let divisor = 1193182 div rate;
               d = outb 0x36 0x43 d;
               d = outb (ucast (divisor AND 0xFF)) 0x40 d;
               d = outb (ucast (drop_bit 8 divisor AND 0xFF)) 0x40 d
           in Some (enable_irq 0 d))"


subsection \<open>The 8259A as documented\<close>

text \<open>
  \<open>phase\<close> is 0 when the chip is ready and otherwise the number of the initialisation word it
  expects next on its data port.
\<close>

record pic =
  phase :: nat
  vector_base :: u8
  cascade :: u8
  imr :: u8
  isr :: u8

definition pic_command :: "u8 \<Rightarrow> pic \<Rightarrow> pic" where
  "pic_command v p =
     (if bit v 4 then p\<lparr>phase := 2, imr := 0, isr := 0\<rparr>
      else if bit v 3 then p
      else if v AND 0xE0 = 0x60 then p\<lparr>isr := isr p AND NOT (push_bit (unat (v AND 7)) 1)\<rparr>
      else p)"

definition pic_data :: "u8 \<Rightarrow> pic \<Rightarrow> pic" where
  "pic_data v p =
     (if phase p = 2 then p\<lparr>phase := 3, vector_base := v AND 0xF8\<rparr>
      else if phase p = 3 then p\<lparr>phase := 4, cascade := v\<rparr>
      else if phase p = 4 then p\<lparr>phase := 0\<rparr>
      else p\<lparr>imr := v\<rparr>)"

fun pics_step :: "u16 \<times> u8 \<Rightarrow> pic \<times> pic \<Rightarrow> pic \<times> pic" where
  "pics_step (port, v) (ma, sl) =
     (if port = 0x20 then (pic_command v ma, sl)
      else if port = 0x21 then (pic_data v ma, sl)
      else if port = 0xA0 then (ma, pic_command v sl)
      else if port = 0xA1 then (ma, pic_data v sl)
      else (ma, sl))"

definition pics :: "pic \<times> pic \<Rightarrow> devices \<Rightarrow> pic \<times> pic" where
  "pics ps d = fold pics_step (port_log d) ps"

lemma pics_outb [simp]: "pics ps (outb v port d) = pics_step (port, v) (pics ps d)"
  by (simp add: pics_def outb_def)

lemma outb_simps [simp]:
  "master_mask (outb v port d) = master_mask d" "slave_mask (outb v port d) = slave_mask d"
  "rtc_interrupt_occurred (outb v port d) = rtc_interrupt_occurred d"
  "interrupts_on (outb v port d) = interrupts_on d"
  by (simp_all add: outb_def)

lemma pics_frame [simp]:
  "pics ps (d\<lparr>master_mask := a\<rparr>) = pics ps d" "pics ps (d\<lparr>slave_mask := a\<rparr>) = pics ps d"
  "pics ps (d\<lparr>rtc_interrupt_occurred := b\<rparr>) = pics ps d" "pics ps (test_interrupts d) = pics ps d"
  "pics ps (d\<lparr>interrupts_on := c\<rparr>) = pics ps d"
  by (simp_all add: pics_def test_interrupts_def)

text \<open>The chips are ready and their masks are the static variables of the file.\<close>

definition in_sync :: "pic \<times> pic \<Rightarrow> devices \<Rightarrow> bool" where
  "in_sync ps d \<longleftrightarrow> phase (fst (pics ps d)) = 0 \<and> phase (snd (pics ps d)) = 0 \<and>
     imr (fst (pics ps d)) = master_mask d \<and> imr (snd (pics ps d)) = slave_mask d"

text \<open>Whether an interrupt request reaches the processor.\<close>

definition irq_enabled :: "pic \<times> pic \<Rightarrow> nat \<Rightarrow> bool" where
  "irq_enabled ps n = (if n < 8 then \<not> bit (imr (fst ps)) n
     else \<not> bit (imr (fst ps)) 2 \<and> \<not> bit (imr (snd ps)) (n - 8))"

text \<open>Whatever state the two chips are in, \<open>i8259_init\<close> leaves them ready, with vectors
  \<open>0x20\<close> and \<open>0x28\<close>, the slave on input 2 of the master, nothing in service and the masks of the
  static variables.\<close>

theorem i8259_init_programs:
  "pics ps (i8259_init d) =
    (\<lparr>phase = 0, vector_base = 0x20, cascade = 0x04, imr = master_mask d, isr = 0\<rparr>,
     \<lparr>phase = 0, vector_base = 0x28, cascade = 0x02, imr = slave_mask d, isr = 0\<rparr>)"
proof -
  obtain ma sl where ps: "pics ps d = (ma, sl)" by fastforce
  have bits: "bit (0x11 :: u8) 4" by (simp add: bit_iff_odd)
  show ?thesis
    unfolding i8259_init_def Let_def by (simp add: ps pic_data_def pic_command_def bits)
qed

definition unmask_bit :: "u8 \<Rightarrow> nat \<Rightarrow> u8" where
  "unmask_bit m n = m AND NOT (push_bit n 1)"

definition mask_bit :: "u8 \<Rightarrow> nat \<Rightarrow> u8" where
  "mask_bit m n = m OR push_bit n 1"

lemma enable_bits:
  "bit (unmask_bit m n) i \<longleftrightarrow> bit m i \<and> i \<noteq> n"
  "i < 8 \<Longrightarrow> bit (mask_bit m n) i \<longleftrightarrow> bit m i \<or> i = n"
  unfolding unmask_bit_def mask_bit_def by (auto simp: bit_simps dest: bit_imp_le_length)

lemma enable_irq_cases:
  assumes "n < 16"
  shows "enable_irq (of_nat n) d =
    (if n < 8 then outb (unmask_bit (master_mask d) n) 0x21
        (d\<lparr>master_mask := unmask_bit (master_mask d) n\<rparr>)
     else outb (unmask_bit (slave_mask d) (n - 8)) 0xA1
        ((outb (unmask_bit (master_mask d) 2) 0x21 (d\<lparr>master_mask := unmask_bit (master_mask d) 2\<rparr>))
           \<lparr>slave_mask := unmask_bit (slave_mask d) (n - 8)\<rparr>))"
  using assms by (simp add: enable_irq_def Let_def word_less_nat_alt word_le_nat_alt unat_sub
      mask_bit_def unmask_bit_def)

lemma disable_irq_cases:
  assumes "n < 16"
  shows "disable_irq (of_nat n) d =
    (if n < 8 then outb (mask_bit (master_mask d) n) 0x21 (d\<lparr>master_mask := mask_bit (master_mask d) n\<rparr>)
     else outb (mask_bit (slave_mask d) (n - 8)) 0xA1
        ((outb (mask_bit (master_mask d) 2) 0x21 (d\<lparr>master_mask := mask_bit (master_mask d) 2\<rparr>))
           \<lparr>slave_mask := mask_bit (slave_mask d) (n - 8)\<rparr>))"
  using assms by (simp add: disable_irq_def Let_def word_less_nat_alt word_le_nat_alt unat_sub
      mask_bit_def unmask_bit_def)

text \<open>\<open>enable_irq n\<close> for the sixteen lines: the chips stay in step with the static variables,
  line \<open>n\<close> gets through afterwards, no line that got through is cut off, and of the lines of the
  master no other than \<open>n\<close> (and the cascade, when \<open>n\<close> is on the slave) changes.\<close>

theorem enable_irq_enables:
  assumes "in_sync ps d" "n < 16"
  shows "in_sync ps (enable_irq (of_nat n) d) \<and> irq_enabled (pics ps (enable_irq (of_nat n) d)) n
    \<and> (\<forall>i < 16. irq_enabled (pics ps d) i \<longrightarrow> irq_enabled (pics ps (enable_irq (of_nat n) d)) i)
    \<and> (\<forall>i < 8. i \<noteq> n \<and> (i \<noteq> 2 \<or> n < 8) \<longrightarrow>
        irq_enabled (pics ps (enable_irq (of_nat n) d)) i = irq_enabled (pics ps d) i)"
proof -
  obtain ma sl where ps: "pics ps d = (ma, sl)" by fastforce
  have sync: "phase ma = 0" "phase sl = 0" "imr ma = master_mask d" "imr sl = slave_mask d"
    using assms(1) by (simp_all add: in_sync_def ps)
  show ?thesis
    using sync assms(2)
    by (auto simp: enable_irq_cases in_sync_def irq_enabled_def ps pic_data_def enable_bits)
qed

text \<open>\<open>disable_irq n\<close>: line \<open>n\<close> is cut off and the masters' other lines are as before, except
  that for a line of the slave the cascade input is masked too, so that all eight lines of the
  slave are cut off.\<close>

theorem disable_irq_disables:
  assumes "in_sync ps d" "n < 16"
  shows "in_sync ps (disable_irq (of_nat n) d) \<and> \<not> irq_enabled (pics ps (disable_irq (of_nat n) d)) n
    \<and> (\<forall>i < 8. i \<noteq> n \<and> (i \<noteq> 2 \<or> n < 8) \<longrightarrow>
        irq_enabled (pics ps (disable_irq (of_nat n) d)) i = irq_enabled (pics ps d) i)
    \<and> (8 \<le> n \<longrightarrow> (\<forall>i. 8 \<le> i \<and> i < 16 \<longrightarrow> \<not> irq_enabled (pics ps (disable_irq (of_nat n) d)) i))"
proof -
  obtain ma sl where ps: "pics ps d = (ma, sl)" by fastforce
  have sync: "phase ma = 0" "phase sl = 0" "imr ma = master_mask d" "imr sl = slave_mask d"
    using assms(1) by (simp_all add: in_sync_def ps)
  show ?thesis
    using sync assms(2)
    by (auto simp: disable_irq_cases in_sync_def irq_enabled_def ps pic_data_def enable_bits)
qed


text \<open>Example chips, for the hypotheses above: fresh from \<open>i8259_init\<close> with everything masked.\<close>

definition example_devices :: devices where
  "example_devices = i8259_init \<lparr>port_log = [], master_mask = 0xFF, slave_mask = 0xFF,
     rtc_interrupt_occurred = 0, rtcInterruptCount = 0, interrupts_on = False\<rparr>"

definition example_pics :: "pic \<times> pic" where
  "example_pics = (\<lparr>phase = 3, vector_base = 0, cascade = 0, imr = 0, isr = 0\<rparr>,
     \<lparr>phase = 0, vector_base = 8, cascade = 0, imr = 0, isr = 1\<rparr>)"

lemma i8259_init_masks [simp]:
  "master_mask (i8259_init d) = master_mask d" "slave_mask (i8259_init d) = slave_mask d"
  by (simp_all add: i8259_init_def Let_def)

lemma i8259_init_pics:
  "pics ps (i8259_init d) =
    (\<lparr>phase = 0, vector_base = 0x20, cascade = 0x04, imr = master_mask d, isr = 0\<rparr>,
     \<lparr>phase = 0, vector_base = 0x28, cascade = 0x02, imr = slave_mask d, isr = 0\<rparr>)"
  using bit_iff_odd [of "0x11 :: u8" 4] unfolding i8259_init_def Let_def
  by (cases "pics ps d") (simp add: pic_data_def pic_command_def)

lemma example_in_sync: "in_sync example_pics example_devices"
  by (simp add: in_sync_def example_devices_def i8259_init_pics)

lemma enable_irq_enables_witness: "irq_enabled (pics example_pics (enable_irq 8 example_devices)) 8"
  using enable_irq_enables [OF example_in_sync, of 8] by simp

lemma disable_irq_disables_witness: "\<not> irq_enabled (pics example_pics (disable_irq 9 example_devices)) 8"
  using disable_irq_disables [OF example_in_sync, of 9] by simp

text \<open>\<open>send_eoi\<close> ends exactly one interrupt on a ready chip: for a line of the master that line
  on the master, for a line of the slave that line on the slave, and the other chip is untouched.
  The clock's handler ends both the clock's line and the cascade.\<close>

theorem send_eoi_ends:
  assumes "n < 16"
  shows "pics ps (send_eoi (of_nat n) d) =
      (let (ma, sl) = pics ps d in
       if n < 8 then (ma\<lparr>isr := unmask_bit (isr ma) n\<rparr>, sl)
       else (ma, sl\<lparr>isr := unmask_bit (isr sl) (n - 8)\<rparr>))
    \<and> pics ps (rtchandler d) =
      (let (ma, sl) = pics ps d in (ma\<lparr>isr := unmask_bit (isr ma) 2\<rparr>, sl\<lparr>isr := unmask_bit (isr sl) 0\<rparr>))"
proof -
  have eoi: "\<not> bit (ucast (0x60 OR of_nat i :: u32) :: u8) 4" "\<not> bit (ucast (0x60 OR of_nat i :: u32) :: u8) 3"
    "(ucast (0x60 OR of_nat i :: u32) :: u8) AND 0xE0 = 0x60"
    "unat ((ucast (0x60 OR of_nat i :: u32) :: u8) AND 7) = i" if "i < 8" for i
  proof -
    have "i \<in> {0, 1, 2, 3, 4, 5, 6, 7}" using that by auto
    then show "\<not> bit (ucast (0x60 OR of_nat i :: u32) :: u8) 4" "\<not> bit (ucast (0x60 OR of_nat i :: u32) :: u8) 3"
      "(ucast (0x60 OR of_nat i :: u32) :: u8) AND 0xE0 = 0x60"
      "unat ((ucast (0x60 OR of_nat i :: u32) :: u8) AND 7) = i"
      by (auto simp: bit_iff_odd)
  qed
  obtain ma sl where ps: "pics ps d = (ma, sl)" by fastforce
  have master: "pics ps' (send_eoi (of_nat i) d') =
      (fst (pics ps' d')\<lparr>isr := unmask_bit (isr (fst (pics ps' d'))) i\<rparr>, snd (pics ps' d'))"
    if "i < 8" for i ps' d'
    using that eoi [OF that]
    by (cases "pics ps' d'") (simp add: send_eoi_def word_le_nat_alt pic_command_def unmask_bit_def)
  have slave: "pics ps' (send_eoi (of_nat i) d') =
      (fst (pics ps' d'), snd (pics ps' d')\<lparr>isr := unmask_bit (isr (snd (pics ps' d'))) (i - 8)\<rparr>)"
    if "8 \<le> i" "i < 16" for i ps' d'
  proof -
    have "(of_nat i :: u32) - 8 = of_nat (i - 8)" "(8 :: u32) \<le> of_nat i"
      using that by (simp_all add: of_nat_diff word_le_nat_alt)
    then show ?thesis
      using that eoi [of "i - 8"]
      by (cases "pics ps' d'") (simp add: send_eoi_def pic_command_def unmask_bit_def)
  qed
  have "pics ps (rtchandler d) = (ma\<lparr>isr := unmask_bit (isr ma) 2\<rparr>, sl\<lparr>isr := unmask_bit (isr sl) 0\<rparr>)"
    using master [of 2] slave [of 8] by (simp add: rtchandler_def Let_def ps)
  then show ?thesis using assms master [of n ps d] slave [of n ps d] by (simp add: ps)
qed

lemma send_eoi_ends_witness:
  "isr (snd (pics example_pics (send_eoi 8 (outb 0 0x80 example_devices)))) = unmask_bit 0 0"
  using send_eoi_ends [of 8 example_pics "outb 0 0x80 example_devices"]
  by (simp add: example_devices_def i8259_init_pics)

subsection \<open>The clock\<close>

text \<open>The clock's registers: port \<open>0x70\<close> selects one (the top bit is the NMI mask), port \<open>0x71\<close>
  writes it. With rate \<open>r\<close> in the low half of register A it interrupts at \<open>2 ^ 15 / 2 ^ (r - 1)\<close> Hz.\<close>

fun cmos_step :: "u16 \<times> u8 \<Rightarrow> u8 \<times> (u8 \<Rightarrow> u8) \<Rightarrow> u8 \<times> (u8 \<Rightarrow> u8)" where
  "cmos_step (port, v) (index, regs) =
     (if port = 0x70 then (v AND 0x7F, regs)
      else if port = 0x71 then (index, regs(index := v))
      else (index, regs))"

definition cmos :: "u8 \<times> (u8 \<Rightarrow> u8) \<Rightarrow> devices \<Rightarrow> u8 \<times> (u8 \<Rightarrow> u8)" where
  "cmos c d = fold cmos_step (port_log d) c"

definition rtc_frequency :: "u8 \<Rightarrow> nat" where
  "rtc_frequency a = 2 ^ 15 div 2 ^ (unat (a AND 0x0F) - 1)"

lemma cmos_outb [simp]: "cmos c (outb v port d) = cmos_step (port, v) (cmos c d)"
  by (simp add: cmos_def outb_def)

lemma cmos_frame [simp]: "cmos c (cli d) = cmos c d" "cmos c (sti d) = cmos c d"
  by (simp_all add: cmos_def cli_def sti_def)

lemma two_power_word:
  assumes "v AND (v - 1) = (0 :: u32)" "v \<noteq> 0"
  shows "\<exists>n < 32. v = 2 ^ n"
proof -
  have "\<exists>n. bit v n" using assms(2) by (auto simp: bit_eq_iff)
  then obtain n where n: "bit v n" "\<forall>m < n. \<not> bit v m"
    by (metis exists_least_iff)
  define s where "s = n + 1"
  define w where "w = push_bit s (drop_bit s v)"
  have n32: "n < 32" using n(1) bit_imp_le_length by fastforce
  have w_bits: "bit w m \<longleftrightarrow> n < m \<and> bit v m" for m
    unfolding w_def by (auto simp: bit_simps dest: bit_imp_le_length) (simp_all add: s_def)
  have p_bits: "bit (2 ^ n :: u32) m \<longleftrightarrow> m = n" for m
    using n32 by (auto simp: bit_simps)
  have v: "v = w OR 2 ^ n"
    using n by (intro bit_word_eqI) (auto simp: bit_or_iff w_bits p_bits, metis linorder_neqE_nat)
  have "w AND 2 ^ n = 0" by (intro bit_word_eqI) (auto simp: bit_and_iff w_bits p_bits)
  then have "v = w + 2 ^ n" using v by (simp add: disjunctive_add_eq_or)
  then have "v - 1 = w + mask n" by (simp add: mask_eq_exp_minus_1)
  also have "\<dots> = w OR mask n"
    by (rule disjunctive_add_eq_or) (intro bit_word_eqI, auto simp: bit_and_iff w_bits bit_mask_iff)
  finally have v1: "v - 1 = w OR mask n" .
  have "w = v AND (v - 1)"
    unfolding v1 by (intro bit_word_eqI)
      (use n in \<open>auto simp: bit_and_iff bit_or_iff w_bits bit_mask_iff\<close>)
  then have "w = 0" using assms(1) by simp
  then show ?thesis using v n32 by auto
qed

lemma rtc_rate_powers:
  assumes "k \<le> 10"
  shows "rtc_rate 1024 (2 ^ k) 5 = Some (of_nat (15 - k))"
proof -
  have "\<forall>i \<in> {0..10 :: nat}. rtc_rate 1024 (2 ^ i) 5 = Some (of_nat (15 - i))"
    by (simp add: rtc_rate.simps atLeastAtMost_upt upt_rec)
  then show ?thesis using assms by simp
qed


lemma rtc_write_powers:
  assumes "k \<le> 10"
  shows "rtc_write (Some (2 ^ k)) prev d = Some (0, sti (outb ((prev AND 0xF0) OR of_nat (15 - k)) 0x71
    (outb 0x8A 0x70 (outb 0x8A 0x70 (cli d)))))"
proof -
  have "\<forall>i \<in> {0..10 :: nat}. (2 ^ i :: u32) AND (2 ^ i - 1) = 0 \<and> sint (2 ^ i :: u32) \<le> 1024"
    by (simp add: atLeastAtMost_upt upt_rec)
  from bspec [OF this, of k] have "(2 ^ k :: u32) AND (2 ^ k - 1) = 0" "\<not> 1024 < sint (2 ^ k :: u32)"
    using assms by simp_all
  then show ?thesis using rtc_rate_powers [OF assms] by (simp add: rtc_write_def Let_def)
qed

lemma rtc_write_zero:
  "rtc_write (Some 0) prev d = Some (0, sti (outb ((prev AND 0xF0) OR 0x10) 0x71
    (outb 0x8A 0x70 (outb 0x8A 0x70 (cli d)))))"
  by (simp add: rtc_write_def rtc_rate.simps Let_def)

lemma rtc_write_min: "rtc_write (Some 0x80000000) prev d = None"
  by (simp add: rtc_write_def rtc_rate.simps)

lemma rtc_write_reject:
  assumes "\<And>k. k \<le> 10 \<Longrightarrow> freq \<noteq> 2 ^ k" "freq \<noteq> 0" "freq \<noteq> 0x80000000"
  shows "rtc_write (Some freq) prev d = Some (-1, d)"
proof (cases "freq AND (freq - 1) = 0")
  case False
  then show ?thesis by (simp add: rtc_write_def)
next
  case True
  then obtain n where n: "n < 32" "freq = 2 ^ n" using two_power_word assms(2) by blast
  have "n \<noteq> 31" using n(2) assms(3) by auto
  moreover have "10 < n" using assms(1) [of n] n(2) by (meson not_le)
  ultimately have "11 \<le> n" "n < 31" using n(1) by auto
  have "(2 :: nat) ^ n < 2 ^ 31" using \<open>n < 31\<close> by (intro power_strict_increasing) auto
  from sint_of_nat_u32 [OF this] have "sint freq = 2 ^ n" by (simp add: n(2))
  moreover have "(2 :: int) ^ 11 \<le> 2 ^ n" using \<open>11 \<le> n\<close> by (intro power_increasing) auto
  ultimately have "sint freq > 1024" by simp
  then show ?thesis by (simp add: rtc_write_def)
qed

text \<open>[C38] Every outcome of \<open>rtc_write\<close>. For a power of two up to 1024 it returns 0 with interrupts
  on and writes a rate that keeps the high half of register A, but makes the clock tick at twice
  the frequency asked for. For 0 it returns 0 with bit 4 set in the half it should keep. For the
  most negative integer it never returns. For everything else it returns -1 and does nothing.\<close>

theorem rtc_write_outcomes:
  "(\<forall>k \<le> 10. \<exists>d' a. rtc_write (Some (2 ^ k)) prev d = Some (0, d') \<and> interrupts_on d' \<and>
      snd (cmos c d') = (snd (cmos c d))(0x0A := a) \<and> a AND 0xF0 = prev AND 0xF0 \<and>
      rtc_frequency a = 2 * 2 ^ k)
   \<and> (\<exists>d'. rtc_write (Some 0) prev d = Some (0, d') \<and>
      snd (cmos c d') = (snd (cmos c d))(0x0A := (prev AND 0xF0) OR 0x10))
   \<and> rtc_write (Some 0x80000000) prev d = None
   \<and> ((\<forall>k \<le> 10. freq \<noteq> 2 ^ k) \<longrightarrow> freq \<noteq> 0 \<longrightarrow> freq \<noteq> 0x80000000 \<longrightarrow>
      rtc_write (Some freq) prev d = Some (-1, d))
   \<and> rtc_write None prev d = Some (-1, d)"
proof (intro conjI allI impI)
  fix k :: nat
  assume k: "k \<le> 10"
  let ?a = "(prev AND 0xF0) OR of_nat (15 - k)"
  have low: "\<forall>i \<in> {0..10 :: nat}. (of_nat (15 - i) :: u8) AND 0xF0 = 0 \<and> (of_nat (15 - i) :: u8) AND 0x0F = of_nat (15 - i)
      \<and> (2 :: nat) ^ 15 div 2 ^ (unat (of_nat (15 - i) :: u8) - 1) = 2 * 2 ^ i"
    by (simp add: atLeastAtMost_upt upt_rec)
  have high: "?a AND 0xF0 = prev AND 0xF0" "?a AND 0x0F = of_nat (15 - k)"
    using low k by (simp_all add: bit.conj_disj_distrib2 and.assoc)
  then have "rtc_frequency ?a = 2 * 2 ^ k" using low k by (simp add: rtc_frequency_def)
  moreover have "snd (cmos c (sti (outb ?a 0x71 (outb 0x8A 0x70 (outb 0x8A 0x70 (cli d)))))) =
      (snd (cmos c d))(0x0A := ?a)"
    by (cases "cmos c d") simp
  moreover have "interrupts_on (sti e)" for e by (simp add: sti_def)
  ultimately show "\<exists>d' a. rtc_write (Some (2 ^ k)) prev d = Some (0, d') \<and> interrupts_on d' \<and>
      snd (cmos c d') = (snd (cmos c d))(0x0A := a) \<and> a AND 0xF0 = prev AND 0xF0 \<and>
      rtc_frequency a = 2 * 2 ^ k"
    using rtc_write_powers [OF k, of prev d] high(1) by blast
next
  show "\<exists>d'. rtc_write (Some 0) prev d = Some (0, d') \<and>
      snd (cmos c d') = (snd (cmos c d))(0x0A := (prev AND 0xF0) OR 0x10)"
    unfolding rtc_write_zero by (cases "cmos c d") simp
qed (use rtc_write_min rtc_write_reject in \<open>auto simp: rtc_write_def\<close>)

lemma rtc_write_outcomes_witness:
  "rtc_write (Some 3) 0x26 example_devices = Some (-1, example_devices) \<and>
   (\<exists>d' a. rtc_write (Some 1024) 0x26 example_devices = Some (0, d') \<and> rtc_frequency a = 2048)"
proof -
  note out = rtc_write_outcomes [of "0x26" example_devices "(0, \<lambda>_. 0)" 3]
  from out have "\<exists>d' a. rtc_write (Some (2 ^ 10)) 0x26 example_devices = Some (0, d') \<and>
      rtc_frequency a = 2 * 2 ^ 10" by blast
  moreover have "(3 :: i32) \<noteq> 2 ^ k" if "k \<le> 10" for k
  proof -
    have "\<forall>i \<in> {0..10 :: nat}. (3 :: i32) \<noteq> 2 ^ i" by (simp add: atLeastAtMost_upt upt_rec)
    then show ?thesis using that by simp
  qed
  ultimately show ?thesis using out by simp
qed

subsection \<open>Waiting for the clock\<close>

lemma rtc_spin_set: "rtc_interrupt_occurred d \<noteq> 0 \<Longrightarrow> 0 < fuel \<Longrightarrow> rtc_spin fuel ticks i d = Some d"
  by (cases fuel) simp_all

lemma rtchandler_sets: "rtc_interrupt_occurred (rtchandler d) = 1"
  by (simp add: rtchandler_def test_interrupts_def Let_def send_eoi_def)

lemma rtc_spin_waits:
  assumes "\<And>j. j < n \<Longrightarrow> \<not> ticks (i + j)" "ticks (i + n)" "rtc_interrupt_occurred d = 0" "n + 2 \<le> fuel"
  shows "rtc_spin fuel ticks i d = Some (rtchandler d)"
  using assms
proof (induction n arbitrary: i fuel)
  case 0
  then obtain f where "fuel = Suc f" "0 < f" by (cases fuel) auto
  then show ?case using 0 by (simp add: rtc_spin_set rtchandler_sets)
next
  case (Suc n)
  then obtain f where f: "fuel = Suc f" "n + 2 \<le> f" by (cases fuel) auto
  have "rtc_spin f ticks (i + 1) d = Some (rtchandler d)"
    using Suc.prems(1) [of "Suc _"] Suc.prems f(2) by (intro Suc.IH) auto
  moreover have "\<not> ticks i" using Suc.prems(1) [of 0] by simp
  ultimately show ?case using f(1) Suc.prems(3) by simp
qed

lemma rtc_spin_never:
  assumes "\<And>j. \<not> ticks j" "rtc_interrupt_occurred d = 0"
  shows "rtc_spin fuel ticks i d = None"
  using assms by (induction fuel arbitrary: i) simp_all

text \<open>[C39] \<open>rtc_read\<close> forgets ticks that came earlier and returns 0 right after the next interrupt
  of the clock has been handled once; without an interrupt it never returns.\<close>

theorem rtc_read_waits_for_tick:
  "(\<forall>n fuel. ticks n \<and> (\<forall>j < n. \<not> ticks j) \<and> n + 2 \<le> fuel \<longrightarrow>
      rtc_read fuel ticks d = Some (0, rtchandler (d\<lparr>rtc_interrupt_occurred := 0\<rparr>)))
   \<and> ((\<forall>j. \<not> ticks j) \<longrightarrow> (\<forall>fuel. rtc_read fuel ticks d = None))"
proof (intro conjI allI impI)
  fix n fuel
  assume "ticks n \<and> (\<forall>j < n. \<not> ticks j) \<and> n + 2 \<le> fuel"
  then have "rtc_spin fuel ticks 0 (d\<lparr>rtc_interrupt_occurred := 0\<rparr>) =
      Some (rtchandler (d\<lparr>rtc_interrupt_occurred := 0\<rparr>))"
    by (intro rtc_spin_waits [of n]) auto
  then show "rtc_read fuel ticks d = Some (0, rtchandler (d\<lparr>rtc_interrupt_occurred := 0\<rparr>))"
    by (simp add: rtc_read_def)
qed (simp add: rtc_read_def rtc_spin_never)

lemma rtc_read_waits_for_tick_witness:
  "rtc_read 5 (\<lambda>i. i = 3) example_devices =
     Some (0, rtchandler (example_devices\<lparr>rtc_interrupt_occurred := 0\<rparr>)) \<and>
   rtc_read 5 (\<lambda>i. False) example_devices = None"
proof -
  have "rtc_read 5 (\<lambda>i. i = 3) example_devices =
     Some (0, rtchandler (example_devices\<lparr>rtc_interrupt_occurred := 0\<rparr>))"
    using rtc_read_waits_for_tick [of "\<lambda>i. i = (3 :: nat)" example_devices] by auto
  moreover have "rtc_read 5 (\<lambda>i. False) example_devices = None"
    using rtc_read_waits_for_tick [of "\<lambda>i. False" example_devices] by blast
  ultimately show ?thesis by blast
qed

subsection \<open>The interval timer as documented\<close>

text \<open>In the mode of command \<open>0x36\<close> channel 0 takes its reload value as two bytes, low byte first.\<close>

fun pit_step :: "u16 \<times> u8 \<Rightarrow> u8 list \<Rightarrow> u8 list" where
  "pit_step (port, v) bytes =
     (if port = 0x43 then [] else if port = 0x40 then bytes @ [v] else bytes)"

definition pit_reload :: "devices \<Rightarrow> nat option" where
  "pit_reload d = (case fold pit_step (port_log d) [] of
     [low, high] \<Rightarrow> Some (unat low + 256 * unat high) | _ \<Rightarrow> None)"

lemma byte_of_word: "unat (ucast (w AND 0xFF) :: u8) = unat (w :: u32) mod 256"
proof -
  have "(0xFF :: u32) = mask 8" by (simp add: mask_eq_exp_minus_1)
  then have "w AND 0xFF = take_bit 8 w" by (simp add: take_bit_eq_mask)
  then show ?thesis by (simp only: unsigned_ucast_eq unsigned_take_bit_eq) (simp add: take_bit_eq_mod)
qed

lemma split_bytes:
  "unat (ucast (w AND 0xFF) :: u8) + 256 * unat (ucast (drop_bit 8 w AND 0xFF) :: u8) =
     unat (w :: u32) mod 65536"
proof -
  have "unat w mod 65536 = 256 * (unat w div 256 mod 256) + unat w mod 256"
    using mod_mult2_eq [of "unat w" 256 256] by simp
  then show ?thesis
    unfolding byte_of_word by (simp add: drop_bit_eq_div unat_div)
qed

text \<open>[C40] \<open>init_pit\<close> loads the timer with the quotient of its clock and the rate and lets its interrupt
  through. The quotient fits the 16-bit register for a rate of at least 19; otherwise the
  register gets its low sixteen bits. A rate of 0 traps.\<close>

theorem init_pit_programs:
  "init_pit 0 d = None \<and>
   (\<forall>rate. rate \<noteq> 0 \<longrightarrow> (\<exists>d'. init_pit rate d = Some d' \<and>
      pit_reload d' = Some (1193182 div unat rate mod 65536) \<and>
      (19 \<le> unat rate \<longrightarrow> pit_reload d' = Some (1193182 div unat rate)) \<and>
      \<not> bit (master_mask d') 0))"
proof (intro conjI allI impI)
  show "init_pit 0 d = None" by (simp add: init_pit_def)
next
  fix rate :: u32
  assume rate: "rate \<noteq> 0"
  define q where "q = (1193182 div rate :: u32)"
  define d' where "d' = enable_irq 0 (outb (ucast (drop_bit 8 q AND 0xFF)) 0x40
      (outb (ucast (q AND 0xFF)) 0x40 (outb 0x36 0x43 d)))"
  have run: "init_pit rate d = Some d'" by (simp add: init_pit_def rate d'_def q_def Let_def)
  have "port_log d' = port_log d @ [(0x43, 0x36), (0x40, ucast (q AND 0xFF)),
      (0x40, ucast (drop_bit 8 q AND 0xFF)), (0x21, master_mask d')]"
    by (simp add: d'_def enable_irq_def outb_def Let_def)
  then have reload: "pit_reload d' = Some (1193182 div unat rate mod 65536)"
    using split_bytes [of q] by (simp add: pit_reload_def q_def unat_div)
  have "1193182 div unat rate \<le> 1193182 div 19" if "19 \<le> unat rate"
    using that by (rule div_le_mono2 [rotated]) simp
  then have small: "19 \<le> unat rate \<longrightarrow> pit_reload d' = Some (1193182 div unat rate)"
    using reload by auto
  have "\<not> bit (master_mask d') 0" by (simp add: d'_def enable_irq_def Let_def bit_simps)
  then show "\<exists>d'. init_pit rate d = Some d' \<and>
      pit_reload d' = Some (1193182 div unat rate mod 65536) \<and>
      (19 \<le> unat rate \<longrightarrow> pit_reload d' = Some (1193182 div unat rate)) \<and>
      \<not> bit (master_mask d') 0"
    using run reload small by blast
qed

lemma init_pit_programs_witness:
  "\<exists>d'. init_pit 100 example_devices = Some d' \<and> pit_reload d' = Some 11931"
proof -
  have "\<forall>rate. rate \<noteq> 0 \<longrightarrow> (\<exists>d'. init_pit rate example_devices = Some d' \<and>
      pit_reload d' = Some (1193182 div unat rate mod 65536))"
    using init_pit_programs [of example_devices] by blast
  from this [rule_format, of 100] show ?thesis by simp
qed

end
