(* ===== verification/Keyboard.thy ===== *)
theory Keyboard imports Console Devices begin

text \<open>
  The keyboard driver (\<open>keyboard.c\<close>), the line buffers of \<open>scheduler.c\<close> and the line discipline of
  \<open>terminal.c\<close>: from the scan code of a key to the line a blocked \<open>terminal_read\<close> returns.

  The state extends the console with the static arrays of the two files and with the devices.
  Storing outside a static array, or reading outside one, has no defined result: \<open>None\<close>. The
  local \<open>temp\<close>, which one path of \<open>check_input\<close> never assigns, is the argument \<open>junk\<close>. Scan codes
  are the bytes port \<open>0x60\<close> delivers.
\<close>

subsection \<open>State\<close>

record keyboard = console +
  chararray :: "u8 list"
  linebuffer :: "u8 list"
  terminalbuffer :: "u8 list list"
  flags :: "int list"
  numberofchars :: "int list"
  dev :: devices

abbreviation (input) "KEYBOARD_BUFFER_LENGTH \<equiv> (128 :: nat)"
abbreviation (input) "NUM_KEYS \<equiv> (255 :: nat)"
abbreviation (input) "LEFTSHIFT \<equiv> (0x2A :: u8)"
abbreviation (input) "LEFTSHIFTRELEASED \<equiv> (0xAA :: u8)"
abbreviation (input) "RIGHTSHIFT \<equiv> (0x36 :: u8)"
abbreviation (input) "RIGHTSHIFTRELEASED \<equiv> (0xB6 :: u8)"
abbreviation (input) "CAPSLOCK \<equiv> (0x3A :: u8)"
abbreviation (input) "LEFTCONTROLPRESSED \<equiv> (0x1D :: u8)"
abbreviation (input) "LEFTCONTROLRELEASED \<equiv> (0x9D :: u8)"
abbreviation (input) "BACKSPACE \<equiv> (0x0E :: u8)"
abbreviation (input) "ENTER \<equiv> (0x1C :: u8)"
abbreviation (input) "ALTPRESSED \<equiv> (0x38 :: u8)"
abbreviation (input) "ALTRELEASED \<equiv> (0xB8 :: u8)"

definition chararray_keys :: "u8 list" where
  "chararray_keys = chars '' '' @ [0] @ chars ''1234567890-=btqwertyuiop[]'' @ [10] @
     chars ''0asdfghjkl;'' @ [39, 96] @ chars ''s'' @ [92] @ chars ''zxcvbnm,./r'' @ [0, 0] @ chars '' ''"

definition initial_chararray :: "u8 list" where
  "initial_chararray = chararray_keys @ replicate (NUM_KEYS - length chararray_keys) 0"

definition shiftarray :: "u8 list" where
  "shiftarray = chars ''~!@#$%^&*(''"

subsection \<open>Line buffers of the scheduler\<close>

text \<open>\<open>memcpy\<close> of the first \<open>n\<close> bytes between two arrays; a negative \<open>n\<close> is a huge count.\<close>

definition copy_prefix :: "int \<Rightarrow> u8 list \<Rightarrow> u8 list \<Rightarrow> u8 list option" where
  "copy_prefix n src dst =
     (if 0 \<le> n \<and> n \<le> int (length src) \<and> n \<le> int (length dst)
      then Some (take (nat n) src @ drop (nat n) dst) else None)"

definition get_current_noc :: "'a keyboard_scheme \<Rightarrow> int" where
  "get_current_noc k = noc (terminals (sched k) ! visible k)"

definition get_current_terminal :: "'a keyboard_scheme \<Rightarrow> nat" where
  "get_current_terminal k = current_term (sched k)"

definition get_visable_terminal :: "'a keyboard_scheme \<Rightarrow> nat" where
  "get_visable_terminal k = visable_term (sched k)"

definition set_line_buffer :: "'a keyboard_scheme \<Rightarrow> 'a keyboard_scheme option" where
  "set_line_buffer k = do {
     b \<leftarrow> copy_prefix (noc (terminals (sched k) ! visible k)) (lb (terminals (sched k) ! visible k)) (linebuffer k);
     Some (k\<lparr>linebuffer := b\<rparr>)
   }"

definition set_global_buffer :: "int \<Rightarrow> 'a keyboard_scheme \<Rightarrow> 'a keyboard_scheme option" where
  "set_global_buffer n k = do {
     let k = upd_terminal (visible k) (noc_update (\<lambda>_. n)) k;
     b \<leftarrow> copy_prefix n (linebuffer k) (lb (terminals (sched k) ! visible k));
     Some (upd_terminal (visible k) (lb_update (\<lambda>_. b)) k)
   }"

definition switch_visible :: "nat \<Rightarrow> 'a keyboard_scheme \<Rightarrow> 'a keyboard_scheme" where
  "switch_visible next_terminal k =
     (let same = (next_terminal = visable_term (sched k));
          k = k\<lparr>dev := cli (dev k)\<rparr>;
          k = switch_terminals next_terminal k
      in if same then k else k\<lparr>dev := sti (dev k)\<rparr>)"

subsection \<open>\<open>terminal.c\<close>: handing a line over\<close>

definition set_terminal_buffer :: "u8 list \<Rightarrow> int \<Rightarrow> 'a keyboard_scheme \<Rightarrow> 'a keyboard_scheme option" where
  "set_terminal_buffer buf nchars k =
     (let current_t = get_visable_terminal k in
      if 0 \<le> nchars \<and> nchars < int KEYBOARD_BUFFER_LENGTH \<and> nchars \<le> int (length buf) then
        let line = take (nat nchars) buf @ replicate (KEYBOARD_BUFFER_LENGTH - nat nchars) 0;
            k = k\<lparr>terminalbuffer := (terminalbuffer k)[current_t := line]\<rparr>;
            k = k\<lparr>numberofchars := (numberofchars k)[current_t := nchars]\<rparr>;
            k = k\<lparr>terminalbuffer := (terminalbuffer k)[current_t := line[nat nchars := 10]]\<rparr>
        in Some (k\<lparr>flags := (flags k)[current_t := 1]\<rparr>)
      else None)"

definition init_terminals :: "'a keyboard_scheme \<Rightarrow> int \<times> 'a keyboard_scheme" where
  "init_terminals k = (0, k\<lparr>terminalbuffer := replicate 3 (replicate KEYBOARD_BUFFER_LENGTH 0)\<rparr>)"

subsection \<open>\<open>keyboard.c\<close>\<close>

definition set_key :: "u8 \<Rightarrow> u8 \<Rightarrow> 'a keyboard_scheme \<Rightarrow> 'a keyboard_scheme" where
  "set_key a c k = k\<lparr>chararray := (chararray k)[unat a := c]\<rparr>"

definition key_is :: "u8 \<Rightarrow> u8 \<Rightarrow> 'a keyboard_scheme \<Rightarrow> bool" where
  "key_is a c k \<longleftrightarrow> chararray k ! unat a = c"

abbreviation (input) "key_on a \<equiv> key_is a 49"

definition put_line :: "int \<Rightarrow> u8 \<Rightarrow> 'a keyboard_scheme \<Rightarrow> 'a keyboard_scheme option" where
  "put_line n c k =
     (if 0 \<le> n \<and> n < int (length (linebuffer k)) then Some (k\<lparr>linebuffer := (linebuffer k)[nat n := c]\<rparr>)
      else None)"

definition clear_line :: "'a keyboard_scheme \<Rightarrow> 'a keyboard_scheme" where
  "clear_line k = k\<lparr>linebuffer := replicate KEYBOARD_BUFFER_LENGTH 0\<rparr>"

text \<open>The character typed with shift held, for the keys other than letters.\<close>

definition shifted :: "u8 \<Rightarrow> u8 \<Rightarrow> u8" where
  "shifted junk c =
     (if 49 \<le> c \<and> c \<le> 57 then
        (if shiftarray ! unat (c - 48) \<noteq> 0 then shiftarray ! unat (c - 48) else junk)
      else if c = chr8 CHR ''-'' then chr8 CHR ''_''
      else if c = chr8 CHR ''='' then chr8 CHR ''+''
      else if c = chr8 CHR ''['' then chr8 CHR ''{''
      else if c = chr8 CHR '']'' then chr8 CHR ''}''
      else if c = 96 then chr8 CHR ''~''
      else if c = 92 then chr8 CHR ''|''
      else if c = chr8 CHR '';'' then chr8 CHR '':''
      else if c = 39 then 34
      else if c = chr8 CHR '','' then chr8 CHR ''<''
      else if c = chr8 CHR ''.'' then chr8 CHR ''>''
      else if c = chr8 CHR ''/'' then chr8 CHR ''?''
      else if c = chr8 CHR ''0'' then chr8 CHR '')''
      else junk)"

definition default_key :: "u8 \<Rightarrow> u8 \<Rightarrow> int \<Rightarrow> 'a keyboard_scheme \<Rightarrow> 'a keyboard_scheme option" where
  "default_key a junk n k =
     (let (k, n) =
        (if key_on 0x38 k then
           let k = (if a = 0x3C then switch_visible 1 k
                    else if a = 0x3D then switch_visible 2 k
                    else if a = 0x3B then switch_visible 0 k
                    else k)
           in (k, get_current_noc k)
         else (k, n));
          c = chararray k ! unat a
      in if \<not> unat a < length (chararray k) then None
      else if (key_on CAPSLOCK k \<or> key_on LEFTSHIFT k \<or> key_on RIGHTSHIFT k) \<and> 97 \<le> c \<and> c \<le> 122 then
        let temp = (if key_on CAPSLOCK k \<and> (key_on LEFTSHIFT k \<or> key_on RIGHTSHIFT k) then c else c - 32) in
        if temp = 76 \<and> key_on LEFTCONTROLPRESSED k then
          let k = clear k;
              k = setposition 0 0 k;
              k = update_cursor k;
              k = clear_line k
          in set_global_buffer 0 k
        else if n \<noteq> int KEYBOARD_BUFFER_LENGTH - 1 then do {
          k \<leftarrow> put_line n temp k;
          let k = putc temp k;
          let k = update_cursor k;
          set_global_buffer (n + 1) k
        }
        else Some k
      else if key_on LEFTSHIFT k \<or> key_on RIGHTSHIFT k then
        if c \<noteq> 0 \<and> n \<noteq> int KEYBOARD_BUFFER_LENGTH - 1 then do {
          let temp = shifted junk c;
          k \<leftarrow> put_line n temp k;
          let k = putc temp k;
          k \<leftarrow> set_global_buffer (n + 1) k;
          Some (update_cursor k)
        }
        else Some k
      else
        if c \<noteq> 0 \<and> n \<noteq> int KEYBOARD_BUFFER_LENGTH - 1 then do {
          k \<leftarrow> put_line n c k;
          let k = putc c k;
          k \<leftarrow> set_global_buffer (n + 1) k;
          Some (update_cursor k)
        }
        else Some k)"

definition handle_key :: "u8 \<Rightarrow> u8 \<Rightarrow> int \<Rightarrow> 'a keyboard_scheme \<Rightarrow> 'a keyboard_scheme option" where
  "handle_key a junk n k =
     (if a = LEFTSHIFT then Some (set_key LEFTSHIFT 49 k)
      else if a = LEFTSHIFTRELEASED then Some (set_key LEFTSHIFT 48 k)
      else if a = RIGHTSHIFT then Some (set_key RIGHTSHIFT 49 k)
      else if a = RIGHTSHIFTRELEASED then Some (set_key RIGHTSHIFT 48 k)
      else if a = LEFTCONTROLPRESSED then Some (set_key LEFTCONTROLPRESSED 49 k)
      else if a = LEFTCONTROLRELEASED then Some (set_key LEFTCONTROLPRESSED 48 k)
      else if a = ALTPRESSED then Some (set_key ALTPRESSED 49 k)
      else if a = ALTRELEASED then Some (set_key ALTPRESSED 48 k)
      else if a = BACKSPACE then
        if n \<noteq> 0 then do {
          let k = handlebackspace k;
          k \<leftarrow> put_line n 0 k;
          set_global_buffer (n - 1) k
        }
        else Some k
      else if a = ENTER then do {
          let k = putc (chararray k ! unat a) k;
          k \<leftarrow> put_line n 10 k;
          k \<leftarrow> set_terminal_buffer (linebuffer k) n k;
          let k = clear_line k;
          set_global_buffer 0 k
        }
      else if a = CAPSLOCK then
        Some (if key_is CAPSLOCK 48 k then set_key CAPSLOCK 49 k else set_key CAPSLOCK 48 k)
      else default_key a junk n k)"

definition check_input :: "u8 \<Rightarrow> u8 \<Rightarrow> 'a keyboard_scheme \<Rightarrow> 'a keyboard_scheme option" where
  "check_input a junk k = do {
     let n = get_current_noc k;
     k \<leftarrow> set_line_buffer k;
     let k = setposition (get_global_screen_x k) (get_global_screen_y k) k;
     let k = k\<lparr>paging := paging_set_write_to_videomem (paging k)\<rparr>;
     k \<leftarrow> handle_key a junk n k;
     let k = (if get_current_terminal k \<noteq> get_visable_terminal k
              then k\<lparr>paging := paging_set_write_to_buffer (of_nat (get_current_terminal k)) (paging k)\<rparr>
              else k);
     Some (k\<lparr>dev := send_eoi 1 (dev k)\<rparr>)
   }"

definition init_keyboard :: "'a keyboard_scheme \<Rightarrow> 'a keyboard_scheme" where
  "init_keyboard k =
     (let k = k\<lparr>dev := enable_irq 1 (dev k)\<rparr>
      in set_key ALTPRESSED 48 (set_key LEFTSHIFT 48 (set_key CAPSLOCK 48 k)))"


subsection \<open>What screen output leaves alone\<close>

text \<open>Only memory, the cursor registers and the cursor position of terminal \<open>t\<close> differ.\<close>

definition rescreen ::
  "nat \<Rightarrow> mem \<Rightarrow> int \<Rightarrow> int \<Rightarrow> u8 \<Rightarrow> (u8 \<Rightarrow> u8) \<Rightarrow> 'a console_scheme \<Rightarrow> 'a console_scheme" where
  "rescreen t p x y ci cr k = k\<lparr>phys := p, sched := (sched k)\<lparr>terminals :=
     (terminals (sched k))[t := (terminals (sched k) ! t)\<lparr>screen_x := x, screen_y := y\<rparr>]\<rparr>,
     crtc_index := ci, crtc_reg := cr\<rparr>"

definition screen_change :: "nat \<Rightarrow> 'a console_scheme \<Rightarrow> 'a console_scheme \<Rightarrow> bool" where
  "screen_change t k k' \<longleftrightarrow> (\<exists>p x y ci cr. k' = rescreen t p x y ci cr k)"

lemma rescreen_same:
  "rescreen t (phys k) (screen_x (terminals (sched k) ! t)) (screen_y (terminals (sched k) ! t))
     (crtc_index k) (crtc_reg k) k = k"
  by (simp add: rescreen_def)

lemma screen_change_refl: "screen_change t k k"
  unfolding screen_change_def using rescreen_same [of t k] by metis

lemma rescreen_updates:
  "(rescreen t p x y ci cr k)\<lparr>phys := p'\<rparr> = rescreen t p' x y ci cr k"
  "(rescreen t p x y ci cr k)\<lparr>crtc_index := ci'\<rparr> = rescreen t p x y ci' cr k"
  "(rescreen t p x y ci cr k)\<lparr>crtc_reg := cr'\<rparr> = rescreen t p x y ci cr' k"
  by (simp_all add: rescreen_def)

lemma update_twice: "xs[t := u, t := g (xs[t := u] ! t)] = xs[t := g u]"
  by (cases "t < length xs") (simp_all add: list_update_beyond)

lemma cursor_swap: "u\<lparr>screen_y := y, screen_x := x\<rparr> = u\<lparr>screen_x := x, screen_y := y\<rparr>"
  by simp

lemma rescreen_terminal:
  "upd_terminal t (screen_x_update (\<lambda>_. x')) (rescreen t p x y ci cr k) = rescreen t p x' y ci cr k"
  "upd_terminal t (screen_y_update (\<lambda>_. y')) (rescreen t p x y ci cr k) = rescreen t p x y' ci cr k"
  using update_twice [of "terminals (sched k)" t "(terminals (sched k) ! t)\<lparr>screen_x := x, screen_y := y\<rparr>"]
  unfolding rescreen_def upd_terminal_def by (simp_all add: cursor_swap del: list_update_overwrite)

lemma screen_change_phys: "screen_change t k k1 \<Longrightarrow> screen_change t k (k1\<lparr>phys := p\<rparr>)"
  unfolding screen_change_def by (metis rescreen_updates(1))

lemma screen_change_crtc:
  "screen_change t k k1 \<Longrightarrow> screen_change t k (k1\<lparr>crtc_index := ci\<rparr>)"
  "screen_change t k k1 \<Longrightarrow> screen_change t k (k1\<lparr>crtc_reg := cr\<rparr>)"
  unfolding screen_change_def by (metis rescreen_updates(2,3))+

lemma screen_change_selects:
  "screen_change t k k1 \<Longrightarrow> visible k1 = visible k" "screen_change t k k1 \<Longrightarrow> current k1 = current k"
  by (auto simp: screen_change_def rescreen_def visible_def current_def)

lemma screen_change_xy:
  "screen_change (visible k) k k1 \<Longrightarrow> screen_change (visible k) k (set_screen_x visible x k1)"
  "screen_change (visible k) k k1 \<Longrightarrow> screen_change (visible k) k (set_screen_y visible y k1)"
  using screen_change_selects(1) [of "visible k" k k1] rescreen_terminal
  unfolding set_screen_x_def set_screen_y_def screen_change_def by metis+

lemma screen_change_video:
  "screen_change t k k1 \<Longrightarrow> screen_change t k (video_store off b k1)"
  "screen_change t k k1 \<Longrightarrow> screen_change t k (scroll_screen k1)"
  "screen_change t k k1 \<Longrightarrow> screen_change t k (clear k1)"
  "screen_change t k k1 \<Longrightarrow> screen_change t k (update_cursor k1)"
  unfolding video_store_def scroll_screen_phys clear_phys update_cursor_def crtc_outb_def Let_def
  by (simp_all add: screen_change_phys screen_change_crtc)

lemmas screen_changes = screen_change_xy screen_change_video screen_change_refl

lemma screen_change_putc: "screen_change (visible k) k (putc c k)"
  unfolding putc_def putc_with_def scroll_with_def Let_def
  by (simp add: screen_changes)

lemma screen_change_backspace: "screen_change (visible k) k (handlebackspace k)"
  unfolding handlebackspace_def Let_def set_global_screen_x_def set_global_screen_y_def
  by (simp add: screen_changes)

lemma screen_change_clear: "screen_change (visible k) k (update_cursor (setposition x y (clear k)))"
  unfolding setposition_def set_global_screen_x_def set_global_screen_y_def
  by (simp add: screen_changes)

lemma screen_change_console:
  assumes "screen_change t k k'"
  shows "paging k' = paging k" "vid_bufs (sched k') = vid_bufs (sched k)"
    "visable_term (sched k') = visable_term (sched k)" "current_term (sched k') = current_term (sched k)"
    "length (terminals (sched k')) = length (terminals (sched k))" "window_frame k' = window_frame k"
    "lb (terminals (sched k') ! u) = lb (terminals (sched k) ! u)"
    "noc (terminals (sched k') ! u) = noc (terminals (sched k) ! u)"
    "u \<noteq> t \<Longrightarrow> terminals (sched k') ! u = terminals (sched k) ! u"
    "screen_frame k' u = screen_frame k u"
  using assms
  by (auto simp: screen_change_def rescreen_def window_frame_def screen_frame_def nth_list_update
      intro: list_update_beyond)
    (cases "t < length (terminals (sched k))"; cases "u = t"; simp add: list_update_beyond)+

lemma screen_change_keyboard:
  assumes "screen_change t k k'"
  shows "chararray k' = chararray k" "linebuffer k' = linebuffer k" "terminalbuffer k' = terminalbuffer k"
    "flags k' = flags k" "numberofchars k' = numberofchars k" "dev k' = dev k"
  using assms by (auto simp: screen_change_def rescreen_def)

subsection \<open>The state as the user sees it\<close>

text \<open>
  The line being edited, the screen and the line waiting for a reader, of each terminal; the
  modifier keys that are held; the terminal shown.
\<close>

record keyboard_view =
  shift :: "bool \<times> bool"
  caps :: bool
  ctrl :: bool
  alt :: bool
  edited :: "u8 list list"
  delivered :: "u8 list option list"
  screens :: "screen list"
  shown_term :: nat

definition line_of :: "'a keyboard_scheme \<Rightarrow> nat \<Rightarrow> u8 list" where
  "line_of k t = take (nat (noc (terminals (sched k) ! t))) (lb (terminals (sched k) ! t))"

definition delivered_to :: "'a keyboard_scheme \<Rightarrow> nat \<Rightarrow> u8 list option" where
  "delivered_to k t = (if flags k ! t \<noteq> 0
     then Some (take (nat (numberofchars k ! t) + 1) (terminalbuffer k ! t)) else None)"

definition screen_of :: "'a keyboard_scheme \<Rightarrow> nat \<Rightarrow> screen" where
  "screen_of k t = (cells (screen_frame k t) (phys k), nat (screen_x (terminals (sched k) ! t)),
     nat (screen_y (terminals (sched k) ! t)))"

definition view :: "'a keyboard_scheme \<Rightarrow> keyboard_view" where
  "view k = \<lparr>shift = (key_on LEFTSHIFT k, key_on RIGHTSHIFT k), caps = key_on CAPSLOCK k,
     ctrl = key_on LEFTCONTROLPRESSED k, alt = key_on ALTPRESSED k,
     edited = map (line_of k) [0..<3], delivered = map (delivered_to k) [0..<3],
     screens = map (screen_of k) [0..<3], shown_term = visable_term (sched k)\<rparr>"

subsection \<open>What a key does\<close>

definition letter :: "u8 \<Rightarrow> bool" where
  "letter c \<longleftrightarrow> 97 \<le> c \<and> c \<le> 122"

definition typed_char :: "u8 \<Rightarrow> u8 \<Rightarrow> keyboard_view \<Rightarrow> u8" where
  "typed_char junk c s =
     (let sh = (fst (shift s) \<or> snd (shift s)) in
      if letter c \<and> (caps s \<or> sh) then (if caps s \<and> sh then c else c - 32)
      else if sh then shifted junk c else c)"

definition spec_line :: "u8 list \<Rightarrow> (screen \<Rightarrow> screen) \<Rightarrow> keyboard_view \<Rightarrow> keyboard_view" where
  "spec_line l f s = s\<lparr>edited := (edited s)[shown_term s := l],
     screens := (screens s)[shown_term s := f (screens s ! shown_term s)]\<rparr>"

definition spec_char :: "u8 \<Rightarrow> u8 \<Rightarrow> keyboard_view \<Rightarrow> keyboard_view" where
  "spec_char a junk s =
     (let c = initial_chararray ! unat a;
          ch = typed_char junk c s;
          l = edited s ! shown_term s
      in if c = 0 then s
      else if letter c \<and> ch = 76 \<and> ctrl s then spec_line [] (\<lambda>_. (replicate 2000 32, 0, 0)) s
      else if length l = 127 then s
      else spec_line (l @ [ch]) (spec_putc ch) s)"

definition spec_key :: "u8 \<Rightarrow> u8 \<Rightarrow> keyboard_view \<Rightarrow> keyboard_view" where
  "spec_key a junk s =
     (let l = edited s ! shown_term s in
      if a = LEFTSHIFT then s\<lparr>shift := (True, snd (shift s))\<rparr>
      else if a = LEFTSHIFTRELEASED then s\<lparr>shift := (False, snd (shift s))\<rparr>
      else if a = RIGHTSHIFT then s\<lparr>shift := (fst (shift s), True)\<rparr>
      else if a = RIGHTSHIFTRELEASED then s\<lparr>shift := (fst (shift s), False)\<rparr>
      else if a = LEFTCONTROLPRESSED then s\<lparr>ctrl := True\<rparr>
      else if a = LEFTCONTROLRELEASED then s\<lparr>ctrl := False\<rparr>
      else if a = ALTPRESSED then s\<lparr>alt := True\<rparr>
      else if a = ALTRELEASED then s\<lparr>alt := False\<rparr>
      else if a = CAPSLOCK then s\<lparr>caps := \<not> caps s\<rparr>
      else if a = BACKSPACE then (if l = [] then s else spec_line (butlast l) spec_backspace s)
      else if a = ENTER then
        (spec_line [] (spec_putc 10) s)\<lparr>delivered := (delivered s)[shown_term s := Some (l @ [10])]\<rparr>
      else if alt s \<and> a = 0x3B then s\<lparr>shown_term := 0\<rparr>
      else if alt s \<and> a = 0x3C then s\<lparr>shown_term := 1\<rparr>
      else if alt s \<and> a = 0x3D then s\<lparr>shown_term := 2\<rparr>
      else spec_char a junk s)"

subsection \<open>Invariant\<close>

definition keys_ok :: "'a keyboard_scheme \<Rightarrow> bool" where
  "keys_ok k \<longleftrightarrow> length (chararray k) = 255 \<and> (key_is CAPSLOCK 48 k \<or> key_on CAPSLOCK k) \<and>
     (\<forall>i < 255. i \<notin> {0x1D, 0x2A, 0x36, 0x38, 0x3A} \<longrightarrow> chararray k ! i = initial_chararray ! i)"

definition lines_ok :: "'a keyboard_scheme \<Rightarrow> bool" where
  "lines_ok k \<longleftrightarrow> length (linebuffer k) = 128 \<and>
     (\<forall>t < 3. length (lb (terminals (sched k) ! t)) = 128 \<and>
       0 \<le> noc (terminals (sched k) ! t) \<and> noc (terminals (sched k) ! t) \<le> 127) \<and>
     length (terminalbuffer k) = 3 \<and> length (flags k) = 3 \<and> length (numberofchars k) = 3 \<and>
     (\<forall>t < 3. length (terminalbuffer k ! t) = 128 \<and> 0 \<le> numberofchars k ! t \<and> numberofchars k ! t \<le> 127)"

definition keyboard_ok :: "'a keyboard_scheme \<Rightarrow> bool" where
  "keyboard_ok k \<longleftrightarrow> screens_ok k \<and> keys_ok k \<and> lines_ok k"

text \<open>Inside the handler the window shows the video memory and the file's line buffer starts with
  the line of the visible terminal.\<close>

definition entered :: "'a keyboard_scheme \<Rightarrow> bool" where
  "entered k \<longleftrightarrow> displays_ok k \<and> keys_ok k \<and> lines_ok k \<and> window_frame k = 0xB8000 \<and>
     take (nat (get_current_noc k)) (linebuffer k) = line_of k (visible k)"

text \<open>A result the last step of the handler can finish from.\<close>

definition finishing :: "'a keyboard_scheme \<Rightarrow> bool" where
  "finishing k \<longleftrightarrow> displays_ok k \<and> keys_ok k \<and> lines_ok k \<and>
     (window_frame k = 0xB8000 \<or> window_frame k = screen_frame k (current_term (sched k)))"

lemma entered_finishing: "entered k \<Longrightarrow> finishing k"
  by (simp add: entered_def finishing_def)

lemma map_upt_update:
  "v < n \<Longrightarrow> (\<And>t. t < n \<Longrightarrow> t \<noteq> v \<Longrightarrow> f t = g t) \<Longrightarrow> map f [0..<n] = (map g [0..<n])[v := f v]"
  by (rule nth_equalityI) (auto simp: nth_list_update)

subsection \<open>Effects on the screen\<close>

lemma cells_same: "(\<And>n. n < 4000 \<Longrightarrow> m' (at_offset f n) = m (at_offset f n)) \<Longrightarrow> cells f m' = cells f m"
  by (intro nth_equalityI) auto

lemma enteredD:
  assumes "entered k"
  shows "visible k < 3" "length (terminals (sched k)) = 3" "window_frame k = 0xB8000"
    "vid_bufs (sched k) = [0xB9000, 0xBA000, 0xBB000]" "displays_ok k" "keys_ok k" "lines_ok k"
    "visable_term (sched k) = visible k" "vis.ready k" "screen_frame k (visible k) = 0xB8000"
  using assms by (auto simp: entered_def displays_ok_def visible_def vis_ready screen_frame_def)

lemma screen_shown:
  assumes "entered k"
  shows "screen_of k (visible k) = shown visible k"
  by (simp add: screen_of_def shown_def enteredD [OF assms] get_screen_x_def get_screen_y_def)

lemma screen_op:
  assumes k: "entered k" and change: "screen_change (visible k) k k'"
    and shown: "shown visible k' = g (shown visible k)" and ready: "vis.ready k'"
    and outside: "\<And>a. \<not> in_region 0xB8000 4000 a \<Longrightarrow> phys k' a = phys k a"
  shows "entered k'" "screen_of k' (visible k) = g (screen_of k (visible k))"
    "t < 3 \<Longrightarrow> t \<noteq> visible k \<Longrightarrow> screen_of k' t = screen_of k t"
proof -
  note same = screen_change_console [OF change] screen_change_keyboard [OF change]
    screen_change_selects(1) [OF change]
  note kD = enteredD [OF k]
  have cursors: "cursor_ok (terminals (sched k') ! t)" if "t < 3" for t
    using that same(9) [of t] ready kD by (cases "t = visible k") (auto simp: vis_ready displays_ok_def same)
  then show "entered k'"
    using k unfolding entered_def displays_ok_def keys_ok_def lines_ok_def key_is_def
      get_current_noc_def line_of_def same by blast
  from screen_shown [OF this] screen_shown [OF k] shown same
  show "screen_of k' (visible k) = g (screen_of k (visible k))" by simp
  show "screen_of k' t = screen_of k t" if t: "t < 3" "t \<noteq> visible k"
  proof -
    let ?f = "vid_bufs (sched k) ! t"
    have frame: "screen_frame k t = ?f" using t kD(8) by (simp add: screen_frame_def)
    have "\<not> in_region 0xB8000 4000 (at_offset ?f n)" if "n < 4000" for n
    proof -
      have "apart 0xB8000 4000 ?f 4000"
        using t(1) unfolding kD(4) by (intro apart_intervals) (auto simp: less_Suc_eq numeral_3_eq_3)
      moreover have "in_region ?f 4000 (at_offset ?f n)"
        using that by (simp add: in_region_def unat_at_offset)
      ultimately show ?thesis using apartD by blast
    qed
    then have "cells ?f (phys k') = cells ?f (phys k)" by (intro cells_same outside)
    then show ?thesis using t(2) by (simp add: screen_of_def same frame)
  qed
qed

lemma putc_op:
  assumes "entered k"
  shows "entered (putc c k)" "screen_of (putc c k) (visible k) = spec_putc c (screen_of k (visible k))"
    "t < 3 \<Longrightarrow> t \<noteq> visible k \<Longrightarrow> screen_of (putc c k) t = screen_of k t"
proof -
  note ready = enteredD(9) [OF assms] and window = enteredD(3) [OF assms]
  have "shown visible (putc c k) = spec_putc c (shown visible k)" "vis.ready (putc c k)"
    using vis.putc_refines [OF ready, of c] by (simp_all add: putc_def vis_ready)
  moreover have "\<not> in_region 0xB8000 4000 a \<Longrightarrow> phys (putc c k) a = phys k a" for a
    using vis.putc_frame(1) [OF ready, of a c] window by (simp add: putc_def)
  ultimately show "entered (putc c k)" "screen_of (putc c k) (visible k) = spec_putc c (screen_of k (visible k))"
    "t < 3 \<Longrightarrow> t \<noteq> visible k \<Longrightarrow> screen_of (putc c k) t = screen_of k t"
    using screen_op [OF assms screen_change_putc] by blast+
qed

lemma update_cursor_op:
  assumes "entered k"
  shows "entered (update_cursor k)" "screen_of (update_cursor k) = screen_of k"
proof -
  have "vis.ready (update_cursor k)" using enteredD(9) [OF assms] by (simp add: vis_ready)
  then show "entered (update_cursor k)"
    using screen_op(1) [OF assms screen_change_video(4) [OF screen_change_refl], of "\<lambda>s. s"] by simp
  show "screen_of (update_cursor k) = screen_of k"
    by (rule ext) (simp add: screen_of_def screen_frame_def)
qed

lemma setposition_facts:
  assumes "visible k < length (terminals (sched k))"
  shows "get_screen_x visible (setposition x y k) = x" "get_screen_y visible (setposition x y k) = y"
    "phys (setposition x y k) = phys k" "window_frame (setposition x y k) = window_frame k"
    "visible (setposition x y k) = visible k"
    "length (terminals (sched (setposition x y k))) = length (terminals (sched k))"
  using assms by (simp_all add: setposition_def set_global_screen_x_def set_global_screen_y_def)

lemma clear_op:
  assumes "entered k"
  defines "k' \<equiv> update_cursor (setposition 0 0 (clear k))"
  shows "entered k'" "screen_of k' (visible k) = (replicate 2000 32, 0, 0)"
    "t < 3 \<Longrightarrow> t \<noteq> visible k \<Longrightarrow> screen_of k' t = screen_of k t"
proof -
  note kD = enteredD [OF assms(1)]
  have "visible (clear k) < length (terminals (sched (clear k)))"
    using kD(1,2) by (simp add: clear_phys visible_def)
  note pos = setposition_facts [OF this, of 0 0]
  have keep: "phys k' = cleared 0xB8000 2000 (phys k)" "window_frame k' = 0xB8000"
    using kD(3) unfolding k'_def update_cursor_simps pos by (simp_all add: clear_phys)
  have xy: "get_screen_x visible k' = 0" "get_screen_y visible k' = 0"
    using pos(1,2) unfolding k'_def by (simp_all only: get_screen_x_def get_screen_y_def visible_def update_cursor_simps)
  moreover have "visible k' < length (terminals (sched k'))"
    using pos(5,6) kD(1,2) unfolding k'_def by (simp add: visible_def clear_phys)
  then have "vis.ready k'" using xy by (intro vis.readyI) simp_all
  moreover have "\<not> in_region 0xB8000 4000 a \<Longrightarrow> phys k' a = phys k a" for a
    by (simp add: keep cleared_def in_region_def Let_def)
  ultimately show "entered k'" "screen_of k' (visible k) = (replicate 2000 32, 0, 0)"
    "t < 3 \<Longrightarrow> t \<noteq> visible k \<Longrightarrow> screen_of k' t = screen_of k t"
    using screen_op [OF assms(1) screen_change_clear [of k 0 0, folded k'_def], of "\<lambda>_. (replicate 2000 32, 0, 0)"]
    by (simp_all add: shown_def keep cells_cleared)
qed

lemma backspace_frame:
  assumes "vis.ready k" "\<not> in_region (window_frame k) 4000 a"
  shows "phys (handlebackspace k) a = phys k a"
proof -
  define k1 where "k1 = (if get_screen_x visible k - 1 < 0
    then (if get_screen_y visible k \<noteq> 0 then set_screen_x visible (80 - 1) (set_screen_y visible (get_screen_y visible k - 1) k)
      else k)
    else set_screen_x visible (get_screen_x visible k - 1) k)"
  have k1: "phys k1 = phys k" "window_frame k1 = window_frame k" by (simp_all add: k1_def)
  have "vis.ready k1"
    using vis.ready_xy [OF assms(1)] by (intro vis.readyI) (auto simp: k1_def)
  then have ready: "vis.ready (update_cursor k1)" by (simp add: vis_ready)
  note i = vis.ready_xy(6) [OF this]
  have "2 * j + 1 < 4000" if "j < 2000" for j :: nat using that by simp
  note off = this [OF i]
  have "handlebackspace k = (let k = update_cursor k1 in
      video_store (2 * (80 * get_screen_y visible k + get_screen_x visible k) + 1) 7
      (video_store (2 * (80 * get_screen_y visible k + get_screen_x visible k)) 32 k))"
    unfolding handlebackspace_def Let_def k1_def set_global_screen_x_def set_global_screen_y_def
      get_global_screen_x_def get_global_screen_y_def vis.video_store_simps by simp
  then show ?thesis
    using assms(2) off unfolding Let_def vis.store_cell [OF ready]
    by (auto simp: k1 in_region_def unat_at_offset)
qed

lemma backspace_op:
  assumes "entered k"
  shows "entered (handlebackspace k)"
    "screen_of (handlebackspace k) (visible k) = spec_backspace (screen_of k (visible k))"
    "t < 3 \<Longrightarrow> t \<noteq> visible k \<Longrightarrow> screen_of (handlebackspace k) t = screen_of k t"
proof -
  note ready = enteredD(9) [OF assms] and window = enteredD(3) [OF assms]
  have "\<not> in_region 0xB8000 4000 a \<Longrightarrow> phys (handlebackspace k) a = phys k a" for a
    using backspace_frame [OF ready, of a] window by simp
  then show "entered (handlebackspace k)"
    "screen_of (handlebackspace k) (visible k) = spec_backspace (screen_of k (visible k))"
    "t < 3 \<Longrightarrow> t \<noteq> visible k \<Longrightarrow> screen_of (handlebackspace k) t = screen_of k t"
    using screen_op [OF assms screen_change_backspace] backspace_refines(1,3) [OF ready] by blast+
qed

subsection \<open>Effects on the line\<close>

lemma put_line_op:
  assumes "entered k" "0 \<le> n" "n \<le> 127"
  shows "put_line n c k = Some (k\<lparr>linebuffer := (linebuffer k)[nat n := c]\<rparr>)"
  using enteredD(7) [OF assms(1)] assms(2,3) by (simp add: put_line_def lines_ok_def)

text \<open>Writing the first \<open>n\<close> bytes of the line buffer back to the visible terminal.\<close>

definition save_line :: "int \<Rightarrow> 'a keyboard_scheme \<Rightarrow> 'a keyboard_scheme" where
  "save_line n k = upd_terminal (visible k)
     (\<lambda>u. u\<lparr>noc := n, lb := take (nat n) (linebuffer k) @ drop (nat n) (lb u)\<rparr>) k"

lemma set_global_buffer_op:
  assumes "displays_ok k" "lines_ok k" "0 \<le> n" "n \<le> 127"
  shows "set_global_buffer n k = Some (save_line n k)"
proof -
  have v: "visible k < length (terminals (sched k))" "length (lb (terminals (sched k) ! visible k)) = 128"
    "length (linebuffer k) = 128"
    using assms(1,2) by (auto simp: displays_ok_def lines_ok_def visible_def)
  let ?k = "upd_terminal (visible k) (noc_update (\<lambda>_. n)) k"
  have "visible ?k = visible k" "linebuffer ?k = linebuffer k"
    "terminals (sched ?k) ! visible k = (terminals (sched k) ! visible k)\<lparr>noc := n\<rparr>"
    using v(1) by (simp_all add: upd_terminal_def visible_def)
  then show ?thesis
    using v assms(3,4) unfolding set_global_buffer_def Let_def
    by (simp add: copy_prefix_def save_line_def) (simp add: upd_terminal_def)
qed

lemma save_line_console:
  assumes "visible k < length (terminals (sched k))"
  shows "paging (save_line n k) = paging k" "vid_bufs (sched (save_line n k)) = vid_bufs (sched k)"
    "visable_term (sched (save_line n k)) = visable_term (sched k)"
    "current_term (sched (save_line n k)) = current_term (sched k)"
    "length (terminals (sched (save_line n k))) = length (terminals (sched k))"
    "window_frame (save_line n k) = window_frame k" "phys (save_line n k) = phys k"
    "screen_x (terminals (sched (save_line n k)) ! t) = screen_x (terminals (sched k) ! t)"
    "screen_y (terminals (sched (save_line n k)) ! t) = screen_y (terminals (sched k) ! t)"
    "chararray (save_line n k) = chararray k" "linebuffer (save_line n k) = linebuffer k"
    "terminalbuffer (save_line n k) = terminalbuffer k" "flags (save_line n k) = flags k"
    "numberofchars (save_line n k) = numberofchars k" "dev (save_line n k) = dev k"
    "visible (save_line n k) = visible k"
    "t \<noteq> visible k \<Longrightarrow> terminals (sched (save_line n k)) ! t = terminals (sched k) ! t"
    "noc (terminals (sched (save_line n k)) ! visible k) = n"
    "lb (terminals (sched (save_line n k)) ! visible k) =
       take (nat n) (linebuffer k) @ drop (nat n) (lb (terminals (sched k) ! visible k))"
  using assms by (cases "t = visible k"; simp add: save_line_def upd_terminal_def window_frame_def visible_def)+

text \<open>The state after an edit of the line buffer has been saved.\<close>

lemma save_line_op:
  assumes k: "displays_ok k" "keys_ok k" "lines_ok k" "window_frame k = 0xB8000" and n: "0 \<le> n" "n \<le> 127"
  shows "entered (save_line n k)" "line_of (save_line n k) (visible k) = take (nat n) (linebuffer k)"
    "t \<noteq> visible k \<Longrightarrow> line_of (save_line n k) t = line_of k t"
    "screen_of (save_line n k) = screen_of k"
proof -
  have v: "visible k < length (terminals (sched k))" "length (lb (terminals (sched k) ! visible k)) = 128"
    "length (linebuffer k) = 128" "visible k < 3"
    using k by (auto simp: displays_ok_def lines_ok_def visible_def)
  note same = save_line_console [OF v(1)]
  show line: "line_of (save_line n k) (visible k) = take (nat n) (linebuffer k)"
    using v n by (simp add: line_of_def same)
  show "line_of (save_line n k) t = line_of k t" if "t \<noteq> visible k"
    using that by (simp add: line_of_def same)
  show "screen_of (save_line n k) = screen_of k"
    by (rule ext) (simp add: screen_of_def screen_frame_def same)
  have "length (lb (terminals (sched (save_line n k)) ! t)) = 128 \<and>
      0 \<le> noc (terminals (sched (save_line n k)) ! t) \<and> noc (terminals (sched (save_line n k)) ! t) \<le> 127" if "t < 3" for t
    using that k(3) v n by (cases "t = visible k") (auto simp: same lines_ok_def)
  then have "lines_ok (save_line n k)" using k(3) by (simp add: lines_ok_def same)
  moreover have "displays_ok (save_line n k)"
    using k(1) by (simp add: displays_ok_def same cursor_ok_def)
  moreover have "keys_ok (save_line n k)" using k(2) by (simp add: keys_ok_def key_is_def same)
  moreover have "take (nat (get_current_noc (save_line n k))) (linebuffer k) = take (nat n) (linebuffer k)"
    by (simp add: get_current_noc_def same)
  ultimately show "entered (save_line n k)"
    using k(4) line by (simp add: entered_def same)
qed

subsection \<open>Views\<close>

lemma view_line:
  assumes "visible k < 3" "visable_term (sched k') = visable_term (sched k)" "chararray k' = chararray k"
    "terminalbuffer k' = terminalbuffer k" "flags k' = flags k" "numberofchars k' = numberofchars k"
    "line_of k' (visible k) = l" "\<And>t. t < 3 \<Longrightarrow> t \<noteq> visible k \<Longrightarrow> line_of k' t = line_of k t"
    "screen_of k' (visible k) = f (screen_of k (visible k))"
    "\<And>t. t < 3 \<Longrightarrow> t \<noteq> visible k \<Longrightarrow> screen_of k' t = screen_of k t"
  shows "view k' = spec_line l f (view k)"
proof -
  have "map (line_of k') [0..<3] = (map (line_of k) [0..<3])[visible k := l]"
    "map (screen_of k') [0..<3] = (map (screen_of k) [0..<3])[visible k := f (screen_of k (visible k))]"
    using map_upt_update [of "visible k" 3 "line_of k'" "line_of k"]
      map_upt_update [of "visible k" 3 "screen_of k'" "screen_of k"] assms by simp_all
  moreover have "delivered_to k' = delivered_to k" by (rule ext) (simp add: delivered_to_def assms)
  ultimately show ?thesis
    using assms(1) by (simp add: view_def spec_line_def key_is_def assms(2,3) visible_def del: upt_rec_numeral)
qed

text \<open>The state after an edit of the line buffer and a change of the screen have been saved.\<close>

lemma edit_op:
  assumes k: "entered k" and k1: "displays_ok k1" "keys_ok k1" "lines_ok k1" "window_frame k1 = 0xB8000"
      "linebuffer k1 = b"
    and same: "visible k1 = visible k" "visable_term (sched k1) = visable_term (sched k)" "chararray k1 = chararray k"
      "terminalbuffer k1 = terminalbuffer k" "flags k1 = flags k" "numberofchars k1 = numberofchars k"
      "\<And>t. line_of k1 t = line_of k t"
    and screen: "screen_of k1 (visible k) = f (screen_of k (visible k))"
      "\<And>t. t < 3 \<Longrightarrow> t \<noteq> visible k \<Longrightarrow> screen_of k1 t = screen_of k t"
    and n: "0 \<le> n" "n \<le> 127"
  shows "entered (save_line n k1)" "view (save_line n k1) = spec_line (take (nat n) b) f (view k)"
proof -
  have "visible k1 < length (terminals (sched k1))" using k1(1) by (simp add: displays_ok_def visible_def)
  note frame = save_line_console [OF this]
  note op = save_line_op [OF k1(1-4) n]
  show "entered (save_line n k1)" by (rule op(1))
  show "view (save_line n k1) = spec_line (take (nat n) b) f (view k)"
    using op(2-4) k1(5) enteredD(1) [OF k] same screen by (intro view_line) (simp_all add: frame)
qed

lemma entered_noc:
  assumes "entered k"
  shows "0 \<le> get_current_noc k" "get_current_noc k \<le> 127" "length (linebuffer k) = 128"
    "take (nat (get_current_noc k)) (linebuffer k) = line_of k (visible k)"
    "length (line_of k (visible k)) = nat (get_current_noc k)"
  using assms by (auto simp: entered_def lines_ok_def displays_ok_def get_current_noc_def visible_def line_of_def)

lemma put_line_entered:
  fixes c :: u8
  assumes k: "entered k" and n: "n = get_current_noc k"
  defines "k1 \<equiv> k\<lparr>linebuffer := (linebuffer k)[nat n := c]\<rparr>"
  shows "put_line n c k = Some k1" "entered k1" "screen_of k1 = screen_of k" "line_of k1 = line_of k"
    "visible k1 = visible k" "get_current_noc k1 = n"
    "take (nat (n + 1)) (linebuffer k1) = line_of k (visible k) @ [c]"
proof -
  note noc = entered_noc [OF k, folded n]
  show "put_line n c k = Some k1" unfolding k1_def by (rule put_line_op [OF k noc(1,2)])
  show line: "line_of k1 = line_of k" and "screen_of k1 = screen_of k"
    by (auto simp: k1_def line_of_def screen_of_def screen_frame_def)
  show vis: "visible k1 = visible k" and nk1: "get_current_noc k1 = n"
    by (simp_all add: k1_def visible_def get_current_noc_def n)
  have "take (nat n) (linebuffer k1) = line_of k (visible k)" by (simp add: k1_def noc(4))
  then show "entered k1"
    using k unfolding entered_def displays_ok_def keys_ok_def lines_ok_def key_is_def nk1 line vis
    by (simp add: k1_def window_frame_def)
  show "take (nat (n + 1)) (linebuffer k1) = line_of k (visible k) @ [c]"
    using noc by (simp add: k1_def nat_add_distrib take_Suc_conv_app_nth)
qed

lemma screen_change_lines: "screen_change t k k' \<Longrightarrow> line_of k' = line_of k"
  by (rule ext) (simp add: line_of_def screen_change_console)

lemma screen_change_cursor: "screen_change t k k' \<Longrightarrow> screen_change t k (update_cursor k')"
  by (rule screen_change_video(4))

lemma view_update_cursor: "view (update_cursor k) = view k"
proof -
  have *: "screen_change 0 k (update_cursor k)" by (rule screen_change_cursor [OF screen_change_refl])
  have "screen_of (update_cursor k) = screen_of k" by (rule ext) (simp add: screen_of_def screen_frame_def)
  moreover have "delivered_to (update_cursor k) = delivered_to k"
    by (rule ext) (simp add: delivered_to_def screen_change_keyboard [OF *])
  ultimately show ?thesis
    by (simp add: view_def key_is_def screen_change_keyboard [OF *] screen_change_lines [OF *])
qed

text \<open>What a key never changes: the scheduled terminal and the page directory.\<close>

definition context_of :: "'a keyboard_scheme \<Rightarrow> nat \<times> u32 list" where
  "context_of k = (current_term (sched k), page_directory (paging k))"

lemma context_saved: "visible k < length (terminals (sched k)) \<Longrightarrow> context_of (save_line n k) = context_of k"
  by (simp add: context_of_def save_line_console)

lemma context_screen: "screen_change t k k' \<Longrightarrow> context_of k' = context_of k"
  by (simp add: context_of_def screen_change_console)

text \<open>The line buffer changes first, then the screen, then the line is saved.\<close>

lemma change_op:
  assumes k: "entered k" and k1: "entered k1" "screen_of k1 = screen_of k" "line_of k1 = line_of k"
      "visible k1 = visible k" "visable_term (sched k1) = visable_term (sched k)" "chararray k1 = chararray k"
      "terminalbuffer k1 = terminalbuffer k" "flags k1 = flags k" "numberofchars k1 = numberofchars k"
    and k2: "entered k2" "screen_change (visible k) k1 k2"
      "screen_of k2 (visible k) = f (screen_of k1 (visible k))"
      "\<And>t. t < 3 \<Longrightarrow> t \<noteq> visible k \<Longrightarrow> screen_of k2 t = screen_of k1 t"
    and n: "0 \<le> n" "n \<le> 127"
  shows "set_global_buffer n k2 = Some (save_line n k2)" "entered (save_line n k2)"
    "view (save_line n k2) = spec_line (take (nat n) (linebuffer k1)) f (view k)"
    "context_of (save_line n k2) = context_of k1"
proof -
  note same = screen_change_console [OF k2(2)] screen_change_keyboard [OF k2(2)]
    screen_change_selects [OF k2(2)] screen_change_lines [OF k2(2)]
  show "set_global_buffer n k2 = Some (save_line n k2)"
    using enteredD(5,7) [OF k2(1)] n by (rule set_global_buffer_op)
  show "entered (save_line n k2)" "view (save_line n k2) = spec_line (take (nat n) (linebuffer k1)) f (view k)"
    using edit_op [OF k enteredD(5-7,3) [OF k2(1)] same(12), of f n] k1 k2(3,4) n same by simp_all
  have "visible k2 < length (terminals (sched k2))" using enteredD(1,2) [OF k2(1)] by simp
  from context_saved [OF this] same(4)
  show "context_of (save_line n k2) = context_of k1" by (simp add: context_screen [OF k2(2)])
qed

definition handled :: "'a keyboard_scheme \<Rightarrow> 'a keyboard_scheme option \<Rightarrow> keyboard_view \<Rightarrow> bool" where
  "handled k r s \<longleftrightarrow> (\<exists>k'. r = Some k' \<and> finishing k' \<and> view k' = s \<and>
     context_of k' = context_of k)"

lemma handledI:
  "r = Some k' \<Longrightarrow> entered k' \<Longrightarrow> view k' = s \<Longrightarrow> context_of k' = context_of k \<Longrightarrow> handled k r s"
  unfolding handled_def using entered_finishing by blast

lemma type_op:
  assumes k: "entered k" and n: "n = get_current_noc k" and small: "n \<noteq> 127"
  shows "handled k (do { k \<leftarrow> put_line n c k; set_global_buffer (n + 1) (update_cursor (putc c k)) })
      (spec_line (line_of k (visible k) @ [c]) (spec_putc c) (view k))" (is ?early)
    and "handled k (do { k \<leftarrow> put_line n c k; k \<leftarrow> set_global_buffer (n + 1) (putc c k); Some (update_cursor k) })
      (spec_line (line_of k (visible k) @ [c]) (spec_putc c) (view k))" (is ?late)
proof -
  define k1 where "k1 = k\<lparr>linebuffer := (linebuffer k)[nat n := c]\<rparr>"
  note put = put_line_entered [OF k n, where c = c, folded k1_def]
  have k1: "visable_term (sched k1) = visable_term (sched k)" "chararray k1 = chararray k"
    "terminalbuffer k1 = terminalbuffer k" "flags k1 = flags k" "numberofchars k1 = numberofchars k"
    "context_of k1 = context_of k" by (simp_all add: k1_def context_of_def)
  have range: "0 \<le> n + 1" "n + 1 \<le> 127" using entered_noc(1,2) [OF k] small by (simp_all add: n)
  note putc = putc_op [OF put(2), where c = c]
  note change = change_op [OF k put(2-5) k1(1-5) _ _ _ _ range, where f = "spec_putc c", unfolded put(7)]
  have sc: "screen_change (visible k) k1 (putc c k1)"
    using screen_change_putc [of k1 c] by (simp add: put(5))
  note late = change [OF putc(1) sc putc(2) [unfolded put(5)] putc(3) [unfolded put(5)]]
  note cur = update_cursor_op [OF putc(1)]
  note early = change [OF cur(1) screen_change_cursor [OF sc] _ _, unfolded cur(2),
      OF putc(2) [unfolded put(5)] putc(3) [unfolded put(5)]]
  show ?early
    by (rule handledI [of _ "save_line (n + 1) (update_cursor (putc c k1))"])
      (simp_all add: put(1) early k1(6))
  show ?late
    by (rule handledI [of _ "update_cursor (save_line (n + 1) (putc c k1))"])
      (simp_all add: put(1) late k1(6) view_update_cursor update_cursor_op(1)
        context_screen [OF screen_change_cursor [OF screen_change_refl]])
qed

lemma backspace_key:
  assumes k: "entered k" and n: "n = get_current_noc k" and pos: "n \<noteq> 0"
  shows "handled k (do { k \<leftarrow> put_line n 0 (handlebackspace k); set_global_buffer (n - 1) k })
      (spec_line (butlast (line_of k (visible k))) spec_backspace (view k))"
proof -
  let ?k = "handlebackspace k"
  note sc = screen_change_backspace [of k]
  note same = screen_change_console [OF sc] screen_change_keyboard [OF sc] screen_change_selects [OF sc]
    screen_change_lines [OF sc]
  note bs = backspace_op [OF k]
  have n': "n = get_current_noc ?k" by (simp add: n get_current_noc_def same)
  define k1 where "k1 = ?k\<lparr>linebuffer := (linebuffer ?k)[nat n := 0]\<rparr>"
  note put = put_line_entered [OF bs(1) n', where c = 0, folded k1_def]
  note noc = entered_noc [OF k, folded n]
  have range: "0 \<le> n - 1" "n - 1 \<le> 127" using noc(1,2) pos by simp_all
  have b: "linebuffer k1 = (linebuffer k)[nat n := 0]" by (simp add: k1_def same)
  have "take (nat (n - 1)) ((linebuffer k)[nat n := 0]) = butlast (take (nat n) (linebuffer k))"
    using noc(1,3) range by (simp add: butlast_take nat_diff_distrib)
  then have line: "take (nat (n - 1)) ((linebuffer k)[nat n := 0]) = butlast (line_of k (visible k))"
    by (simp only: noc(4))
  have edit: "entered (save_line (n - 1) k1)"
    "view (save_line (n - 1) k1) = spec_line (butlast (line_of k (visible k))) spec_backspace (view k)"
    using edit_op [OF k enteredD(5-7,3) [OF put(2)] b, of spec_backspace "n - 1"] bs(2,3) range put(3-5) line same
    by (simp_all add: k1_def)
  have "context_of (save_line (n - 1) k1) = context_of k"
    using context_saved [of k1] enteredD(1,2) [OF put(2)] same by (simp add: k1_def context_of_def)
  then show ?thesis
    using set_global_buffer_op [OF enteredD(5,7) [OF put(2)] range] put(1) edit
    by (intro handledI [of _ "save_line (n - 1) k1"]) simp_all
qed

lemma clear_line_same: "line_of (clear_line k) = line_of k" "screen_of (clear_line k) = screen_of k"
  by (auto simp: clear_line_def line_of_def screen_of_def screen_frame_def)

lemma clear_key:
  assumes k: "entered k"
  shows "handled k (set_global_buffer 0 (clear_line (update_cursor (setposition 0 0 (clear k)))))
      (spec_line [] (\<lambda>_. (replicate 2000 32, 0, 0)) (view k))"
proof -
  define k1 where "k1 = update_cursor (setposition 0 0 (clear k))"
  note sc = screen_change_clear [of k 0 0, folded k1_def]
  note same = screen_change_console [OF sc] screen_change_keyboard [OF sc] screen_change_selects [OF sc]
    screen_change_lines [OF sc]
  note op = clear_op [OF k, folded k1_def]
  let ?k = "clear_line k1"
  have ok: "displays_ok ?k" "keys_ok ?k" "lines_ok ?k" "window_frame ?k = 0xB8000"
    using enteredD(5-7,3) [OF op(1)]
    by (simp_all add: clear_line_def displays_ok_def keys_ok_def key_is_def lines_ok_def window_frame_def)
  note clear_line_same [of k1]
  then have edit: "entered (save_line 0 ?k)" "view (save_line 0 ?k) = spec_line [] (\<lambda>_. (replicate 2000 32, 0, 0)) (view k)"
    using edit_op [OF k ok refl, of "\<lambda>_. (replicate 2000 32, 0, 0)" 0] op(2,3) same
    by (simp_all add: clear_line_def visible_def)
  have "context_of (save_line 0 ?k) = context_of k"
    using context_saved [of ?k] ok(1) same
    by (simp add: clear_line_def displays_ok_def visible_def context_of_def)
  then show ?thesis
    using set_global_buffer_op [OF ok(1,3), of 0] edit unfolding k1_def [symmetric]
    by (intro handledI [of _ "save_line 0 ?k"]) simp_all
qed

definition deliver :: "u8 list \<Rightarrow> int \<Rightarrow> 'a keyboard_scheme \<Rightarrow> 'a keyboard_scheme" where
  "deliver line n k = k\<lparr>terminalbuffer := (terminalbuffer k)[visible k := line],
    numberofchars := (numberofchars k)[visible k := n], flags := (flags k)[visible k := 1]\<rparr>"

lemma deliver_ok:
  assumes "entered k" "length line = 128" "0 \<le> n" "n \<le> 127"
  defines "k' \<equiv> deliver line n k"
  shows "entered k'" "delivered_to k' (visible k) = Some (take (nat n + 1) line)"
    "t \<noteq> visible k \<Longrightarrow> delivered_to k' t = delivered_to k t" "line_of k' = line_of k" "screen_of k' = screen_of k"
proof -
  note kD = enteredD [OF assms(1)]
  have len: "length (terminalbuffer k) = 3" "length (flags k) = 3" "length (numberofchars k) = 3"
    using kD(7) by (simp_all add: lines_ok_def)
  show line: "line_of k' = line_of k" and "screen_of k' = screen_of k"
    by (auto simp: k'_def deliver_def line_of_def screen_of_def screen_frame_def)
  have "length (terminalbuffer k' ! t) = 128 \<and> 0 \<le> numberofchars k' ! t \<and> numberofchars k' ! t \<le> 127"
    if "t < 3" for t
    using that kD(7) assms(2-4) len by (cases "t = visible k") (simp_all add: k'_def deliver_def lines_ok_def)
  then have "lines_ok k'" using kD(7) len by (simp add: lines_ok_def) (simp add: k'_def deliver_def)
  moreover have "keys_ok k'" using kD(6) by (simp add: keys_ok_def key_is_def k'_def deliver_def)
  ultimately show "entered k'"
    using assms(1) unfolding entered_def line
    by (simp add: k'_def deliver_def displays_ok_def get_current_noc_def window_frame_def visible_def)
  show "delivered_to k' (visible k) = Some (take (nat n + 1) line)"
    using kD(1) len by (simp add: k'_def deliver_def delivered_to_def)
  show "t \<noteq> visible k \<Longrightarrow> delivered_to k' t = delivered_to k t"
    by (simp add: k'_def deliver_def delivered_to_def)
qed

lemma view_delivered:
  assumes "visible k < 3" "line_of k' = line_of k" "screen_of k' = screen_of k" "chararray k' = chararray k"
    "visable_term (sched k') = visable_term (sched k)" "delivered_to k' (visible k) = Some l"
    "\<And>t. t \<noteq> visible k \<Longrightarrow> delivered_to k' t = delivered_to k t"
  shows "view k' = (view k)\<lparr>delivered := (delivered (view k))[shown_term (view k) := Some l]\<rparr>"
  using map_upt_update [of "visible k" 3 "delivered_to k'" "delivered_to k"] assms
  by (simp add: view_def key_is_def visible_def del: upt_rec_numeral)

lemma enter_key:
  assumes k: "entered k" and n: "n = get_current_noc k" and c: "c = 10"
  shows "handled k (do { k \<leftarrow> put_line n 10 (putc c k); k \<leftarrow> set_terminal_buffer (linebuffer k) n k;
      set_global_buffer 0 (clear_line k) })
    ((spec_line [] (spec_putc 10) (view k))\<lparr>delivered :=
      (delivered (view k))[shown_term (view k) := Some (line_of k (visible k) @ [10])]\<rparr>)"
proof -
  let ?k = "putc c k"
  note sc = screen_change_putc [of k c]
  note same = screen_change_console [OF sc] screen_change_keyboard [OF sc] screen_change_selects [OF sc]
    screen_change_lines [OF sc]
  note putc = putc_op [OF k, where c = c]
  have n': "n = get_current_noc ?k" by (simp add: n get_current_noc_def same)
  define k1 where "k1 = ?k\<lparr>linebuffer := (linebuffer ?k)[nat n := 10]\<rparr>"
  note put = put_line_entered [OF putc(1) n', where c = 10, folded k1_def]
  note noc = entered_noc [OF k, folded n]
  define line where "line = (take (nat n) (linebuffer k1) @ replicate (128 - nat n) 0)[nat n := 10]"
  have len: "length (linebuffer k1) = 128" using enteredD(7) [OF put(2)] by (simp add: lines_ok_def)
  have line: "length line = 128" "take (nat n + 1) line = line_of k (visible k) @ [10]"
  proof -
    show "length line = 128" using noc(1,2) len by (simp add: line_def)
    have "take (nat n) (linebuffer k1) = line_of k (visible k)" by (simp add: k1_def same noc(4))
    then show "take (nat n + 1) line = line_of k (visible k) @ [10]"
      using noc(1,2,5) by (simp add: line_def list_update_append take_append take_Suc_conv_app_nth nth_append)
  qed
  have vlen: "visible k1 < length (terminalbuffer k1)"
    using enteredD(1,7) [OF put(2)] by (simp add: lines_ok_def)
  have run: "set_terminal_buffer (linebuffer k1) n k1 = Some (deliver line n k1)"
    using noc(1,2) len vlen
    by (simp add: set_terminal_buffer_def get_visable_terminal_def Let_def deliver_def line_def visible_def)
  note kd = deliver_ok [OF k line(1) noc(1,2)] and k1d = deliver_ok [OF put(2) line(1) noc(1,2)]
  have view: "view (deliver line n k) = (view k)\<lparr>delivered :=
      (delivered (view k))[shown_term (view k) := Some (line_of k (visible k) @ [10])]\<rparr>"
    using view_delivered [OF enteredD(1) [OF k] kd(4,5) _ _ kd(2) [unfolded line(2)] kd(3)]
    by (simp add: deliver_def)
  define k2 where "k2 = clear_line (deliver line n k1)"
  have ok: "displays_ok k2" "keys_ok k2" "lines_ok k2" "window_frame k2 = 0xB8000"
    using enteredD(5-7,3) [OF k1d(1)]
    by (simp_all add: k2_def clear_line_def displays_ok_def keys_ok_def key_is_def lines_ok_def window_frame_def)
  have content: "line_of k2 = line_of k" "screen_of k2 = screen_of ?k"
    unfolding k2_def clear_line_same k1d(4,5) put(3,4) same by (rule refl)+
  have edit: "entered (save_line 0 k2)"
    "view (save_line 0 k2) = spec_line (take (nat 0) (linebuffer k2)) (spec_putc 10) (view (deliver line n k))"
    using edit_op [OF kd(1) ok refl, of "spec_putc 10" 0] putc(2,3) content kd(4,5) same put(5)
    by (simp_all add: k2_def clear_line_def deliver_def k1_def visible_def c)
  have "context_of (save_line 0 k2) = context_of k"
    using context_saved [of k2] ok(1) same
    by (simp add: k2_def clear_line_def deliver_def k1_def displays_ok_def visible_def context_of_def)
  then show ?thesis
    using set_global_buffer_op [OF ok(1,3), of 0] edit put(1) run unfolding view
    by (intro handledI [of _ "save_line 0 k2"]) (simp_all add: k2_def spec_line_def)
qed

subsection \<open>The keys\<close>

lemma modifier_key:
  assumes k: "entered k" and a: "a \<in> {LEFTSHIFT, RIGHTSHIFT, LEFTCONTROLPRESSED, ALTPRESSED, CAPSLOCK}"
    and c: "c = 48 \<or> c = 49"
  shows "entered (set_key a c k)" "line_of (set_key a c k) = line_of k" "screen_of (set_key a c k) = screen_of k"
    "delivered_to (set_key a c k) = delivered_to k" "visable_term (sched (set_key a c k)) = visable_term (sched k)"
    "context_of (set_key a c k) = context_of k"
    "b \<noteq> 0xFF \<Longrightarrow> key_on b (set_key a c k) \<longleftrightarrow> (if b = a then c = 49 else key_on b k)"
proof -
  have a': "unat a < 255" "unat a \<in> {0x1D, 0x2A, 0x36, 0x38, 0x3A}" using a by auto
  have len: "length (chararray k) = 255" using enteredD(6) [OF k] by (simp add: keys_ok_def)
  have key: "key_is b v (set_key a c k) \<longleftrightarrow> (if b = a then c = v else key_is b v k)" for b v
    using a'(1) len by (auto simp: key_is_def set_key_def nth_list_update word_unat_eq_iff)
  show line: "line_of (set_key a c k) = line_of k" and screen: "screen_of (set_key a c k) = screen_of k"
    "delivered_to (set_key a c k) = delivered_to k" "visable_term (sched (set_key a c k)) = visable_term (sched k)"
    "context_of (set_key a c k) = context_of k"
    "b \<noteq> 0xFF \<Longrightarrow> key_on b (set_key a c k) \<longleftrightarrow> (if b = a then c = 49 else key_on b k)"
    using key by (auto simp: set_key_def line_of_def screen_of_def screen_frame_def delivered_to_def context_of_def)
  have "keys_ok (set_key a c k)"
    using enteredD(6) [OF k] a'(2) c unfolding keys_ok_def key by (auto simp: set_key_def nth_list_update)
  then show "entered (set_key a c k)"
    using k unfolding entered_def line
    by (simp add: set_key_def displays_ok_def lines_ok_def get_current_noc_def window_frame_def visible_def)
qed

lemma switch_view:
  assumes k: "displays_ok k" and n: "n < 3" "n \<noteq> visable_term (sched k)"
  shows "screens_ok (switch_terminals n k)" "view (switch_terminals n k) = (view k)\<lparr>shown_term := n\<rparr>"
    "keys_ok (switch_terminals n k) = keys_ok k" "lines_ok (switch_terminals n k) = lines_ok k"
    "context_of (switch_terminals n k) = context_of k"
    "chararray (switch_terminals n k) = chararray k" "dev (switch_terminals n k) = dev k"
proof -
  let ?k = "switch_terminals n k"
  note sw = switch_terminals_screens [OF k n]
  obtain p pg where k': "?k = (update_cursor (k\<lparr>sched := (sched k)\<lparr>visable_term := n\<rparr>\<rparr>))\<lparr>paging := pg, phys := p\<rparr>"
    and pd: "page_directory pg = page_directory (paging k)"
    using sw by blast
  have "screen_change 0 (k\<lparr>sched := (sched k)\<lparr>visable_term := n\<rparr>\<rparr>)
      (update_cursor (k\<lparr>sched := (sched k)\<lparr>visable_term := n\<rparr>\<rparr>))"
    by (rule screen_change_video(4) [OF screen_change_refl])
  note upd = screen_change_keyboard [OF this]
  have same: "terminals (sched ?k) = terminals (sched k)" "visable_term (sched ?k) = n"
    "context_of ?k = context_of k" "flags ?k = flags k" "numberofchars ?k = numberofchars k"
    "terminalbuffer ?k = terminalbuffer k" "chararray ?k = chararray k" "linebuffer ?k = linebuffer k" "dev ?k = dev k"
    unfolding k' by (simp_all add: upd context_of_def pd)
  show "screens_ok ?k" using sw by blast
  show "keys_ok ?k = keys_ok k" "lines_ok ?k = lines_ok k" "context_of ?k = context_of k"
    "chararray ?k = chararray k" "dev ?k = dev k"
    by (simp_all add: keys_ok_def key_is_def lines_ok_def same)
  have cells: "cells (screen_frame ?k t) (phys ?k) = cells (screen_frame k t) (phys k)" if "t < 3" for t
  proof (rule nth_equalityI)
    fix i assume "i < length (cells (screen_frame ?k t) (phys ?k))"
    then have i: "i < 2000" by simp
    then have "unat (of_nat (2 * i) :: u32) = 2 * i" by (intro unat_of_nat_u32) simp
    then have "unat (of_nat (2 * i) :: u32) < 4096" using i by linarith
    then have "phys ?k (screen_frame ?k t + of_nat (2 * i)) = phys k (screen_frame k t + of_nat (2 * i))"
      using sw that by blast
    then show "cells (screen_frame ?k t) (phys ?k) ! i = cells (screen_frame k t) (phys k) ! i"
      using i by (simp add: at_offset_def)
  qed simp
  have "map (screen_of ?k) [0..<3] = map (screen_of k) [0..<3]"
    using cells by (simp add: screen_of_def same del: upt_rec_numeral)
  moreover have "line_of ?k = line_of k" "delivered_to ?k = delivered_to k"
    by (auto simp: line_of_def delivered_to_def same)
  ultimately show "view ?k = (view k)\<lparr>shown_term := n\<rparr>"
    by (simp add: view_def key_is_def same del: upt_rec_numeral)
qed

lemma view_dev: "view (k\<lparr>dev := d\<rparr>) = view k" "finishing (k\<lparr>dev := d\<rparr>) = finishing k"
proof -
  have "line_of (k\<lparr>dev := d\<rparr>) = line_of k" "screen_of (k\<lparr>dev := d\<rparr>) = screen_of k"
    "delivered_to (k\<lparr>dev := d\<rparr>) = delivered_to k"
    by (auto simp: line_of_def screen_of_def screen_frame_def delivered_to_def)
  then show "view (k\<lparr>dev := d\<rparr>) = view k" by (simp add: view_def key_is_def)
  show "finishing (k\<lparr>dev := d\<rparr>) = finishing k"
    by (simp add: finishing_def displays_ok_def keys_ok_def key_is_def lines_ok_def window_frame_def screen_frame_def)
qed

lemma switch_terminals_same: "n = visable_term (sched k) \<Longrightarrow> switch_terminals n k = k"
  by (simp add: switch_terminals_def)

lemma switch_visible_op:
  assumes k: "entered k" and n: "n < 3"
  shows "finishing (switch_visible n k)" "view (switch_visible n k) = (view k)\<lparr>shown_term := n\<rparr>"
    "context_of (switch_visible n k) = context_of k"
    "chararray (switch_visible n k) = chararray k"
proof -
  have d: "displays_ok (k\<lparr>dev := cli (dev k)\<rparr>)" using enteredD(5) [OF k] by (simp add: displays_ok_def)
  have fin: "finishing k" by (rule entered_finishing [OF k])
  have "finishing (switch_visible n k) \<and> view (switch_visible n k) = (view k)\<lparr>shown_term := n\<rparr> \<and>
      context_of (switch_visible n k) = context_of k \<and> chararray (switch_visible n k) = chararray k"
  proof (cases "n = visable_term (sched k)")
    case True
    then have "switch_visible n k = k\<lparr>dev := cli (dev k)\<rparr>"
      by (simp add: switch_visible_def Let_def switch_terminals_same)
    then show ?thesis using fin True by (simp add: view_dev context_of_def) (simp add: view_def)
  next
    case False
    note sw = switch_view [OF d n, simplified, OF False]
    have "finishing (switch_terminals n (k\<lparr>dev := cli (dev k)\<rparr>))"
      using sw enteredD(6,7) [OF k]
      by (simp add: finishing_def screens_ok_def) (simp add: keys_ok_def key_is_def lines_ok_def)
    then show ?thesis
      using False sw by (simp add: switch_visible_def Let_def view_dev context_of_def)
  qed
  then show "finishing (switch_visible n k)" "view (switch_visible n k) = (view k)\<lparr>shown_term := n\<rparr>"
    "context_of (switch_visible n k) = context_of k"
    "chararray (switch_visible n k) = chararray k" by blast+
qed

lemma initial_keys:
  "length initial_chararray = 255" "initial_chararray ! 0x1C = 10" "initial_chararray ! 0x3B = 0"
  "initial_chararray ! 0x3C = 0" "initial_chararray ! 0x3D = 0"
  by (simp_all add: initial_chararray_def chararray_keys_def chars_def)

lemma char_of_key:
  assumes "entered k" "a \<noteq> 0xFF" "a \<notin> {LEFTSHIFT, RIGHTSHIFT, LEFTCONTROLPRESSED, ALTPRESSED, CAPSLOCK}"
  shows "unat a < length (chararray k)" "chararray k ! unat a = initial_chararray ! unat a"
proof -
  have "unat a < 256" using unsigned_less [of a] by simp
  moreover have "unat a \<noteq> 255" using assms(2) by (simp add: word_unat_eq_iff)
  ultimately have a: "unat a < 255" by simp
  have "unat a \<notin> {0x1D, 0x2A, 0x36, 0x38, 0x3A}" using assms(3) by (auto simp: word_unat_eq_iff)
  then show "unat a < length (chararray k)" "chararray k ! unat a = initial_chararray ! unat a"
    using enteredD(6) [OF assms(1)] a by (simp_all add: keys_ok_def)
qed

text \<open>The branches below the terminal switch.\<close>

definition char_key :: "u8 \<Rightarrow> u8 \<Rightarrow> int \<Rightarrow> 'a keyboard_scheme \<Rightarrow> 'a keyboard_scheme option" where
  "char_key c junk n k =
     (if (key_on CAPSLOCK k \<or> key_on LEFTSHIFT k \<or> key_on RIGHTSHIFT k) \<and> 97 \<le> c \<and> c \<le> 122 then
        let temp = (if key_on CAPSLOCK k \<and> (key_on LEFTSHIFT k \<or> key_on RIGHTSHIFT k) then c else c - 32) in
        if temp = 76 \<and> key_on LEFTCONTROLPRESSED k then
          set_global_buffer 0 (clear_line (update_cursor (setposition 0 0 (clear k))))
        else if n \<noteq> 127 then
          do { k \<leftarrow> put_line n temp k; set_global_buffer (n + 1) (update_cursor (putc temp k)) }
        else Some k
      else if key_on LEFTSHIFT k \<or> key_on RIGHTSHIFT k then
        if c \<noteq> 0 \<and> n \<noteq> 127 then
          do { k \<leftarrow> put_line n (shifted junk c) k; k \<leftarrow> set_global_buffer (n + 1) (putc (shifted junk c) k);
            Some (update_cursor k) }
        else Some k
      else
        if c \<noteq> 0 \<and> n \<noteq> 127 then
          do { k \<leftarrow> put_line n c k; k \<leftarrow> set_global_buffer (n + 1) (putc c k); Some (update_cursor k) }
        else Some k)"

lemma default_key_split:
  assumes "unat a < length (chararray k')"
    and "(k', n') = (if key_on 0x38 k then
       let k = (if a = 0x3C then switch_visible 1 k else if a = 0x3D then switch_visible 2 k
                else if a = 0x3B then switch_visible 0 k else k) in (k, get_current_noc k) else (k, n))"
  shows "default_key a junk n k = char_key (chararray k' ! unat a) junk n' k'"
  using assms(1) unfolding default_key_def char_key_def Let_def assms(2) [unfolded Let_def, symmetric]
  by (simp cong: if_cong)

lemma char_key_none:
  assumes "c = 0"
  shows "char_key c junk n k = Some k"
  by (simp add: char_key_def assms)

lemma char_key_typed:
  assumes k: "entered k" and n: "n = get_current_noc k" and c: "c = initial_chararray ! unat a"
  shows "handled k (char_key c junk n k) (spec_char a junk (view k))"
proof -
  note type = type_op [OF k n] and clear = clear_key [OF k]
  have line: "edited (view k) ! shown_term (view k) = line_of k (visible k)"
    using enteredD(1) [OF k] by (simp add: view_def visible_def del: upt_rec_numeral)
  have full: "length (line_of k (visible k)) = 127 \<longleftrightarrow> n = 127"
    using entered_noc [OF k] by (auto simp: n)
  have stay: "handled k (Some k) (view k)" using k by (intro handledI) simp_all
  have mods: "shift (view k) = (key_on LEFTSHIFT k, key_on RIGHTSHIFT k)" "caps (view k) = key_on CAPSLOCK k"
    "ctrl (view k) = key_on LEFTCONTROLPRESSED k" by (simp_all add: view_def)
  show ?thesis
    unfolding char_key_def spec_char_def typed_char_def Let_def c [symmetric] line full mods letter_def
    using type clear stay by auto
qed

lemma default_key_handled:
  assumes k: "entered k" and n: "n = get_current_noc k" and a: "a \<noteq> 0xFF"
    "a \<notin> {LEFTSHIFT, RIGHTSHIFT, LEFTCONTROLPRESSED, ALTPRESSED, CAPSLOCK}"
  shows "handled k (default_key a junk n k)
    (if alt (view k) \<and> a = 0x3B then (view k)\<lparr>shown_term := 0\<rparr>
     else if alt (view k) \<and> a = 0x3C then (view k)\<lparr>shown_term := 1\<rparr>
     else if alt (view k) \<and> a = 0x3D then (view k)\<lparr>shown_term := 2\<rparr>
     else spec_char a junk (view k))"
proof -
  note key = char_of_key [OF k a]
  have alt: "alt (view k) \<longleftrightarrow> key_on 0x38 k" by (simp add: view_def)
  have switch: "handled k (default_key a junk n k) ((view k)\<lparr>shown_term := t\<rparr>)"
    if on: "key_on 0x38 k" and t: "t < 3" and a_t: "a = (if t = 0 then 0x3B else if t = 1 then 0x3C else 0x3D)" for t
  proof -
    let ?k = "switch_visible t k"
    note op = switch_visible_op [OF k t]
    have "t = 0 \<or> t = 1 \<or> t = 2" using t by auto
    then have pick: "(?k, get_current_noc ?k) = (if key_on 0x38 k then
       let k = (if a = 0x3C then switch_visible 1 k else if a = 0x3D then switch_visible 2 k
                else if a = 0x3B then switch_visible 0 k else k) in (k, get_current_noc k) else (k, n))"
      using on a_t by (auto simp: Let_def)
    have "initial_chararray ! unat a = 0" using \<open>t = 0 \<or> t = 1 \<or> t = 2\<close> a_t initial_keys by auto
    then have "default_key a junk n k = Some ?k"
      using default_key_split [OF _ pick] key op(4) by (simp add: char_key_none)
    then show ?thesis using op by (simp add: handled_def)
  qed
  have plain: "handled k (default_key a junk n k) (spec_char a junk (view k))"
    if "\<not> key_on 0x38 k \<or> a \<notin> {0x3B, 0x3C, 0x3D}"
  proof -
    have "(k, n) = (if key_on 0x38 k then
       let k = (if a = 0x3C then switch_visible 1 k else if a = 0x3D then switch_visible 2 k
                else if a = 0x3B then switch_visible 0 k else k) in (k, get_current_noc k) else (k, n))"
      using that n by auto
    from default_key_split [OF key(1) this, of junk] char_key_typed [OF k n refl, of a junk] key(2)
    show ?thesis by simp
  qed
  show ?thesis
    using switch [of 0] switch [of 1] switch [of 2] plain unfolding alt by auto
qed

lemma modifier_view:
  assumes k: "entered k" and c: "c = 48 \<or> c = 49"
  shows "view (set_key LEFTSHIFT c k) = (view k)\<lparr>shift := (c = 49, snd (shift (view k)))\<rparr>"
    "view (set_key RIGHTSHIFT c k) = (view k)\<lparr>shift := (fst (shift (view k)), c = 49)\<rparr>"
    "view (set_key LEFTCONTROLPRESSED c k) = (view k)\<lparr>ctrl := c = 49\<rparr>"
    "view (set_key ALTPRESSED c k) = (view k)\<lparr>alt := c = 49\<rparr>"
    "view (set_key CAPSLOCK c k) = (view k)\<lparr>caps := c = 49\<rparr>"
  using modifier_key [OF k _ c] by (simp_all add: view_def)

lemma handle_key_handled:
  assumes k: "entered k" and n: "n = get_current_noc k" and a: "a \<noteq> 0xFF"
  shows "handled k (handle_key a junk n k) (spec_key a junk (view k))"
proof -
  have line: "edited (view k) ! shown_term (view k) = line_of k (visible k)"
    using enteredD(1) [OF k] by (simp add: view_def visible_def del: upt_rec_numeral)
  have empty: "line_of k (visible k) = [] \<longleftrightarrow> n = 0"
    using entered_noc [OF k] by (auto simp: n)
  have stay: "handled k (Some k) (view k)" using k by (intro handledI) simp_all
  have modifier: "handled k (Some (set_key b c k)) (view (set_key b c k))"
    if "b \<in> {LEFTSHIFT, RIGHTSHIFT, LEFTCONTROLPRESSED, ALTPRESSED, CAPSLOCK}" "c = 48 \<or> c = 49" for b c
    using modifier_key [OF k that] by (intro handledI [OF refl]) simp_all
  note pressed = modifier [of _ 49, simplified] and released = modifier [of _ 48, simplified]
  note views = modifier_view [OF k, of 49, simplified] modifier_view [OF k, of 48, simplified]
  have caps: "key_is CAPSLOCK 48 k \<longleftrightarrow> \<not> caps (view k)"
    using enteredD(6) [OF k] by (auto simp: keys_ok_def view_def key_is_def)
  have ten: "chararray k ! unat ENTER = 10"
    using char_of_key [OF k, of ENTER] initial_keys(2) by simp
  show ?thesis
  proof (cases "a \<in> {LEFTSHIFT, RIGHTSHIFT, LEFTCONTROLPRESSED, ALTPRESSED, CAPSLOCK}")
    case True
    then consider "a = LEFTSHIFT" | "a = RIGHTSHIFT" | "a = LEFTCONTROLPRESSED" | "a = ALTPRESSED" | "a = CAPSLOCK"
      by blast
    then show ?thesis
    proof cases
      case 5
      then show ?thesis
        using pressed [of CAPSLOCK] released [of CAPSLOCK] views by (simp add: handle_key_def spec_key_def caps)
    qed (use pressed [of LEFTSHIFT] pressed [of RIGHTSHIFT] pressed [of LEFTCONTROLPRESSED]
        pressed [of ALTPRESSED] views in \<open>simp_all add: handle_key_def spec_key_def\<close>)
  next
    case False
    then consider "a \<in> {LEFTSHIFTRELEASED, RIGHTSHIFTRELEASED, LEFTCONTROLRELEASED, ALTRELEASED}"
      | "a = BACKSPACE" | "a = ENTER"
      | "a \<notin> {LEFTSHIFT, RIGHTSHIFT, LEFTCONTROLPRESSED, ALTPRESSED, CAPSLOCK, LEFTSHIFTRELEASED,
          RIGHTSHIFTRELEASED, LEFTCONTROLRELEASED, ALTRELEASED, BACKSPACE, ENTER}"
      by blast
    then show ?thesis
    proof cases
      case 1
      then show ?thesis
        using released [of LEFTSHIFT] released [of RIGHTSHIFT] released [of LEFTCONTROLPRESSED]
          released [of ALTPRESSED] views by (elim insertE) (simp_all add: handle_key_def spec_key_def)
    next
      case 2
      then show ?thesis
        using backspace_key [OF k n] stay empty line by (simp add: handle_key_def spec_key_def Let_def)
    next
      case 3
      have "delivered (spec_line [] (spec_putc 10) (view k)) = delivered (view k)" by (simp add: spec_line_def)
      then show ?thesis
        using enter_key [OF k n ten] 3 line by (simp add: handle_key_def spec_key_def Let_def)
    next
      case 4
      then have "handle_key a junk n k = default_key a junk n k" by (simp add: handle_key_def)
      moreover have "spec_key a junk (view k) =
        (if alt (view k) \<and> a = 0x3B then (view k)\<lparr>shown_term := 0\<rparr>
         else if alt (view k) \<and> a = 0x3C then (view k)\<lparr>shown_term := 1\<rparr>
         else if alt (view k) \<and> a = 0x3D then (view k)\<lparr>shown_term := 2\<rparr>
         else spec_char a junk (view k))"
        using 4 by (simp add: spec_key_def)
      ultimately show ?thesis using default_key_handled [OF k n a False, of junk] by simp
    qed
  qed
qed

subsection \<open>The whole handler\<close>

lemma setposition_same: "setposition (get_global_screen_x k) (get_global_screen_y k) k = k"
proof -
  have "set_screen_x visible (get_screen_x visible k) k = k" "set_screen_y visible (get_screen_y visible k) k = k"
    by (simp_all add: set_screen_x_def set_screen_y_def upd_terminal_def get_screen_x_def get_screen_y_def)
  then show ?thesis
    by (simp add: setposition_def set_global_screen_x_def set_global_screen_y_def get_global_screen_x_def
        get_global_screen_y_def)
qed

lemma view_paging: "view (k\<lparr>linebuffer := b\<rparr>) = view k" "view (k\<lparr>paging := pg\<rparr>) = view k"
proof -
  have "line_of (k\<lparr>paging := pg\<rparr>) = line_of k" "screen_of (k\<lparr>paging := pg\<rparr>) = screen_of k"
    "delivered_to (k\<lparr>paging := pg\<rparr>) = delivered_to k"
    "line_of (k\<lparr>linebuffer := b\<rparr>) = line_of k" "screen_of (k\<lparr>linebuffer := b\<rparr>) = screen_of k"
    "delivered_to (k\<lparr>linebuffer := b\<rparr>) = delivered_to k"
    by (auto simp: line_of_def screen_of_def screen_frame_def delivered_to_def)
  then show "view (k\<lparr>linebuffer := b\<rparr>) = view k" "view (k\<lparr>paging := pg\<rparr>) = view k"
    by (simp_all add: view_def key_is_def)
qed

lemma video_frame: "0xB8000 \<in> video_frames"
  by (simp add: video_frames_def)

lemma enter_handler:
  assumes "keyboard_ok k"
  obtains k0 where "set_line_buffer k = Some k0" "visible k0 = visible k" "setposition (get_global_screen_x k0) (get_global_screen_y k0) k0 = k0"
    "entered (k0\<lparr>paging := paging_set_write_to_videomem (paging k0)\<rparr>)"
    "view (k0\<lparr>paging := paging_set_write_to_videomem (paging k0)\<rparr>) = view k"
    "get_current_noc k = get_current_noc (k0\<lparr>paging := paging_set_write_to_videomem (paging k0)\<rparr>)"
    "context_of k0 = context_of k"
proof -
  let ?t = "terminals (sched k) ! visible k"
  let ?b = "take (nat (noc ?t)) (lb ?t) @ drop (nat (noc ?t)) (linebuffer k)"
  let ?kb = "k\<lparr>linebuffer := ?b\<rparr>"
  let ?k = "?kb\<lparr>paging := paging_set_write_to_videomem (paging ?kb)\<rparr>"
  have ok: "displays_ok k" "keys_ok k" "lines_ok k" using assms by (simp_all add: keyboard_ok_def screens_ok_def)
  then have v: "visible k < 3" "length (lb ?t) = 128" "0 \<le> noc ?t" "noc ?t \<le> 127" "length (linebuffer k) = 128"
    by (auto simp: displays_ok_def lines_ok_def visible_def)
  have t: "tables_ok (paging k)" using ok(1) by (simp add: displays_ok_def)
  have "set_line_buffer k = Some ?kb" using v by (simp add: set_line_buffer_def copy_prefix_def)
  moreover have "entered ?k"
  proof -
    have "displays_ok ?k"
      using ok(1) tables_ok_set_video_frame [OF t video_frame]
      by (simp add: displays_ok_def paging_set_write_to_videomem_def)
    moreover have "window_frame ?k = 0xB8000"
      using window_set_frame [OF t video_frame] by (simp add: window_frame_def paging_set_write_to_videomem_def)
    moreover have "keys_ok ?k" "lines_ok ?k" using ok(2,3) v by (simp_all add: keys_ok_def key_is_def lines_ok_def)
    moreover have "get_current_noc ?k = noc ?t" "line_of ?k (visible ?k) = take (nat (noc ?t)) (lb ?t)"
      by (simp_all add: get_current_noc_def line_of_def visible_def)
    ultimately show ?thesis using v by (simp add: entered_def)
  qed
  moreover have "view ?k = view k" unfolding view_paging ..
  ultimately show ?thesis
    by (intro that [of ?kb]) (simp_all add: setposition_same get_current_noc_def visible_def context_of_def)
qed

lemma buffer_frame:
  assumes "vid_bufs (sched k) = [0xB9000, 0xBA000, 0xBB000]" "t < 3"
  shows "paging_set_write_to_buffer (of_nat t) st = set_video_frame (vid_bufs (sched k) ! t) st"
  using assms by (auto simp: paging_set_write_to_buffer_def less_Suc_eq numeral_3_eq_3)

lemma leave_handler:
  fixes d :: devices
  assumes "finishing k"
  defines "k' \<equiv> (if get_current_terminal k \<noteq> get_visable_terminal k
              then k\<lparr>paging := paging_set_write_to_buffer (of_nat (get_current_terminal k)) (paging k)\<rparr>
              else k)\<lparr>dev := d\<rparr>"
  shows "keyboard_ok k'" "view k' = view k" "context_of k' = context_of k" "dev k' = d"
proof -
  let ?c = "current_term (sched k)"
  have ok: "displays_ok k" "keys_ok k" "lines_ok k" using assms(1) by (simp_all add: finishing_def)
  then have disp: "tables_ok (paging k)" "vid_bufs (sched k) = [0xB9000, 0xBA000, 0xBB000]" "?c < 3"
    by (simp_all add: displays_ok_def)
  note frame = buffers_in_video_frames(1) [OF disp(2,3)]
  have "screens_ok k'"
  proof (cases "?c = visable_term (sched k)")
    case True
    then show ?thesis
      using assms(1) by (auto simp: k'_def finishing_def screens_ok_def displays_ok_def get_current_terminal_def
          get_visable_terminal_def window_frame_def screen_frame_def)
  next
    case False
    then have k': "k' = k\<lparr>paging := set_video_frame (vid_bufs (sched k) ! ?c) (paging k), dev := d\<rparr>"
      by (simp add: k'_def get_current_terminal_def get_visable_terminal_def buffer_frame [OF disp(2,3)])
    show ?thesis
      using ok(1) False tables_ok_set_video_frame [OF disp(1) frame] window_set_frame [OF disp(1) frame]
      by (simp add: k' screens_ok_def displays_ok_def window_frame_def screen_frame_def)
  qed
  moreover have "keys_ok k' = keys_ok k" "lines_ok k' = lines_ok k"
    by (simp_all add: k'_def keys_ok_def key_is_def lines_ok_def)
  ultimately show "keyboard_ok k'" using ok by (simp add: keyboard_ok_def)
  show "view k' = view k" "context_of k' = context_of k" "dev k' = d"
    by (simp_all add: k'_def view_dev view_paging(2) context_of_def paging_set_write_to_buffer_def
        set_video_frame_def frame_simps)
qed

lemma check_input_view:
  assumes "keyboard_ok k" "a \<noteq> 0xFF"
  shows "\<exists>k'. check_input a junk k = Some k' \<and> keyboard_ok k' \<and> view k' = spec_key a junk (view k) \<and>
    context_of k' = context_of k"
proof -
  obtain k0 where k0: "set_line_buffer k = Some k0"
    "setposition (get_global_screen_x k0) (get_global_screen_y k0) k0 = k0"
    "entered (k0\<lparr>paging := paging_set_write_to_videomem (paging k0)\<rparr>)"
    "view (k0\<lparr>paging := paging_set_write_to_videomem (paging k0)\<rparr>) = view k"
    "get_current_noc k = get_current_noc (k0\<lparr>paging := paging_set_write_to_videomem (paging k0)\<rparr>)"
    "context_of k0 = context_of k"
    by (rule enter_handler [OF assms(1)])
  obtain k1 where k1: "handle_key a junk (get_current_noc k)
      (k0\<lparr>paging := paging_set_write_to_videomem (paging k0)\<rparr>) = Some k1"
    "finishing k1" "view k1 = spec_key a junk (view k)" "context_of k1 = context_of k"
    using handle_key_handled [OF k0(3,5) assms(2), of junk] k0(4,6)
    by (auto simp: handled_def context_of_def paging_set_write_to_videomem_def set_video_frame_def frame_simps)
  show ?thesis
    using leave_handler [OF k1(2), of "send_eoi 1 (dev k1)"] k1 k0(1,2)
    by (auto simp: check_input_def Let_def)
qed

text \<open>[C12] The keyboard handler refines the abstract terminal: for every scan code but \<open>0xFF\<close> it finishes
  without leaving an array, keeps the invariant and does to the lines, the screens, the modifier keys
  and the visible terminal what the specification says (edit, echo, clear on shift-control-L, hand the
  line over on Enter, switch on Alt-F1 to Alt-F3). Scan code \<open>0xFF\<close> reads past the key table.\<close>

theorem check_input_refines:
  assumes "keyboard_ok k"
  shows "(a \<noteq> 0xFF \<longrightarrow> (\<exists>k'. check_input a junk k = Some k' \<and> keyboard_ok k' \<and>
      view k' = spec_key a junk (view k) \<and> current_term (sched k') = current_term (sched k)))
    \<and> check_input 0xFF junk k = None"
proof
  show "a \<noteq> 0xFF \<longrightarrow> (\<exists>k'. check_input a junk k = Some k' \<and> keyboard_ok k' \<and>
      view k' = spec_key a junk (view k) \<and> current_term (sched k') = current_term (sched k))"
    using check_input_view [OF assms] unfolding context_of_def by blast
  obtain k0 where k0: "set_line_buffer k = Some k0"
    "setposition (get_global_screen_x k0) (get_global_screen_y k0) k0 = k0"
    "entered (k0\<lparr>paging := paging_set_write_to_videomem (paging k0)\<rparr>)"
    by (rule enter_handler [OF assms])
  let ?kb = "k0\<lparr>paging := paging_set_write_to_videomem (paging k0)\<rparr>"
  have "length (chararray ?kb) = 255" using enteredD(6) [OF k0(3)] unfolding keys_ok_def by blast
  then have "handle_key 0xFF junk n ?kb = None" for n
    by (simp add: handle_key_def default_key_def Let_def)
  then show "check_input 0xFF junk k = None"
    using k0(1,2) by (simp add: check_input_def Let_def)
qed

definition example_keyboard :: keyboard where
  "example_keyboard = \<lparr>paging = example_run, phys = (\<lambda>_. 32),
     sched = \<lparr>terminals = replicate 3 example_terminal, vid_bufs = [0xB9000, 0xBA000, 0xBB000],
       visable_term = 0, current_term = 0, is_on = [1, 1, 1], exe_bytes = [0, 0, 0, 0]\<rparr>,
     crtc_index = 0, crtc_reg = (\<lambda>_. 0), chararray = initial_chararray[0x3A := 48],
     linebuffer = replicate 128 0, terminalbuffer = replicate 3 (replicate 128 0), flags = [0, 0, 0],
     numberofchars = [0, 0, 0], dev = example_devices\<rparr>"

lemma example_keyboard_ok: "keyboard_ok example_keyboard"
proof -
  have "tables_ok example_run" using paging_reachable_ok [OF example_run_reachable] by blast
  moreover have "page_table_0M_4M example_run ! 184 AND 0xFFFFF000 = 0xB8000"
    using example_window by (simp add: window_frame_def example_console_def)
  ultimately have "screens_ok example_keyboard"
    using example_cursor
    by (simp add: screens_ok_def displays_ok_def screen_frame_def window_frame_def example_keyboard_def)
  moreover have "keys_ok example_keyboard"
    by (auto simp: keys_ok_def key_is_def example_keyboard_def initial_keys)
  moreover have "lines_ok example_keyboard"
    by (simp add: lines_ok_def example_keyboard_def example_terminal_def nth_Cons')
  ultimately show ?thesis by (simp add: keyboard_ok_def)
qed

lemma example_view:
  "shown_term (view example_keyboard) = 0" "edited (view example_keyboard) = [[], [], []]"
  "shift (view example_keyboard) = (False, False)" "caps (view example_keyboard) = False"
  "ctrl (view example_keyboard) = False" "alt (view example_keyboard) = False"
  by (simp_all add: view_def line_of_def key_is_def example_keyboard_def example_terminal_def
      initial_chararray_def chararray_keys_def chars_def upt_rec)

lemma check_input_refines_witness:
  "\<exists>k'. check_input 0x1E 0 example_keyboard = Some k' \<and> edited (view k') = [[97], [], []]"
proof -
  from check_input_refines [OF example_keyboard_ok, of "0x1E" 0]
  obtain k' where "check_input 0x1E 0 example_keyboard = Some k'"
    "view k' = spec_key 0x1E 0 (view example_keyboard)" by auto
  moreover have "initial_chararray ! 30 = 97"
    by (simp add: initial_chararray_def chararray_keys_def chars_def)
  then have "edited (spec_key 0x1E 0 (view example_keyboard)) = [[97], [], []]"
    by (simp add: spec_key_def spec_char_def typed_char_def letter_def spec_line_def example_view)
  ultimately show ?thesis by auto
qed

end
