(* ===== verification/Terminal.thy ===== *)
theory Terminal imports Keyboard begin

text \<open>
  The terminal as a file (\<open>terminal.c\<close>): reading a line into a buffer of the running process.

  Stores through a pointer of the process go through the page tables; \<open>None\<close> is a page fault.
  \<open>terminal_read\<close> spins until a line has been handed over; \<open>ev i\<close> is what the interrupt handlers do
  while the flag is tested for the \<open>i\<close>-th time, and the fuel bounds the number of tests.
\<close>

subsection \<open>Stores into user memory\<close>

definition user_store :: "u32 \<Rightarrow> u8 \<Rightarrow> 'a console_scheme \<Rightarrow> 'a console_scheme option" where
  "user_store va b k = (case xlate (paging k) va of
     None \<Rightarrow> None
   | Some (pa, _) \<Rightarrow> Some (k\<lparr>phys := (phys k)(pa := b)\<rparr>))"

fun user_write :: "u32 \<Rightarrow> u8 list \<Rightarrow> 'a console_scheme \<Rightarrow> 'a console_scheme option" where
  "user_write va [] k = Some k"
| "user_write va (b # bs) k = do { k \<leftarrow> user_store va b k; user_write (va + 1) bs k }"

subsection \<open>The file operations\<close>

fun terminal_wait ::
  "nat \<Rightarrow> (nat \<Rightarrow> 'a keyboard_scheme \<Rightarrow> 'a keyboard_scheme option) \<Rightarrow> nat \<Rightarrow> nat \<Rightarrow> 'a keyboard_scheme
    \<Rightarrow> 'a keyboard_scheme option" where
  "terminal_wait 0 ev i t k = None"
| "terminal_wait (Suc fuel) ev i t k =
     (if flags k ! t \<noteq> 0 then Some k
      else do { k \<leftarrow> ev i k; terminal_wait fuel ev (i + 1) t k })"

text \<open>The smaller of the two sizes, which the code computes into \<open>sizetocopy\<close>, is never used.\<close>

definition terminal_read ::
  "nat \<Rightarrow> (nat \<Rightarrow> 'a keyboard_scheme \<Rightarrow> 'a keyboard_scheme option) \<Rightarrow> i32 \<Rightarrow> u32 \<Rightarrow> i32 \<Rightarrow> 'a keyboard_scheme
    \<Rightarrow> (i32 \<times> 'a keyboard_scheme) option" where
  "terminal_read fuel ev fd buffer nbytes k = do {
     let current_t = get_current_terminal k;
     k \<leftarrow> user_write buffer (replicate (unat nbytes) 0) k;
     k \<leftarrow> terminal_wait fuel ev 0 current_t k;
     let n = numberofchars k ! current_t;
     if n \<le> int (length (terminalbuffer k ! current_t)) then do {
       k \<leftarrow> user_write buffer (take (nat n) (terminalbuffer k ! current_t)) k;
       k \<leftarrow> user_store (buffer + of_nat (nat n)) 10 k;
       let k = update_cursor k;
       let retvalue = numberofchars k ! current_t;
       let k = k\<lparr>terminalbuffer := (terminalbuffer k)[current_t := replicate KEYBOARD_BUFFER_LENGTH 0]\<rparr>;
       let k = k\<lparr>numberofchars := (numberofchars k)[current_t := 0]\<rparr>;
       let k = k\<lparr>flags := (flags k)[current_t := 0]\<rparr>;
       Some (of_int (retvalue + 1), k)
     }
     else None
   }"

definition terminal_open :: "u32 \<Rightarrow> i32" where
  "terminal_open filename = 0"

definition terminal_close :: "i32 \<Rightarrow> i32" where
  "terminal_close fd = 0"

text \<open>Reading port \<open>0x3D5\<close> gives the selected register.\<close>

definition crtc_inb :: "'a console_scheme \<Rightarrow> u8" where
  "crtc_inb k = crtc_reg k (crtc_index k)"

definition enable_cursor :: "'a console_scheme \<Rightarrow> 'a console_scheme" where
  "enable_cursor k =
     (let k = crtc_outb 0x0A 0x3D4 k;
          k = crtc_outb ((crtc_inb k AND 0x0C) OR 0) 0x3D5 k;
          k = crtc_outb 0x0B 0x3D4 k
      in crtc_outb ((crtc_inb k AND 0x0E) OR 15) 0x3D5 k)"

subsection \<open>User memory\<close>

text \<open>The process whose memory the window at 128 MB shows, and a buffer inside the window.\<close>

definition runs :: "nat \<Rightarrow> 'a console_scheme \<Rightarrow> bool" where
  "runs p k \<longleftrightarrow> p < 6 \<and> tables_ok (paging k) \<and> page_directory (paging k) ! 32 = user_pde p"

definition user_buffer :: "u32 \<Rightarrow> nat \<Rightarrow> bool" where
  "user_buffer va n \<longleftrightarrow> 0x8000000 \<le> unat va \<and> unat va + n \<le> 0x8400000"

definition user_pa :: "nat \<Rightarrow> u32 \<Rightarrow> u32" where
  "user_pa p va = 0x800000 + 0x400000 * of_nat p + (va - 0x8000000)"

definition put_bytes :: "mem \<Rightarrow> u32 \<Rightarrow> u8 list \<Rightarrow> mem" where
  "put_bytes m d bs = (\<lambda>x. if unat (x - d) < length bs then bs ! unat (x - d) else m x)"

lemma window_base:
  assumes "0x8000000 \<le> unat va" "unat va < 0x8400000"
  shows "pde_index va = 32" "va AND 0x3FFFFF = va - 0x8000000"
proof -
  show "pde_index va = 32" using assms by (simp add: pde_index_range)
  have "unat (va AND 0x3FFFFF) = unat va mod 0x400000"
    by (simp add: unat_offsets)
  also have "\<dots> = unat va - 0x8000000" using assms by (simp add: mod_if)
  also have "\<dots> = unat (va - 0x8000000)" using assms by (simp add: unat_sub word_le_nat_alt)
  finally show "va AND 0x3FFFFF = va - 0x8000000" by (simp add: word_unat_eq_iff)
qed

lemma xlate_window:
  assumes "runs p k" "user_buffer va n" "i < n"
  shows "xlate (paging k) (va + of_nat i) = Some (user_pa p va + of_nat i, True)"
proof -
  have "unat (va + of_nat i) = unat va + i"
    using assms(2,3) unat_add_small [of va "of_nat i"] by (simp add: user_buffer_def)
  then have "0x8000000 \<le> unat (va + of_nat i)" "unat (va + of_nat i) < 0x8400000"
    using assms(2,3) by (simp_all add: user_buffer_def)
  note base = window_base [OF this]
  show ?thesis
    using assms(1) xlate_user [OF _ base(1), of "paging k" p] base(2)
    by (simp add: runs_def user_pa_def algebra_simps)
qed

lemma put_bytes_Nil [simp]: "put_bytes m d [] = m"
  by (simp add: put_bytes_def)

lemma put_bytes_step:
  assumes "length bs < 4294967295"
  shows "put_bytes (m(d := b)) (d + 1) bs = put_bytes m d (b # bs)"
proof (rule ext)
  fix x
  show "put_bytes (m(d := b)) (d + 1) bs x = put_bytes m d (b # bs) x"
  proof (cases "x = d")
    case True
    then show ?thesis using unat_region_shift [of 1 d d] assms by (simp add: put_bytes_def)
  next
    case False
    then have "unat (x - d) \<noteq> 0" by (simp add: unat_eq_0)
    then obtain j where j: "unat (x - d) = Suc j" by (cases "unat (x - d)") auto
    then have "unat (x - (d + 1)) = j" using unat_region_shift [of 1 x d] by simp
    then show ?thesis using j False by (simp add: put_bytes_def)
  qed
qed

lemma put_bytes_at: "i < length bs \<Longrightarrow> length bs < 4294967296 \<Longrightarrow> put_bytes m d bs (d + of_nat i) = bs ! i"
  by (simp add: put_bytes_def)

lemma put_bytes_outside: "\<not> in_region d (length bs) x \<Longrightarrow> put_bytes m d bs x = m x"
  by (simp add: put_bytes_def in_region_def)

lemma user_pa_inc: "user_pa p (va + 1) = user_pa p va + 1"
  by (simp add: user_pa_def)

lemma user_write_bytes:
  assumes "runs p k" "user_buffer va (length bs)"
  shows "user_write va bs k = Some (k\<lparr>phys := put_bytes (phys k) (user_pa p va) bs\<rparr>)"
  using assms
proof (induction bs arbitrary: va k)
  case Nil
  show ?case by simp
next
  case (Cons b bs)
  let ?k = "k\<lparr>phys := (phys k)(user_pa p va := b)\<rparr>"
  have store: "user_store va b k = Some ?k"
    using xlate_window [OF Cons.prems, of 0] by (simp add: user_store_def)
  have small: "length (b # bs) \<le> 0x400000" using Cons.prems(2) by (simp add: user_buffer_def)
  have "unat (va + 1) = unat va + 1" if "bs \<noteq> []"
    using Cons.prems(2) unat_add_small [of va 1] by (simp add: user_buffer_def)
  then have "bs \<noteq> [] \<Longrightarrow> user_buffer (va + 1) (length bs)" using Cons.prems(2) by (simp add: user_buffer_def)
  moreover have "runs p ?k" using Cons.prems(1) by (simp add: runs_def)
  ultimately have "bs \<noteq> [] \<Longrightarrow> user_write (va + 1) bs ?k =
      Some (?k\<lparr>phys := put_bytes (phys ?k) (user_pa p (va + 1)) bs\<rparr>)"
    using Cons.IH by blast
  moreover have "bs = [] \<Longrightarrow> user_write (va + 1) bs ?k =
      Some (?k\<lparr>phys := put_bytes (phys ?k) (user_pa p (va + 1)) bs\<rparr>)"
    by simp
  ultimately have "user_write (va + 1) bs ?k = Some (?k\<lparr>phys := put_bytes (phys ?k) (user_pa p (va + 1)) bs\<rparr>)"
    by blast
  then show ?case
    using store small by (simp add: user_pa_inc put_bytes_step)
qed


lemma user_write_phys: "user_write va bs k = Some k' \<Longrightarrow> \<exists>p. k' = k\<lparr>phys := p\<rparr>"
proof (induction bs arbitrary: va k)
  case Nil
  then show ?case by (intro exI [of _ "phys k"]) simp
next
  case (Cons b bs)
  then obtain k1 where k1: "user_store va b k = Some k1" "user_write (va + 1) bs k1 = Some k'"
    by (auto simp: bind_eq_Some_conv)
  then obtain p where "k1 = k\<lparr>phys := p\<rparr>" by (auto simp: user_store_def split: option.splits)
  then show ?case using Cons.IH [OF k1(2)] by auto
qed

subsection \<open>Reading a line\<close>

lemma terminal_wait_ready: "flags k ! t \<noteq> 0 \<Longrightarrow> 0 < fuel \<Longrightarrow> terminal_wait fuel ev i t k = Some k"
  by (cases fuel) simp_all

lemma put_bytes_append:
  assumes "length bs + length cs < 4294967296"
  shows "put_bytes (put_bytes m d bs) (d + of_nat (length bs)) cs = put_bytes m d (bs @ cs)"
  using assms unat_region_shift [of "length bs" _ d]
  by (auto simp: put_bytes_def fun_eq_iff nth_append)

lemma put_bytes_over:
  assumes "length bs = length cs"
  shows "put_bytes (put_bytes m d bs) d cs = put_bytes m d cs"
  using assms by (auto simp: put_bytes_def)

lemma runs_phys [simp]: "runs p (k\<lparr>phys := m\<rparr>) = runs p k"
  by (simp add: runs_def)

lemma user_buffer_mono: "user_buffer va n \<Longrightarrow> m \<le> n \<Longrightarrow> user_buffer va m"
  by (simp add: user_buffer_def)

text \<open>Once the line is there.\<close>

lemma copy_line:
  assumes k: "runs p k" "user_buffer va (length l + 1)" "delivered_to k t = Some (l @ [10])"
    "length (terminalbuffer k ! t) = 128" "0 \<le> numberofchars k ! t" "numberofchars k ! t \<le> 127"
  defines "n \<equiv> numberofchars k ! t"
  shows "n = int (length l)"
    "do { k \<leftarrow> user_write va (take (nat n) (terminalbuffer k ! t)) k; user_store (va + of_nat (nat n)) 10 k } =
      Some (k\<lparr>phys := put_bytes (phys k) (user_pa p va) (l @ [10])\<rparr>)"
proof -
  have l: "take (nat n + 1) (terminalbuffer k ! t) = l @ [10]"
    using k(3) by (simp add: delivered_to_def n_def split: if_splits)
  from arg_cong [OF this, of length] show n: "n = int (length l)" using k(4-6) by (simp add: n_def)
  from l n have "take (length l) (take (length l + 1) (terminalbuffer k ! t)) = take (length l) (l @ [10])" by simp
  then have take: "take (nat n) (terminalbuffer k ! t) = l" using n by (simp add: min_def)
  let ?k = "k\<lparr>phys := put_bytes (phys k) (user_pa p va) l\<rparr>"
  have w: "user_write va l k = Some ?k"
    using user_write_bytes [OF k(1), of va l] k(2) by (simp add: user_buffer_def)
  have small: "length l + 1 \<le> 0x400000" using k(2) by (simp add: user_buffer_def)
  have "user_store (va + of_nat (length l)) 10 ?k =
      Some (k\<lparr>phys := (put_bytes (phys k) (user_pa p va) l)(user_pa p va + of_nat (length l) := 10)\<rparr>)"
    using xlate_window [of p ?k va "length l + 1" "length l"] k(1,2) by (simp add: user_store_def)
  also have "(put_bytes (phys k) (user_pa p va) l)(user_pa p va + of_nat (length l) := 10) =
      put_bytes (phys k) (user_pa p va) (l @ [10])"
    using put_bytes_append [of l "[10]" "phys k" "user_pa p va"] small
      put_bytes_step [of "[]" "put_bytes (phys k) (user_pa p va) l" "user_pa p va + of_nat (length l)" 10]
    by simp
  finally show "do { k \<leftarrow> user_write va (take (nat n) (terminalbuffer k ! t)) k; user_store (va + of_nat (nat n)) 10 k } =
      Some (k\<lparr>phys := put_bytes (phys k) (user_pa p va) (l @ [10])\<rparr>)"
    using w take n by simp
qed

definition forget_line :: "nat \<Rightarrow> 'a keyboard_scheme \<Rightarrow> 'a keyboard_scheme" where
  "forget_line t k = k\<lparr>terminalbuffer := (terminalbuffer k)[t := replicate 128 0],
     numberofchars := (numberofchars k)[t := 0], flags := (flags k)[t := 0]\<rparr>"

lemma lines_okD:
  "lines_ok k \<Longrightarrow> t < 3 \<Longrightarrow> length (terminalbuffer k ! t) = 128 \<and> 0 \<le> numberofchars k ! t \<and>
     numberofchars k ! t \<le> 127 \<and> t < length (terminalbuffer k) \<and> t < length (flags k) \<and>
     t < length (numberofchars k)"
  by (simp add: lines_ok_def)

lemma terminal_read_run:
  assumes k: "runs p k" "user_buffer va (max (unat nbytes) (length l + 1))" "t = current_term (sched k)"
    and wait: "terminal_wait fuel ev 0 t (k\<lparr>phys := put_bytes (phys k) (user_pa p va) (replicate (unat nbytes) 0)\<rparr>) =
      Some k1"
    and k1: "runs p k1" "lines_ok k1" "t < 3" "delivered_to k1 t = Some (l @ [10])"
  shows "terminal_read fuel ev fd va nbytes k = Some (of_nat (length l + 1),
      forget_line t (update_cursor (k1\<lparr>phys := put_bytes (phys k1) (user_pa p va) (l @ [10])\<rparr>)))"
proof -
  note lines = lines_okD [OF k1(2,3)]
  have fill: "user_write va (replicate (unat nbytes) 0) k =
      Some (k\<lparr>phys := put_bytes (phys k) (user_pa p va) (replicate (unat nbytes) 0)\<rparr>)"
    using user_write_bytes [OF k(1), of va "replicate (unat nbytes) 0"] user_buffer_mono [OF k(2)] by simp
  have "user_buffer va (length l + 1)" using user_buffer_mono [OF k(2)] by simp
  note copy = copy_line [OF k1(1) this k1(4)]
  let ?k = "k1\<lparr>phys := put_bytes (phys k1) (user_pa p va) (l @ [10])\<rparr>"
  have n: "numberofchars k1 ! t = int (length l)" using copy(1) lines by simp
  obtain k2 where k2: "user_write va (take (length l) (terminalbuffer k1 ! t)) k1 = Some k2"
    "user_store (va + of_nat (length l)) 10 k2 = Some ?k"
    using copy(2) lines unfolding n by (auto simp: bind_eq_Some_conv)
  have same: "terminalbuffer (update_cursor ?k) = terminalbuffer k1" "numberofchars (update_cursor ?k) = numberofchars k1"
    "flags (update_cursor ?k) = flags k1"
    using screen_change_keyboard [OF screen_change_video(4) [OF screen_change_refl], of ?k] by simp_all
  have "of_int (int (length l) + 1) = (of_nat (length l + 1) :: i32)" by simp
  moreover have "length l \<le> 128" using n lines by simp
  ultimately show ?thesis
    using fill wait k2 n lines
    by (simp add: terminal_read_def k(3) [symmetric] get_current_terminal_def Let_def forget_line_def same
        del: of_int_add of_nat_add)
qed

lemma delivered_forget:
  "t < length (flags k) \<Longrightarrow> delivered_to (forget_line t k) t = None"
  "t' \<noteq> t \<Longrightarrow> delivered_to (forget_line t k) t' = delivered_to k t'"
  by (simp_all add: delivered_to_def forget_line_def)

lemma delivered_screen: "delivered_to (update_cursor (k\<lparr>phys := m\<rparr>)) = delivered_to k"
  using screen_change_keyboard [OF screen_change_video(4) [OF screen_change_refl], of "k\<lparr>phys := m\<rparr>"]
  by (auto simp: delivered_to_def)

lemma load_written:
  assumes "runs p k" "user_buffer va n" "i < n" "n < 4294967296"
  shows "user_load (va + of_nat i) (forget_line t (update_cursor (k\<lparr>phys := m\<rparr>))) = Some (m (user_pa p va + of_nat i))"
  using xlate_window [OF assms(1-3)] by (simp add: user_load_def forget_line_def)

text \<open>[C22] \<open>terminal_read\<close> with a line waiting: it returns the length of the line with its newline, the
  buffer holds the line, the newline and zeros up to the size asked for, nothing else in memory
  changes and the line is gone. The whole line is stored whatever \<open>nbytes\<close> says, so a line longer
  than \<open>nbytes\<close> overruns the buffer. (The comment in the source says the result is always 0.)\<close>

theorem terminal_read_line:
  assumes "keyboard_ok k" "runs p k" "t = current_term (sched k)" "delivered_to k t = Some (l @ [10])"
    "user_buffer buf (max (unat nbytes) (length l + 1))" "0 < fuel"
  shows "\<exists>k'. terminal_read fuel ev fd buf nbytes k = Some (of_nat (length l + 1), k')
    \<and> (\<forall>i \<le> length l. user_load (buf + of_nat i) k' = Some ((l @ [10]) ! i))
    \<and> (\<forall>i. length l < i \<and> i < unat nbytes \<longrightarrow> user_load (buf + of_nat i) k' = Some 0)
    \<and> (\<forall>a. \<not> in_region (user_pa p buf) (max (unat nbytes) (length l + 1)) a \<longrightarrow> phys k' a = phys k a)
    \<and> delivered_to k' t = None \<and> (\<forall>t'. t' \<noteq> t \<longrightarrow> delivered_to k' t' = delivered_to k t')"
proof -
  let ?n = "max (unat nbytes) (length l + 1)"
  let ?m = "put_bytes (phys k) (user_pa p buf) (replicate (unat nbytes) 0)"
  let ?k = "k\<lparr>phys := ?m\<rparr>"
  let ?r = "put_bytes ?m (user_pa p buf) (l @ [10])"
  have ok: "lines_ok k" "t < 3" using assms(1,3) by (simp_all add: keyboard_ok_def screens_ok_def displays_ok_def)
  then have lines: "lines_ok ?k" by (simp add: lines_ok_def)
  have "flags ?k ! t \<noteq> 0" using assms(4) by (auto simp: delivered_to_def split: if_splits)
  note wait = terminal_wait_ready [OF this assms(6)]
  have del: "delivered_to ?k t = Some (l @ [10])" "delivered_to ?k = delivered_to k"
    using assms(4) by (auto simp: delivered_to_def)
  define k' where "k' = forget_line t (update_cursor (?k\<lparr>phys := ?r\<rparr>))"
  have run: "terminal_read fuel ev fd buf nbytes k = Some (of_nat (length l + 1), k')"
    using terminal_read_run [OF assms(2,5,3) wait _ lines ok(2) del(1)] assms(2) by (simp add: k'_def)
  have small: "?n \<le> 0x400000" using assms(5) unfolding user_buffer_def by linarith
  have runs: "runs p ?k" using assms(2) by simp
  have load: "user_load (buf + of_nat i) k' = Some (?r (user_pa p buf + of_nat i))" if "i < ?n" for i
    unfolding k'_def using load_written [OF runs assms(5) that] small by simp
  have at: "unat (user_pa p buf + of_nat i - user_pa p buf) = i" if "i < ?n" for i
  proof -
    have "i < 4294967296" using that small by linarith
    then show ?thesis by simp
  qed
  have "user_load (buf + of_nat i) k' = Some ((l @ [10]) ! i)" if "i \<le> length l" for i
    using load [of i] at [of i] that by (simp add: put_bytes_def)
  moreover have "user_load (buf + of_nat i) k' = Some 0" if "length l < i \<and> i < unat nbytes" for i
    using load [of i] at [of i] that by (simp add: put_bytes_def)
  moreover have "phys k' a = phys k a" if "\<not> in_region (user_pa p buf) ?n a" for a
  proof -
    have "\<not> unat (a - user_pa p buf) < unat nbytes" "\<not> unat (a - user_pa p buf) < length (l @ [10])"
      using that by (auto simp: in_region_def)
    then show ?thesis by (simp add: k'_def forget_line_def put_bytes_def)
  qed
  moreover have "delivered_to k' t = None" "\<forall>t'. t' \<noteq> t \<longrightarrow> delivered_to k' t' = delivered_to k t'"
    using lines_okD [OF ok] screen_change_keyboard(4) [OF screen_change_video(4) [OF screen_change_refl], of "?k\<lparr>phys := ?r\<rparr>"]
    by (simp_all add: k'_def delivered_forget delivered_screen del(2) [symmetric])
  ultimately show ?thesis using run by blast
qed

definition example_waiting :: keyboard where
  "example_waiting = example_keyboard\<lparr>terminalbuffer := [[104, 105, 10] @ replicate 125 0, replicate 128 0, replicate 128 0],
     flags := [1, 0, 0], numberofchars := [2, 0, 0]\<rparr>"

lemma example_runs: "runs 1 example_keyboard"
proof -
  have "tables_ok example_run" using paging_reachable_ok [OF example_run_reachable] by blast
  moreover have "page_directory example_run ! 32 = user_pde 1"
    by (simp add: example_run_def paging_change_process_def Let_def frame_simps paging_initialize_def
        write_cr3_def user_pde_def del: upt_rec_numeral)
  ultimately show ?thesis by (simp add: runs_def example_keyboard_def)
qed

lemma example_waiting_ok: "keyboard_ok example_waiting" "runs 1 example_waiting"
  "delivered_to example_waiting 0 = Some ([104, 105] @ [10])"
proof -
  have "keyboard_ok example_keyboard" by (rule example_keyboard_ok)
  then show "keyboard_ok example_waiting"
    by (simp add: keyboard_ok_def example_waiting_def screens_ok_def displays_ok_def keys_ok_def key_is_def
        lines_ok_def window_frame_def screen_frame_def nth_Cons')
  show "runs 1 example_waiting" using example_runs by (simp add: runs_def example_waiting_def)
  show "delivered_to example_waiting 0 = Some ([104, 105] @ [10])"
    by (simp add: delivered_to_def example_waiting_def)
qed

lemma terminal_read_line_witness:
  "\<exists>k'. terminal_read 1 (\<lambda>_ _. None) 0 0x8048000 2 example_waiting = Some (3, k') \<and>
     user_load (0x8048000 + of_nat 2) k' = Some 10"
proof -
  have "0 = current_term (sched example_waiting)" by (simp add: example_waiting_def example_keyboard_def)
  moreover have "user_buffer 0x8048000 (max (unat (2 :: i32)) (length [104, 105 :: u8] + 1))"
    by (simp add: user_buffer_def)
  ultimately obtain k' where k': "terminal_read 1 (\<lambda>_ _. None) 0 0x8048000 2 example_waiting =
      Some (of_nat (length [104, 105 :: u8] + 1), k')"
    "\<forall>i \<le> length [104, 105 :: u8]. user_load (0x8048000 + of_nat i) k' = Some (([104, 105] @ [10]) ! i)"
    using terminal_read_line [OF example_waiting_ok(1,2) _ example_waiting_ok(3), of "0x8048000" 2 1 "\<lambda>_ _. None" 0] by auto
  from k'(2) [rule_format, of 2] have "user_load (0x8048000 + of_nat 2) k' = Some 10" by simp
  moreover have "(of_nat (length [104, 105 :: u8] + 1) :: i32) = 3" by simp
  ultimately show ?thesis using k'(1) by auto
qed

text \<open>A store into the window of a process changes no screen.\<close>

lemma user_pa_high:
  assumes "p < 6" "user_buffer va n" "in_region (user_pa p va) n a"
  shows "0x800000 \<le> unat a"
proof -
  have va: "unat (va - 0x8000000) + n \<le> 0x400000" using assms(2) unfolding user_buffer_def by unat_arith
  have base: "unat (user_pa p va) = 0x800000 + 0x400000 * p + unat (va - 0x8000000)"
    unfolding user_pa_def using unat_user_base [OF assms(1)] va assms(1)
      unat_add_small [of "0x800000 + 0x400000 * of_nat p" "va - 0x8000000"] by simp
  then show ?thesis using in_region_interval [of "user_pa p va" n a] assms(1,3) va by simp
qed

lemma screens_low:
  assumes "displays_ok k" "t < 3" "n < 4000"
  shows "unat (at_offset (screen_frame k t) n) < 0x800000"
proof -
  have f: "screen_frame k t \<in> {0xB8000, 0xB9000, 0xBA000, 0xBB000}"
    using assms(1,2) by (auto simp: screen_frame_def displays_ok_def nth_Cons')
  then have "unat (screen_frame k t) \<le> 0xBB000" by auto
  then show ?thesis
    using unat_add_small [of "screen_frame k t" "of_nat n"] unat_of_nat_u32 [of n] assms(3) by (simp add: at_offset_def)
qed

lemma view_user_bytes:
  assumes "keyboard_ok k" "runs p k" "user_buffer va (length bs)"
  shows "view (k\<lparr>phys := put_bytes (phys k) (user_pa p va) bs\<rparr>) = view k"
proof -
  let ?k = "k\<lparr>phys := put_bytes (phys k) (user_pa p va) bs\<rparr>"
  have d: "displays_ok k" "p < 6" using assms(1,2) by (simp_all add: keyboard_ok_def screens_ok_def runs_def)
  have shown: "cells (screen_frame k t) (phys ?k) = cells (screen_frame k t) (phys k)" if "t < 3" for t
  proof (rule cells_same)
    fix n :: nat
    assume "n < 4000"
    then have "\<not> in_region (user_pa p va) (length bs) (at_offset (screen_frame k t) n)"
      using screens_low [OF d(1) that, of n] user_pa_high [OF d(2) assms(3)] by fastforce
    then show "phys ?k (at_offset (screen_frame k t) n) = phys k (at_offset (screen_frame k t) n)"
      by (simp add: put_bytes_outside)
  qed
  have "screen_frame ?k = screen_frame k" by (auto simp: screen_frame_def)
  then have "screen_of ?k t = screen_of k t" if "t < 3" for t
    using shown [OF that] by (simp add: screen_of_def)
  moreover have "line_of ?k = line_of k" "delivered_to ?k = delivered_to k"
    by (auto simp: line_of_def delivered_to_def)
  ultimately show ?thesis by (simp add: view_def key_is_def)
qed

subsection \<open>Typing while a reader waits\<close>

text \<open>Keys are scan codes, each with the junk of its interrupt. \<open>not_ended\<close>: none of them is the Enter of terminal \<open>t\<close>.\<close>

definition typed :: "(u8 \<times> u8) list \<Rightarrow> keyboard_view \<Rightarrow> keyboard_view" where
  "typed keys s = fold (\<lambda>(a, junk). spec_key a junk) keys s"

fun not_ended :: "nat \<Rightarrow> (u8 \<times> u8) list \<Rightarrow> keyboard_view \<Rightarrow> bool" where
  "not_ended t [] s \<longleftrightarrow> True"
| "not_ended t ((a, junk) # keys) s \<longleftrightarrow>
     a \<noteq> 0xFF \<and> \<not> (a = ENTER \<and> shown_term s = t) \<and> not_ended t keys (spec_key a junk s)"

lemma spec_key_delivered:
  "\<not> (a = ENTER \<and> shown_term s = t) \<Longrightarrow> delivered (spec_key a junk s) ! t = delivered s ! t"
  by (auto simp: spec_key_def spec_char_def spec_line_def Let_def)

lemma view_parts: "t < 3 \<Longrightarrow> delivered (view k) ! t = delivered_to k t"
  "t < 3 \<Longrightarrow> edited (view k) ! t = line_of k t" "shown_term (view k) = visable_term (sched k)"
  by (simp_all add: view_def del: upt_rec_numeral)

lemma wait_keys:
  assumes "keyboard_ok k" "t < 3" "flags k ! t = 0" "not_ended t keys (view k)"
    "\<forall>i < length keys. ev (j + i) = check_input (fst (keys ! i)) (snd (keys ! i))"
  shows "\<exists>k1. keyboard_ok k1 \<and> view k1 = typed keys (view k) \<and> context_of k1 = context_of k \<and> flags k1 ! t = 0 \<and>
    (\<forall>f. terminal_wait (length keys + f) ev j t k = terminal_wait f ev (j + length keys) t k1) \<and>
    (\<forall>f \<le> length keys. terminal_wait f ev j t k = None)"
  using assms
proof (induction keys arbitrary: j k)
  case Nil
  then show ?case by (auto simp: typed_def)
next
  case (Cons key keys)
  obtain a junk where key: "key = (a, junk)" by (cases key)
  then have a: "a \<noteq> 0xFF" "\<not> (a = ENTER \<and> shown_term (view k) = t)"
    and rest: "not_ended t keys (spec_key a junk (view k))" using Cons.prems(4) by auto
  obtain k1 where k1: "check_input a junk k = Some k1" "keyboard_ok k1"
    "view k1 = spec_key a junk (view k)" "context_of k1 = context_of k"
    using check_input_view [OF Cons.prems(1) a(1), of junk] by blast
  have "delivered_to k1 t = delivered_to k t"
    using spec_key_delivered [OF a(2), of junk] Cons.prems(2) by (simp flip: view_parts(1) add: k1(3))
  then have flag: "flags k1 ! t = 0" using Cons.prems(3) by (auto simp: delivered_to_def split: if_splits)
  have ev: "ev j = check_input a junk" using Cons.prems(5) key by fastforce
  have step: "terminal_wait (Suc f) ev j t k = terminal_wait f ev (j + 1) t k1" for f
    using Cons.prems(3) k1(1) ev by simp
  have "\<forall>i < length keys. ev (j + 1 + i) = check_input (fst (keys ! i)) (snd (keys ! i))"
  proof (intro allI impI)
    fix i assume "i < length keys"
    then show "ev (j + 1 + i) = check_input (fst (keys ! i)) (snd (keys ! i))"
      using Cons.prems(5) [rule_format, of "Suc i"] by simp
  qed
  from Cons.IH [OF k1(2) Cons.prems(2) flag rest [folded k1(3)] this] obtain k2 where k2: "keyboard_ok k2"
    "view k2 = typed keys (view k1)" "context_of k2 = context_of k1" "flags k2 ! t = 0"
    "\<forall>f. terminal_wait (length keys + f) ev (j + 1) t k1 = terminal_wait f ev (j + 1 + length keys) t k2"
    "\<forall>f \<le> length keys. terminal_wait f ev (j + 1) t k1 = None" by blast
  have "terminal_wait f ev j t k = None" if "f \<le> length (key # keys)" for f
    using that k2(6) step by (cases f) auto
  then show ?case using k2(1-5) k1(3,4) step by (intro exI [of _ k2]) (auto simp: typed_def key)
qed

lemma enter_delivers:
  assumes "keyboard_ok k" "t < 3" "visable_term (sched k) = t"
  obtains k1 where "check_input ENTER junk k = Some k1" "keyboard_ok k1" "context_of k1 = context_of k"
    "delivered_to k1 t = Some (line_of k t @ [10])" "line_of k1 t = []"
proof -
  obtain k1 where k1: "check_input ENTER junk k = Some k1" "keyboard_ok k1"
    "view k1 = spec_key ENTER junk (view k)" "context_of k1 = context_of k"
    using check_input_view [OF assms(1), of ENTER junk] by auto
  have views: "shown_term (view k) = t" "edited (view k) ! t = line_of k t" "length (edited (view k)) = 3"
    "length (delivered (view k)) = 3"
    using assms(2,3) by (simp_all add: view_def del: upt_rec_numeral)
  have "delivered (view k1) ! t = Some (line_of k t @ [10])" "edited (view k1) ! t = []"
    using views assms(2) unfolding k1(3) by (simp_all add: spec_key_def Let_def spec_line_def)
  then show thesis using that k1(1,2,4) view_parts(1,2) [OF assms(2), of k1] by simp
qed


lemma line_taken:
  assumes k: "runs p k" "user_buffer buf (max (unat nbytes) (length l + 1))" "t = current_term (sched k)"
    and wait: "terminal_wait fuel ev 0 t (k\<lparr>phys := put_bytes (phys k) (user_pa p buf) (replicate (unat nbytes) 0)\<rparr>) =
      Some k1"
    and k1: "runs p k1" "lines_ok k1" "t < 3" "delivered_to k1 t = Some (l @ [10])"
  shows "\<exists>k'. terminal_read fuel ev fd buf nbytes k = Some (of_nat (length l + 1), k')
    \<and> (\<forall>i \<le> length l. user_load (buf + of_nat i) k' = Some ((l @ [10]) ! i))
    \<and> line_of k' t = line_of k1 t \<and> delivered_to k' t = None"
proof -
  let ?r = "put_bytes (phys k1) (user_pa p buf) (l @ [10])"
  define k' where "k' = forget_line t (update_cursor (k1\<lparr>phys := ?r\<rparr>))"
  have run: "terminal_read fuel ev fd buf nbytes k = Some (of_nat (length l + 1), k')"
    unfolding k'_def by (rule terminal_read_run [OF k wait k1])
  have buf: "user_buffer buf (length l + 1)" by (rule user_buffer_mono [OF k(2)]) simp
  have small: "length l + 1 < 4294967296" using buf by (simp add: user_buffer_def)
  have "user_load (buf + of_nat i) k' = Some ((l @ [10]) ! i)" if "i \<le> length l" for i
    using load_written [OF k1(1) buf _ small, of i t ?r] that small put_bytes_at [of i "l @ [10]"]
    by (simp add: k'_def)
  moreover have "line_of k' t = line_of k1 t" by (simp add: k'_def line_of_def forget_line_def)
  moreover have "delivered_to k' t = None"
    unfolding k'_def using lines_okD [OF k1(2,3)]
      screen_change_keyboard(4) [OF screen_change_video(4) [OF screen_change_refl], of "k1\<lparr>phys := ?r\<rparr>"]
    by (intro delivered_forget(1)) simp
  ultimately show ?thesis using run by blast
qed

text \<open>[C21] From the keys to the program: a reader that finds no line spins while the user types, on its terminal and,
  switching to and fro, on others. It does not return before Enter is pressed on its terminal, however often it has
  looked; when it is, it returns with the line as the typing has left it (characters added, taken back, the screen
  cleared) and its newline in the buffer and their number as its result, and the edited line is empty again.
  Without a key it never returns.\<close>

theorem enter_wakes_reader:
  assumes "keyboard_ok k" "runs p k" "t = current_term (sched k)" "delivered_to k t = None"
    and "not_ended t keys (view k)" "shown_term (typed keys (view k)) = t" "l = edited (typed keys (view k)) ! t"
    and "\<forall>i < length keys. ev i = check_input (fst (keys ! i)) (snd (keys ! i))" "ev (length keys) = check_input ENTER junk"
    and "user_buffer buf (max (unat nbytes) (length l + 1))"
  shows "(\<forall>fuel \<ge> length keys + 2.
      \<exists>k'. terminal_read fuel ev fd buf nbytes k = Some (of_nat (length l + 1), k')
        \<and> (\<forall>i \<le> length l. user_load (buf + of_nat i) k' = Some ((l @ [10]) ! i))
        \<and> line_of k' t = [] \<and> delivered_to k' t = None)
    \<and> (\<forall>fuel < length keys + 2. terminal_read fuel ev fd buf nbytes k = None)
    \<and> (\<forall>fuel. terminal_read fuel (\<lambda>_ k. Some k) fd buf nbytes k = None)"
proof -
  let ?k = "k\<lparr>phys := put_bytes (phys k) (user_pa p buf) (replicate (unat nbytes) 0)\<rparr>"
  have ok: "keyboard_ok ?k"
    using assms(1) by (simp add: keyboard_ok_def screens_ok_def displays_ok_def keys_ok_def key_is_def
        lines_ok_def screen_frame_def)
  have t: "t < 3" using assms(1,3) by (simp add: keyboard_ok_def screens_ok_def displays_ok_def)
  have flag: "flags ?k ! t = 0" using assms(4) by (auto simp: delivered_to_def split: if_splits)
  have zeros: "user_buffer buf (length (replicate (unat nbytes) (0 :: u8)))"
    using user_buffer_mono [OF assms(10)] by simp
  have view: "view ?k = view k" by (rule view_user_bytes [OF assms(1,2) zeros])
  have fill: "user_write buf (replicate (unat nbytes) 0) k = Some ?k" by (rule user_write_bytes [OF assms(2) zeros])
  have waits: "terminal_read fuel ev' fd buf nbytes k = None" if "terminal_wait fuel ev' 0 t ?k = None" for fuel ev'
    using that fill by (simp add: terminal_read_def Let_def get_current_terminal_def assms(3) [symmetric])
  obtain k1 where k1: "keyboard_ok k1" "view k1 = typed keys (view k)" "context_of k1 = context_of ?k" "flags k1 ! t = 0"
    "\<forall>f. terminal_wait (length keys + f) ev 0 t ?k = terminal_wait f ev (length keys) t k1"
    "\<forall>f \<le> length keys. terminal_wait f ev 0 t ?k = None"
    using wait_keys [OF ok t flag, of keys ev 0] assms(5,8) unfolding view by auto
  have l: "visable_term (sched k1) = t" "line_of k1 t = l"
    using assms(6,7) view_parts(2) [OF t, of k1] by (simp_all flip: view_parts(3) add: k1(2))
  obtain k2 where k2: "check_input ENTER junk k1 = Some k2" "keyboard_ok k2" "context_of k2 = context_of k1"
    "delivered_to k2 t = Some (l @ [10])" "line_of k2 t = []"
    using enter_delivers [OF k1(1) t l(1), of junk] unfolding l(2) by blast
  have woken: "\<exists>k'. terminal_read fuel ev fd buf nbytes k = Some (of_nat (length l + 1), k') \<and>
      (\<forall>i \<le> length l. user_load (buf + of_nat i) k' = Some ((l @ [10]) ! i)) \<and> line_of k' t = [] \<and> delivered_to k' t = None"
    if fuel: "length keys + 2 \<le> fuel" for fuel
  proof -
    obtain f where f: "fuel = length keys + Suc f" "0 < f"
      using fuel that [of "fuel - length keys - 1"] by simp
    have "flags k2 ! t \<noteq> 0" using k2(4) by (auto simp: delivered_to_def split: if_splits)
    then have wait: "terminal_wait fuel ev 0 t ?k = Some k2"
      unfolding f(1) k1(5) [rule_format] using k1(4) k2(1) assms(9) terminal_wait_ready [OF _ f(2)] by simp
    have runs: "runs p k2"
      using k2(2,3) k1(3) assms(2) by (simp add: runs_def context_of_def keyboard_ok_def screens_ok_def displays_ok_def)
    have lines: "lines_ok k2" using k2(2) by (simp add: keyboard_ok_def)
    show ?thesis using line_taken [OF assms(2,10,3) wait runs lines t k2(4)] k2(5) by simp
  qed
  have early: "terminal_wait fuel ev 0 t ?k = None" if "fuel < length keys + 2" for fuel
  proof (cases "fuel = length keys + 1")
    case True
    show ?thesis unfolding True k1(5) [rule_format] using k1(4) k2(1) assms(9) by simp
  next
    case False
    then show ?thesis using k1(6) that by simp
  qed
  have "terminal_wait fuel (\<lambda>_ k. Some k) i t ?k = None" for fuel i
    using flag by (induction fuel arbitrary: i) simp_all
  then show ?thesis using woken early waits by blast
qed


text \<open>The keys h and i and Enter, on the example keyboard.\<close>

lemma enter_wakes_reader_witness:
  "\<exists>k'. terminal_read 4 (\<lambda>i. check_input (if i = 0 then 0x23 else if i = 1 then 0x17 else ENTER) 0) 0 0x8048000 128
      example_keyboard = Some (3, k') \<and> user_load 0x8048000 k' = Some 104 \<and> user_load 0x8048001 k' = Some 105"
proof -
  let ?ev = "\<lambda>i. check_input (if i = (0 :: nat) then 0x23 else if i = 1 then 0x17 else ENTER) 0 :: keyboard \<Rightarrow> keyboard option"
  let ?keys = "[(0x23, 0), (0x17, 0)] :: (u8 \<times> u8) list" and ?s = "view example_keyboard"
  have chars: "initial_chararray ! 35 = 104" "initial_chararray ! 23 = 105"
    by (simp_all add: initial_chararray_def chararray_keys_def chars_def)
  have typed: "shown_term (typed ?keys ?s) = 0" "edited (typed ?keys ?s) ! 0 = [104, 105]" "not_ended 0 ?keys ?s"
    by (simp_all add: typed_def spec_key_def spec_char_def typed_char_def letter_def spec_line_def Let_def example_view chars)
  have free: "delivered_to example_keyboard 0 = None" "0 = current_term (sched example_keyboard)"
    by (simp_all add: delivered_to_def example_keyboard_def)
  have buf: "user_buffer 0x8048000 (max (unat (128 :: i32)) (length [104, 105 :: u8] + 1))" by (simp add: user_buffer_def)
  have keys: "\<forall>i < length ?keys. ?ev i = check_input (fst (?keys ! i)) (snd (?keys ! i))"
    by (simp add: less_Suc_eq)
  have enter: "?ev (length ?keys) = check_input ENTER 0" by simp
  have "\<forall>fuel \<ge> length ?keys + 2. \<exists>k'. terminal_read fuel ?ev 0 0x8048000 128 example_keyboard =
      Some (of_nat (length [104, 105 :: u8] + 1), k') \<and>
      (\<forall>i \<le> length [104, 105 :: u8]. user_load (0x8048000 + of_nat i) k' = Some (([104, 105] @ [10]) ! i)) \<and>
      line_of k' 0 = [] \<and> delivered_to k' 0 = None"
    by (rule conjunct1 [OF enter_wakes_reader [where ev = ?ev, OF example_keyboard_ok example_runs free(2,1) typed(3,1)
          typed(2) [symmetric] keys enter buf]])
  from this [rule_format, of 4] have "\<exists>k'. terminal_read 4 ?ev 0 0x8048000 128 example_keyboard = Some (3, k') \<and>
      (\<forall>i \<le> 2. user_load (0x8048000 + of_nat i) k' = Some (([104, 105] @ [10]) ! i))"
    by auto
  then obtain k' where k': "terminal_read 4 ?ev 0 0x8048000 128 example_keyboard = Some (3, k')"
    "\<forall>i \<le> 2. user_load (0x8048000 + of_nat i) k' = Some (([104, 105] @ [10]) ! i)" by blast
  show ?thesis using k'(1) k'(2) [rule_format, of 0] k'(2) [rule_format, of 1] by auto
qed

end
