(* ===== verification/Printf.thy ===== *)
theory Printf imports Console LibString begin

text \<open>
  Formatted output (\<open>puts\<close> and \<open>printf\<close> in \<open>lib.c\<close>), on the console of theory Console.

  The format is its bytes up to the NUL; the parameters are the words the caller pushed, by index; a
  pointer parameter points into the memory \<open>m\<close>. A read past the end of the format and a string
  without a NUL are \<open>None\<close>. The conversion buffers are local arrays: memory from address 0.
\<close>

subsection \<open>The code\<close>

function puts_from :: "reader \<Rightarrow> u32 \<Rightarrow> 'a console_scheme \<Rightarrow> (i32 \<times> 'a console_scheme) option" where
  "puts_from s index k =
     (if s index \<noteq> 0 then
        if index + 1 = 0 then None else puts_from s (index + 1) (putc (s index) k)
      else Some (index, k))"
  by pat_completeness auto
termination
  by (relation "measure (\<lambda>(s, index, k). 4294967296 - unat index)") (auto intro: inc_measure)

declare puts_from.simps [simp del]

definition puts :: "reader \<Rightarrow> 'a console_scheme \<Rightarrow> (i32 \<times> 'a console_scheme) option" where
  "puts s k = puts_from s 0 k"

definition print_hex :: "bool \<Rightarrow> u32 \<Rightarrow> 'a console_scheme \<Rightarrow> 'a console_scheme option" where
  "print_hex alternate v k =
     (if \<not> alternate then do {
        conv_buf \<leftarrow> itoa (\<lambda>_. 0) v 0 16;
        (_, k) \<leftarrow> puts (at_ptr conv_buf 0) k;
        Some k
      } else do {
        conv_buf \<leftarrow> itoa (\<lambda>_. 0) v 8 16;
        starting_index \<leftarrow> strlen (at_ptr conv_buf 8);
        let conv_buf = fold (\<lambda>i b. b(of_nat i := chr8 (CHR ''0''))) [nat (sint starting_index)..<8] conv_buf;
        (_, k) \<leftarrow> puts (at_ptr conv_buf starting_index) k;
        Some k
      })"

definition print_unsigned :: "u32 \<Rightarrow> 'a console_scheme \<Rightarrow> 'a console_scheme option" where
  "print_unsigned v k = do {
     conv_buf \<leftarrow> itoa (\<lambda>_. 0) v 0 10;
     (_, k) \<leftarrow> puts (at_ptr conv_buf 0) k;
     Some k
   }"

definition print_signed :: "i32 \<Rightarrow> 'a console_scheme \<Rightarrow> 'a console_scheme option" where
  "print_signed v k =
     do {
       conv_buf \<leftarrow> (if sint v < 0 then itoa ((\<lambda>_. 0)(0 := chr8 (CHR ''-''))) (- v) 1 10
                     else itoa (\<lambda>_. 0) v 0 10);
       (_, k) \<leftarrow> puts (at_ptr conv_buf 0) k;
       Some k
     }"

text \<open>The two switches: on the characters of the format, and on those of a conversion.\<close>

fun printf_chars :: "mem \<Rightarrow> (nat \<Rightarrow> u32) \<Rightarrow> u8 list \<Rightarrow> nat \<Rightarrow> 'a console_scheme \<Rightarrow> 'a console_scheme option"
  and printf_conversion ::
    "mem \<Rightarrow> (nat \<Rightarrow> u32) \<Rightarrow> bool \<Rightarrow> u8 list \<Rightarrow> nat \<Rightarrow> 'a console_scheme \<Rightarrow> 'a console_scheme option" where
  "printf_chars m args [] esp k = Some k"
| "printf_chars m args (c # buf) esp k =
     (if c = chr8 (CHR ''%'') then printf_conversion m args False buf esp k
      else printf_chars m args buf esp (putc c k))"
| "printf_conversion m args alternate [] esp k = None"
| "printf_conversion m args alternate (c # buf) esp k =
     (if c = chr8 (CHR ''%'') then printf_chars m args buf esp (putc (chr8 (CHR ''%'')) k)
      else if c = chr8 (CHR ''#'') then printf_conversion m args True buf esp k
      else if c = chr8 (CHR ''x'') then do {
        k \<leftarrow> print_hex alternate (args esp) k; printf_chars m args buf (esp + 1) k }
      else if c = chr8 (CHR ''u'') then do {
        k \<leftarrow> print_unsigned (args esp) k; printf_chars m args buf (esp + 1) k }
      else if c = chr8 (CHR ''d'') then do {
        k \<leftarrow> print_signed (args esp) k; printf_chars m args buf (esp + 1) k }
      else if c = chr8 (CHR ''c'') then printf_chars m args buf (esp + 1) (putc (ucast (args esp)) k)
      else if c = chr8 (CHR ''s'') then do {
        (_, k) \<leftarrow> puts (at_ptr m (args esp)) k; printf_chars m args buf (esp + 1) k }
      else printf_chars m args buf esp k)"

definition printf :: "mem \<Rightarrow> u8 list \<Rightarrow> (nat \<Rightarrow> u32) \<Rightarrow> 'a console_scheme \<Rightarrow> (i32 \<times> 'a console_scheme) option" where
  "printf m format args k = map_option (Pair (of_nat (length format))) (printf_chars m args format 0 k)"

subsection \<open>What is printed\<close>

text \<open>The bytes a format denotes. It is ill-formed when it ends inside a conversion.\<close>

definition numeral_of :: "nat \<Rightarrow> u32 \<Rightarrow> u8 list" where
  "numeral_of r v = (if v = 0 then chars ''0'' else rev (digits_of r (unat v)))"

definition padded_hex :: "u32 \<Rightarrow> u8 list" where
  "padded_hex v = replicate (8 - length (numeral_of 16 v)) (chr8 (CHR ''0'')) @ numeral_of 16 v"

definition signed_numeral :: "i32 \<Rightarrow> u8 list" where
  "signed_numeral v = (if sint v < 0 then chr8 (CHR ''-'') # numeral_of 10 (- v) else numeral_of 10 v)"

definition string_bytes :: "reader \<Rightarrow> u8 list" where
  "string_bytes s = (case strlen s of None \<Rightarrow> [] | Some n \<Rightarrow> map (\<lambda>i. s (of_nat i)) [0..<unat n])"

fun rendered :: "mem \<Rightarrow> bool option \<Rightarrow> u8 list \<Rightarrow> u32 list \<Rightarrow> u8 list option" where
  "rendered m None [] args = Some []"
| "rendered m (Some alternate) [] args = None"
| "rendered m None (c # buf) args =
     (if c = chr8 (CHR ''%'') then rendered m (Some False) buf args
      else map_option (Cons c) (rendered m None buf args))"
| "rendered m (Some alternate) (c # buf) args =
     (if c = chr8 (CHR ''%'') then map_option (Cons c) (rendered m None buf args)
      else if c = chr8 (CHR ''#'') then rendered m (Some True) buf args
      else if c \<in> set (chars ''xudcs'') then
        case args of [] \<Rightarrow> None | a # args \<Rightarrow>
        if c = chr8 (CHR ''s'') \<and> strlen (at_ptr m a) = None then None
        else map_option ((@)
          (if c = chr8 (CHR ''x'') then if alternate then padded_hex a else numeral_of 16 a
           else if c = chr8 (CHR ''u'') then numeral_of 10 a
           else if c = chr8 (CHR ''d'') then signed_numeral a
           else if c = chr8 (CHR ''c'') then [ucast a]
           else string_bytes (at_ptr m a))) (rendered m None buf args)
      else rendered m None buf args)"

lemma puts_from_c_string:
  assumes "c_string (shift_reader i s) xs" "unat i + length xs < 2 ^ 32"
  shows "puts_from s i k = Some (i + of_nat (length xs), fold putc xs k)"
  using assms
proof (induction xs arbitrary: i k)
  case Nil
  then show ?case by (simp add: c_string_shift puts_from.simps [of s])
next
  case (Cons x xs)
  then have s: "s i = x" "x \<noteq> 0" "c_string (shift_reader (i + 1) s) xs" by (simp_all add: c_string_shift)
  have i: "unat i + 1 < 2 ^ 32" using Cons.prems(2) by simp
  then have "unat (i + 1) = unat i + 1" using unat_add_small [of i 1] by simp
  then have "i + 1 \<noteq> 0" "unat (i + 1) + length xs < 2 ^ 32" using Cons.prems(2) by auto
  then show ?case using Cons.IH [OF s(3)] s by (simp add: puts_from.simps [of s i])
qed

lemma puts_c_string: "c_string s xs \<Longrightarrow> puts s k = Some (of_nat (length xs), fold putc xs k)"
  using puts_from_c_string [of 0 s xs k] by (simp add: puts_def c_string_def)

lemma numeral_of_itoa:
  "r \<in> {10, 16} \<Longrightarrow> itoa m v buf r = Some (write_list m buf (numeral_of (unat r) v @ [0]))"
  using itoa_zero [of m buf r] itoa_nonzero [of r v m buf] by (auto simp: numeral_of_def)

lemma length_digits_of_16: "n < 16 ^ k \<Longrightarrow> length (digits_of 16 n) \<le> k"
proof (induction k arbitrary: n)
  case 0
  then show ?case by (simp add: digits_of.simps [of 16 0])
next
  case (Suc k)
  then have "n div 16 < 16 ^ k" by (simp add: less_mult_imp_div_less)
  then show ?case using Suc.IH by (subst digits_of.simps) simp
qed

lemma numeral_of_bytes:
  "0 \<notin> set (numeral_of 10 v)" "0 \<notin> set (numeral_of 16 v)" "length (numeral_of r v) \<le> 32"
  "length (numeral_of 16 v) \<le> 8"
proof -
  show "0 \<notin> set (numeral_of 10 v)" "0 \<notin> set (numeral_of 16 v)"
    using digits_of_nonzero [of 10 "unat v"] digits_of_nonzero [of 16 "unat v"]
    by (simp_all add: numeral_of_def chars_def)
  show "length (numeral_of r v) \<le> 32"
    using length_digits_of [of "unat v" 32 r] by (simp add: numeral_of_def chars_def)
  show "length (numeral_of 16 v) \<le> 8"
    using length_digits_of_16 [of "unat v" 8] by (simp add: numeral_of_def chars_def)
qed

lemma print_unsigned_bytes: "print_unsigned v k = Some (fold putc (numeral_of 10 v) k)"
proof -
  have "c_string (at_ptr (write_list (\<lambda>_. 0) 0 (numeral_of 10 v @ [0])) 0) (numeral_of 10 v)"
    using numeral_of_bytes(1) [of v] numeral_of_bytes(3) [of 10 v] by (intro c_string_write_list) (auto intro: le_less_trans)
  from puts_c_string [OF this, of k] show ?thesis
    using numeral_of_itoa [of 10 "\<lambda>_. 0" v 0] by (simp add: print_unsigned_def)
qed

lemma write_list_Cons:
  assumes "length xs + 1 \<le> 2 ^ 32"
  shows "write_list (m(p := x)) (p + 1) xs = write_list m p (x # xs)"
proof
  fix a
  have "unat (a - (p + 1)) = unat (a - p) - 1" if "a \<noteq> p"
    using that unat_minus_one [of "a - p"] by (simp add: diff_diff_eq)
  moreover have "unat (p - (p + 1)) = 2 ^ 32 - 1" by (simp add: unsigned_minus_1_eq_mask mask_eq_exp_minus_1)
  moreover have "unat (a - p) \<noteq> 0" if "a \<noteq> p" using that by (simp add: unat_eq_0)
  ultimately show "write_list (m(p := x)) (p + 1) xs a = write_list m p (x # xs) a"
    using assms by (cases "a = p") (auto simp: write_list_def in_region_def nth_Cons')
qed

lemma print_signed_bytes: "print_signed v k = Some (fold putc (signed_numeral v) k)"
proof -
  let ?m = "\<lambda>_. 0 :: u8"
  have small: "length (numeral_of 10 w) < 100" for w using numeral_of_bytes(3) by (rule le_less_trans) simp
  have "c_string (at_ptr (write_list ?m 0 (signed_numeral v @ [0])) 0) (signed_numeral v)"
    using numeral_of_bytes(1) small [of v] small [of "- v"]
    by (intro c_string_write_list) (auto simp: signed_numeral_def)
  note puts = puts_c_string [OF this, of k]
  have "write_list (?m(0 := chr8 (CHR ''-''))) 1 (numeral_of 10 (- v) @ [0]) =
      write_list ?m 0 (chr8 (CHR ''-'') # numeral_of 10 (- v) @ [0])"
    using write_list_Cons [of "numeral_of 10 (- v) @ [0]" ?m 0] small [of "- v"] by simp
  then have "(if sint v < 0 then itoa (?m(0 := chr8 (CHR ''-''))) (- v) 1 10 else itoa ?m v 0 10) =
      Some (write_list ?m 0 (signed_numeral v @ [0]))"
    using numeral_of_itoa [of 10 "?m(0 := chr8 (CHR ''-''))" "- v" 1] numeral_of_itoa [of 10 ?m v 0]
    by (simp add: signed_numeral_def)
  then show ?thesis using puts by (simp add: print_signed_def)
qed

text \<open>The zeros go into the bytes before the digits, so that the string starts with them.\<close>

lemma fold_fill:
  "fold (\<lambda>i b. b(of_nat i := z)) [n..<j] (f :: mem) a = (if n \<le> unat a \<and> unat a < j then z else f a)"
  if "j \<le> 8"
  using that
proof (induction j)
  case (Suc j)
  have "a = of_nat j \<longleftrightarrow> unat a = j"
    using Suc.prems by (auto simp: unat_of_nat_u32 simp flip: word_unat_eq_iff)
  then show ?case using Suc by auto
qed simp

lemma print_hex_bytes:
  "print_hex alternate v k = Some (fold putc (if alternate then padded_hex v else numeral_of 16 v) k)"
proof (cases alternate)
  case False
  have "c_string (at_ptr (write_list (\<lambda>_. 0) 0 (numeral_of 16 v @ [0])) 0) (numeral_of 16 v)"
    using numeral_of_bytes(2) [of v] numeral_of_bytes(4) [of v]
    by (intro c_string_write_list) (auto intro: le_less_trans)
  from puts_c_string [OF this, of k] show ?thesis
    using False numeral_of_itoa [of 16 "\<lambda>_. 0" v 0] by (simp add: print_hex_def)
next
  case True
  define n where "n = length (numeral_of 16 v)"
  have n: "n \<le> 8" using numeral_of_bytes(4) by (simp add: n_def)
  let ?b = "write_list (\<lambda>_. 0) 8 (numeral_of 16 v @ [0])"
  let ?f = "fold (\<lambda>i b. b(of_nat i := chr8 (CHR ''0''))) [n..<8] ?b"
  have "c_string (at_ptr ?b 8) (numeral_of 16 v)"
    using numeral_of_bytes(2) [of v] n by (intro c_string_write_list) (auto simp: n_def)
  then have len: "strlen (at_ptr ?b 8) = Some (of_nat n)" using strlen_Some_iff by (auto simp: n_def)
  have at: "at_ptr ?f (of_nat n) (of_nat i) = (padded_hex v @ [0]) ! i" if "i \<le> 8" for i
  proof -
    have "unat (of_nat n + of_nat i :: u32) = n + i"
      using n that by (simp flip: of_nat_add)
    moreover have "?b (8 + of_nat j) = (numeral_of 16 v @ [0]) ! j" if "j \<le> n" for j
      using that n by (intro write_list_at) (simp_all add: n_def)
    from this [of "n + i - 8"] have "8 \<le> n + i \<Longrightarrow>
        ?b (of_nat n + of_nat i) = (numeral_of 16 v @ [0]) ! (n + i - 8)"
      using that by (simp flip: of_nat_add)
    ultimately show ?thesis
      using n that fold_fill [of 8 "chr8 (CHR ''0'')" n ?b "of_nat n + of_nat i"]
      by (auto simp: at_ptr_def padded_hex_def n_def nth_append add.commute)
  qed
  have "length (padded_hex v) = 8" using n by (simp add: padded_hex_def n_def)
  moreover have "0 \<notin> set (padded_hex v)" using numeral_of_bytes(2) by (auto simp: padded_hex_def)
  ultimately have "c_string (at_ptr ?f (of_nat n)) (padded_hex v)"
    using at at [of 8] unfolding c_string_def by (simp add: nth_append)
  note puts = puts_c_string [OF this, of k]
  have "nat (sint (of_nat n :: i32)) = n" using n sint_of_nat_u32 [of n] by simp
  then show ?thesis
    using True len puts numeral_of_itoa [of 16 "\<lambda>_. 0" v 8] by (simp add: print_hex_def)
qed

lemma puts_string_bytes: "strlen s \<noteq> None \<Longrightarrow> \<exists>n. puts s k = Some (n, fold putc (string_bytes s) k)"
proof -
  assume "strlen s \<noteq> None"
  then obtain xs where xs: "c_string s xs" "strlen s = Some (of_nat (length xs))"
    using strlen_Some_iff by auto
  then have "string_bytes s = xs"
    by (auto simp: string_bytes_def c_string_def intro!: nth_equalityI)
  then show ?thesis using puts_c_string [OF xs(1)] by auto
qed

lemma printf_rendered:
  fixes k :: "'a console_scheme"
  assumes "rendered m st format as = Some bs" "\<forall>i < length as. args (esp + i) = as ! i"
  shows "(case st of None \<Rightarrow> printf_chars m args format esp k
      | Some alternate \<Rightarrow> printf_conversion m args alternate format esp k) = Some (fold putc bs k)"
  using assms
proof (induction m st format as arbitrary: bs esp k rule: rendered.induct)
  case (3 m c buf as)
  then show ?case by (auto split: if_splits)
next
  case (4 m alternate c buf as)
  show ?case
  proof (cases "c \<in> set (chars ''xudcs'')")
    case False
    then show ?thesis using 4 by (auto simp: chars_def split: if_splits)
  next
    case True
    then have c: "c \<noteq> chr8 (CHR ''%'')" "c \<noteq> chr8 (CHR ''#'')" by (auto simp: chars_def)
    obtain a rest where as: "as = a # rest" using 4(5) True c by (auto split: list.splits)
    have args: "args esp = a" using 4(6) by (auto simp: as)
    have "\<forall>i < length rest. args (Suc esp + i) = rest ! i"
    proof (intro allI impI)
      fix i assume "i < length rest"
      then show "args (Suc esp + i) = rest ! i" using 4(6) [rule_format, of "Suc i"] by (simp add: as)
    qed
    note rest = this
    let ?null = "c = chr8 (CHR ''s'') \<and> strlen (at_ptr m a) = None"
    have str: "\<not> ?null"
      by (rule notI) (use 4(5) True c in \<open>simp add: as\<close>)
    then obtain out where out: "rendered m None buf rest = Some out"
      using 4(5) True c by (auto simp: as)
    have "printf_chars m args buf (esp + 1) k1 = Some (fold putc out k1)" for k1 :: "'a console_scheme"
      using 4(3) [OF c True as str out] rest by simp
    note IH = this
    consider "c = chr8 (CHR ''x'')" | "c = chr8 (CHR ''u'')" | "c = chr8 (CHR ''d'')" | "c = chr8 (CHR ''c'')" |
        "c = chr8 (CHR ''s'')" using True by (auto simp: chars_def)
    then show ?thesis
    proof cases
      case 5
      then have "strlen (at_ptr m a) \<noteq> None" using str by (auto simp del: of_char_of)
      from puts_string_bytes [OF this] obtain n where "puts (at_ptr m a) k = Some (n, fold putc (string_bytes (at_ptr m a)) k)"
        by blast
      then show ?thesis using 4(5) IH out str by (auto simp: 5 as args chars_def)
    qed (use 4(5) IH out in \<open>auto simp: as args chars_def print_hex_bytes print_unsigned_bytes print_signed_bytes\<close>)
  qed
qed simp_all

text \<open>[C31] \<open>printf\<close>: when the format is complete and its parameters are there, it prints the bytes the
  format denotes, in order and each through \<open>putc\<close>, and returns the length of the format. Numbers come
  out as their digits, \<open>%d\<close> with a sign (also for the least integer), \<open>%#x\<close> with eight digits.\<close>

theorem printf_prints:
  assumes "rendered m None format as = Some bs" "\<forall>i < length as. args i = as ! i"
  shows "printf m format args k = Some (of_nat (length format), fold putc bs k)"
  using printf_rendered [of m None format as bs args 0 k] assms by (simp add: printf_def)

lemma numeral_7: "replicate 7 x = [x, x, x, x, x, x, x]"
  by (simp add: numeral_eq_Suc)

lemma numeral_5: "digits_of 10 5 = chars ''5''" "digits_of 16 14 = chars ''E''"
  by (simp_all add: digits_of.simps chars_def itoa_lookup_def)

lemma printf_prints_witness:
  "\<forall>m k. printf m (chars ''%d %#x%c%%'') ((\<lambda>_. 0)(0 := -5, 1 := 14, 2 := 65)) k =
     Some (10, fold putc (chars ''-5 0000000EA%'') k)"
proof (intro allI)
  fix m k
  have "length (numeral_of 16 14) = 1" by (simp add: numeral_of_def numeral_5 chars_def)
  then have "rendered m None (chars ''%d %#x%c%%'') [-5, 14, 65] = Some (chars ''-5 0000000EA%'')"
    by (simp add: chars_def numeral_of_def numeral_5 signed_numeral_def padded_hex_def numeral_7)
  from printf_prints [OF this, of "(\<lambda>_. 0)(0 := -5, 1 := 14, 2 := 65)" k] show "printf m (chars ''%d %#x%c%%'') ((\<lambda>_. 0)(0 := -5, 1 := 14, 2 := 65)) k =
      Some (10, fold putc (chars ''-5 0000000EA%'') k)"
    by (simp add: chars_def less_Suc_eq)
qed

text \<open>A message without conversions.\<close>

lemma printf_message: "chr8 (CHR ''%'') \<notin> set format \<Longrightarrow>
    printf m format args k = Some (of_nat (length format), fold putc format k)"
proof -
  assume "chr8 (CHR ''%'') \<notin> set format"
  then have "rendered m None format [] = Some format" by (induction format) auto
  from printf_rendered [OF this, of args 0 k] show ?thesis by (simp add: printf_def)
qed

text \<open>A format that ends inside a conversion makes \<open>printf\<close> read past its end: the character that
  ends the conversion is skipped whatever it is, also the NUL.\<close>

theorem printf_unfinished:
  fixes k :: "'a console_scheme"
  assumes "chr8 (CHR ''%'') \<notin> set msg"
  shows "printf m (msg @ [chr8 (CHR ''%'')] @ replicate n (chr8 (CHR ''#''))) args k = None"
proof -
  have conv: "printf_conversion m args a (replicate n (chr8 (CHR ''#''))) esp k = None" for a esp and k :: "'a console_scheme"
    by (induction n arbitrary: a) simp_all
  have "printf_chars m args (msg @ [chr8 (CHR ''%'')] @ replicate n (chr8 (CHR ''#''))) esp k = None" for esp and k :: "'a console_scheme"
    using assms by (induction msg arbitrary: esp k) (simp_all add: conv [simplified])
  then show ?thesis by (simp add: printf_def)
qed

lemma printf_unfinished_witness: "printf m (chars ''100%'') args k = None"
  using printf_unfinished [of "chars ''100''" m 0 args k] by (simp add: chars_def)

end
