(* ===== verification/Process.thy ===== *)
theory Process imports FileSystem Terminal begin

text \<open>
  Processes and their open files: the process control block (\<open>pcb.h\<close>, \<open>pcb.c\<close>), the descriptor array
  and the file system calls of \<open>sys_call.c\<close>, and the two file operations of \<open>filesystem.c\<close> that work on
  a descriptor.

  A control block is found by its address. The address of the running process' block comes from the
  kernel stack pointer, which is part of the state. Code runs on the virtual memory the page tables
  give; \<open>None\<close> is a page fault, a call through a null pointer, an access outside an array or a call
  that never returns. What local variables hold before they are set, what the interrupt handlers do
  while a call waits and what the clock's register reads as are in the environment.
\<close>

subsection \<open>State\<close>

datatype operations = rtctable | filetable | directorytable | stdin_table | stdout_table

record file_desc =
  operationstable :: "operations option"
  fd_inode :: i32
  file_pos :: i32
  fd_flags :: "u8 list"

record pcb =
  fd_array :: "file_desc list"
  parent :: u32
  process_id :: i32
  parent_esp :: i32
  parent_ebp :: i32
  parent_process_id :: i32
  arg_size :: i32
  arg_arr :: "u8 list"
  status :: i32

record kernel = keyboard +
  fs :: fs_state
  pcbs :: "u32 \<Rightarrow> pcb"
  esp :: u32
  ebp :: u32
  processes_running :: "u8 list"
  tss_ss0 :: u16
  tss_esp0 :: u32

record environment =
  fuel :: nat
  key_events :: "nat \<Rightarrow> kernel \<Rightarrow> kernel option"
  clock_ticks :: "nat \<Rightarrow> bool"
  rtc_register_a :: u8
  stack_dentry :: dentry
  stack_array :: u32
  exe_bytes_at :: u32

abbreviation (input) "END_KMEM \<equiv> (0x800000 :: u32)"
abbreviation (input) "PCB_SIZE \<equiv> (0x2000 :: u32)"
abbreviation (input) "FD_ARR_SIZE \<equiv> (8 :: nat)"
abbreviation (input) "PCB_MAX_ARGS \<equiv> (128 :: nat)"
abbreviation (input) "INVALIDORFAIL \<equiv> (- 1 :: i32)"

definition get_pcb_address :: "kernel \<Rightarrow> u32" where
  "get_pcb_address k = esp k AND 0xFFE000"

definition upd_pcb :: "u32 \<Rightarrow> (pcb \<Rightarrow> pcb) \<Rightarrow> kernel \<Rightarrow> kernel" where
  "upd_pcb a f k = k\<lparr>pcbs := (pcbs k)(a := f (pcbs k a))\<rparr>"

definition upd_fd :: "nat \<Rightarrow> (file_desc \<Rightarrow> file_desc) \<Rightarrow> pcb \<Rightarrow> pcb" where
  "upd_fd i f p = p\<lparr>fd_array := (fd_array p)[i := f (fd_array p ! i)]\<rparr>"

definition set_flag :: "nat \<Rightarrow> u8 \<Rightarrow> file_desc \<Rightarrow> file_desc" where
  "set_flag i v d = d\<lparr>fd_flags := (fd_flags d)[i := v]\<rparr>"

subsection \<open>The memory the running code sees\<close>

definition mapped :: "u32 \<Rightarrow> kernel \<Rightarrow> bool" where
  "mapped va k \<longleftrightarrow> xlate (paging k) va \<noteq> None"

definition vmem :: "kernel \<Rightarrow> mem" where
  "vmem k = (\<lambda>va. case xlate (paging k) va of Some (pa, _) \<Rightarrow> phys k pa | None \<Rightarrow> 0)"

text \<open>A string behind a pointer, every byte of it mapped, up to its NUL.\<close>

definition string_at :: "u32 \<Rightarrow> kernel \<Rightarrow> reader option" where
  "string_at p k = do {
     len \<leftarrow> strlen (at_ptr (vmem k) p);
     if list_all (\<lambda>i. mapped (p + of_nat i) k) [0..<unat len + 1] then Some (at_ptr (vmem k) p) else None
   }"

text \<open>\<open>read_data\<close> with a destination in the memory of the process: the bytes it puts into the buffer
  are stored through the page tables.\<close>

definition read_data_user :: "u32 \<Rightarrow> u32 \<Rightarrow> u32 \<Rightarrow> u32 \<Rightarrow> kernel \<Rightarrow> (i32 \<times> kernel) option" where
  "read_data_user inode offset buf len k =
     (let (ret, m, f) = read_data (vmem k) (fs k) inode offset buf len;
          n = (if ret = -1 then 0 else unat ret)
      in map_option (Pair ret) (user_write buf (map (\<lambda>i. m (buf + of_nat i)) [0..<n]) (k\<lparr>fs := f\<rparr>)))"

subsection \<open>Setting up the descriptors of a new process\<close>

definition set_up_stdin :: "pcb \<Rightarrow> pcb" where
  "set_up_stdin = upd_fd 0 (\<lambda>d. set_flag 0 1
     (d\<lparr>operationstable := Some stdin_table, fd_inode := INVALIDORFAIL, file_pos := 0\<rparr>))"

definition set_up_stdout :: "pcb \<Rightarrow> pcb" where
  "set_up_stdout = upd_fd 1 (\<lambda>d. set_flag 0 1
     (d\<lparr>operationstable := Some stdout_table, fd_inode := INVALIDORFAIL, file_pos := 0\<rparr>))"

definition set_parent :: "i32 \<Rightarrow> u32 \<Rightarrow> i32 \<Rightarrow> pcb \<Rightarrow> pcb" where
  "set_parent current_pid parent_pcb parent_pid p =
     (if current_pid \<noteq> 1 then p\<lparr>parent := parent_pcb, parent_process_id := parent_pid\<rparr>
      else p\<lparr>parent := 0\<rparr>)"

text \<open>The loop that copies the arguments; \<open>arr\<close> is the command, an array of 128 bytes.\<close>

function copy_args :: "u8 list \<Rightarrow> nat \<Rightarrow> nat \<Rightarrow> nat \<Rightarrow> u8 list \<Rightarrow> u8 list option" where
  "copy_args arr sz i j args =
     (if j < sz then
        if \<not> j < length arr then None
        else if arr ! j \<noteq> 0 then
          if i < length args then copy_args arr sz (i + 1) (j + 1) (args[i := arr ! j]) else None
        else Some args
      else Some args)"
  by pat_completeness auto
termination
  by (relation "measure (\<lambda>(arr, sz, i, j, args). sz - j)") auto

declare copy_args.simps [simp del]

definition set_up_fdsandargs :: "nat \<Rightarrow> nat \<Rightarrow> u8 list \<Rightarrow> pcb \<Rightarrow> pcb option" where
  "set_up_fdsandargs sz arg_idx arr p = do {
     let p = fold (\<lambda>i. upd_fd i (\<lambda>d. set_flag 0 0 (d\<lparr>file_pos := 0\<rparr>))) [2..<FD_ARR_SIZE] p;
     let p = p\<lparr>arg_arr := replicate PCB_MAX_ARGS 0\<rparr>;
     let p = p\<lparr>arg_size := of_nat sz\<rparr>;
     args \<leftarrow> copy_args arr sz 0 arg_idx (arg_arr p);
     Some (p\<lparr>arg_arr := args\<rparr>)
   }"

subsection \<open>Opening and closing descriptors\<close>

fun find_fd :: "file_desc list \<Rightarrow> nat \<Rightarrow> nat" where
  "find_fd [] i = i"
| "find_fd (d # ds) i = (if fd_flags d ! 0 = 0 then i else find_fd ds (i + 1))"

definition fd_array_handle_open :: "u32 \<Rightarrow> i32 \<Rightarrow> i32 \<Rightarrow> kernel \<Rightarrow> i32 \<times> kernel" where
  "fd_array_handle_open curr_pcb ftype inode k =
     (if curr_pcb = 0 then (INVALIDORFAIL, k)
      else if ftype \<noteq> 0 \<and> ftype \<noteq> 1 \<and> ftype \<noteq> 2 then (INVALIDORFAIL, k)
      else let i = find_fd (drop 2 (fd_array (pcbs k curr_pcb))) 2
      in if i \<ge> FD_ARR_SIZE then (INVALIDORFAIL, k)
      else (of_nat i, upd_pcb curr_pcb (upd_fd i (\<lambda>d.
        let d = (if ftype = 0 then d\<lparr>operationstable := Some rtctable\<rparr>
                 else if ftype = 1 then d\<lparr>operationstable := Some directorytable\<rparr>
                 else if ftype = 2 then d\<lparr>operationstable := Some filetable\<rparr>
                 else d);
            d = d\<lparr>fd_inode := inode\<rparr>;
            d = d\<lparr>file_pos := 0\<rparr>;
            d = set_flag 0 1 d
        in set_flag 1 (ucast ftype) d)) k))"

definition fd_array_handle_close :: "i32 \<Rightarrow> u32 \<Rightarrow> kernel \<Rightarrow> i32 \<times> kernel" where
  "fd_array_handle_close fd curr_pcb k =
     (if sint fd < 0 then (INVALIDORFAIL, k)
      else if sint fd < 2 \<or> sint fd > 7 then (INVALIDORFAIL, k)
      else if curr_pcb = 0 then (INVALIDORFAIL, k)
      else (0, upd_pcb curr_pcb (upd_fd (unat fd) (\<lambda>d.
        d\<lparr>operationstable := None, fd_inode := 0, file_pos := 0,
          fd_flags := (fd_flags d)[0 := 0, 1 := 0, 2 := 0, 3 := 0]\<rparr>)) k))"

subsection \<open>Reading through a descriptor\<close>

definition fs_read :: "i32 \<Rightarrow> u32 \<Rightarrow> i32 \<Rightarrow> kernel \<Rightarrow> (i32 \<times> kernel) option" where
  "fs_read fd buf nbytes k =
     (if nbytes = 0 then Some (0, k)
      else if buf = 0 then Some (-1, k)
      else let curr_pcb = get_pcb_address k in
      if curr_pcb = 0 then Some (-1, k)
      else let d = fd_array (pcbs k curr_pcb) ! unat fd in
      if \<not> unat fd < length (fd_array (pcbs k curr_pcb)) then None
      else if fd_flags d ! 1 \<noteq> 2 then Some (-1, k)
      else let filesize = get_filesize (vmem k) (fs k) (fd_inode d) in
      if sint (file_pos d) \<ge> sint filesize then Some (0, k)
      else do {
        (retval, k) \<leftarrow> read_data_user (fd_inode d) (file_pos d) buf nbytes k;
        Some (retval, upd_pcb curr_pcb (upd_fd (unat fd) (\<lambda>d. d\<lparr>file_pos := file_pos d + retval\<rparr>)) k)
      })"

text \<open>The bytes \<open>dir_read\<close> stores: the copy loop tests its bound only after the first byte.\<close>

definition dir_bytes :: "u8 list \<Rightarrow> nat \<Rightarrow> nat \<Rightarrow> u8 list \<times> nat" where
  "dir_bytes name sz n =
     (if n = 0 then ([], 0)
      else if n < max 1 sz then (take n name, n)
      else (take (max 1 sz) name, sz))"

definition dir_read :: "environment \<Rightarrow> i32 \<Rightarrow> u32 \<Rightarrow> i32 \<Rightarrow> kernel \<Rightarrow> (i32 \<times> kernel) option" where
  "dir_read env fd buf nbytes k =
     (if boot_block_addr (fs k) = 0 then Some (-1, k)
      else if fd = 0 \<or> fd = 1 \<or> sint fd > 7 then Some (-1, k)
      else let curr_pcb = get_pcb_address k;
               d = fd_array (pcbs k curr_pcb) ! unat fd
      in if \<not> unat fd < length (fd_array (pcbs k curr_pcb)) then None
      else do {
        (r, e, f) \<leftarrow> read_dentry_by_index (vmem k) (file_pos d) (Some (stack_dentry env)) (fs k);
        let k = k\<lparr>fs := f\<rparr>;
        case e of None \<Rightarrow> None | Some e \<Rightarrow>
        if r = -1 then Some (0, k)
        else do {
          file_size \<leftarrow> strlen (dentry_reader (\<lambda>_. 0) e);
          let (bytes, bytes_read) = (if sint nbytes \<le> 0 then ([], nbytes)
            else let (bs, n) = dir_bytes (dentry_bytes e) (unat file_size) (nat (sint nbytes)) in (bs, of_nat n));
          k \<leftarrow> user_write buf bytes k;
          Some (bytes_read, upd_pcb curr_pcb (upd_fd (unat fd) (\<lambda>d. d\<lparr>file_pos := file_pos d + 1\<rparr>)) k)
        }
      })"

subsection \<open>The calls on files\<close>

fun op_open :: "environment \<Rightarrow> operations option \<Rightarrow> reader \<Rightarrow> kernel \<Rightarrow> kernel option" where
  "op_open env (Some rtctable) filename k =
     do { (_, d) \<leftarrow> rtc_open (rtc_register_a env) (dev k); Some (k\<lparr>dev := d\<rparr>) }"
| "op_open env (Some filetable) filename k =
     do { (_, f) \<leftarrow> fs_open (vmem k) (Some filename) (fs k); Some (k\<lparr>fs := f\<rparr>) }"
| "op_open env (Some directorytable) filename k = Some k"
| "op_open env (Some stdin_table) filename k = Some k"
| "op_open env (Some stdout_table) filename k = Some k"
| "op_open env None filename k = None"

fun op_close :: "operations option \<Rightarrow> kernel \<Rightarrow> kernel option" where
  "op_close (Some filetable) k = Some (k\<lparr>fs := snd (fs_close (fs k))\<rparr>)"
| "op_close (Some directorytable) k = Some (k\<lparr>fs := snd (dir_close (fs k))\<rparr>)"
| "op_close (Some rtctable) k = Some k"
| "op_close (Some stdin_table) k = Some k"
| "op_close (Some stdout_table) k = Some k"
| "op_close None k = None"

text \<open>The read entry of \<open>stdout_table\<close> and the write entry of \<open>stdin_table\<close> are null.\<close>

fun op_read :: "environment \<Rightarrow> operations option \<Rightarrow> i32 \<Rightarrow> u32 \<Rightarrow> i32 \<Rightarrow> kernel \<Rightarrow> (i32 \<times> kernel) option" where
  "op_read env (Some rtctable) fd buf nbytes k =
     do { (r, d) \<leftarrow> rtc_read (fuel env) (clock_ticks env) (dev k); Some (r, k\<lparr>dev := d\<rparr>) }"
| "op_read env (Some filetable) fd buf nbytes k = fs_read fd buf nbytes k"
| "op_read env (Some directorytable) fd buf nbytes k = dir_read env fd buf nbytes k"
| "op_read env (Some stdin_table) fd buf nbytes k =
     terminal_read (fuel env) (key_events env) fd buf nbytes k"
| "op_read env (Some stdout_table) fd buf nbytes k = None"
| "op_read env None fd buf nbytes k = None"

fun op_write :: "environment \<Rightarrow> operations option \<Rightarrow> i32 \<Rightarrow> u32 \<Rightarrow> i32 \<Rightarrow> kernel \<Rightarrow> (i32 \<times> kernel) option" where
  "op_write env (Some rtctable) fd buf nbytes k =
     (if \<not> mapped buf k then None
      else do { (r, d) \<leftarrow> rtc_write (Some (load32 (vmem k) buf)) (rtc_register_a env) (dev k); Some (r, k\<lparr>dev := d\<rparr>) })"
| "op_write env (Some filetable) fd buf nbytes k = Some (fs_write fd buf nbytes, k)"
| "op_write env (Some directorytable) fd buf nbytes k = Some (dir_write fd buf nbytes, k)"
| "op_write env (Some stdin_table) fd buf nbytes k = None"
| "op_write env (Some stdout_table) fd buf nbytes k = terminal_write fd buf nbytes k"
| "op_write env None fd buf nbytes k = None"

definition sys_open :: "environment \<Rightarrow> u32 \<Rightarrow> kernel \<Rightarrow> (i32 \<times> kernel) option" where
  "sys_open env filename k =
     (if filename = 0 then Some (INVALIDORFAIL, k)
      else do {
        name \<leftarrow> string_at filename k;
        len \<leftarrow> strlen name;
        if len = 0 then Some (INVALIDORFAIL, k)
        else do {
          (r, e, f) \<leftarrow> read_dentry_by_name (vmem k) (Some name) (Some (stack_dentry env)) (fs k);
          let k = k\<lparr>fs := f\<rparr>;
          case e of None \<Rightarrow> None | Some dir_entry \<Rightarrow>
          if r = -1 then Some (INVALIDORFAIL, k)
          else
            let curr_pcb = get_pcb_address k;
                (fd_opened, k) = fd_array_handle_open curr_pcb (file_type dir_entry) (inode_num dir_entry) k
            in if fd_opened = INVALIDORFAIL then Some (INVALIDORFAIL, k)
            else do {
              k \<leftarrow> op_open env (operationstable (fd_array (pcbs k curr_pcb) ! unat fd_opened)) name k;
              Some (fd_opened, k)
            }
        }
      })"

definition sys_close :: "i32 \<Rightarrow> kernel \<Rightarrow> (i32 \<times> kernel) option" where
  "sys_close fd k =
     (if sint fd < 0 then Some (INVALIDORFAIL, k)
      else if sint fd < 2 \<or> sint fd > 7 then Some (INVALIDORFAIL, k)
      else let curr_pcb = get_pcb_address k;
               d = fd_array (pcbs k curr_pcb) ! unat fd
      in if fd_flags d ! 0 = 0 then Some (-1, k)
      else if operationstable d = None then Some (-1, k)
      else do {
        k \<leftarrow> op_close (operationstable d) k;
        Some (fd_array_handle_close fd curr_pcb k)
      })"

definition sys_read :: "environment \<Rightarrow> i32 \<Rightarrow> u32 \<Rightarrow> i32 \<Rightarrow> kernel \<Rightarrow> (i32 \<times> kernel) option" where
  "sys_read env fd buf nbytes k =
     (if sint fd < 0 \<or> sint fd > 7 then Some (INVALIDORFAIL, k)
      else if buf = 0 then Some (INVALIDORFAIL, k)
      else if fd = 1 then Some (-1, k)
      else let d = fd_array (pcbs k (get_pcb_address k)) ! unat fd
      in if fd_flags d ! 0 = 0 then Some (INVALIDORFAIL, k)
      else op_read env (operationstable d) fd buf nbytes k)"

definition sys_write :: "environment \<Rightarrow> i32 \<Rightarrow> u32 \<Rightarrow> i32 \<Rightarrow> kernel \<Rightarrow> (i32 \<times> kernel) option" where
  "sys_write env fd buf nbytes k =
     (if sint fd \<le> 0 \<or> sint fd > 7 then Some (INVALIDORFAIL, k)
      else if buf = 0 then Some (INVALIDORFAIL, k)
      else let d = fd_array (pcbs k (get_pcb_address k)) ! unat fd
      in if fd_flags d ! 0 = 0 then Some (INVALIDORFAIL, k)
      else op_write env (operationstable d) fd buf nbytes k)"

subsection \<open>The other calls\<close>

definition getargs :: "u32 \<Rightarrow> i32 \<Rightarrow> kernel \<Rightarrow> (i32 \<times> kernel) option" where
  "getargs buf nbytes k =
     (let p = pcbs k (get_pcb_address k) in
      if buf = 0 \<or> sint nbytes < 0 \<or> sint (nbytes - 1) < sint (arg_size p) then Some (INVALIDORFAIL, k)
      else do {
        k \<leftarrow> strncpy (\<lambda>_. arr_reader (\<lambda>_. 0) (arg_arr p @ word_bytes (status p)))
               (\<lambda>i b. user_store (buf + i) b) nbytes k;
        Some (0, k)
      })"

definition vidmap :: "u32 \<Rightarrow> kernel \<Rightarrow> (i32 \<times> kernel) option" where
  "vidmap screen_start k =
     (if screen_start = 0 then Some (-1, k)
      else let page_dir_idx = drop_bit 22 (0xFFC00000 AND screen_start) in
      if page_dir_idx \<noteq> 32 then Some (-1, k)
      else do {
        let k = k\<lparr>paging := snd (paging_vidmap (paging k))\<rparr>;
        k \<leftarrow> user_write screen_start (word_bytes 0x8500000) k;
        Some (0, k)
      })"

definition set_handler :: "i32 \<Rightarrow> u32 \<Rightarrow> i32" where
  "set_handler signum handler_address = -1"

definition sigreturn :: "i32" where
  "sigreturn = -1"

definition save_parent_registers :: "u32 \<Rightarrow> i32 \<Rightarrow> i32 \<Rightarrow> kernel \<Rightarrow> kernel" where
  "save_parent_registers a sp bp k = upd_pcb a (\<lambda>p. p\<lparr>parent_esp := sp, parent_ebp := bp\<rparr>) k"

subsection \<open>Descriptors\<close>

definition fd_ok :: "nat \<Rightarrow> file_desc \<Rightarrow> bool" where
  "fd_ok i d \<longleftrightarrow> length (fd_flags d) = 4 \<and>
     (i = 0 \<longrightarrow> fd_flags d ! 0 = 1 \<and> operationstable d = Some stdin_table) \<and>
     (i = 1 \<longrightarrow> fd_flags d ! 0 = 1 \<and> operationstable d = Some stdout_table) \<and>
     (2 \<le> i \<longrightarrow> fd_flags d ! 0 \<noteq> 0 \<longrightarrow>
       operationstable d \<in> {Some rtctable, Some filetable, Some directorytable})"

definition pcb_ok :: "pcb \<Rightarrow> bool" where
  "pcb_ok p \<longleftrightarrow> length (fd_array p) = 8 \<and> length (arg_arr p) = 128 \<and> (\<forall>i < 8. fd_ok i (fd_array p ! i))"

lemma upd_pcb_simps [simp]:
  "pcbs (upd_pcb a f k) a = f (pcbs k a)" "b \<noteq> a \<Longrightarrow> pcbs (upd_pcb a f k) b = pcbs k b"
  "get_pcb_address (upd_pcb a f k) = get_pcb_address k" "phys (upd_pcb a f k) = phys k"
  "paging (upd_pcb a f k) = paging k" "fs (upd_pcb a f k) = fs k" "dev (upd_pcb a f k) = dev k"
  "processes_running (upd_pcb a f k) = processes_running k" "sched (upd_pcb a f k) = sched k"
  "esp (upd_pcb a f k) = esp k"
  by (simp_all add: upd_pcb_def get_pcb_address_def)

lemma upd_fd_simps [simp]:
  "length (fd_array (upd_fd i f p)) = length (fd_array p)" "arg_arr (upd_fd i f p) = arg_arr p"
  "j < length (fd_array p) \<Longrightarrow> fd_array (upd_fd i f p) ! j = (if j = i then f (fd_array p ! i) else fd_array p ! j)"
  by (auto simp: upd_fd_def nth_list_update)

lemma set_flag_simps [simp]:
  "length (fd_flags (set_flag i v d)) = length (fd_flags d)" "operationstable (set_flag i v d) = operationstable d"
  "fd_inode (set_flag i v d) = fd_inode d" "file_pos (set_flag i v d) = file_pos d"
  "j < length (fd_flags d) \<Longrightarrow> fd_flags (set_flag i v d) ! j = (if j = i then v else fd_flags d ! j)"
  by (auto simp: set_flag_def nth_list_update)

lemma pcb_ok_upd_fd:
  assumes "pcb_ok p" "i < 8 \<Longrightarrow> fd_ok i (f (fd_array p ! i))"
  shows "pcb_ok (upd_fd i f p)"
  using assms by (auto simp: pcb_ok_def)

text \<open>The first free descriptor.\<close>

lemma find_fd_spec:
  "i \<le> find_fd ds i \<and> find_fd ds i \<le> i + length ds \<and>
   (\<forall>j. i \<le> j \<and> j < find_fd ds i \<longrightarrow> fd_flags (ds ! (j - i)) ! 0 \<noteq> 0) \<and>
   (find_fd ds i < i + length ds \<longrightarrow> fd_flags (ds ! (find_fd ds i - i)) ! 0 = 0)"
proof (induction ds arbitrary: i)
  case Nil
  then show ?case by auto
next
  case (Cons d ds)
  note IH = Cons.IH [of "i + 1"]
  show ?case
  proof (cases "fd_flags d ! 0 = 0")
    case False
    have "fd_flags ((d # ds) ! (j - i)) ! 0 \<noteq> 0" if "i \<le> j" "j < find_fd ds (i + 1)" for j
    proof (cases "j = i")
      case False
      then have "(d # ds) ! (j - i) = ds ! (j - (i + 1))" using that by (simp add: nth_Cons')
      then show ?thesis using IH that False by simp
    qed (use False in simp)
    moreover have "(d # ds) ! (find_fd ds (i + 1) - i) = ds ! (find_fd ds (i + 1) - (i + 1))"
      using IH by (simp add: nth_Cons')
    ultimately show ?thesis using IH False by simp
  qed simp
qed

lemma first_free:
  assumes "length (fd_array p) = 8"
  defines "i \<equiv> find_fd (drop 2 (fd_array p)) 2"
  shows "2 \<le> i" "i \<le> 8" "\<And>j. 2 \<le> j \<Longrightarrow> j < i \<Longrightarrow> fd_flags (fd_array p ! j) ! 0 \<noteq> 0"
    "i < 8 \<Longrightarrow> fd_flags (fd_array p ! i) ! 0 = 0"
proof -
  note spec = find_fd_spec [of 2 "drop 2 (fd_array p)", folded i_def]
  show i: "2 \<le> i" "i \<le> 8" using spec assms(1) by simp_all
  have nth: "drop 2 (fd_array p) ! (j - 2) = fd_array p ! j" if "2 \<le> j" for j
    using that assms(1) by (simp add: nth_drop del: add_2_eq_Suc add_2_eq_Suc')
  show "fd_flags (fd_array p ! j) ! 0 \<noteq> 0" if "2 \<le> j" "j < i" for j
    using spec that nth [OF that(1)] by metis
  show "fd_flags (fd_array p ! i) ! 0 = 0" if "i < 8"
    using spec that nth [OF i(1)] assms(1) by (simp del: nth_drop)
qed

definition opened :: "i32 \<Rightarrow> i32 \<Rightarrow> file_desc \<Rightarrow> file_desc" where
  "opened ftype inode = (\<lambda>d. set_flag 1 (ucast ftype) (set_flag 0 1 (d\<lparr>
     operationstable := Some (if ftype = 0 then rtctable else if ftype = 1 then directorytable else filetable),
     fd_inode := inode, file_pos := 0\<rparr>)))"

lemma handle_open_eq:
  assumes "a \<noteq> 0" "ftype \<in> {0, 1, 2}"
  shows "fd_array_handle_open a ftype inode k =
    (let i = find_fd (drop 2 (fd_array (pcbs k a))) 2
     in if i \<ge> 8 then (-1, k) else (of_nat i, upd_pcb a (upd_fd i (opened ftype inode)) k))"
  using assms by (auto simp: fd_array_handle_open_def Let_def opened_def)

lemma fd_ok_opened: "fd_ok i d \<Longrightarrow> 2 \<le> i \<Longrightarrow> fd_ok i (opened ftype inode d)"
  by (simp add: fd_ok_def opened_def)

lemma sint_fd: "i < 8 \<Longrightarrow> sint (of_nat i :: i32) = int i"
  by (rule sint_of_nat_u32) simp

lemma handle_open_ok:
  assumes "pcb_ok (pcbs k a)" "a \<noteq> 0" "fd_array_handle_open a ftype inode k = (r, k')"
  shows "pcb_ok (pcbs k' a)" "get_pcb_address k' = get_pcb_address k"
proof -
  let ?i = "find_fd (drop 2 (fd_array (pcbs k a))) 2"
  have "k' = k \<or> (?i < 8 \<and> k' = upd_pcb a (upd_fd ?i (opened ftype inode)) k)"
    using assms(2,3) handle_open_eq [OF assms(2), of ftype inode k]
    by (cases "ftype \<in> {0, 1, 2}") (auto simp: fd_array_handle_open_def Let_def split: if_splits)
  moreover have "2 \<le> ?i" using find_fd_spec by blast
  ultimately show "pcb_ok (pcbs k' a)" "get_pcb_address k' = get_pcb_address k"
    using assms(1) pcb_ok_upd_fd [OF assms(1), of ?i "opened ftype inode"]
    by (auto simp: fd_ok_opened pcb_ok_def)
qed

definition closed :: "file_desc \<Rightarrow> file_desc" where
  "closed = (\<lambda>d. d\<lparr>operationstable := None, fd_inode := 0, file_pos := 0,
     fd_flags := (fd_flags d)[0 := 0, 1 := 0, 2 := 0, 3 := 0]\<rparr>)"

lemma closed_flags: "fd_ok i d \<Longrightarrow> fd_flags (closed d) = [0, 0, 0, 0]"
  by (auto simp: fd_ok_def closed_def length_Suc_conv numeral_eq_Suc)

lemma handle_close_eq:
  "2 \<le> i \<Longrightarrow> i < 8 \<Longrightarrow> a \<noteq> 0 \<Longrightarrow> fd_array_handle_close (of_nat i) a k = (0, upd_pcb a (upd_fd i closed) k)"
  using sint_fd [of i] by (simp add: fd_array_handle_close_def closed_def)

lemma handle_close_ok:
  assumes "pcb_ok (pcbs k a)" "2 \<le> i" "i < 8"
  shows "pcb_ok (upd_fd i closed (pcbs k a))" "fd_flags (fd_array (upd_fd i closed (pcbs k a)) ! i) ! 0 = 0"
proof -
  have "fd_ok i (fd_array (pcbs k a) ! i)" "length (fd_array (pcbs k a)) = 8" using assms by (simp_all add: pcb_ok_def)
  note flags = closed_flags [OF this(1)] this(2)
  then have "fd_ok i (closed (fd_array (pcbs k a) ! i))" using assms(2) by (simp add: fd_ok_def)
  then show "pcb_ok (upd_fd i closed (pcbs k a))" by (rule pcb_ok_upd_fd [OF assms(1)])
  show "fd_flags (fd_array (upd_fd i closed (pcbs k a)) ! i) ! 0 = 0" using flags assms(3) by simp
qed

text \<open>[C27] Opening takes the lowest descriptor from 2 on that is free, starts it at position 0 with the
  table of the file's type and leaves the others alone; when all six are taken, or the type is none
  of the three, it refuses with -1 and changes nothing. Closing the descriptor it returned succeeds,
  frees it, and restores the free slots as they were.\<close>

theorem open_takes_lowest:
  assumes "pcb_ok (pcbs k a)" "a \<noteq> 0" "fd_array_handle_open a ftype inode k = (r, k')"
  shows "(ftype \<in> {0, 1, 2} \<and> (\<exists>i. 2 \<le> i \<and> i < 8 \<and> fd_flags (fd_array (pcbs k a) ! i) ! 0 = 0) \<longrightarrow>
      (\<exists>i. r = of_nat i \<and> 2 \<le> i \<and> i < 8 \<and> fd_flags (fd_array (pcbs k a) ! i) ! 0 = 0
        \<and> (\<forall>j. 2 \<le> j \<and> j < i \<longrightarrow> fd_flags (fd_array (pcbs k a) ! j) ! 0 \<noteq> 0)
        \<and> fd_array (pcbs k' a) ! i = opened ftype inode (fd_array (pcbs k a) ! i)
        \<and> (\<forall>j < 8. j \<noteq> i \<longrightarrow> fd_array (pcbs k' a) ! j = fd_array (pcbs k a) ! j)
        \<and> pcb_ok (pcbs k' a)
        \<and> (\<exists>k''. fd_array_handle_close r a k' = (0, k'') \<and> pcb_ok (pcbs k'' a) \<and>
            (\<forall>j < 8. (fd_flags (fd_array (pcbs k'' a) ! j) ! 0 = 0) = (fd_flags (fd_array (pcbs k a) ! j) ! 0 = 0)))))
    \<and> (ftype \<notin> {0, 1, 2} \<or> (\<forall>i. 2 \<le> i \<and> i < 8 \<longrightarrow> fd_flags (fd_array (pcbs k a) ! i) ! 0 \<noteq> 0) \<longrightarrow>
      r = -1 \<and> k' = k)"
proof (cases "ftype \<in> {0, 1, 2}")
  case False
  then have "fd_array_handle_open a ftype inode k = (-1, k)" by (simp add: fd_array_handle_open_def)
  then show ?thesis using assms(3) False by simp
next
  case True
  let ?p = "pcbs k a"
  define i where "i = find_fd (drop 2 (fd_array ?p)) 2"
  have len: "length (fd_array ?p) = 8" using assms(1) by (simp add: pcb_ok_def)
  note free = first_free [OF len, folded i_def]
  note eq = handle_open_eq [OF assms(2) True, of inode k, folded i_def, unfolded assms(3) Let_def]
  show ?thesis
  proof (cases "i < 8")
    case False
    then have "i = 8" using free(2) by simp
    then show ?thesis using eq free(3) by auto
  next
    case i: True
    then have r: "r = of_nat i" and k': "k' = upd_pcb a (upd_fd i (opened ftype inode)) k" using eq by auto
    have okd: "\<forall>j < 8. fd_ok j (fd_array ?p ! j)" using assms(1) by (simp add: pcb_ok_def)
    have ok': "pcb_ok (pcbs k' a)"
      using okd i free(1) by (simp add: k' pcb_ok_upd_fd [OF assms(1)] fd_ok_opened)
    define k'' where "k'' = upd_pcb a (upd_fd i closed) k'"
    have close: "fd_array_handle_close r a k' = (0, k'')"
      using handle_close_eq [OF free(1) i assms(2)] by (simp add: r k''_def)
    note c0 = handle_close_ok [OF ok' free(1) i]
    have ok'': "pcb_ok (pcbs k'' a)" using c0(1) by (simp add: k''_def)
    have "(fd_flags (fd_array (pcbs k'' a) ! j) ! 0 = 0) = (fd_flags (fd_array ?p ! j) ! 0 = 0)" if "j < 8" for j
      using that c0(2) free(4) [OF i] len i by (auto simp: k''_def k')
    then have "\<exists>k''. fd_array_handle_close r a k' = (0, k'') \<and> pcb_ok (pcbs k'' a) \<and>
        (\<forall>j < 8. (fd_flags (fd_array (pcbs k'' a) ! j) ! 0 = 0) = (fd_flags (fd_array ?p ! j) ! 0 = 0))"
      using close ok'' by blast
    moreover have "fd_array (pcbs k' a) ! i = opened ftype inode (fd_array ?p ! i)"
      "\<forall>j < 8. j \<noteq> i \<longrightarrow> fd_array (pcbs k' a) ! j = fd_array ?p ! j" using len i by (simp_all add: k')
    ultimately show ?thesis using True r i free ok' by blast
  qed
qed

text \<open>An example: a process with one open file, in the state of the keyboard's example.\<close>

definition example_fd :: "operations option \<Rightarrow> u8 \<Rightarrow> file_desc" where
  "example_fd t used = \<lparr>operationstable = t, fd_inode = 0, file_pos = 0, fd_flags = [used, 2, 0, 0]\<rparr>"

definition example_pcb :: "i32 \<Rightarrow> pcb" where
  "example_pcb pid = \<lparr>fd_array = [example_fd (Some stdin_table) 1, example_fd (Some stdout_table) 1,
     example_fd (Some filetable) 1, example_fd None 0, example_fd None 0, example_fd None 0,
     example_fd None 0, example_fd None 0], parent = 0, process_id = pid, parent_esp = 0, parent_ebp = 0,
     parent_process_id = 1, arg_size = 4, arg_arr = [97] @ replicate 127 0, status = 0\<rparr>"

definition example_kernel :: kernel where
  "example_kernel = keyboard.extend example_keyboard (kernel.fields example_fs
     (\<lambda>a. example_pcb ((0x800000 - a) div 0x2000 - 1)) 0x7FBF00 0x7FBF40 [1, 1, 1, 0, 0, 0] 0x18 0x7FE000)"

lemma example_kernel_simps [simp]:
  "paging example_kernel = example_run" "sched example_kernel = sched example_keyboard"
  "fs example_kernel = example_fs" "pcbs example_kernel = (\<lambda>a. example_pcb ((0x800000 - a) div 0x2000 - 1))"
  "esp example_kernel = 0x7FBF00" "ebp example_kernel = 0x7FBF40"
  "processes_running example_kernel = [1, 1, 1, 0, 0, 0]" "phys example_kernel = (\<lambda>_. 32)"
  by (simp_all add: example_kernel_def keyboard.defs kernel.defs example_keyboard_def)

lemma example_pcb_ok: "pcb_ok (example_pcb n)"
  by (simp add: pcb_ok_def example_pcb_def example_fd_def fd_ok_def nth_Cons')

lemma open_takes_lowest_witness:
  "\<exists>k'. fd_array_handle_open 0x7FA000 2 5 example_kernel = (3, k') \<and>
     fd_flags (fd_array (pcbs k' 0x7FA000) ! 3) = [1, 2, 0, 0]"
proof -
  obtain r k' where r: "fd_array_handle_open 0x7FA000 2 5 example_kernel = (r, k')" by fastforce
  let ?ds = "fd_array (example_pcb 2)"
  have ds: "fd_flags (?ds ! 2) ! 0 \<noteq> 0" "fd_flags (?ds ! 3) ! 0 = 0"
    by (simp_all add: example_pcb_def example_fd_def)
  then have "\<exists>i. 2 \<le> i \<and> i < 8 \<and> fd_flags (?ds ! i) ! 0 = 0" by (intro exI [of _ 3]) simp
  moreover have "pcb_ok (pcbs example_kernel 0x7FA000)" by (simp add: example_pcb_ok)
  ultimately obtain i where i: "r = of_nat i" "2 \<le> i" "i < 8" "fd_flags (?ds ! i) ! 0 = 0"
    "\<forall>j. 2 \<le> j \<and> j < i \<longrightarrow> fd_flags (?ds ! j) ! 0 \<noteq> 0"
    "fd_array (pcbs k' 0x7FA000) ! i = opened 2 5 (?ds ! i)"
    using open_takes_lowest [OF _ _ r] by auto
  have "i = 3"
  proof (rule ccontr)
    assume "i \<noteq> 3"
    then have "i = 2 \<or> 3 < i" using i(2) by auto
    then show False using i(4,5) ds by auto
  qed
  then show ?thesis using r i by (simp add: opened_def set_flag_def example_pcb_def example_fd_def)
qed

subsection \<open>The calls reach the operations\<close>

lemma fd_range: "0 \<le> sint fd \<Longrightarrow> sint fd \<le> 7 \<Longrightarrow> \<exists>i < 8. fd = of_nat i" for fd :: i32
  by (rule exI [of _ "nat (sint fd)"]) auto

lemma op_close_keeps: "t \<noteq> None \<Longrightarrow> \<exists>f. op_close t k = Some (k\<lparr>fs := f\<rparr>)"
  by (cases "(t, k)" rule: op_close.cases) (auto intro: exI [of _ "fs k"])

lemma sys_close_cases:
  assumes ok: "pcb_ok (pcbs k (get_pcb_address k))" and a: "get_pcb_address k \<noteq> 0"
  obtains "sys_close fd k = Some (-1, k)"
      "\<not> (2 \<le> sint fd \<and> sint fd \<le> 7 \<and> fd_flags (fd_array (pcbs k (get_pcb_address k)) ! unat fd) ! 0 \<noteq> 0)"
    | i f where "fd = of_nat i" "2 \<le> i" "i < 8" "operationstable (fd_array (pcbs k (get_pcb_address k)) ! i) \<noteq> None"
      "sys_close fd k = Some (0, upd_pcb (get_pcb_address k) (upd_fd i closed) (k\<lparr>fs := f\<rparr>))"
proof (cases "2 \<le> sint fd \<and> sint fd \<le> 7 \<and> fd_flags (fd_array (pcbs k (get_pcb_address k)) ! unat fd) ! 0 \<noteq> 0")
  case True
  let ?a = "get_pcb_address k"
  obtain i where i: "i < 8" "fd = of_nat i" using True fd_range [of fd] by auto
  then have "2 \<le> i" using True sint_fd [OF i(1)] by simp
  have un: "unat (of_nat i :: i32) = i" using i(1) by simp
  let ?t = "operationstable (fd_array (pcbs k ?a) ! i)"
  have "fd_ok i (fd_array (pcbs k ?a) ! i)" using ok i(1) by (simp add: pcb_ok_def)
  then have table: "?t \<noteq> None" using True \<open>2 \<le> i\<close> un unfolding fd_ok_def i(2) by auto
  then obtain f where "op_close ?t k = Some (k\<lparr>fs := f\<rparr>)" using op_close_keeps by blast
  then have "sys_close fd k = Some (0, upd_pcb ?a (upd_fd i closed) (k\<lparr>fs := f\<rparr>))"
    using True table un handle_close_eq [OF \<open>2 \<le> i\<close> i(1) a] by (simp add: sys_close_def i(2) Let_def)
  then show ?thesis using that(2) i \<open>2 \<le> i\<close> table by blast
next
  case False
  moreover from False have "sys_close fd k = Some (-1, k)" by (auto simp: sys_close_def Let_def)
  ultimately show ?thesis using that(1) by blast
qed

lemma op_open_keeps: "op_open env t name k = Some k' \<Longrightarrow> pcbs k' = pcbs k \<and> esp k' = esp k"
  by (cases "(env, t, name, k)" rule: op_open.cases) (auto simp: bind_eq_Some_conv)

lemma sys_open_cases:
  assumes "sys_open env name k = Some (r, k')"
  obtains "k' = k" | f where "k' = k\<lparr>fs := f\<rparr>"
    | f ft ino r0 k1 t nm where "fd_array_handle_open (get_pcb_address k) ft ino (k\<lparr>fs := f\<rparr>) = (r0, k1)"
        "k' = k1 \<or> op_open env t nm k1 = Some k'"
proof (cases "name = 0")
  case True
  then show ?thesis using assms that(1) by (simp add: sys_open_def)
next
  case False
  then obtain nm len where nm: "string_at name k = Some nm" "strlen nm = Some len"
    using assms by (auto simp: sys_open_def bind_eq_Some_conv)
  show ?thesis
  proof (cases "len = 0")
    case True
    then show ?thesis using assms False nm that(1) by (simp add: sys_open_def)
  next
    case len: False
    then obtain r1 e f where e: "read_dentry_by_name (vmem k) (Some nm) (Some (stack_dentry env)) (fs k) = Some (r1, e, f)"
      using assms False nm by (auto simp: sys_open_def bind_eq_Some_conv)
    then obtain d where "e = Some d" using assms False nm len by (cases e) (simp_all add: sys_open_def)
    note look = e [unfolded this]
    obtain r0 k1 where opened: "fd_array_handle_open (get_pcb_address k) (file_type d) (inode_num d) (k\<lparr>fs := f\<rparr>) = (r0, k1)"
      by fastforce
    have addr: "get_pcb_address (k\<lparr>fs := f\<rparr>) = get_pcb_address k" by (simp add: get_pcb_address_def)
    have "sys_open env name k = (if r1 = -1 then Some (-1, k\<lparr>fs := f\<rparr>) else if r0 = -1 then Some (-1, k1)
        else do { k' \<leftarrow> op_open env (operationstable (fd_array (pcbs k1 (get_pcb_address k)) ! unat r0)) nm k1;
                  Some (r0, k') })"
      using False nm len look opened by (simp add: sys_open_def addr Let_def)
    with assms consider "k' = k\<lparr>fs := f\<rparr>" | "k' = k1"
      | "op_open env (operationstable (fd_array (pcbs k1 (get_pcb_address k)) ! unat r0)) nm k1 = Some k'"
      by (auto simp: bind_eq_Some_conv split: if_splits)
    then show ?thesis using that(2) that(3) [OF opened] by cases auto
  qed
qed

subsection \<open>What the calls leave of the control block\<close>

text \<open>What follows the keyboard's fields in an extended state: no key press changes it.\<close>

lemma more_screen: "screen_change t k k' \<Longrightarrow> keyboard.more k' = keyboard.more k"
  by (auto simp: screen_change_def rescreen_def)

lemma more_terminal: "keyboard.more (upd_terminal t f k) = keyboard.more k"
  by (simp add: upd_terminal_def)

lemma more_switch: "keyboard.more (switch_visible t k) = keyboard.more k"
  by (simp add: switch_visible_def switch_terminals_def Let_def
      more_screen [OF screen_change_video(4) [OF screen_change_refl]])

lemmas more_screens = screen_change_putc [THEN more_screen] screen_change_backspace [THEN more_screen]
  screen_change_video(3,4) [OF screen_change_refl, THEN more_screen]

lemma more_position: "keyboard.more (setposition x y k) = keyboard.more k"
  by (simp add: setposition_def set_global_screen_x_def set_global_screen_y_def set_screen_x_def set_screen_y_def more_terminal)

lemma more_lines:
  "set_line_buffer k = Some k' \<Longrightarrow> keyboard.more k' = keyboard.more k"
  "set_global_buffer n k = Some k' \<Longrightarrow> keyboard.more k' = keyboard.more k"
  "set_terminal_buffer b n k = Some k' \<Longrightarrow> keyboard.more k' = keyboard.more k"
  "put_line n c k = Some k' \<Longrightarrow> keyboard.more k' = keyboard.more k"
  by (auto simp: set_line_buffer_def set_global_buffer_def set_terminal_buffer_def put_line_def Let_def more_terminal
      bind_eq_Some_conv split: if_splits)

lemma more_default_key: "default_key a junk n k = Some k' \<Longrightarrow> keyboard.more k' = keyboard.more k"
  by (auto simp: default_key_def Let_def clear_line_def more_screens more_position more_switch bind_eq_Some_conv
      dest!: more_lines split: if_splits prod.splits)


lemma more_handle_key: "handle_key a junk n k = Some k' \<Longrightarrow> keyboard.more k' = keyboard.more k"
  by (auto simp: handle_key_def Let_def clear_line_def set_key_def more_screens bind_eq_Some_conv
      dest!: more_lines more_default_key split: if_splits)

lemma more_check_input: "check_input a junk k = Some k' \<Longrightarrow> keyboard.more k' = keyboard.more k"
  by (auto simp: check_input_def Let_def more_position bind_eq_Some_conv dest!: more_lines more_handle_key split: if_splits)

text \<open>The same process runs and its control block has not changed.\<close>

definition block_kept :: "kernel \<Rightarrow> kernel \<Rightarrow> bool" where
  "block_kept k k' \<longleftrightarrow> esp k' = esp k \<and> pcbs k' (get_pcb_address k) = pcbs k (get_pcb_address k)"

lemma block_kept_refl: "block_kept k k"
  by (simp add: block_kept_def)

lemma block_kept_trans: "block_kept k k1 \<Longrightarrow> block_kept k1 k2 \<Longrightarrow> block_kept k k2"
  by (simp add: block_kept_def get_pcb_address_def)

lemma block_kept_more: "keyboard.more k' = keyboard.more k \<Longrightarrow> block_kept k k'" for k k' :: kernel
  by (cases k; cases k') (simp add: block_kept_def)

lemma more_putc_modified: "keyboard.more (putc_modified c k) = keyboard.more k"
  unfolding putc_modified_def putc_with_def scroll_with_def Let_def
  by (simp add: set_screen_x_def set_screen_y_def more_terminal screen_change_video(1,2) [OF screen_change_refl, THEN more_screen])

lemma more_write_bytes: "write_bytes buf i n k = Some k' \<Longrightarrow> keyboard.more k' = keyboard.more k"
  by (induction buf i n k rule: write_bytes.induct) (auto simp: bind_eq_Some_conv more_putc_modified)

text \<open>What the handlers do while a process waits for a key.\<close>

definition handlers_keep_block :: "environment \<Rightarrow> bool" where
  "handlers_keep_block env \<longleftrightarrow> (\<forall>i k k'. key_events env i k = Some k' \<longrightarrow> block_kept k k')"

lemma keys_keep_block: "(\<And>i. \<exists>a junk. key_events env i = check_input a junk) \<Longrightarrow> handlers_keep_block env"
  unfolding handlers_keep_block_def by (metis more_check_input block_kept_more)

lemma terminal_wait_block:
  "handlers_keep_block env \<Longrightarrow> terminal_wait n (key_events env) i t k = Some k' \<Longrightarrow> block_kept k k'"
proof (induction n "key_events env" i t k rule: terminal_wait.induct)
  case (2 n i t k)
  show ?case
  proof (cases "flags k ! t = 0")
    case True
    with 2(3) obtain k1 where k1: "key_events env i k = Some k1" "terminal_wait n (key_events env) (i + 1) t k1 = Some k'"
      by (auto simp: bind_eq_Some_conv)
    then have "block_kept k k1" using 2(2) by (simp add: handlers_keep_block_def)
    then show ?thesis using 2(1) [of k1] True k1 2(2) by (simp add: block_kept_trans [of k k1])
  next
    case False
    then show ?thesis using 2(3) by (simp add: block_kept_refl)
  qed
qed simp

lemma terminal_read_block:
  assumes "handlers_keep_block env" "terminal_read n (key_events env) fd buf nbytes k = Some (r, k')"
  shows "block_kept k k'"
proof -
  obtain k1 k2 k3 k4 where k: "user_write buf (replicate (unat nbytes) 0) k = Some k1"
    "terminal_wait n (key_events env) 0 (current_term (sched k)) k1 = Some k2"
    "user_write buf (take (nat (numberofchars k2 ! current_term (sched k))) (terminalbuffer k2 ! current_term (sched k))) k2 = Some k3"
    "user_store (buf + of_nat (nat (numberofchars k2 ! current_term (sched k)))) 10 k3 = Some k4"
    "keyboard.more k' = keyboard.more (update_cursor k4)"
    using assms(2) unfolding terminal_read_def Let_def get_current_terminal_def
    by (clarsimp simp: bind_eq_Some_conv split: if_splits)
  have "keyboard.more k4 = keyboard.more k3" using k(4) by (auto simp: user_store_def split: option.splits)
  then have more: "keyboard.more k1 = keyboard.more k" "keyboard.more k' = keyboard.more k2"
    using user_write_phys [OF k(1)] user_write_phys [OF k(3)] k(5) by (auto simp: more_screens)
  have "block_kept k k1" "block_kept k2 k'"
    using more by (simp_all add: block_kept_more)
  then show ?thesis using terminal_wait_block [OF assms(1) k(2)] block_kept_trans by blast
qed


text \<open>A read moves at most the position of its descriptor; a write changes nothing of the control block.\<close>

definition moved :: "i32 \<Rightarrow> kernel \<Rightarrow> kernel \<Rightarrow> bool" where
  "moved fd k k' \<longleftrightarrow> esp k' = esp k \<and> (\<exists>pos. pcbs k' (get_pcb_address k) =
     upd_fd (unat fd) (\<lambda>d. d\<lparr>file_pos := pos\<rparr>) (pcbs k (get_pcb_address k)))"

lemma block_kept_moved: "block_kept k k' \<Longrightarrow> moved fd k k'"
  unfolding block_kept_def moved_def
  by (intro conjI exI [of _ "file_pos (fd_array (pcbs k (get_pcb_address k)) ! unat fd)"]) (simp_all add: upd_fd_def)

lemma moved_upd:
  assumes "block_kept k k1"
  shows "moved fd k (upd_pcb (get_pcb_address k) (upd_fd (unat fd) (\<lambda>d. d\<lparr>file_pos := f (file_pos d)\<rparr>)) k1)"
proof -
  let ?p = "pcbs k (get_pcb_address k)"
  have "upd_fd (unat fd) (\<lambda>d. d\<lparr>file_pos := f (file_pos d)\<rparr>) ?p =
      upd_fd (unat fd) (\<lambda>d. d\<lparr>file_pos := f (file_pos (fd_array ?p ! unat fd))\<rparr>) ?p" by (simp add: upd_fd_def)
  then show ?thesis using assms unfolding moved_def block_kept_def by (auto intro!: exI)
qed

lemma block_kept_fs: "block_kept k (k\<lparr>fs := f\<rparr>)" "block_kept k (k\<lparr>phys := m\<rparr>)" "block_kept k (k\<lparr>dev := d\<rparr>)"
  "block_kept k (k\<lparr>fs := f, phys := m\<rparr>)"
  by (simp_all add: block_kept_def)

lemma fs_read_moved: "fs_read fd buf n k = Some (r, k') \<Longrightarrow> moved fd k k'"
  unfolding fs_read_def read_data_user_def Let_def
  by (auto simp: block_kept_moved block_kept_refl bind_eq_Some_conv split: if_splits prod.splits
      dest!: user_write_phys intro!: moved_upd block_kept_fs)

lemma dir_read_moved:
  assumes "dir_read env fd buf n k = Some (r, k')"
  shows "moved fd k k'"
proof -
  let ?p = "get_pcb_address k" and ?next = "upd_fd (unat fd) (\<lambda>d. d\<lparr>file_pos := file_pos d + 1\<rparr>)"
  have "k' = k \<or> (\<exists>r0 e f. read_dentry_by_index (vmem k) (file_pos (fd_array (pcbs k ?p) ! unat fd)) (Some (stack_dentry env))
      (fs k) = Some (r0, Some e, f) \<and> (k' = k\<lparr>fs := f\<rparr> \<or>
      (\<exists>bs k1. user_write buf bs (k\<lparr>fs := f\<rparr>) = Some k1 \<and> k' = upd_pcb ?p ?next k1)))"
  proof (cases "boot_block_addr (fs k) = 0 \<or> fd = 0 \<or> fd = 1 \<or> sint fd > 7 \<or> \<not> unat fd < length (fd_array (pcbs k ?p))")
    case True
    then show ?thesis using assms by (auto simp: dir_read_def Let_def split: if_splits)
  next
    case False
    then obtain r0 e f where look: "read_dentry_by_index (vmem k) (file_pos (fd_array (pcbs k ?p) ! unat fd))
        (Some (stack_dentry env)) (fs k) = Some (r0, e, f)"
      using assms by (auto simp: dir_read_def Let_def bind_eq_Some_conv)
    have "e \<noteq> None" using assms False look by (cases e) (simp_all add: dir_read_def Let_def)
    then obtain d where "e = Some d" by blast
    note look = look [unfolded this]
    have ends: "user_write buf [] (k\<lparr>fs := f\<rparr>) = Some (k\<lparr>fs := f\<rparr>)" by simp
    have "k' = k\<lparr>fs := f\<rparr> \<or> (\<exists>bs k1. user_write buf bs (k\<lparr>fs := f\<rparr>) = Some k1 \<and> k' = upd_pcb ?p ?next k1)"
    proof (cases "r0 = -1")
      case True
      then show ?thesis using assms False look by (simp add: dir_read_def Let_def)
    next
      case go: False
      show ?thesis
      proof (cases "sint n \<le> 0")
        case True
        then have "k' = upd_pcb ?p ?next (k\<lparr>fs := f\<rparr>)"
          using assms False look go by (auto simp: dir_read_def Let_def bind_eq_Some_conv)
        then show ?thesis using ends by blast
      next
        case pos: False
        then show ?thesis
          using assms False look go by (auto simp: dir_read_def Let_def bind_eq_Some_conv split: prod.split_asm)
      qed
    qed
    then show ?thesis using look by blast
  qed
  then show ?thesis
    by (auto simp: block_kept_moved block_kept_refl block_kept_fs dest!: user_write_phys intro!: moved_upd)
qed

lemma op_read_moved:
  assumes "handlers_keep_block env" "op_read env t fd buf n k = Some (r, k')"
  shows "moved fd k k'"
proof (cases "(env, t, fd, buf, n, k)" rule: op_read.cases)
  case 1
  then show ?thesis using assms(2) by (auto simp: bind_eq_Some_conv block_kept_fs intro: block_kept_moved)
next
  case 4
  then show ?thesis using assms terminal_read_block block_kept_moved by simp
qed (use assms(2) fs_read_moved dir_read_moved in auto)

lemma op_write_block: "op_write env t fd buf n k = Some (r, k') \<Longrightarrow> block_kept k k'"
proof (cases "(env, t, fd, buf, n, k)" rule: op_write.cases)
  case 5
  assume "op_write env t fd buf n k = Some (r, k')"
  with 5 show ?thesis
    by (auto simp: terminal_write_def bind_eq_Some_conv more_screens dest!: more_write_bytes intro!: block_kept_more)
qed (auto simp: bind_eq_Some_conv block_kept_refl block_kept_fs split: if_splits)

lemma moved_ok:
  assumes "moved fd k k'" "pcb_ok (pcbs k (get_pcb_address k))"
  shows "pcb_ok (pcbs k' (get_pcb_address k'))"
proof -
  have "fd_ok i d \<Longrightarrow> fd_ok i (d\<lparr>file_pos := pos\<rparr>)" for i d pos by (simp add: fd_ok_def)
  then have "pcb_ok (upd_fd i (\<lambda>d. d\<lparr>file_pos := pos\<rparr>) (pcbs k (get_pcb_address k)))" for i pos
    using assms(2) by (intro pcb_ok_upd_fd) (auto simp: pcb_ok_def)
  moreover have "get_pcb_address k' = get_pcb_address k" using assms(1) by (simp add: moved_def get_pcb_address_def)
  ultimately show ?thesis using assms(1) by (auto simp: moved_def)
qed

lemma sys_read_moved: "handlers_keep_block env \<Longrightarrow> sys_read env fd buf n k = Some (r, k') \<Longrightarrow> moved fd k k'"
  by (auto simp: sys_read_def Let_def block_kept_moved block_kept_refl split: if_splits dest: op_read_moved)

lemma sys_write_block: "sys_write env fd buf n k = Some (r, k') \<Longrightarrow> block_kept k k'"
  by (auto simp: sys_write_def Let_def block_kept_refl split: if_splits dest: op_write_block)


lemma sys_read_cases:
  assumes ok: "pcb_ok (pcbs k (get_pcb_address k))"
  shows "sys_read env fd buf nbytes k = Some (-1, k) \<or> (\<exists>t. operationstable (fd_array (pcbs k (get_pcb_address k)) ! unat fd) = Some t
    \<and> t \<noteq> stdout_table \<and> unat fd < 8 \<and> sys_read env fd buf nbytes k = op_read env (Some t) fd buf nbytes k)"
proof (cases "0 \<le> sint fd \<and> sint fd \<le> 7 \<and> buf \<noteq> 0 \<and> fd \<noteq> 1 \<and> fd_flags (fd_array (pcbs k (get_pcb_address k)) ! unat fd) ! 0 \<noteq> 0")
  case True
  let ?d = "\<lambda>i. fd_array (pcbs k (get_pcb_address k)) ! i"
  obtain i where i: "i < 8" "fd = of_nat i" using True fd_range by blast
  have un: "unat (of_nat i :: i32) = i" using i(1) by simp
  have "i \<noteq> 1" using True i by auto
  moreover have "fd_ok i (?d i)" using ok i(1) by (simp add: pcb_ok_def)
  ultimately obtain t where "operationstable (?d i) = Some t" "t \<noteq> stdout_table"
    using True i un unfolding fd_ok_def by (cases "i = 0") auto
  then show ?thesis using True i un sint_fd [OF i(1)] by (simp add: sys_read_def)
qed (auto simp: sys_read_def Let_def)

lemma sys_write_cases:
  assumes ok: "pcb_ok (pcbs k (get_pcb_address k))"
  shows "sys_write env fd buf nbytes k = Some (-1, k) \<or> (\<exists>t. operationstable (fd_array (pcbs k (get_pcb_address k)) ! unat fd) = Some t
    \<and> t \<noteq> stdin_table \<and> unat fd < 8 \<and> sys_write env fd buf nbytes k = op_write env (Some t) fd buf nbytes k)"
proof (cases "0 < sint fd \<and> sint fd \<le> 7 \<and> buf \<noteq> 0 \<and> fd_flags (fd_array (pcbs k (get_pcb_address k)) ! unat fd) ! 0 \<noteq> 0")
  case True
  let ?d = "\<lambda>i. fd_array (pcbs k (get_pcb_address k)) ! i"
  obtain i where i: "i < 8" "fd = of_nat i" using True fd_range [of fd] by auto
  have un: "unat (of_nat i :: i32) = i" using i(1) by simp
  have "i \<noteq> 0" using True i by (cases i) auto
  moreover have "fd_ok i (?d i)" using ok i(1) by (simp add: pcb_ok_def)
  ultimately obtain t where "operationstable (?d i) = Some t" "t \<noteq> stdin_table"
    using True i un unfolding fd_ok_def by (cases "i = 1") auto
  then show ?thesis using True i un sint_fd [OF i(1)] by (simp add: sys_write_def)
qed (auto simp: sys_write_def Let_def)

lemma sys_close_frees:
  assumes ok: "pcb_ok (pcbs k (get_pcb_address k))" and a: "get_pcb_address k \<noteq> 0"
  shows "sys_close fd k = Some (-1, k) \<or> (\<exists>k'. sys_close fd k = Some (0, k') \<and> pcb_ok (pcbs k' (get_pcb_address k'))
    \<and> 2 \<le> unat fd \<and> unat fd < 8 \<and> operationstable (fd_array (pcbs k (get_pcb_address k)) ! unat fd) \<noteq> None
    \<and> fd_flags (fd_array (pcbs k' (get_pcb_address k')) ! unat fd) ! 0 = 0)"
proof (rule sys_close_cases [OF ok a, of fd])
  let ?a = "get_pcb_address k"
  fix i f
  assume i: "fd = of_nat i" "2 \<le> i" "i < 8" "operationstable (fd_array (pcbs k ?a) ! i) \<noteq> None"
    "sys_close fd k = Some (0, upd_pcb ?a (upd_fd i closed) (k\<lparr>fs := f\<rparr>))"
  have "get_pcb_address (k\<lparr>fs := f\<rparr>) = ?a" "unat (of_nat i :: i32) = i" using i(3) by (simp_all add: get_pcb_address_def)
  then show ?thesis using handle_close_ok [OF ok i(2,3)] i by simp
qed simp

lemma sys_open_ok:
  assumes ok: "pcb_ok (pcbs k (get_pcb_address k))" and a: "get_pcb_address k \<noteq> 0" and run: "sys_open env name k = Some (r, k')"
  shows "pcb_ok (pcbs k' (get_pcb_address k'))"
proof -
  from run consider "k' = k" | f where "k' = k\<lparr>fs := f\<rparr>"
    | f ft ino r0 k1 t nm where "fd_array_handle_open (get_pcb_address k) ft ino (k\<lparr>fs := f\<rparr>) = (r0, k1)"
        "k' = k1 \<or> op_open env t nm k1 = Some k'" by (rule sys_open_cases)
  then show ?thesis
  proof cases
    case 2
    then show ?thesis using ok by (simp add: get_pcb_address_def)
  next
    case 3
    have "pcb_ok (pcbs (k\<lparr>fs := f\<rparr>) (get_pcb_address k))" using ok by simp
    from handle_open_ok [OF this a 3(1)] have k1: "pcb_ok (pcbs k1 (get_pcb_address k))" "get_pcb_address k1 = get_pcb_address k"
      by (simp_all add: get_pcb_address_def)
    moreover have "pcbs k' = pcbs k1" "get_pcb_address k' = get_pcb_address k1"
      using 3(2) op_open_keeps by (auto simp: get_pcb_address_def)
    ultimately show ?thesis by simp
  qed (use ok in simp)
qed

text \<open>[C26] The system calls on descriptors are safe for every descriptor number. \<open>read\<close> and \<open>write\<close> either refuse with -1
  and change nothing, or the descriptor is open and they call the entry of its table, which is not the null read entry
  of standard output nor the null write entry of standard input. Whatever a \<open>read\<close> returns, at most the position of its
  descriptor has changed in the control block, if the handlers that run while it waits leave the block alone, as every
  key press does; a \<open>write\<close> changes nothing of it. \<open>close\<close> always returns, and refuses without a change or frees the
  descriptor. All four keep the descriptor array well formed.\<close>

theorem descriptor_calls_safe:
  assumes ok: "pcb_ok (pcbs k (get_pcb_address k))" and a: "get_pcb_address k \<noteq> 0"
  defines "table \<equiv> \<lambda>fd. operationstable (fd_array (pcbs k (get_pcb_address k)) ! unat (fd :: i32))"
  shows "(sys_read env fd buf nbytes k = Some (-1, k) \<or>
      (\<exists>t. table fd = Some t \<and> t \<noteq> stdout_table \<and> unat fd < 8 \<and>
        sys_read env fd buf nbytes k = op_read env (Some t) fd buf nbytes k))
    \<and> (\<forall>r k'. handlers_keep_block env \<longrightarrow> sys_read env fd buf nbytes k = Some (r, k') \<longrightarrow>
        moved fd k k' \<and> pcb_ok (pcbs k' (get_pcb_address k')))
    \<and> ((\<forall>i. \<exists>code junk. key_events env i = check_input code junk) \<longrightarrow> handlers_keep_block env)
    \<and> (sys_write env fd buf nbytes k = Some (-1, k) \<or>
      (\<exists>t. table fd = Some t \<and> t \<noteq> stdin_table \<and> unat fd < 8 \<and>
        sys_write env fd buf nbytes k = op_write env (Some t) fd buf nbytes k))
    \<and> (\<forall>r k'. sys_write env fd buf nbytes k = Some (r, k') \<longrightarrow>
        block_kept k k' \<and> pcb_ok (pcbs k' (get_pcb_address k')))
    \<and> (sys_close fd k = Some (-1, k) \<or> (\<exists>k'. sys_close fd k = Some (0, k') \<and> pcb_ok (pcbs k' (get_pcb_address k'))
        \<and> 2 \<le> unat fd \<and> unat fd < 8 \<and> table fd \<noteq> None
        \<and> fd_flags (fd_array (pcbs k' (get_pcb_address k')) ! unat fd) ! 0 = 0))
    \<and> (\<forall>r k'. sys_open env name k = Some (r, k') \<longrightarrow> pcb_ok (pcbs k' (get_pcb_address k')))"
  unfolding table_def
proof (intro conjI allI impI)
  show "sys_read env fd buf nbytes k = Some (-1, k) \<or> (\<exists>t. operationstable (fd_array (pcbs k (get_pcb_address k)) ! unat fd) = Some t
      \<and> t \<noteq> stdout_table \<and> unat fd < 8 \<and> sys_read env fd buf nbytes k = op_read env (Some t) fd buf nbytes k)"
    by (rule sys_read_cases [OF ok])
  show "sys_write env fd buf nbytes k = Some (-1, k) \<or> (\<exists>t. operationstable (fd_array (pcbs k (get_pcb_address k)) ! unat fd) = Some t
      \<and> t \<noteq> stdin_table \<and> unat fd < 8 \<and> sys_write env fd buf nbytes k = op_write env (Some t) fd buf nbytes k)"
    by (rule sys_write_cases [OF ok])
  show "sys_close fd k = Some (-1, k) \<or> (\<exists>k'. sys_close fd k = Some (0, k') \<and> pcb_ok (pcbs k' (get_pcb_address k'))
      \<and> 2 \<le> unat fd \<and> unat fd < 8 \<and> operationstable (fd_array (pcbs k (get_pcb_address k)) ! unat fd) \<noteq> None
      \<and> fd_flags (fd_array (pcbs k' (get_pcb_address k')) ! unat fd) ! 0 = 0)"
    by (rule sys_close_frees [OF ok a])
  fix r k'
  show "moved fd k k'" "pcb_ok (pcbs k' (get_pcb_address k'))"
    if "handlers_keep_block env" "sys_read env fd buf nbytes k = Some (r, k')"
    using sys_read_moved [OF that] moved_ok [OF _ ok] by blast+
  show "block_kept k k'" "pcb_ok (pcbs k' (get_pcb_address k'))" if "sys_write env fd buf nbytes k = Some (r, k')"
    using sys_write_block [OF that] moved_ok [OF block_kept_moved ok] by blast+
  show "pcb_ok (pcbs k' (get_pcb_address k'))" if "sys_open env name k = Some (r, k')"
    by (rule sys_open_ok [OF ok a that])
qed (use keys_keep_block in blast)

text \<open>The example process reads a line from the keyboard, where Enter is pressed.\<close>

definition enter_environment :: "environment \<Rightarrow> environment" where
  "enter_environment env = env\<lparr>fuel := 2, key_events := (\<lambda>i. check_input ENTER 0)\<rparr>"

lemma example_enter: "\<exists>k'. sys_read (enter_environment env) 0 0x8048000 128 example_kernel = Some (1, k')"
proof -
  let ?ev = "\<lambda>i :: nat. check_input ENTER 0 :: kernel \<Rightarrow> kernel option"
  let ?k = "example_kernel\<lparr>phys := put_bytes (phys example_kernel) (user_pa 1 0x8048000) (replicate (unat (128 :: i32)) 0)\<rparr>"
  have fields: "flags ?k = [0, 0, 0]" "current_term (sched ?k) = 0" "visable_term (sched ?k) = 0"
    by (simp_all add: example_kernel_def example_keyboard_def keyboard.defs kernel.defs)
  have ok: "keyboard_ok ?k"
    using example_keyboard_ok
    by (simp add: keyboard_ok_def screens_ok_def displays_ok_def keys_ok_def key_is_def lines_ok_def screen_frame_def
        window_frame_def example_kernel_def example_keyboard_def keyboard.defs kernel.defs)
  have line: "line_of ?k 0 = []"
    by (simp add: line_of_def example_keyboard_def example_terminal_def)
  obtain k1 where k1: "check_input ENTER 0 ?k = Some k1" "keyboard_ok k1" "context_of k1 = context_of ?k"
    "delivered_to k1 0 = Some ([] @ [10])"
    using enter_delivers [OF ok _ fields(3)] unfolding line by auto
  then have "flags k1 ! 0 \<noteq> 0" by (auto simp: delivered_to_def split: if_splits)
  then have wait: "terminal_wait 2 ?ev 0 0 ?k = Some k1" using fields(1) k1(1) by (simp add: numeral_2_eq_2)
  have runs: "runs 1 example_kernel" using example_runs by (simp add: runs_def example_keyboard_def)
  then have runs1: "runs 1 k1"
    using k1(2,3) by (simp add: runs_def context_of_def keyboard_ok_def screens_ok_def displays_ok_def)
  have "user_buffer 0x8048000 (max (unat (128 :: i32)) (length ([] :: u8 list) + 1))" by (simp add: user_buffer_def)
  from line_taken [OF runs this _ wait runs1 _ _ k1(4), of 0] k1(2) fields(2)
  obtain k' where "terminal_read 2 ?ev 0 0x8048000 128 example_kernel = Some (1, k')" by (auto simp: keyboard_ok_def)
  then show ?thesis by (simp add: sys_read_def enter_environment_def example_pcb_def example_fd_def)
qed

lemma descriptor_calls_safe_witness:
  "\<forall>env. \<exists>k'. sys_read (enter_environment env) 0 0x8048000 128 example_kernel = Some (1, k') \<and>
     moved 0 example_kernel k' \<and> pcb_ok (pcbs k' (get_pcb_address k'))"
proof
  fix env
  obtain k' where k': "sys_read (enter_environment env) 0 0x8048000 128 example_kernel = Some (1, k')" using example_enter by blast
  have "pcb_ok (pcbs example_kernel (get_pcb_address example_kernel))" by (simp add: example_pcb_ok)
  moreover have "get_pcb_address example_kernel \<noteq> 0" by (simp add: get_pcb_address_def)
  moreover have "\<forall>i. \<exists>code junk. key_events (enter_environment env) i = check_input code junk"
    unfolding enter_environment_def by (auto intro!: exI)
  ultimately have "moved 0 example_kernel k' \<and> pcb_ok (pcbs k' (get_pcb_address k'))"
    using descriptor_calls_safe [of example_kernel "enter_environment env" 0 "0x8048000" 128] k' by blast
  with k' show "\<exists>k'. sys_read (enter_environment env) 0 0x8048000 128 example_kernel = Some (1, k') \<and>
     moved 0 example_kernel k' \<and> pcb_ok (pcbs k' (get_pcb_address k'))" by blast
qed

end
