(* ===== verification/FileReads.thy ===== *)
theory FileReads imports Process begin

text \<open>
  Reading files of the image into the memory of a process: what the buffer of \<open>fs_read\<close> (and of the
  loader) holds, and that the image itself stays as it is, so that successive reads give the file piece by
  piece. The image lies in the kernel's 4 MB page; user buffers lie in the window at 128 MB.
\<close>

subsection \<open>Files of the image\<close>

definition kernel_area :: "u32 \<Rightarrow> nat \<Rightarrow> bool" where
  "kernel_area a n \<longleftrightarrow> 0x400000 \<le> unat a \<and> unat a + n \<le> 0x800000"

definition file_size :: "mem \<Rightarrow> fs_state \<Rightarrow> u32 \<Rightarrow> nat" where
  "file_size m f inode = unat (load32 m (inode_at (boot_block_addr f) inode))"

definition data_start :: "mem \<Rightarrow> fs_state \<Rightarrow> u32" where
  "data_start m f = boot_block_addr f + 4096 + 4096 * load32 m (boot_block_addr f + 4)"

definition file_bytes :: "mem \<Rightarrow> fs_state \<Rightarrow> u32 \<Rightarrow> u8 list" where
  "file_bytes m f inode = map (file_byte m (inode_at (boot_block_addr f) inode) (data_start m f)) [0..<file_size m f inode]"

definition file_ok :: "mem \<Rightarrow> fs_state \<Rightarrow> u32 \<Rightarrow> bool" where
  "file_ok m f inode \<longleftrightarrow> boot_block_addr f \<noteq> 0 \<and> inode \<le> 64 \<and> file_size m f inode \<le> 1023 * 4096 \<and>
     kernel_area (boot_block_addr f) 64 \<and> kernel_area (inode_at (boot_block_addr f) inode) 4096 \<and>
     (\<forall>q < (file_size m f inode + 4095) div 4096.
        kernel_area (block_at m (inode_at (boot_block_addr f) inode) (data_start m f) q) 4096)"

lemma length_file_bytes [simp]: "length (file_bytes m f inode) = file_size m f inode"
  by (simp add: file_bytes_def)

lemma file_read_counts [simp]:
  "file_size m (read_counts m' f) = file_size m f" "data_start m (read_counts m' f) = data_start m f"
  "file_bytes m (read_counts m' f) = file_bytes m f" "file_ok m (read_counts m' f) = file_ok m f"
  by (simp_all add: file_size_def data_start_def file_bytes_def file_ok_def fun_eq_iff)

text \<open>The file depends on the image only: its counts, the inode and the data blocks.\<close>

definition in_image :: "mem \<Rightarrow> fs_state \<Rightarrow> u32 \<Rightarrow> u32 \<Rightarrow> bool" where
  "in_image m f inode a \<longleftrightarrow> in_region (boot_block_addr f) 64 a \<or> in_region (inode_at (boot_block_addr f) inode) 4096 a \<or>
     (\<exists>q < (file_size m f inode + 4095) div 4096.
        in_region (block_at m (inode_at (boot_block_addr f) inode) (data_start m f) q) 4096 a)"

definition same_image :: "mem \<Rightarrow> mem \<Rightarrow> fs_state \<Rightarrow> u32 \<Rightarrow> bool" where
  "same_image m m' f inode \<longleftrightarrow> (\<forall>a. in_image m f inode a \<longrightarrow> m' a = m a)"

definition same_kernel :: "mem \<Rightarrow> mem \<Rightarrow> bool" where
  "same_kernel m m' \<longleftrightarrow> (\<forall>a. 0x400000 \<le> unat a \<and> unat a < 0x800000 \<longrightarrow> m' a = m a)"

lemma kernel_area_in: "kernel_area a n \<Longrightarrow> in_region a n x \<Longrightarrow> 0x400000 \<le> unat x \<and> unat x < 0x800000"
  using in_region_interval [of a n x] by (simp add: kernel_area_def)

lemma in_image_kernel: "file_ok m f inode \<Longrightarrow> in_image m f inode a \<Longrightarrow> 0x400000 \<le> unat a \<and> unat a < 0x800000"
  unfolding file_ok_def in_image_def using kernel_area_in by blast

lemma same_kernel_image: "same_kernel m m' \<Longrightarrow> file_ok m f inode \<Longrightarrow> same_image m m' f inode"
  using in_image_kernel unfolding same_kernel_def same_image_def by blast

lemma file_kept_image:
  assumes "same_image m m' f inode" "file_ok m f inode"
  shows "file_size m' f inode = file_size m f inode" "file_bytes m' f inode = file_bytes m f inode"
    "file_ok m' f inode" "in_image m' f inode = in_image m f inode"
proof -
  let ?i = "inode_at (boot_block_addr f) inode" and ?blocks = "(file_size m f inode + 4095) div 4096"
  note ok = assms(2) [unfolded file_ok_def]
  have load: "load32 m' (p + of_nat j) = load32 m (p + of_nat j)"
    if "\<And>x. in_region p n x \<Longrightarrow> in_image m f inode x" "j + 4 \<le> n" "n \<le> 4096" for p n j
    using that assms(1) by (intro load32_cong_region [where n = n]) (auto simp: same_image_def unat_of_nat_u32)
  have load_i: "load32 m' (?i + of_nat j) = load32 m (?i + of_nat j)" if "j + 4 \<le> 4096" for j
    by (rule load [OF _ that]) (simp_all add: in_image_def)
  show size: "file_size m' f inode = file_size m f inode"
    using load_i [of 0] by (simp add: file_size_def)
  have "load32 m' (boot_block_addr f + of_nat 4) = load32 m (boot_block_addr f + of_nat 4)"
    by (rule load [of _ 64]) (simp_all add: in_image_def)
  then have start: "data_start m' f = data_start m f" by (simp add: data_start_def)
  have block: "block_at m' ?i (data_start m f) q = block_at m ?i (data_start m f) q" if "q < 1023" for q
    using load_i [of "4 + 4 * q"] that by (simp add: block_at_def add.assoc)
  have q: "q < 1023" if "q < ?blocks" for q using that ok by linarith
  show "file_ok m' f inode" using ok block q by (simp add: file_ok_def size start)
  show "in_image m' f inode = in_image m f inode"
    unfolding in_image_def size start using block q by (simp add: fun_eq_iff cong: conj_cong)
  show "file_bytes m' f inode = file_bytes m f inode"
    unfolding file_bytes_def size start
  proof (rule map_cong [OF refl])
    fix j assume "j \<in> set [0..<file_size m f inode]"
    then have j: "j div 4096 < ?blocks" by simp
    have "in_region (block_at m ?i (data_start m f) (j div 4096)) 4096
        (block_at m ?i (data_start m f) (j div 4096) + of_nat (j mod 4096))"
      by (rule in_region_offset) (simp add: unat_of_nat_u32 less_trans [OF mod_less_divisor])
    then have "in_image m f inode (block_at m ?i (data_start m f) (j div 4096) + of_nat (j mod 4096))"
      unfolding in_image_def using j by blast
    then show "file_byte m' ?i (data_start m f) j = file_byte m ?i (data_start m f) j"
      using assms(1) by (simp add: same_image_def file_byte_def block [OF q [OF j]])
  qed
qed

lemma file_kept:
  assumes "same_kernel m m'" "file_ok m f inode"
  shows "file_size m' f inode = file_size m f inode" "file_bytes m' f inode = file_bytes m f inode"
    "file_ok m' f inode"
  using file_kept_image [OF same_kernel_image [OF assms] assms(2)] by blast+

subsection \<open>Reading into the window\<close>

lemma user_pa_range:
  assumes "p < 6" "user_buffer va n" "i < n"
  shows "0x800000 \<le> unat (user_pa p va + of_nat i)"
proof -
  have va: "unat (va - 0x8000000) = unat va - 0x8000000"
    using assms(2,3) by (simp add: user_buffer_def unat_sub word_le_nat_alt)
  have small: "unat va - 0x8000000 + i < 0x400000" using assms(2,3) unfolding user_buffer_def by linarith
  have "(0x800000 + 0x400000 * of_nat p :: u32) = of_nat (0x800000 + 0x400000 * p)" by simp
  then have "user_pa p va = of_nat (0x800000 + 0x400000 * p + (unat va - 0x8000000))"
    unfolding user_pa_def va [symmetric] by simp
  then have "user_pa p va + of_nat i = of_nat (0x800000 + 0x400000 * p + (unat va - 0x8000000) + i)" by simp
  moreover have "unat (of_nat (0x800000 + 0x400000 * p + (unat va - 0x8000000) + i) :: u32) =
      0x800000 + 0x400000 * p + (unat va - 0x8000000) + i"
    by (rule unat_of_nat_u32) (use assms(1) small in simp)
  ultimately show ?thesis by simp
qed

lemma vmem_kernel: "tables_ok (paging k) \<Longrightarrow> 0x400000 \<le> unat a \<Longrightarrow> unat a < 0x800000 \<Longrightarrow> vmem k a = phys k a"
  using xlate_kernel [of "paging k" a] by (simp add: vmem_def pde_index_range)

lemma same_kernel_user:
  assumes "runs p k" "user_buffer va (length bs)"
  shows "same_kernel (vmem k) (vmem (k\<lparr>fs := f, phys := put_bytes (phys k) (user_pa p va) bs\<rparr>))"
  unfolding same_kernel_def
proof (intro allI impI)
  fix a :: u32
  assume a: "0x400000 \<le> unat a \<and> unat a < 0x800000"
  have "\<not> in_region (user_pa p va) (length bs) a"
  proof
    assume "in_region (user_pa p va) (length bs) a"
    then have "unat (a - user_pa p va) < length bs" by (simp add: in_region_def)
    from user_pa_range [OF _ assms(2) this, of p] assms(1) a show False by (simp add: runs_def)
  qed
  moreover have "tables_ok (paging k)" using assms(1) by (simp add: runs_def)
  ultimately show "vmem (k\<lparr>fs := f, phys := put_bytes (phys k) (user_pa p va) bs\<rparr>) a = vmem k a"
    using a by (simp add: vmem_kernel put_bytes_outside)
qed

lemma window_apart:
  assumes "user_buffer buf n" "kernel_area a m"
  shows "apart buf n a m"
  using assms by (intro apart_intervals) (simp_all add: user_buffer_def kernel_area_def)

text \<open>The bytes \<open>read_data\<close> puts into a buffer apart from the image.\<close>

lemma read_data_user_bytes:
  assumes ok: "file_ok (vmem k) (fs k) inode" and buf: "buf \<noteq> 0"
    and apart: "\<And>a. in_region buf n a \<Longrightarrow> \<not> in_image (vmem k) (fs k) inode a"
    and n: "n = min (unat len) (file_size (vmem k) (fs k) inode - unat offset)"
      "unat offset \<le> file_size (vmem k) (fs k) inode" "len \<noteq> 0"
  shows "read_data_user inode offset buf len k = map_option (Pair (of_nat n))
      (user_write buf (take n (drop (unat offset) (file_bytes (vmem k) (fs k) inode))) (k\<lparr>fs := read_counts (vmem k) (fs k)\<rparr>))"
proof -
  let ?m = "vmem k" and ?i = "inode_at (boot_block_addr (fs k)) inode" and ?d = "data_start (vmem k) (fs k)"
  note ok = ok [unfolded file_ok_def]
  have "buffer_apart ?m ?i ?d buf n ((unat (load32 ?m ?i) + 4095) div 4096)"
    unfolding buffer_apart_def file_size_def [symmetric] apart_def using apart unfolding in_image_def by blast
  from read_data_filled [OF _ buf n(3) _ refl _ _ _ data_start_def this]
  have read: "read_data ?m (fs k) inode offset buf len =
      (of_nat n, filled ?m ?i ?d buf (unat offset) n, read_counts ?m (fs k))"
    using ok n by (simp add: file_size_def)
  have small: "n \<le> 1023 * 4096" using n(1) ok by linarith
  then have un: "unat (of_nat n :: u32) = n" by (intro unat_of_nat_u32) simp
  have "unat (- 1 :: u32) = 4294967295" by (simp add: unsigned_minus_1_eq_mask mask_eq_exp_minus_1)
  then have "(of_nat n :: u32) = -1 \<Longrightarrow> n = 4294967295" using un by metis
  then have ret: "(of_nat n :: u32) \<noteq> -1" using small by fastforce
  have bytes: "map (\<lambda>i. filled ?m ?i ?d buf (unat offset) n (buf + of_nat i)) [0..<n] =
      take n (drop (unat offset) (file_bytes ?m (fs k) inode))"
    using n small by (intro nth_equalityI) (auto simp: file_bytes_def filled_def in_region_def unat_of_nat_u32)
  show ?thesis using read ret un bytes by (simp add: read_data_user_def Let_def)
qed

lemma read_data_user_file:
  assumes k: "runs p k" "file_ok (vmem k) (fs k) inode" "user_buffer buf n"
    and n: "n = min (unat len) (file_size (vmem k) (fs k) inode - unat offset)"
      "unat offset \<le> file_size (vmem k) (fs k) inode" "len \<noteq> 0"
  shows "read_data_user inode offset buf len k = Some (of_nat n, k\<lparr>fs := read_counts (vmem k) (fs k),
      phys := put_bytes (phys k) (user_pa p buf) (take n (drop (unat offset) (file_bytes (vmem k) (fs k) inode)))\<rparr>)"
proof -
  have buf: "buf \<noteq> 0" using k(3) by (auto simp: user_buffer_def)
  have apart: "\<not> in_image (vmem k) (fs k) inode a" if "in_region buf n a" for a
    using that in_image_kernel [OF k(2), of a] k(3) in_region_interval [of buf n a] by (auto simp: user_buffer_def)
  have "runs p (k\<lparr>fs := read_counts (vmem k) (fs k)\<rparr>)" using k(1) by (simp add: runs_def)
  from user_write_bytes [OF this, of buf "take n (drop (unat offset) (file_bytes (vmem k) (fs k) inode))"]
  have "user_write buf (take n (drop (unat offset) (file_bytes (vmem k) (fs k) inode))) (k\<lparr>fs := read_counts (vmem k) (fs k)\<rparr>) =
      Some (k\<lparr>fs := read_counts (vmem k) (fs k),
        phys := put_bytes (phys k) (user_pa p buf) (take n (drop (unat offset) (file_bytes (vmem k) (fs k) inode)))\<rparr>)"
    using k(3) n(1) by (simp add: min_def split: if_splits)
  then show ?thesis using read_data_user_bytes [OF k(2) buf apart n] by simp
qed

lemma same_kernel_load32:
  assumes "same_kernel m m'" "kernel_area a n" "i + 4 \<le> n"
  shows "load32 m' (a + of_nat i) = load32 m (a + of_nat i)"
  using assms kernel_area_in [OF assms(2)]
  by (intro load32_cong_region [where n = n]) (auto simp: same_kernel_def kernel_area_def unat_of_nat_u32)

text \<open>A buffer on the kernel's stack.\<close>

lemma user_write_kernel:
  assumes "tables_ok (paging k)" "kernel_area a (length bs)"
  shows "user_write a bs k = Some (k\<lparr>phys := put_bytes (phys k) a bs\<rparr>)"
  using assms
proof (induction bs arbitrary: a k)
  case Nil
  then show ?case by simp
next
  case (Cons b bs)
  let ?k = "k\<lparr>phys := (phys k)(a := b)\<rparr>"
  have range: "0x400000 \<le> unat a" "unat a < 0x800000" "unat (a + 1) = unat a + 1"
    using Cons.prems(2) unat_add_small [of a 1] by (simp_all add: kernel_area_def)
  have store: "user_store a b k = Some ?k"
    using xlate_kernel [OF Cons.prems(1)] range by (simp add: user_store_def pde_index_range)
  have "bs \<noteq> [] \<Longrightarrow> kernel_area (a + 1) (length bs)" using Cons.prems(2) range by (simp add: kernel_area_def)
  moreover have "tables_ok (paging ?k)" using Cons.prems(1) by simp
  ultimately have "bs \<noteq> [] \<Longrightarrow> user_write (a + 1) bs ?k = Some (?k\<lparr>phys := put_bytes (phys ?k) (a + 1) bs\<rparr>)"
    using Cons.IH by blast
  then have "user_write (a + 1) bs ?k = Some (?k\<lparr>phys := put_bytes (phys ?k) (a + 1) bs\<rparr>)"
    by (cases "bs = []") simp_all
  moreover have "length bs < 4294967295" using Cons.prems(2) by (simp add: kernel_area_def)
  ultimately show ?case using store by (simp add: put_bytes_step)
qed

lemma read_data_user_kernel:
  assumes k: "tables_ok (paging k)" "file_ok (vmem k) (fs k) inode" "kernel_area buf n"
    and apart: "\<And>a. in_region buf n a \<Longrightarrow> \<not> in_image (vmem k) (fs k) inode a"
    and n: "n = min (unat len) (file_size (vmem k) (fs k) inode - unat offset)"
      "unat offset \<le> file_size (vmem k) (fs k) inode" "len \<noteq> 0"
  obtains k' where "read_data_user inode offset buf len k = Some (of_nat n, k')"
    "k' = k\<lparr>fs := read_counts (vmem k) (fs k), phys := put_bytes (phys k) buf
       (take n (drop (unat offset) (file_bytes (vmem k) (fs k) inode)))\<rparr>"
    "same_image (vmem k) (vmem k') (fs k) inode"
    "\<forall>i < n. vmem k' (buf + of_nat i) = file_bytes (vmem k) (fs k) inode ! (unat offset + i)"
    "\<forall>a. 0x400000 \<le> unat a \<and> unat a < 0x800000 \<and> \<not> in_region buf n a \<longrightarrow> vmem k' a = vmem k a"
proof -
  let ?bs = "take n (drop (unat offset) (file_bytes (vmem k) (fs k) inode))"
  have len: "length ?bs = n" using n by simp
  have buf: "buf \<noteq> 0" using k(3) by (auto simp: kernel_area_def)
  define k' where "k' = k\<lparr>fs := read_counts (vmem k) (fs k), phys := put_bytes (phys k) buf ?bs\<rparr>"
  have t: "tables_ok (paging (k\<lparr>fs := read_counts (vmem k) (fs k)\<rparr>))" "tables_ok (paging k')" using k(1) by (simp_all add: k'_def)
  have "user_write buf ?bs (k\<lparr>fs := read_counts (vmem k) (fs k)\<rparr>) = Some k'"
    using user_write_kernel [OF t(1), of buf ?bs] k(3) len by (simp add: k'_def)
  then have run: "read_data_user inode offset buf len k = Some (of_nat n, k')"
    using read_data_user_bytes [OF k(2) buf apart n] by simp
  have other: "vmem k' a = vmem k a" if "0x400000 \<le> unat a" "unat a < 0x800000" "\<not> in_region buf n a" for a
    using that len vmem_kernel [OF t(2), of a] vmem_kernel [OF k(1), of a] put_bytes_outside [of buf ?bs a]
    by (simp add: k'_def)
  moreover have "same_image (vmem k) (vmem k') (fs k) inode"
    unfolding same_image_def using other in_image_kernel [OF k(2)] apart by blast
  moreover have "vmem k' (buf + of_nat i) = file_bytes (vmem k) (fs k) inode ! (unat offset + i)" if "i < n" for i
  proof -
    have "unat (buf + of_nat i) = unat buf + i" "n < 4294967296" "unat buf + i < 0x800000"
      using k(3) that unat_add_small [of buf "of_nat i"] by (simp_all add: kernel_area_def)
    then show ?thesis
      using k(3) that len n(1,2) vmem_kernel [OF t(2), of "buf + of_nat i"] put_bytes_at [of i ?bs "phys k" buf]
      by (simp add: kernel_area_def k'_def)
  qed
  ultimately show thesis using that [OF run k'_def] by blast
qed

subsection \<open>\<open>fs_read\<close>\<close>

text \<open>Descriptor \<open>fd\<close> of the running process is open on a file of the image, at a position inside it.\<close>

definition reading :: "kernel \<Rightarrow> nat \<Rightarrow> u32 \<Rightarrow> nat \<Rightarrow> bool" where
  "reading k fd inode pos \<longleftrightarrow> (let p = pcbs k (get_pcb_address k); d = fd_array p ! fd in
     get_pcb_address k \<noteq> 0 \<and> fd < length (fd_array p) \<and> fd_flags d ! 1 = 2 \<and> fd_inode d = inode \<and>
     file_ok (vmem k) (fs k) inode \<and> unat (file_pos d) = pos \<and> pos \<le> file_size (vmem k) (fs k) inode)"

definition advanced :: "nat \<Rightarrow> nat \<Rightarrow> file_desc \<Rightarrow> file_desc" where
  "advanced fd n = (\<lambda>d. d\<lparr>file_pos := file_pos d + of_nat n\<rparr>)"

lemma fs_read_run:
  assumes "runs p k" "reading k fd inode pos" "fd < 8" "user_buffer buf n" "0 < sint nbytes"
    and n: "n = min (unat nbytes) (file_size (vmem k) (fs k) inode - pos)"
  defines "k1 \<equiv> (if pos < file_size (vmem k) (fs k) inode
     then k\<lparr>fs := read_counts (vmem k) (fs k), phys := put_bytes (phys k) (user_pa p buf)
       (take n (drop pos (file_bytes (vmem k) (fs k) inode)))\<rparr> else k)"
  shows "fs_read (of_nat fd) buf nbytes k = Some (of_nat n,
      if pos < file_size (vmem k) (fs k) inode
      then upd_pcb (get_pcb_address k) (upd_fd fd (advanced fd n)) k1 else k)"
proof -
  let ?d = "fd_array (pcbs k (get_pcb_address k)) ! fd"
  note r = assms(2) [unfolded reading_def Let_def]
  have buf: "buf \<noteq> 0" and nb: "nbytes \<noteq> 0" using assms(4,5) by (auto simp: user_buffer_def)
  have fd: "unat (of_nat fd :: i32) = fd" using assms(3) by simp
  have ok: "file_ok (vmem k) (fs k) inode" and pos: "pos \<le> file_size (vmem k) (fs k) inode"
    "unat (file_pos ?d) = pos" "fd_inode ?d = inode" using r by blast+
  let ?s = "get_filesize (vmem k) (fs k) (fd_inode ?d)"
  have size: "unat ?s = file_size (vmem k) (fs k) inode" "file_size (vmem k) (fs k) inode \<le> 1023 * 4096"
    using ok pos(3) leD [of inode 64] by (auto simp: file_ok_def get_filesize_def file_size_def inode_at_def)
  have sint: "sint w = int (unat w)" if "unat w \<le> 1023 * 4096" for w :: u32
    using sint_of_nat_u32 [of "unat w"] that by simp
  have sints: "sint (file_pos ?d) = int pos" "sint ?s = int (file_size (vmem k) (fs k) inode)"
    using sint [of "file_pos ?d"] sint [of ?s] size pos by (metis le_trans)+
  note guards = r buf nb fd sints fs_read_def Let_def
  show ?thesis
  proof (cases "pos < file_size (vmem k) (fs k) inode")
    case False
    then have "n = 0" using n by simp
    then show ?thesis using False guards by simp
  next
    case True
    have "read_data_user inode (file_pos ?d) buf nbytes k = Some (of_nat n, k1)"
      using read_data_user_file [OF assms(1) ok assms(4), of nbytes "file_pos ?d"] n pos nb True
      by (simp add: k1_def)
    then show ?thesis using True guards by (simp add: advanced_def)
  qed
qed

lemma advanced_simps [simp]:
  "fd_flags (advanced fd n d) = fd_flags d" "fd_inode (advanced fd n d) = fd_inode d"
  "file_pos (advanced fd n d) = file_pos d + of_nat n" "operationstable (advanced fd n d) = operationstable d"
  by (simp_all add: advanced_def)

lemma fs_read_effect:
  assumes "runs p k" "reading k fd inode pos" "fd < 8" "user_buffer buf n" "0 < sint nbytes"
    and n: "n = min (unat nbytes) (file_size (vmem k) (fs k) inode - pos)"
  obtains k' where "fs_read (of_nat fd) buf nbytes k = Some (of_nat n, k')"
    "runs p k'" "reading k' fd inode (pos + n)"
    "file_bytes (vmem k') (fs k') inode = file_bytes (vmem k) (fs k) inode"
    "\<forall>i < n. user_load (buf + of_nat i) k' = Some (file_bytes (vmem k) (fs k) inode ! (pos + i))"
    "\<forall>a. \<not> in_region (user_pa p buf) n a \<longrightarrow> phys k' a = phys k a"
    "get_pcb_address k' = get_pcb_address k" "sched k' = sched k" "paging k' = paging k"
    "\<forall>j < length (fd_array (pcbs k (get_pcb_address k))).
       fd_flags (fd_array (pcbs k' (get_pcb_address k)) ! j) = fd_flags (fd_array (pcbs k (get_pcb_address k)) ! j) \<and>
       operationstable (fd_array (pcbs k' (get_pcb_address k)) ! j) =
         operationstable (fd_array (pcbs k (get_pcb_address k)) ! j)"
proof -
  let ?file = "file_bytes (vmem k) (fs k) inode" and ?a = "get_pcb_address k"
  note r = assms(2) [unfolded reading_def Let_def]
  have pos: "pos \<le> file_size (vmem k) (fs k) inode" using r by blast
  show thesis
  proof (cases "pos < file_size (vmem k) (fs k) inode")
    case False
    then have "n = 0" using n by simp
    have "fs_read (of_nat fd) buf nbytes k = Some (of_nat n, k)"
      using fs_read_run [OF assms] False by simp
    then show thesis using that [of k] assms(1,2) \<open>n = 0\<close> by simp
  next
    case True
    let ?bs = "take n (drop pos ?file)"
    have len: "length ?bs = n" using n by simp
    define k1 where "k1 = k\<lparr>fs := read_counts (vmem k) (fs k), phys := put_bytes (phys k) (user_pa p buf) ?bs\<rparr>"
    define k' where "k' = upd_pcb ?a (upd_fd fd (advanced fd n)) k1"
    have run: "fs_read (of_nat fd) buf nbytes k = Some (of_nat n, k')"
      using fs_read_run [OF assms] True by (simp add: k'_def k1_def)
    have "same_kernel (vmem k) (vmem k1)"
      unfolding k1_def by (rule same_kernel_user [OF assms(1)]) (use assms(4) len in simp)
    moreover have "vmem k' = vmem k1" by (simp only: k'_def vmem_def upd_pcb_simps)
    ultimately have same: "same_kernel (vmem k) (vmem k')" by simp
    have fs': "fs k' = read_counts (vmem k) (fs k)" by (simp add: k'_def k1_def)
    have ok: "file_ok (vmem k) (fs k) inode" using r by blast
    note kept = file_kept [OF same ok]
    have a': "get_pcb_address k' = ?a" by (simp add: k'_def k1_def get_pcb_address_def)
    have small: "pos + n \<le> file_size (vmem k) (fs k) inode" "file_size (vmem k) (fs k) inode \<le> 1023 * 4096"
      using n pos ok by (simp_all add: file_ok_def)
    let ?d = "fd_array (pcbs k ?a) ! fd"
    have p: "pcbs k' ?a = upd_fd fd (advanced fd n) (pcbs k ?a)" by (simp add: k'_def k1_def)
    have "unat (file_pos ?d + of_nat n) = pos + n"
      using r small unat_add_small [of "file_pos ?d" "of_nat n"] by (simp add: unat_of_nat_u32)
    then have "reading k' fd inode (pos + n)"
      using r kept small by (simp add: reading_def a' p fs' Let_def)
    moreover have "runs p k'" using assms(1) by (simp add: runs_def k'_def k1_def)
    moreover have "user_load (buf + of_nat i) k' = Some (?file ! (pos + i))" if "i < n" for i
    proof -
      have "n \<le> 1023 * 4096" using small by linarith
      then have "put_bytes (phys k) (user_pa p buf) ?bs (user_pa p buf + of_nat i) = ?bs ! i"
        using that len by (intro put_bytes_at) simp_all
      then show ?thesis
        using xlate_window [OF assms(1,4) that] that n pos by (simp add: user_load_def k'_def k1_def)
    qed
    moreover have "phys k' a = phys k a" if "\<not> in_region (user_pa p buf) n a" for a
      using put_bytes_outside [of "user_pa p buf" ?bs a] that len by (simp add: k'_def k1_def)
    moreover have "\<forall>j < length (fd_array (pcbs k ?a)).
       fd_flags (fd_array (pcbs k' ?a) ! j) = fd_flags (fd_array (pcbs k ?a) ! j) \<and>
       operationstable (fd_array (pcbs k' ?a) ! j) = operationstable (fd_array (pcbs k ?a) ! j)"
      by (simp add: p)
    moreover have "sched k' = sched k" "paging k' = paging k" by (simp_all add: k'_def k1_def)
    moreover have "file_bytes (vmem k') (fs k') inode = ?file" using kept by (simp add: fs')
    ultimately show thesis using that [OF run] a' by blast
  qed
qed

text \<open>[C14] \<open>fs_read\<close> reads on from where the last read stopped: with the descriptor at \<open>pos\<close> of a file of
  the image and a buffer in the window, it returns the number of bytes asked for or left, the buffer
  holds exactly those bytes of the file and nothing else of memory changes, the position is after them and
  the file is what it was, so the next read goes on there. At the end of the file it returns 0. (The comment in
  the source promises 0 for every read that succeeds.)\<close>

theorem fs_read_sequential:
  assumes "runs p k" "reading k fd inode pos" "fd < 8" "user_buffer buf n" "0 < sint nbytes"
    and "n = min (unat nbytes) (file_size (vmem k) (fs k) inode - pos)"
  shows "\<exists>k'. fs_read (of_nat fd) buf nbytes k = Some (of_nat n, k') \<and> runs p k' \<and> reading k' fd inode (pos + n) \<and>
    file_bytes (vmem k') (fs k') inode = file_bytes (vmem k) (fs k) inode \<and>
    (\<forall>i < n. user_load (buf + of_nat i) k' = Some (file_bytes (vmem k) (fs k) inode ! (pos + i))) \<and>
    (\<forall>a. \<not> in_region (user_pa p buf) n a \<longrightarrow> phys k' a = phys k a)"
  using fs_read_effect [OF assms] by metis

text \<open>An example: the example image at 7 MB, its first file open as descriptor 2.\<close>

definition example_reader :: kernel where
  "example_reader = example_kernel\<lparr>phys := (\<lambda>x. example_image (x - 0x6FF000)), fs := example_fs\<lparr>boot_block_addr := 0x700000\<rparr>\<rparr>"

lemma example_reader_simps [simp]:
  "paging example_reader = example_run" "fs example_reader = example_fs\<lparr>boot_block_addr := 0x700000\<rparr>"
  "phys example_reader = (\<lambda>x. example_image (x - 0x6FF000))" "esp example_reader = 0x7FBF00"
  "pcbs example_reader = pcbs example_kernel" "sched example_reader = sched example_keyboard"
  by (simp_all add: example_reader_def)

lemma example_reader_runs: "runs 1 example_reader"
  using example_runs by (simp add: runs_def example_keyboard_def)

lemma example_reader_vmem: "same_kernel (\<lambda>x. example_image (x - 0x6FF000)) (vmem example_reader)"
  using example_reader_runs vmem_kernel [of example_reader] by (simp add: same_kernel_def runs_def)

lemma example_file:
  "file_ok (vmem example_reader) (fs example_reader) 0" "file_size (vmem example_reader) (fs example_reader) 0 = 5000"
  "hd (file_bytes (vmem example_reader) (fs example_reader) 0) = 0x40"
proof -
  let ?m = "\<lambda>x. example_image (x - 0x6FF000)"
  let ?f = "fs example_reader"
  have i: "inode_at (boot_block_addr ?f) 0 = 0x701000" by (simp add: inode_at_def)
  have load: "load32 ?m 0x701000 = 5000" "load32 ?m 0x700004 = 1" "load32 ?m 0x701004 = 1" "load32 ?m 0x701008 = 0"
    by (simp_all add: load32_def example_image_def)
  have size: "file_size ?m ?f 0 = 5000" using load i by (simp add: file_size_def)
  have start: "data_start ?m ?f = 0x702000" using load by (simp add: data_start_def)
  have block: "block_at ?m 0x701000 0x702000 0 = 0x703000" "block_at ?m 0x701000 0x702000 1 = 0x702000"
    using load by (simp_all add: block_at_def)
  have ok: "file_ok ?m ?f 0"
    unfolding file_ok_def size i start using block
    by (auto simp: kernel_area_def less_2_cases_iff)
  note kept = file_kept [OF example_reader_vmem ok]
  show "file_ok (vmem example_reader) ?f 0" "file_size (vmem example_reader) ?f 0 = 5000" using kept size by simp_all
  have "hd (file_bytes ?m ?f 0) = file_byte ?m 0x701000 0x702000 0"
    by (simp only: file_bytes_def size i start hd_map upt_rec [of 0]) simp
  also have "\<dots> = 0x40" using block by (simp add: file_byte_def example_image_def)
  finally show "hd (file_bytes (vmem example_reader) ?f 0) = 0x40" using kept by simp
qed

lemma fs_read_sequential_witness:
  "\<exists>k'. fs_read 2 0x8048000 100 example_reader = Some (100, k') \<and> user_load 0x8048000 k' = Some 0x40"
proof -
  have "reading example_reader 2 0 0"
    using example_file by (simp add: reading_def get_pcb_address_def example_pcb_def example_fd_def Let_def)
  moreover have "user_buffer 0x8048000 100" by (simp add: user_buffer_def)
  ultimately have "\<exists>k'. fs_read (of_nat 2) 0x8048000 100 example_reader = Some (of_nat 100, k') \<and> runs 1 k' \<and>
      reading k' 2 0 (0 + 100) \<and>
      file_bytes (vmem k') (fs k') 0 = file_bytes (vmem example_reader) (fs example_reader) 0 \<and>
      (\<forall>i < 100. user_load (0x8048000 + of_nat i) k' = Some (file_bytes (vmem example_reader) (fs example_reader) 0 ! (0 + i))) \<and>
      (\<forall>a. \<not> in_region (user_pa 1 0x8048000) 100 a \<longrightarrow> phys k' a = phys example_reader a)"
    using example_reader_runs example_file by (intro fs_read_sequential) simp_all
  then obtain k' where k': "fs_read (of_nat 2) 0x8048000 100 example_reader = Some (of_nat 100, k')"
    "\<forall>i < 100. user_load (0x8048000 + of_nat i) k' = Some (file_bytes (vmem example_reader) (fs example_reader) 0 ! (0 + i))"
    by blast
  have "file_bytes (vmem example_reader) (fs example_reader) 0 ! 0 = 0x40"
    using example_file by (simp add: hd_conv_nth flip: length_greater_0_conv del: length_greater_0_conv)
  then show ?thesis using k'(1) k'(2) [rule_format, of 0] by simp
qed

end
