(* ===== verification/Execution.thy ===== *)
theory Execution imports FileReads Printf begin

text \<open>
  Starting, ending and switching processes: \<open>execute\<close> and \<open>halt\<close> of \<open>sys_call.c\<close>, the round robin of
  \<open>scheduler.c\<close>, the page fault and timer handlers of \<open>idt.c\<close> and the system call dispatch and context
  switches of \<open>linkage.S\<close>.

  A call that changes the stack does not come back to its caller, so its outcome is one of three: it
  returns a value, it enters user code at an address with a user stack, or it resumes the kernel
  stack another call was saved on. \<open>None\<close> is a page fault or an access outside an array.
\<close>

subsection \<open>Outcomes\<close>

datatype outcome = Returns i32 kernel | EnterUser u32 u32 kernel | Resumes kernel

definition contextswitchasm :: "u32 \<Rightarrow> u32 \<Rightarrow> kernel \<Rightarrow> outcome" where
  "contextswitchasm eipval current_process k =
     EnterUser eipval 0x83FFFFC (save_parent_registers current_process (esp k) (ebp k) k)"

text \<open>The stack pointer is replaced before the third argument is read, so the status never arrives.\<close>

definition restoreparent :: "i32 \<Rightarrow> i32 \<Rightarrow> kernel \<Rightarrow> outcome" where
  "restoreparent bp sp k = Resumes (k\<lparr>ebp := bp, esp := sp\<rparr>)"

definition set_pid :: "u32 \<Rightarrow> 'a console_scheme \<Rightarrow> 'a console_scheme" where
  "set_pid pid k = upd_terminal (current_term (sched k)) (\<lambda>t. t\<lparr>t_pid := pid\<rparr>) k"

definition get_current_pid :: "'a console_scheme \<Rightarrow> u32" where
  "get_current_pid k = t_pid (terminals (sched k) ! current_term (sched k))"

definition save_esp_ebp :: "i32 \<Rightarrow> i32 \<Rightarrow> 'a console_scheme \<Rightarrow> 'a console_scheme" where
  "save_esp_ebp sp bp k = upd_terminal (current_term (sched k)) (\<lambda>t. t\<lparr>t_esp := sp, t_ebp := bp\<rparr>) k"

definition save_esp_ebpasm :: "kernel \<Rightarrow> kernel" where
  "save_esp_ebpasm k = save_esp_ebp (esp k) (ebp k) k"

text \<open>A message without parameters.\<close>

definition say :: "u8 list \<Rightarrow> kernel \<Rightarrow> kernel option" where
  "say msg k = map_option snd (printf (vmem k) msg (\<lambda>_. 0) k)"

subsection \<open>\<open>execute\<close>\<close>

abbreviation (input) "MAXBUFSIZEEXECUTE \<equiv> (128 :: nat)"
abbreviation (input) "KERNEL_DS \<equiv> (0x18 :: u16)"

function copy_command :: "reader \<Rightarrow> nat \<Rightarrow> u8 list \<Rightarrow> (nat \<times> u8 list) option" where
  "copy_command command cmd_size arr =
     (if command (of_nat cmd_size) \<noteq> 10 \<and> command (of_nat cmd_size) \<noteq> 0 then
        if cmd_size < length arr
        then copy_command command (cmd_size + 1) (arr[cmd_size := command (of_nat cmd_size)])
        else None
      else Some (cmd_size, arr))"
  by pat_completeness auto
termination
  by (relation "measure (\<lambda>(command, n, arr). length arr - n)") auto

declare copy_command.simps [simp del]

function skip_spaces :: "reader \<Rightarrow> u32 \<Rightarrow> u32 option" where
  "skip_spaces command i =
     (if command i = 32 then if i + 1 = 0 then None else skip_spaces command (i + 1) else Some i)"
  by pat_completeness auto
termination
  by (relation "measure (\<lambda>(s, index). 4294967296 - unat index)") (auto intro: inc_measure)

declare skip_spaces.simps [simp del]

definition ends_name :: "u8 \<Rightarrow> bool" where
  "ends_name c \<longleftrightarrow> c = 32 \<or> c = 10 \<or> c = 0"

function parse_name :: "reader \<Rightarrow> u32 \<Rightarrow> u8 list \<Rightarrow> u8 list option" where
  "parse_name command i buf =
     (if ends_name (command i) then Some buf
      else if length buf < MAXBUFSIZEEXECUTE then parse_name command (i + 1) (buf @ [command i])
      else None)"
  by pat_completeness auto
termination
  by (relation "measure (\<lambda>(command, i, buf). 128 - length buf)") auto

declare parse_name.simps [simp del]

fun find_slot :: "u8 list \<Rightarrow> nat \<Rightarrow> nat" where
  "find_slot [] i = i"
| "find_slot (r # rs) i = (if r = 0 then i else find_slot rs (i + 1))"

definition pcb_of :: "u32 \<Rightarrow> u32" where
  "pcb_of pid = END_KMEM - (pid + 1) * PCB_SIZE"

definition pid_of :: "u32 \<Rightarrow> u32" where
  "pid_of a = (END_KMEM - a) div PCB_SIZE - 1"

definition new_pcb :: "u32 \<Rightarrow> u32 \<Rightarrow> nat \<Rightarrow> nat \<Rightarrow> u8 list \<Rightarrow> pcb \<Rightarrow> pcb option" where
  "new_pcb pid parent_pcb cmd_size arg_idx arr p =
     (let p = (if pid > 3 then p\<lparr>parent := parent_pcb, parent_process_id := pid_of parent_pcb\<rparr>
               else p\<lparr>parent := 0\<rparr>);
          p = set_up_stdin p;
          p = set_up_stdout p;
          p = p\<lparr>process_id := pid\<rparr>
      in set_up_fdsandargs cmd_size arg_idx arr p)"

definition start_process ::
  "environment \<Rightarrow> u32 \<Rightarrow> u32 \<Rightarrow> nat \<Rightarrow> nat \<Rightarrow> u8 list \<Rightarrow> kernel \<Rightarrow> outcome option" where
  "start_process env inode pid cmd_size arg_idx arr k = do {
     let k = set_pid pid k;
     let k = k\<lparr>paging := snd (paging_change_process pid (paging k))\<rparr>;
     (_, k) \<leftarrow> read_data_user inode 0 0x8048000 0x400000 k;
     let a = pcb_of pid;
     p \<leftarrow> new_pcb pid (get_pcb_address k) cmd_size arg_idx arr (pcbs k a);
     let k = upd_pcb a (\<lambda>_. p) k;
     let k = k\<lparr>tss_ss0 := KERNEL_DS, tss_esp0 := END_KMEM - pid * PCB_SIZE\<rparr>;
     Some (contextswitchasm (load32 (vmem k) (stack_array env + 40)) a k)
   }"

definition is_executable :: "mem \<Rightarrow> u32 \<Rightarrow> bool" where
  "is_executable m check_buf \<longleftrightarrow>
     m check_buf = 0x7F \<and> m (check_buf + 1) = 0x45 \<and> m (check_buf + 2) = 0x4C \<and> m (check_buf + 3) = 0x46"

definition load_program ::
  "environment \<Rightarrow> u32 \<Rightarrow> nat \<Rightarrow> nat \<Rightarrow> u8 list \<Rightarrow> kernel \<Rightarrow> outcome option" where
  "load_program env inode cmd_size arg_idx arr k = do {
     (r, k) \<leftarrow> read_data_user inode 0 (stack_array env) 40 k;
     if r \<noteq> 40 then Some (Returns INVALIDORFAIL k)
     else if \<not> is_executable (vmem k) (stack_array env) then Some (Returns INVALIDORFAIL k)
     else do {
       (_, k) \<leftarrow> read_data_user inode 24 (stack_array env + 40) 4 k;
       let i = find_slot (processes_running k) 0;
       if i \<ge> length (processes_running k) then do {
         k \<leftarrow> say (chars ''Maximum number of processes reached'' @ [10]) k;
         Some (Returns INVALIDORFAIL k)
       }
       else start_process env inode (of_nat (i + 1)) cmd_size arg_idx arr
              (k\<lparr>processes_running := (processes_running k)[i := 1]\<rparr>)
     }
   }"

text \<open>The size of the command and its copy, the file name with its NUL, and where the arguments start.\<close>

definition parse_command :: "reader \<Rightarrow> (nat \<times> u8 list \<times> u8 list \<times> nat) option" where
  "parse_command command = do {
     (cmd_size, arr) \<leftarrow> copy_command command 0 (replicate MAXBUFSIZEEXECUTE 0);
     arr \<leftarrow> (if cmd_size + 1 < length arr then Some (arr[cmd_size + 1 := 0]) else None);
     i \<leftarrow> skip_spaces command 0;
     buf \<leftarrow> parse_name command i [];
     let j = (if length buf = MAXBUFSIZEEXECUTE then MAXBUFSIZEEXECUTE - 1 else length buf);
     Some (cmd_size, arr, take j buf @ [0], j + 1)
   }"

definition execute_string :: "environment \<Rightarrow> reader \<Rightarrow> kernel \<Rightarrow> outcome option" where
  "execute_string env command k = do {
     len \<leftarrow> strlen command;
     if len > of_nat MAXBUFSIZEEXECUTE then do {
       k \<leftarrow> say (chars ''Bad Length'' @ [10]) k;
       Some (Returns INVALIDORFAIL k)
     }
     else do {
       (cmd_size, arr, buf, arg_idx) \<leftarrow> parse_command command;
       (r, e, f) \<leftarrow> read_dentry_by_name (vmem k) (Some (arr_reader (\<lambda>_. 0) buf)) (Some (stack_dentry env)) (fs k);
       let k = k\<lparr>fs := f\<rparr>;
       case e of None \<Rightarrow> None | Some dir_entry \<Rightarrow>
       if r = -1 then Some (Returns INVALIDORFAIL k)
       else load_program env (inode_num dir_entry) cmd_size arg_idx arr k
     }
   }"

definition execute :: "environment \<Rightarrow> u32 \<Rightarrow> kernel \<Rightarrow> outcome option" where
  "execute env command k =
     (if command = 0 then Some (Returns (-1) k)
      else do { cmd \<leftarrow> string_at command k; execute_string env cmd k })"

definition execute_shell :: "environment \<Rightarrow> kernel \<Rightarrow> outcome option" where
  "execute_shell env = execute_string env (arr_reader (\<lambda>_. 0) (chars ''shell'' @ [0]))"

text \<open>What \<open>execute\<close> returns when its program has halted and its stack is resumed.\<close>

definition execute_resumed :: "u32 \<Rightarrow> kernel \<Rightarrow> i32" where
  "execute_resumed current_process k = status (pcbs k current_process)"

subsection \<open>\<open>halt\<close>\<close>

definition set_running :: "i32 \<Rightarrow> u8 \<Rightarrow> kernel \<Rightarrow> kernel option" where
  "set_running pid v k =
     (let i = sint pid - 1 in
      if 0 \<le> i \<and> nat i < length (processes_running k)
      then Some (k\<lparr>processes_running := (processes_running k)[nat i := v]\<rparr>) else None)"

fun close_all :: "u32 \<Rightarrow> nat list \<Rightarrow> kernel \<Rightarrow> kernel option" where
  "close_all a [] k = Some k"
| "close_all a (i # is) k =
     (if fd_flags (fd_array (pcbs k a) ! i) ! 0 = 1
      then do { (_, k) \<leftarrow> sys_close (of_nat i) k; close_all a is k }
      else close_all a is k)"

definition end_process :: "u32 \<Rightarrow> u8 \<Rightarrow> kernel \<Rightarrow> outcome option" where
  "end_process a st k = do {
     k \<leftarrow> set_running (process_id (pcbs k a)) 0 k;
     let parentid = parent_process_id (pcbs k a);
     k \<leftarrow> close_all a [0..<FD_ARR_SIZE] k;
     k \<leftarrow> (if sint (process_id (pcbs k a)) > 3 then
              if mapped (parent (pcbs k a)) k
              then Some (upd_pcb (parent (pcbs k a)) (\<lambda>p. p\<lparr>status := ucast st\<rparr>) k) else None
            else Some k);
     let k = set_pid parentid k;
     let k = k\<lparr>paging := snd (paging_change_process parentid (paging k))\<rparr>;
     let k = k\<lparr>tss_ss0 := KERNEL_DS, tss_esp0 := END_KMEM - parentid * PCB_SIZE\<rparr>;
     Some (restoreparent (parent_ebp (pcbs k a)) (parent_esp (pcbs k a)) k)
   }"

definition halt :: "environment \<Rightarrow> u8 \<Rightarrow> kernel \<Rightarrow> outcome option" where
  "halt env st k =
     (let a = get_pcb_address k in
      if sint (process_id (pcbs k a)) < 4 then do {
        k \<leftarrow> say (chars ''Cannot close base process -- '') k;
        let k = k\<lparr>dev := cli (dev k)\<rparr>;
        k \<leftarrow> set_running (process_id (pcbs k a)) 0 k;
        out \<leftarrow> execute_shell env k;
        case out of Returns _ k \<Rightarrow> end_process a st k | _ \<Rightarrow> Some out
      }
      else end_process a st k)"

subsection \<open>The scheduler\<close>

definition init_terminal :: "nat \<Rightarrow> kernel \<Rightarrow> kernel" where
  "init_terminal i k = k\<lparr>sched := (sched k)\<lparr>
     terminals := (terminals (sched k))[i := (terminals (sched k) ! i)\<lparr>noc := 0, lb := replicate 128 0,
       t_pid := of_nat (i + 1), screen_x := 0, screen_y := 0\<rparr>],
     vid_bufs := (vid_bufs (sched k))[i := 0xB9000 + 0x1000 * of_nat i],
     is_on := (is_on (sched k))[i := 0]\<rparr>\<rparr>"

definition init_global_scheduler :: "environment \<Rightarrow> kernel \<Rightarrow> kernel option" where
  "init_global_scheduler env k = do {
     (_, e, f) \<leftarrow> read_dentry_by_name (vmem k) (Some (arr_reader (\<lambda>_. 0) (chars ''shell'' @ [0])))
       (Some (stack_dentry env)) (fs k);
     let k = k\<lparr>fs := f\<rparr>;
     case e of None \<Rightarrow> None | Some dir_entry \<Rightarrow> do {
       (_, k) \<leftarrow> read_data_user (inode_num dir_entry) 24 (exe_bytes_at env) 4 k;
       let k = k\<lparr>sched := (sched k)\<lparr>exe_bytes :=
         map (\<lambda>i. vmem k (exe_bytes_at env + of_nat i)) [0..<4]\<rparr>\<rparr>;
       let k = fold init_terminal [0..<3] k;
       let k = k\<lparr>paging := snd (paging_change_process 1 (paging k))\<rparr>;
       Some (k\<lparr>sched := (sched k)\<lparr>current_term := 2, visable_term := 0\<rparr>\<rparr>)
     }
   }"

definition select_window :: "nat \<Rightarrow> kernel \<Rightarrow> kernel" where
  "select_window cur k =
     (if cur = visable_term (sched k) then k\<lparr>paging := paging_set_write_to_videomem (paging k)\<rparr>
      else k\<lparr>paging := paging_set_write_to_buffer (of_nat cur) (paging k)\<rparr>)"

definition scheduler_next :: "environment \<Rightarrow> kernel \<Rightarrow> outcome option" where
  "scheduler_next env k =
     (let k = save_esp_ebpasm k;
          k = k\<lparr>sched := (sched k)\<lparr>current_term := (current_term (sched k) + 1) mod 3\<rparr>\<rparr>;
          cur = current_term (sched k);
          pid = t_pid (terminals (sched k) ! cur);
          k = select_window cur k
      in if is_on (sched k) ! cur = 0 then do {
           let k = k\<lparr>sched := (sched k)\<lparr>is_on := (is_on (sched k))[cur := 1]\<rparr>\<rparr>;
           out \<leftarrow> execute_shell env k;
           case out of
             Returns r k \<Rightarrow>
               if sint r < 0 then do { k \<leftarrow> say (chars ''failed'') k; Some (Returns 0 k) }
               else Some (Returns 0 k)
           | _ \<Rightarrow> Some out
         }
         else
           let k = k\<lparr>paging := snd (paging_change_process pid (paging k))\<rparr>;
               k = k\<lparr>tss_ss0 := KERNEL_DS, tss_esp0 := END_KMEM - pid * PCB_SIZE\<rparr>;
               t = terminals (sched k) ! cur
           in Some (restoreparent (t_ebp t) (t_esp t) k))"

subsection \<open>Interrupts and system calls\<close>

definition pithandler :: "environment \<Rightarrow> kernel \<Rightarrow> outcome option" where
  "pithandler env k = scheduler_next env (k\<lparr>dev := send_eoi 0 (dev k)\<rparr>)"

text \<open>\<open>cr2\<close> is the address that faulted.\<close>

definition handle14 :: "environment \<Rightarrow> u32 \<Rightarrow> kernel \<Rightarrow> outcome option" where
  "handle14 env cr2 k = do {
     k \<leftarrow> say (chars ''Page Fault exception'' @ [10]) k;
     (_, k) \<leftarrow> printf (vmem k) (chars ''The Exception occurred at:%x'') (\<lambda>_. cr2) k;
     halt env (chr8 (CHR ''P'')) k
   }"

definition returning :: "(i32 \<times> kernel) option \<Rightarrow> outcome option" where
  "returning = map_option (\<lambda>(r, k). Returns r k)"

definition systemcall :: "environment \<Rightarrow> i32 \<Rightarrow> u32 \<Rightarrow> u32 \<Rightarrow> u32 \<Rightarrow> kernel \<Rightarrow> outcome option" where
  "systemcall env eax ebx ecx edx k =
     (if sint eax \<le> 0 \<or> sint eax > 10 then Some (Returns (-1) k)
      else if eax = 1 then halt env (ucast ebx) k
      else if eax = 2 then execute env ebx k
      else if eax = 3 then returning (sys_read env ebx ecx edx k)
      else if eax = 4 then returning (sys_write env ebx ecx edx k)
      else if eax = 5 then returning (sys_open env ebx k)
      else if eax = 6 then returning (sys_close ebx k)
      else if eax = 7 then returning (getargs ebx ecx k)
      else if eax = 8 then returning (vidmap ebx k)
      else if eax = 9 then Some (Returns (set_handler ebx ecx) k)
      else Some (Returns sigreturn k))"

subsection \<open>What the parts leave alone\<close>

text \<open>Everything but memory, the counts of the file system, cursors and the cursor registers.\<close>

definition untouched :: "kernel \<Rightarrow> kernel \<Rightarrow> bool" where
  "untouched k k' \<longleftrightarrow> paging k' = paging k \<and> pcbs k' = pcbs k \<and> processes_running k' = processes_running k \<and>
     esp k' = esp k \<and> ebp k' = ebp k \<and> tss_ss0 k' = tss_ss0 k \<and> tss_esp0 k' = tss_esp0 k \<and> dev k' = dev k \<and>
     boot_block_addr (fs k') = boot_block_addr (fs k) \<and>
     visable_term (sched k') = visable_term (sched k) \<and> current_term (sched k') = current_term (sched k) \<and>
     is_on (sched k') = is_on (sched k) \<and> vid_bufs (sched k') = vid_bufs (sched k) \<and>
     length (terminals (sched k')) = length (terminals (sched k)) \<and>
     (\<forall>t. t_pid (terminals (sched k') ! t) = t_pid (terminals (sched k) ! t) \<and>
          t_esp (terminals (sched k') ! t) = t_esp (terminals (sched k) ! t) \<and>
          t_ebp (terminals (sched k') ! t) = t_ebp (terminals (sched k) ! t))"

lemma untouched_refl [simp]: "untouched k k"
  by (simp add: untouched_def)

lemma untouched_trans: "untouched k k1 \<Longrightarrow> untouched k1 k2 \<Longrightarrow> untouched k k2"
  by (simp add: untouched_def)

lemma untouched_phys: "untouched k (k\<lparr>phys := p\<rparr>)"
  by (simp add: untouched_def)

lemma untouched_fs: "boot_block_addr f = boot_block_addr (fs k) \<Longrightarrow> untouched k (k\<lparr>fs := f\<rparr>)"
  by (simp add: untouched_def)

lemma untouched_screen:
  assumes "screen_change t k k'"
  shows "untouched k k'"
proof -
  have "(terminals (sched k))[t := (terminals (sched k) ! t)\<lparr>screen_x := x, screen_y := y\<rparr>] ! u =
      (if u = t \<and> t < length (terminals (sched k)) then (terminals (sched k) ! t)\<lparr>screen_x := x, screen_y := y\<rparr>
       else terminals (sched k) ! u)" for x y u
    by (cases "t < length (terminals (sched k))") (auto simp: nth_list_update list_update_beyond)
  then show ?thesis using assms by (auto simp: untouched_def screen_change_def rescreen_def)
qed

lemma untouched_putc: "untouched k (fold putc bs k)"
proof (induction bs arbitrary: k)
  case (Cons b bs)
  have "untouched k (putc b k)" by (rule untouched_screen) (rule screen_change_putc)
  then show ?case using untouched_trans Cons.IH by simp
qed simp

lemma say_message:
  assumes "chr8 (CHR ''%'') \<notin> set msg"
  shows "say msg k = Some (fold putc msg k)"
  by (simp add: say_def printf_message [OF assms])

lemma messages:
  "chr8 (CHR ''%'') \<notin> set (chars ''Bad Length'' @ [10])"
  "chr8 (CHR ''%'') \<notin> set (chars ''Maximum number of processes reached'' @ [10])"
  "chr8 (CHR ''%'') \<notin> set (chars ''Cannot close base process -- '')"
  "chr8 (CHR ''%'') \<notin> set (chars ''failed'')" "chr8 (CHR ''%'') \<notin> set (chars ''Page Fault exception'' @ [10])"
  by (simp_all add: chars_def)

lemma read_data_fs: "read_data m f inode offset buf len = (r, m', f') \<Longrightarrow> boot_block_addr f' = boot_block_addr f \<and> dentry_a f' = dentry_a f"
  by (auto simp: read_data_def read_counts_def Let_def split: if_splits prod.splits)

lemma untouched_read_data:
  assumes "read_data_user inode offset buf len k = Some (r, k')"
  shows "untouched k k'"
proof -
  obtain r1 m f where read: "read_data (vmem k) (fs k) inode offset buf len = (r1, m, f)" by (cases "read_data (vmem k) (fs k) inode offset buf len")
  then obtain bs where "user_write buf bs (k\<lparr>fs := f\<rparr>) = Some k'"
    using assms by (auto simp: read_data_user_def Let_def)
  then obtain p where "k' = k\<lparr>fs := f, phys := p\<rparr>" using user_write_phys by blast
  then show ?thesis using read_data_fs [OF read] untouched_trans [OF untouched_fs untouched_phys] by simp
qed

subsection \<open>Failed commands\<close>

lemma start_process_enters:
  "start_process env inode pid n i arr k = Some out \<Longrightarrow> \<exists>eip k'. out = EnterUser eip 0x83FFFFC k'"
  by (auto simp: start_process_def contextswitchasm_def bind_eq_Some_conv Let_def)

lemma load_program_returns:
  assumes "load_program env inode n i arr k = Some (Returns r k')"
  shows "r = -1 \<and> untouched k k'"
proof -
  obtain r1 k1 where k1: "read_data_user inode 0 (stack_array env) 40 k = Some (r1, k1)"
    using assms by (auto simp: load_program_def bind_eq_Some_conv)
  note u1 = untouched_read_data [OF k1]
  show ?thesis
  proof (cases "r1 \<noteq> 40 \<or> \<not> is_executable (vmem k1) (stack_array env)")
    case True
    then show ?thesis using assms k1 u1 by (auto simp: load_program_def Let_def split: if_splits)
  next
    case False
    then obtain r2 k2 where k2: "read_data_user inode 24 (stack_array env + 40) 4 k1 = Some (r2, k2)"
      using assms k1 by (auto simp: load_program_def bind_eq_Some_conv Let_def)
    note u2 = untouched_trans [OF u1 untouched_read_data [OF k2]]
    have full: "length (processes_running k2) \<le> find_slot (processes_running k2) 0"
      using assms False k1 k2 start_process_enters
      by (fastforce simp: load_program_def Let_def split: if_splits)
    then have "r = -1 \<and> k' = fold putc (chars ''Maximum number of processes reached'' @ [10]) k2"
      using assms False k1 k2 by (simp add: load_program_def Let_def say_message [OF messages(2)])
    then show ?thesis using untouched_trans [OF u2 untouched_putc] by blast
  qed
qed

lemma lookup_fs:
  assumes "read_dentry_by_name m name e f = Some (r, e', f')"
  shows "boot_block_addr f' = boot_block_addr f" "dentry_a f' = dentry_a f"
  using assms by (auto simp: read_dentry_by_name_def read_counts_def Let_def bind_eq_Some_conv split: if_splits option.splits)

lemma execute_string_returns:
  assumes "execute_string env cmd k = Some (Returns r k')"
  shows "r = -1 \<and> untouched k k'"
proof -
  obtain len where len: "strlen cmd = Some len" using assms by (auto simp: execute_string_def bind_eq_Some_conv)
  show ?thesis
  proof (cases "len > of_nat 128")
    case True
    then show ?thesis
      using assms len by (auto simp: execute_string_def say_message [OF messages(1)] untouched_putc
          simp del: fold_append)
  next
    case False
    then obtain n arr buf i r1 e f where "parse_command cmd = Some (n, arr, buf, i)"
      "read_dentry_by_name (vmem k) (Some (arr_reader (\<lambda>_. 0) buf)) (Some (stack_dentry env)) (fs k) = Some (r1, e, f)"
      using assms len by (auto simp: execute_string_def bind_eq_Some_conv)
    then have look: "boot_block_addr f = boot_block_addr (fs k)"
      "(case e of None \<Rightarrow> None | Some d \<Rightarrow> if r1 = -1 then Some (Returns (-1) (k\<lparr>fs := f\<rparr>))
          else load_program env (inode_num d) n i arr (k\<lparr>fs := f\<rparr>)) = Some (Returns r k')"
      using assms len False lookup_fs by (simp_all add: execute_string_def Let_def)
    note u = untouched_fs [OF look(1)]
    show ?thesis
      using look(2) u load_program_returns untouched_trans [OF u] by (auto split: option.splits if_splits)
  qed
qed

text \<open>[C28] A call of \<open>execute\<close> that comes back to its caller without having run a program returns -1 and
  has started nothing: the process slots, the control blocks, the page tables, the kernel stack of the task state
  segment, the stack pointer, the scheduled terminal and the process of each terminal are what they were.\<close>

theorem execute_failure_harmless:
  assumes "execute env command k = Some (Returns r k')"
  shows "r = -1 \<and> processes_running k' = processes_running k \<and> pcbs k' = pcbs k \<and> paging k' = paging k \<and>
    tss_esp0 k' = tss_esp0 k \<and> esp k' = esp k \<and> current_term (sched k') = current_term (sched k) \<and>
    (\<forall>t. t_pid (terminals (sched k') ! t) = t_pid (terminals (sched k) ! t))"
proof -
  have "r = -1 \<and> untouched k k'"
    using assms execute_string_returns by (auto simp: execute_def bind_eq_Some_conv split: if_splits)
  then show ?thesis by (simp add: untouched_def)
qed

lemma execute_failure_harmless_witness:
  "\<forall>env. execute env 0 example_kernel = Some (Returns (-1) example_kernel) \<and> processes_running example_kernel = [1, 1, 1, 0, 0, 0]"
proof
  fix env
  show "execute env 0 example_kernel = Some (Returns (-1) example_kernel) \<and> processes_running example_kernel = [1, 1, 1, 0, 0, 0]"
    using execute_failure_harmless [of env 0 example_kernel "-1" example_kernel] by (simp add: execute_def)
qed

subsection \<open>Started processes\<close>

lemma upd_pcb_more [simp]: "ebp (upd_pcb a f k) = ebp k" "tss_esp0 (upd_pcb a f k) = tss_esp0 k"
  by (simp_all add: upd_pcb_def)

definition pcb_shape :: "pcb \<Rightarrow> bool" where
  "pcb_shape p \<longleftrightarrow> length (fd_array p) = 8 \<and> (\<forall>i < 8. length (fd_flags (fd_array p ! i)) = 4)"

lemma fold_upd_fd:
  assumes "distinct is"
  shows "\<exists>ds. fold (\<lambda>i. upd_fd i f) is p = p\<lparr>fd_array := ds\<rparr> \<and> length ds = length (fd_array p) \<and>
    (\<forall>j < length ds. ds ! j = (if j \<in> set is then f (fd_array p ! j) else fd_array p ! j))"
  using assms
proof (induction "is" arbitrary: p)
  case Nil
  then show ?case by (intro exI [of _ "fd_array p"]) simp
next
  case (Cons i js)
  then obtain ds where "fold (\<lambda>i. upd_fd i f) js (upd_fd i f p) = (upd_fd i f p)\<lparr>fd_array := ds\<rparr>"
    "length ds = length (fd_array p)" and ds: "\<forall>j < length ds. ds ! j =
      (if j \<in> set js then f (fd_array (upd_fd i f p) ! j) else fd_array (upd_fd i f p) ! j)"
    using Cons.IH [of "upd_fd i f p"] by auto
  moreover have "(upd_fd i f p)\<lparr>fd_array := ds\<rparr> = p\<lparr>fd_array := ds\<rparr>" by (simp add: upd_fd_def)
  ultimately show ?case using Cons.prems by (intro exI [of _ ds]) auto
qed

lemma copy_args_length: "copy_args arr sz i j args = Some args' \<Longrightarrow> length args' = length args"
proof (induction arr sz i j args rule: copy_args.induct)
  case (1 arr sz i j args)
  then show ?case using copy_args.simps [of arr sz i j args] by (auto split: if_splits)
qed

lemma set_up_fdsandargs_effect:
  assumes "set_up_fdsandargs sz idx arr p = Some p'" "pcb_shape p"
  obtains ds args where "p' = p\<lparr>fd_array := ds, arg_size := of_nat sz, arg_arr := args\<rparr>" "length args = 128"
    "copy_args arr sz 0 idx (replicate 128 0) = Some args" "length ds = 8"
    "\<forall>j < 8. ds ! j = (if 2 \<le> j then set_flag 0 0 ((fd_array p ! j)\<lparr>file_pos := 0\<rparr>) else fd_array p ! j)"
proof -
  let ?f = "\<lambda>d. set_flag 0 0 (d\<lparr>file_pos := 0\<rparr>)"
  have "distinct [2..<8]" by simp
  from fold_upd_fd [OF this, of ?f p] obtain ds where ds: "fold (\<lambda>i. upd_fd i ?f) [2..<8] p = p\<lparr>fd_array := ds\<rparr>"
    "length ds = length (fd_array p)"
    "\<forall>j < length ds. ds ! j = (if j \<in> set [2..<8] then ?f (fd_array p ! j) else fd_array p ! j)" by blast
  obtain args where args: "copy_args arr sz 0 idx (replicate 128 0) = Some args"
    "p' = p\<lparr>fd_array := ds, arg_size := of_nat sz, arg_arr := args\<rparr>"
    using assms(1) by (auto simp: set_up_fdsandargs_def ds(1) bind_eq_Some_conv Let_def simp del: upt_rec_numeral)
  then show thesis using that [OF args(2)] copy_args_length [OF args(1)] args(1) ds(2,3) assms(2)
    by (simp add: pcb_shape_def)
qed

text \<open>A new control block: only the standard descriptors are open.\<close>

definition fresh_pcb :: "u32 \<Rightarrow> u32 \<Rightarrow> pcb \<Rightarrow> bool" where
  "fresh_pcb pid parent_pcb p \<longleftrightarrow> pcb_ok p \<and> process_id p = pid \<and>
     (\<forall>j. 2 \<le> j \<and> j < 8 \<longrightarrow> fd_flags (fd_array p ! j) ! 0 = 0) \<and>
     (if pid > 3 then parent p = parent_pcb \<and> parent_process_id p = pid_of parent_pcb else parent p = 0)"

lemma std_fds:
  assumes "pcb_shape p"
  shows "pcb_shape (set_up_stdout (set_up_stdin p))"
    "fd_ok 0 (fd_array (set_up_stdout (set_up_stdin p)) ! 0)" "fd_ok 1 (fd_array (set_up_stdout (set_up_stdin p)) ! 1)"
    "process_id (set_up_stdout (set_up_stdin p)) = process_id p" "parent (set_up_stdout (set_up_stdin p)) = parent p"
    "parent_process_id (set_up_stdout (set_up_stdin p)) = parent_process_id p"
  using assms by (auto simp: set_up_stdin_def set_up_stdout_def pcb_shape_def fd_ok_def) (simp_all add: upd_fd_def)

lemma pcb_ok_fresh:
  assumes "pcb_shape p" "fd_ok 0 (fd_array p ! 0)" "fd_ok 1 (fd_array p ! 1)" "length args = 128" "length ds = 8"
    "\<forall>j < 8. ds ! j = (if 2 \<le> j then set_flag 0 0 ((fd_array p ! j)\<lparr>file_pos := 0\<rparr>) else fd_array p ! j)"
  shows "pcb_ok (p\<lparr>fd_array := ds, arg_size := n, arg_arr := args\<rparr>)"
    "2 \<le> j \<Longrightarrow> j < 8 \<Longrightarrow> fd_flags (ds ! j) ! 0 = 0"
proof -
  have len: "length (fd_flags (fd_array p ! j)) = 4" if "j < 8" for j using assms(1) that by (simp add: pcb_shape_def)
  show free: "fd_flags (ds ! j) ! 0 = 0" if "2 \<le> j" "j < 8" for j using assms(6) that len [OF that(2)] by simp
  have "fd_ok j (ds ! j)" if "j < 8" for j
  proof (cases "2 \<le> j")
    case True
    then show ?thesis using free [OF True that] assms(6) that len [OF that] by (simp add: fd_ok_def)
  next
    case False
    then have "j = 0 \<or> j = 1" by auto
    then show ?thesis using assms(2,3,6) by auto
  qed
  then show "pcb_ok (p\<lparr>fd_array := ds, arg_size := n, arg_arr := args\<rparr>)" using assms(4,5) by (simp add: pcb_ok_def)
qed

lemma new_pcb_fresh:
  assumes "new_pcb pid a n idx arr p = Some p'" "pcb_shape p"
  shows "fresh_pcb pid a p'" "fresh_pcb pid a (p'\<lparr>parent_esp := sp, parent_ebp := bp\<rparr>)" "arg_size p' = of_nat n"
    "copy_args arr n 0 idx (replicate 128 0) = Some (arg_arr p')"
proof -
  let ?p = "if pid > 3 then p\<lparr>parent := a, parent_process_id := pid_of a\<rparr> else p\<lparr>parent := 0\<rparr>"
  let ?q = "(set_up_stdout (set_up_stdin ?p))\<lparr>process_id := pid\<rparr>"
  have "pcb_shape ?p" using assms(2) by (simp add: pcb_shape_def)
  note std = std_fds [OF this]
  have shape: "pcb_shape ?q" using std(1) by (simp add: pcb_shape_def)
  have "set_up_fdsandargs n idx arr ?q = Some p'" using assms(1) by (simp add: new_pcb_def Let_def)
  from set_up_fdsandargs_effect [OF this shape] obtain ds args where
    p': "p' = ?q\<lparr>fd_array := ds, arg_size := of_nat n, arg_arr := args\<rparr>" "length args = 128"
    "copy_args arr n 0 idx (replicate 128 0) = Some args" "length ds = 8" and
    ds: "\<forall>j < 8. ds ! j = (if 2 \<le> j then set_flag 0 0 ((fd_array ?q ! j)\<lparr>file_pos := 0\<rparr>) else fd_array ?q ! j)"
    by blast
  have "fd_ok 0 (fd_array ?q ! 0)" "fd_ok 1 (fd_array ?q ! 1)" using std(2,3) by simp_all
  note fresh = pcb_ok_fresh [OF shape this p'(2,4) ds]
  show f: "fresh_pcb pid a p'" using fresh std(5,6) by (auto simp: fresh_pcb_def p'(1))
  then show "fresh_pcb pid a (p'\<lparr>parent_esp := sp, parent_ebp := bp\<rparr>)" by (simp add: fresh_pcb_def pcb_ok_def)
  show "arg_size p' = of_nat n" "copy_args arr n 0 idx (replicate 128 0) = Some (arg_arr p')"
    using p'(3) by (simp_all add: p'(1))
qed

lemma change_process_eq:
  assumes "pid - 1 = of_nat i" "i < 6"
  shows "snd (paging_change_process pid st) =
    flush_tlb (st\<lparr>page_directory := (page_directory st)[32 := user_pde i]\<rparr>)"
proof -
  have "\<not> of_nat i > (5 :: u32)" using assms(2) by (simp add: word_less_nat_alt)
  then show ?thesis by (simp add: paging_change_process_def Let_def assms(1) user_pde_def)
qed

lemma change_process_runs:
  assumes "tables_ok (paging k)" "i < 6" "pid - 1 = of_nat i"
  shows "runs i (k\<lparr>paging := snd (paging_change_process pid (paging k))\<rparr>)"
proof -
  have "length (page_directory (paging k)) = 1024" using assms(1) by (simp add: tables_ok_def)
  then show ?thesis
    using tables_ok_set_pde_32 [OF assms(1,2)] assms(2) by (simp add: runs_def change_process_eq [OF assms(3,2)] frame_simps)
qed

lemma runs_paging: "paging k' = paging k \<Longrightarrow> runs i k' = runs i k"
  by (simp add: runs_def)

text \<open>The processes of the other terminals.\<close>

definition other_pids_kept :: "kernel \<Rightarrow> kernel \<Rightarrow> bool" where
  "other_pids_kept k k' \<longleftrightarrow> current_term (sched k') = current_term (sched k) \<and>
     length (terminals (sched k')) = length (terminals (sched k)) \<and>
     (\<forall>t. t \<noteq> current_term (sched k) \<longrightarrow> t_pid (terminals (sched k') ! t) = t_pid (terminals (sched k) ! t))"

lemma start_process_effect:
  assumes start: "start_process env inode pid n idx arr k = Some out"
    and k: "tables_ok (paging k)" "pcb_shape (pcbs k (pcb_of pid))" "pid - 1 = of_nat i" "i < 6"
    "current_term (sched k) < length (terminals (sched k))"
  obtains eip k' where "out = EnterUser eip 0x83FFFFC k'" "runs i k'" "fresh_pcb pid (get_pcb_address k) (pcbs k' (pcb_of pid))"
    "parent_esp (pcbs k' (pcb_of pid)) = esp k" "parent_ebp (pcbs k' (pcb_of pid)) = ebp k"
    "\<forall>b. b \<noteq> pcb_of pid \<longrightarrow> pcbs k' b = pcbs k b" "processes_running k' = processes_running k"
    "tss_esp0 k' = END_KMEM - pid * PCB_SIZE" "get_current_pid k' = pid" "esp k' = esp k"
    "other_pids_kept k k'" "arg_size (pcbs k' (pcb_of pid)) = of_nat n"
    "copy_args arr n 0 idx (replicate 128 0) = Some (arg_arr (pcbs k' (pcb_of pid)))"
proof -
  let ?a = "pcb_of pid"
  define k1 where "k1 = set_pid pid k"
  define k2 where "k2 = k1\<lparr>paging := snd (paging_change_process pid (paging k1))\<rparr>"
  obtain r k3 where k3: "read_data_user inode 0 0x8048000 0x400000 k2 = Some (r, k3)"
    using start by (auto simp: start_process_def Let_def k1_def k2_def bind_eq_Some_conv)
  note u = untouched_read_data [OF k3]
  have base: "pcbs k3 = pcbs k" "esp k3 = esp k" "ebp k3 = ebp k" "processes_running k3 = processes_running k"
    "paging k3 = paging k2" "other_pids_kept k k3" "get_current_pid k3 = pid"
    using u k(5)
    by (simp_all add: untouched_def k2_def k1_def set_pid_def upd_terminal_def get_current_pid_def other_pids_kept_def)
  have addr: "get_pcb_address k3 = get_pcb_address k" using base(2) by (simp add: get_pcb_address_def)
  obtain p' where p': "new_pcb pid (get_pcb_address k) n idx arr (pcbs k ?a) = Some p'"
    using start k3 base addr by (auto simp: start_process_def Let_def k1_def k2_def bind_eq_Some_conv)
  define k4 where "k4 = (upd_pcb ?a (\<lambda>_. p') k3)\<lparr>tss_ss0 := KERNEL_DS, tss_esp0 := END_KMEM - pid * PCB_SIZE\<rparr>"
  define k' where "k' = upd_pcb ?a (\<lambda>p. p\<lparr>parent_esp := esp k, parent_ebp := ebp k\<rparr>) k4"
  have "out = EnterUser (load32 (vmem k4) (stack_array env + 40)) 0x83FFFFC k'"
    using start k3 p' base addr
    by (simp add: start_process_def Let_def k1_def k2_def k4_def k'_def contextswitchasm_def save_parent_registers_def)
  moreover have "runs i k2"
    unfolding k2_def by (rule change_process_runs) (use k in \<open>simp_all add: k1_def set_pid_def upd_terminal_def\<close>)
  then have "runs i k'" using base(5) by (simp add: runs_def k'_def k4_def)
  moreover have "pcbs k' ?a = p'\<lparr>parent_esp := esp k, parent_ebp := ebp k\<rparr>" by (simp add: k'_def k4_def upd_pcb_def)
  moreover have "\<forall>b. b \<noteq> ?a \<longrightarrow> pcbs k' b = pcbs k b" using base(1) by (simp add: k'_def k4_def upd_pcb_def)
  moreover have "processes_running k' = processes_running k" "tss_esp0 k' = END_KMEM - pid * PCB_SIZE"
    "get_current_pid k' = pid" "esp k' = esp k" "other_pids_kept k k'"
    using base by (simp_all add: k'_def k4_def upd_pcb_def get_current_pid_def other_pids_kept_def)
  ultimately show thesis using that new_pcb_fresh(2-) [OF p' k(2)] by simp
qed

text \<open>A program that can be loaded is loaded.\<close>

lemma new_pcb_total: "copy_args arr n 0 idx (replicate 128 0) = Some args \<Longrightarrow> \<exists>p'. new_pcb pid a n idx arr p = Some p'"
  by (simp add: new_pcb_def set_up_fdsandargs_def Let_def)

lemma same_kernel_paging:
  assumes "tables_ok (paging k)" "tables_ok (paging k')" "phys k' = phys k"
  shows "same_kernel (vmem k) (vmem k')"
  using assms vmem_kernel [of k] vmem_kernel [of k'] by (simp add: same_kernel_def)

lemma vmem_eq: "paging k' = paging k \<Longrightarrow> phys k' = phys k \<Longrightarrow> vmem k' = vmem k"
  unfolding vmem_def by (simp only:)

lemma same_kernel_trans: "same_kernel m m1 \<Longrightarrow> same_kernel m1 m2 \<Longrightarrow> same_kernel m m2"
  by (simp add: same_kernel_def)

text \<open>Loading a program does not reach the screen.\<close>

definition video_kept :: "kernel \<Rightarrow> kernel \<Rightarrow> bool" where
  "video_kept k k' \<longleftrightarrow> window_frame k' = window_frame k \<and> (\<forall>a. unat a < 0x400000 \<longrightarrow> phys k' a = phys k a)"

lemma video_kept_phys: "video_kept k (k\<lparr>fs := f, phys := put_bytes (phys k) s bs\<rparr>)"
  if "kernel_area s n" "length bs \<le> n"
proof -
  have "\<not> in_region s (length bs) a" if "unat a < 0x400000" for a
  proof
    assume "in_region s (length bs) a"
    then have "in_region s n a" using \<open>length bs \<le> n\<close> by (rule in_region_mono)
    then show False using kernel_area_in [OF \<open>kernel_area s n\<close>] \<open>unat a < 0x400000\<close> by fastforce
  qed
  then show ?thesis by (simp add: video_kept_def window_frame_def put_bytes_outside)
qed

lemma video_kept_trans: "video_kept k k1 \<Longrightarrow> video_kept k1 k2 \<Longrightarrow> video_kept k k2"
  by (simp add: video_kept_def)

lemma start_process_succeeds:
  assumes k: "tables_ok (paging k)" "pid - 1 = of_nat i" "i < 6"
    and img: "file_ok (vmem k) (fs k) inode" "file = file_bytes (vmem k) (fs k) inode" "length file \<le> 0x3B8000"
    and stack: "kernel_area (stack_array env + 40) 4"
    and args: "copy_args arr n 0 idx (replicate 128 0) = Some args"
  shows "\<exists>k'. start_process env inode pid n idx arr k =
      Some (EnterUser (load32 (vmem k) (stack_array env + 40)) 0x83FFFFC k') \<and>
    (\<forall>j < length file. user_load (0x8048000 + of_nat j) k' = Some (file ! j)) \<and>
    same_kernel (vmem k) (vmem k') \<and> video_kept k k'"
proof -
  let ?a = "pcb_of pid"
  define k1 where "k1 = set_pid pid k"
  define k2 where "k2 = k1\<lparr>paging := snd (paging_change_process pid (paging k1))\<rparr>"
  have k1: "tables_ok (paging k1)" "phys k1 = phys k" "fs k1 = fs k" "paging k1 = paging k"
    using k(1) by (simp_all add: k1_def set_pid_def upd_terminal_def)
  have r2: "runs i k2" unfolding k2_def by (rule change_process_runs [OF k1(1) k(3,2)])
  then have t2: "tables_ok (paging k2)" by (simp add: runs_def)
  have same: "same_kernel (vmem k) (vmem k2)"
    by (rule same_kernel_paging [OF k(1) t2]) (use k1 in \<open>simp add: k2_def\<close>)
  have fs2: "fs k2 = fs k" using k1 by (simp add: k2_def)
  note kept = file_kept [OF same img(1)]
  have size: "file_size (vmem k2) (fs k2) inode = length file" using kept(1) fs2 img(2) by simp
  have buffer: "user_buffer 0x8048000 (length file)" using img(3) by (simp add: user_buffer_def)
  define k3 where "k3 = k2\<lparr>fs := read_counts (vmem k2) (fs k2), phys := put_bytes (phys k2) (user_pa i 0x8048000) file\<rparr>"
  have "length file = min (unat (0x400000 :: u32)) (file_size (vmem k2) (fs k2) inode - unat (0 :: u32))"
    using img(3) size by simp
  from read_data_user_file [OF r2 _ buffer this]
  have read: "read_data_user inode 0 0x8048000 0x400000 k2 = Some (of_nat (length file), k3)"
    using kept img(2) fs2 by (simp add: k3_def)
  obtain p' where p': "new_pcb pid (get_pcb_address k3) n idx arr (pcbs k3 ?a) = Some p'"
    using new_pcb_total [OF args] by blast
  define k4 where "k4 = (upd_pcb ?a (\<lambda>_. p') k3)\<lparr>tss_ss0 := KERNEL_DS, tss_esp0 := END_KMEM - pid * PCB_SIZE\<rparr>"
  define k' where "k' = save_parent_registers ?a (esp k4) (ebp k4) k4"
  have run: "start_process env inode pid n idx arr k = Some (EnterUser (load32 (vmem k4) (stack_array env + 40)) 0x83FFFFC k')"
    using read p' by (simp add: start_process_def Let_def k1_def k2_def k4_def k'_def contextswitchasm_def)
  have same3: "same_kernel (vmem k2) (vmem k3)"
    unfolding k3_def by (rule same_kernel_user [OF r2 buffer])
  have v4: "vmem k4 = vmem k3" by (rule vmem_eq) (simp_all add: k4_def)
  have "load32 (vmem k4) (stack_array env + 40) = load32 (vmem k) (stack_array env + 40)"
    using same_kernel_load32 [OF same_kernel_trans [OF same same3] stack, of 0] v4 by simp
  moreover have "user_load (0x8048000 + of_nat j) k' = Some (file ! j)" if "j < length file" for j
  proof -
    have x: "xlate (paging k2) (0x8048000 + of_nat j) = Some (user_pa i 0x8048000 + of_nat j, True)"
      by (rule xlate_window [OF r2 buffer that])
    have "length file < 4294967296" using img(3) by simp
    then show ?thesis
      using x that by (simp add: user_load_def k'_def k4_def k3_def save_parent_registers_def put_bytes_at)
  qed
  moreover have "vmem k' = vmem k4" by (rule vmem_eq) (simp_all add: k'_def save_parent_registers_def)
  then have "same_kernel (vmem k) (vmem k')" using same_kernel_trans [OF same same3] v4 by simp
  moreover have "\<not> in_region (user_pa i 0x8048000) (length file) a" if "unat a < 0x400000" for a
  proof
    assume "in_region (user_pa i 0x8048000) (length file) a"
    then have "unat (a - user_pa i 0x8048000) < length file" by (simp add: in_region_def)
    from user_pa_range [OF k(3) buffer this] that show False by simp
  qed
  then have "video_kept k k'"
    using k1 change_process_eq [OF k(2,3)]
    by (simp add: video_kept_def window_frame_def k'_def k4_def k3_def k2_def save_parent_registers_def put_bytes_outside upd_pcb_def frame_simps)
  ultimately show ?thesis using run by metis
qed

lemma find_slot_spec:
  "i \<le> find_slot rs i \<and> (\<forall>j. i \<le> j \<and> j < find_slot rs i \<longrightarrow> rs ! (j - i) \<noteq> 0) \<and>
   (find_slot rs i < i + length rs \<longrightarrow> rs ! (find_slot rs i - i) = 0)"
proof (induction rs arbitrary: i)
  case Nil
  then show ?case by auto
next
  case (Cons r rs)
  note IH = Cons.IH [of "i + 1"]
  show ?case
  proof (cases "r = 0")
    case False
    have "(r # rs) ! (j - i) \<noteq> 0" if "i \<le> j" "j < find_slot rs (i + 1)" for j
      using IH that False by (cases "j = i") (auto simp: nth_Cons' Suc_le_eq)
    then show ?thesis using IH False by (auto simp: nth_Cons')
  qed simp
qed

text \<open>The slots a started process comes from: the first free one is taken.\<close>

definition takes_slot :: "nat \<Rightarrow> kernel \<Rightarrow> kernel \<Rightarrow> bool" where
  "takes_slot i k k' \<longleftrightarrow> i < length (processes_running k) \<and> processes_running k ! i = 0 \<and>
     (\<forall>j < i. processes_running k ! j \<noteq> 0) \<and> processes_running k' = (processes_running k)[i := 1]"

text \<open>State in which a program can be started.\<close>

definition can_start :: "kernel \<Rightarrow> bool" where
  "can_start k \<longleftrightarrow> tables_ok (paging k) \<and> (\<forall>a. pcb_shape (pcbs k a)) \<and> length (processes_running k) = 6 \<and>
     current_term (sched k) < length (terminals (sched k))"

lemma can_start_untouched: "untouched k k' \<Longrightarrow> can_start k' = can_start k"
  by (simp add: untouched_def can_start_def)

definition started :: "nat \<Rightarrow> kernel \<Rightarrow> kernel \<Rightarrow> bool" where
  "started i k k' \<longleftrightarrow> (let pid = of_nat (i + 1); a = pcb_of pid in
     i < 6 \<and> takes_slot i k k' \<and> runs i k' \<and> fresh_pcb pid (get_pcb_address k) (pcbs k' a) \<and>
     parent_esp (pcbs k' a) = esp k \<and> parent_ebp (pcbs k' a) = ebp k \<and> (\<forall>b. b \<noteq> a \<longrightarrow> pcbs k' b = pcbs k b) \<and>
     tss_esp0 k' = END_KMEM - pid * PCB_SIZE \<and> get_current_pid k' = pid \<and>
     other_pids_kept k k')"

lemma started_untouched: "untouched k k1 \<Longrightarrow> started i k1 k' = started i k k'"
  by (simp add: untouched_def started_def takes_slot_def get_pcb_address_def other_pids_kept_def)

lemma load_program_enters:
  assumes load: "load_program env inode n idx arr k = Some out" "out = EnterUser eip us k'"
    and k: "can_start k"
  shows "us = 0x83FFFFC" "\<exists>i. started i k k' \<and> arg_size (pcbs k' (pcb_of (of_nat (i + 1)))) = of_nat n \<and>
    copy_args arr n 0 idx (replicate 128 0) = Some (arg_arr (pcbs k' (pcb_of (of_nat (i + 1)))))"
proof -
  obtain r1 k1 where k1: "read_data_user inode 0 (stack_array env) 40 k = Some (r1, k1)"
    using load by (auto simp: load_program_def bind_eq_Some_conv)
  have exe: "r1 = 40" "is_executable (vmem k1) (stack_array env)"
    using load k1 by (auto simp: load_program_def split: if_splits)
  then obtain r2 k2 where k2: "read_data_user inode 24 (stack_array env + 40) 4 k1 = Some (r2, k2)"
    using load k1 by (auto simp: load_program_def bind_eq_Some_conv)
  have u: "untouched k k2" using untouched_trans untouched_read_data k1 k2 by blast
  define i where "i = find_slot (processes_running k2) 0"
  note spec = find_slot_spec [of 0 "processes_running k2", folded i_def]
  have ok: "can_start k2" using k can_start_untouched [OF u] by simp
  have free: "i < length (processes_running k2)"
    using load k1 k2 exe
    by (cases "i < length (processes_running k2)") (auto simp: load_program_def Let_def i_def bind_eq_Some_conv)
  let ?k = "k2\<lparr>processes_running := (processes_running k2)[i := 1]\<rparr>" and ?pid = "of_nat (i + 1) :: u32"
  have "start_process env inode ?pid n idx arr ?k = Some out"
    using load k1 k2 exe free by (simp add: load_program_def Let_def i_def)
  moreover have "i < 6" "?pid - 1 = of_nat i" using free ok by (simp_all add: can_start_def)
  ultimately obtain e k'' where "out = EnterUser e 0x83FFFFC k''" and
    e: "runs i k''" "fresh_pcb ?pid (get_pcb_address ?k) (pcbs k'' (pcb_of ?pid))"
    "parent_esp (pcbs k'' (pcb_of ?pid)) = esp ?k" "parent_ebp (pcbs k'' (pcb_of ?pid)) = ebp ?k"
    "\<forall>b. b \<noteq> pcb_of ?pid \<longrightarrow> pcbs k'' b = pcbs ?k b" "processes_running k'' = processes_running ?k"
    "tss_esp0 k'' = END_KMEM - ?pid * PCB_SIZE" "get_current_pid k'' = ?pid"
    "other_pids_kept ?k k''" "arg_size (pcbs k'' (pcb_of ?pid)) = of_nat n"
    "copy_args arr n 0 idx (replicate 128 0) = Some (arg_arr (pcbs k'' (pcb_of ?pid)))"
    using ok by (elim start_process_effect) (simp_all add: can_start_def)
  then have k'': "us = 0x83FFFFC" "k' = k''" using load(2) by simp_all
  then show "us = 0x83FFFFC" by simp
  have "get_pcb_address ?k = get_pcb_address k2" by (simp add: get_pcb_address_def)
  then have "started i k2 k'"
    using e spec free \<open>i < 6\<close> by (simp add: started_def takes_slot_def k''(2) Let_def other_pids_kept_def)
  then show "\<exists>i. started i k k' \<and> arg_size (pcbs k' (pcb_of (of_nat (i + 1)))) = of_nat n \<and>
      copy_args arr n 0 idx (replicate 128 0) = Some (arg_arr (pcbs k' (pcb_of (of_nat (i + 1)))))"
    using started_untouched [OF u] e(10,11) unfolding k''(2) by blast
qed

lemma execute_string_enters:
  assumes "execute_string env cmd k = Some (EnterUser eip us k')" "can_start k"
  shows "us = 0x83FFFFC \<and> (\<exists>i. started i k k')"
proof -
  obtain len where len: "strlen cmd = Some len" using assms by (auto simp: execute_string_def bind_eq_Some_conv)
  then have "\<not> len > of_nat 128" using assms by (auto simp: execute_string_def bind_eq_Some_conv)
  then obtain n arr buf i r1 e f where parse: "parse_command cmd = Some (n, arr, buf, i)" and
    look: "read_dentry_by_name (vmem k) (Some (arr_reader (\<lambda>_. 0) buf)) (Some (stack_dentry env)) (fs k) = Some (r1, e, f)"
    using assms len by (auto simp: execute_string_def bind_eq_Some_conv)
  then obtain d :: dentry where d: "load_program env (inode_num d) n i arr (k\<lparr>fs := f\<rparr>) = Some (EnterUser eip us k')"
    using assms len \<open>\<not> len > of_nat 128\<close> by (auto simp: execute_string_def Let_def split: option.splits if_splits)
  have u: "untouched k (k\<lparr>fs := f\<rparr>)" using lookup_fs(1) [OF look] by (rule untouched_fs)
  show ?thesis
    using load_program_enters [OF d refl] can_start_untouched [OF u] started_untouched [OF u] assms(2) by blast
qed

text \<open>[C16] When \<open>execute\<close> enters a program it has started one new process and disturbed no other: the first free
  of the six slots is taken, the process number is one more than the slot, its memory is mapped at 128 MB, its
  control block has just the two standard descriptors open and, above the three shells, the caller as parent, the
  caller's stack and base pointers are kept for the return, the kernel stack for its system calls is its own, and no
  other control block changes. The user stack starts four bytes below the end of the window.\<close>

theorem execute_starts_process:
  assumes "execute env command k = Some (EnterUser eip us k')" "can_start k"
  shows "us = 0x83FFFFC \<and> (\<exists>i. started i k k')"
  using assms execute_string_enters by (auto simp: execute_def bind_eq_Some_conv split: if_splits)

subsection \<open>The command line\<close>

lemma c_string_at:
  "c_string s xs \<Longrightarrow> i < length xs \<Longrightarrow> s (of_nat i) = xs ! i \<and> xs ! i \<noteq> 0"
  "c_string s xs \<Longrightarrow> s (of_nat (length xs)) = 0"
  by (auto simp: c_string_def in_set_conv_nth)

text \<open>The command up to its newline.\<close>

abbreviation (input) "command_line \<equiv> takeWhile (\<lambda>c :: u8. c \<noteq> 10)"

lemma takeWhile_stops:
  "n = length (takeWhile P xs) \<Longrightarrow> n < length xs \<Longrightarrow> \<not> P (xs ! n)"
  "i < length (takeWhile P xs) \<Longrightarrow> P (xs ! i) \<and> takeWhile P xs ! i = xs ! i \<and> i < length xs"
proof -
  show "n = length (takeWhile P xs) \<Longrightarrow> n < length xs \<Longrightarrow> \<not> P (xs ! n)"
    using nth_length_takeWhile [of P xs] by simp
  assume i: "i < length (takeWhile P xs)"
  then have "takeWhile P xs ! i \<in> set (takeWhile P xs)" by (rule nth_mem)
  then show "P (xs ! i) \<and> takeWhile P xs ! i = xs ! i \<and> i < length xs"
    using i takeWhile_nth [OF i] length_takeWhile_le [of P xs] set_takeWhileD by fastforce
qed

lemma copy_command_line:
  assumes "c_string cmd xs" "length (command_line xs) \<le> 128" "n \<le> length (command_line xs)"
  shows "copy_command cmd n (take n xs @ replicate (128 - n) 0) =
    Some (length (command_line xs), command_line xs @ replicate (128 - length (command_line xs)) 0)"
  using assms(3)
proof (induction "length (command_line xs) - n" arbitrary: n)
  case 0
  then have n: "n = length (command_line xs)" by simp
  have line: "command_line xs = take n xs" unfolding n by (rule takeWhile_eq_take)
  have "cmd (of_nat n) = 10 \<or> cmd (of_nat n) = 0"
    using takeWhile_stops(1) [OF n] c_string_at [OF assms(1)] n length_takeWhile_le [of "\<lambda>c. c \<noteq> 10" xs]
    by (cases "n < length xs") auto
  then have "copy_command cmd n (take n xs @ replicate (128 - n) 0) = Some (n, take n xs @ replicate (128 - n) 0)"
    by (subst copy_command.simps) auto
  moreover have "length (take n xs) = n" using n line by metis
  ultimately show ?case unfolding line by metis
next
  case (Suc m)
  then have n: "n < length (command_line xs)" by simp
  from takeWhile_stops(2) [OF n] have "xs ! n \<noteq> 10" "n < length xs" by auto
  then have c: "cmd (of_nat n) = xs ! n" "xs ! n \<noteq> 0" "xs ! n \<noteq> 10" using c_string_at [OF assms(1)] by auto
  have "(take n xs @ replicate (128 - n) 0)[n := xs ! n] = take (n + 1) xs @ replicate (128 - (n + 1)) 0"
    using n assms(2) \<open>n < length xs\<close>
    by (simp add: list_update_append take_Suc_conv_app_nth Suc_diff_Suc [symmetric] del: replicate.simps)
      (simp add: Suc_diff_Suc [symmetric])
  moreover have "copy_command cmd (n + 1) (take (n + 1) xs @ replicate (128 - (n + 1)) 0) =
      Some (length (command_line xs), command_line xs @ replicate (128 - length (command_line xs)) 0)"
    using Suc by (intro Suc.hyps) simp_all
  ultimately show ?case using c n assms(2) \<open>n < length xs\<close> by (subst copy_command.simps) simp
qed

lemma skip_spaces_run:
  assumes "c_string cmd xs" "n \<le> length (takeWhile (\<lambda>c. c = 32) xs)"
  shows "skip_spaces cmd (of_nat n) = Some (of_nat (length (takeWhile (\<lambda>c. c = 32) xs)))"
  using assms(2)
proof (induction "length (takeWhile (\<lambda>c. c = 32) xs) - n" arbitrary: n)
  case 0
  then have n: "n = length (takeWhile (\<lambda>c. c = 32) xs)" by simp
  have "cmd (of_nat n) \<noteq> 32"
    using takeWhile_stops(1) [OF n] c_string_at [OF assms(1)] n length_takeWhile_le [of "\<lambda>c. c = 32" xs]
    by (cases "n < length xs") auto
  then show ?case by (subst skip_spaces.simps) (simp add: n)
next
  case (Suc m)
  then have n: "n < length (takeWhile (\<lambda>c. c = 32) xs)" by simp
  from takeWhile_stops(2) [OF this] have "xs ! n = 32" "n < length xs" by auto
  then have c: "cmd (of_nat n) = 32" using c_string_at [OF assms(1)] by auto
  have "length xs < 4294967296" using assms(1) by (simp add: c_string_def)
  then have "unat (of_nat (n + 1) :: u32) = n + 1" using \<open>n < length xs\<close> by (intro unat_of_nat_u32) simp
  then have "(of_nat (n + 1) :: u32) \<noteq> 0" by (metis add_is_0 one_neq_zero unat_0)
  then have "(of_nat n + 1 :: u32) \<noteq> 0" by (simp add: add.commute)
  then show ?case using c Suc.hyps(1) [of "n + 1"] Suc.hyps(2) n by (subst skip_spaces.simps) (simp add: add.commute)
qed

lemma parse_name_run:
  assumes "c_string cmd xs" "i \<le> length xs" "length buf + length (takeWhile (\<lambda>c. \<not> ends_name c) (drop i xs)) \<le> 128"
  shows "parse_name cmd (of_nat i) buf = Some (buf @ takeWhile (\<lambda>c. \<not> ends_name c) (drop i xs))"
  using assms(2,3)
proof (induction "length xs - i" arbitrary: i buf)
  case 0
  then have "i = length xs" by simp
  then show ?case using c_string_at(2) [OF assms(1)] by (subst parse_name.simps) (simp add: ends_name_def)
next
  case (Suc m)
  then have i: "i < length xs" by simp
  then have c: "cmd (of_nat i) = xs ! i" and drop: "drop i xs = xs ! i # drop (i + 1) xs"
    using c_string_at(1) [OF assms(1)] by (simp_all add: Cons_nth_drop_Suc)
  show ?case
  proof (cases "ends_name (xs ! i)")
    case True
    then show ?thesis by (subst parse_name.simps) (simp add: c drop)
  next
    case False
    then have "length (buf @ [xs ! i]) + length (takeWhile (\<lambda>c. \<not> ends_name c) (drop (i + 1) xs)) \<le> 128"
      using Suc.prems(2) by (simp add: drop)
    then have "parse_name cmd (of_nat (i + 1)) (buf @ [xs ! i]) =
        Some ((buf @ [xs ! i]) @ takeWhile (\<lambda>c. \<not> ends_name c) (drop (i + 1) xs))"
      using Suc i by (intro Suc.hyps) simp_all
    then show ?thesis using False Suc.prems(2) by (subst parse_name.simps) (simp add: c drop add.commute)
  qed
qed

lemma copy_args_run:
  assumes "sz \<le> length arr" "\<forall>j < sz. arr ! j \<noteq> 0" "sz \<le> 128" "n + i = m" "i \<le> m" "m \<le> sz"
  shows "copy_args arr sz i m (take i (drop n arr) @ replicate (128 - i) 0) =
    Some (take (sz - n) (drop n arr) @ replicate (128 - (sz - n)) 0)"
  using assms(4-6)
proof (induction "sz - m" arbitrary: i m)
  case 0
  then have "m = sz" "i = sz - n" by simp_all
  then show ?case by (subst copy_args.simps) simp
next
  case (Suc d)
  then have m: "m < sz" by simp
  then have i: "i < 128 - n" using Suc.prems assms(3) by simp
  have at: "drop n arr ! i = arr ! m" "i < length (drop n arr)" using Suc.prems m assms(1) by auto
  have "(take i (drop n arr) @ replicate (128 - i) 0)[i := arr ! m] = take (i + 1) (drop n arr) @ replicate (128 - (i + 1)) 0"
    using i at by (simp add: list_update_append take_Suc_conv_app_nth Suc_diff_Suc [symmetric] del: replicate.simps drop_drop)
      (simp add: Suc_diff_Suc [symmetric])
  moreover have "copy_args arr sz (i + 1) (m + 1) (take (i + 1) (drop n arr) @ replicate (128 - (i + 1)) 0) =
      Some (take (sz - n) (drop n arr) @ replicate (128 - (sz - n)) 0)"
    using Suc m by (intro Suc.hyps) simp_all
  ultimately show ?case using m assms(1,2) i at by (subst copy_args.simps) simp
qed

text \<open>The file name and the arguments of a command: the first word after the spaces, and what follows the
  first \<open>length name + 1\<close> characters of the line, leading spaces counted.\<close>

definition command_name :: "u8 list \<Rightarrow> u8 list" where
  "command_name xs = takeWhile (\<lambda>c. \<not> ends_name c) (dropWhile (\<lambda>c. c = 32) xs)"

definition command_args :: "u8 list \<Rightarrow> u8 list" where
  "command_args xs = drop (length (command_name xs) + 1) (command_line xs)"

lemma takeWhile_longer: "(\<And>x. P x \<Longrightarrow> Q x) \<Longrightarrow> length (takeWhile P xs) \<le> length (takeWhile Q xs)"
  by (induction xs) auto

lemma command_name_length: "length (command_name xs) \<le> length (command_line xs)"
proof (induction xs)
  case (Cons x xs)
  have "length (takeWhile (\<lambda>c. \<not> ends_name c) (x # xs)) \<le> length (command_line (x # xs))"
    by (rule takeWhile_longer) (simp add: ends_name_def)
  then show ?case using Cons by (cases "x = 32") (simp_all add: command_name_def)
qed (simp add: command_name_def)

lemma parse_command_line:
  assumes "c_string cmd xs" "length (command_line xs) \<le> 126"
  shows "parse_command cmd = Some (length (command_line xs),
      command_line xs @ replicate (128 - length (command_line xs)) 0, command_name xs @ [0], length (command_name xs) + 1)"
proof -
  let ?l = "command_line xs" and ?s = "length (takeWhile (\<lambda>c. c = 32) xs)"
  have copy: "copy_command cmd 0 (replicate 128 0) = Some (length ?l, ?l @ replicate (128 - length ?l) 0)"
    using copy_command_line [OF assms(1), of 0] assms(2) by simp
  have upd: "(?l @ replicate (128 - length ?l) 0)[length ?l + 1 := 0] = ?l @ replicate (128 - length ?l) 0"
    using assms(2) by (simp add: list_update_append list_update_same_conv)
  have skip: "skip_spaces cmd 0 = Some (of_nat ?s)" using skip_spaces_run [OF assms(1), of 0] by simp
  have drop: "drop ?s xs = dropWhile (\<lambda>c. c = 32) xs" by (simp add: dropWhile_eq_drop)
  have len: "length (command_name xs) \<le> 126" using command_name_length [of xs] assms(2) by simp
  then have "parse_name cmd (of_nat ?s) [] = Some (command_name xs)"
    using parse_name_run [OF assms(1), of ?s "[]"] length_takeWhile_le [of "\<lambda>c. c = 32" xs]
    by (simp add: drop command_name_def)
  then show ?thesis using copy upd skip len assms(2) by (simp add: parse_command_def)
qed

lemma args_copied:
  assumes "c_string cmd xs" "length (command_line xs) \<le> 126"
  shows "copy_args (command_line xs @ replicate (128 - length (command_line xs)) 0) (length (command_line xs)) 0
      (length (command_name xs) + 1) (replicate 128 0) =
    Some (command_args xs @ replicate (128 - length (command_args xs)) 0)"
proof -
  let ?l = "command_line xs" and ?n = "length (command_name xs) + 1"
  let ?arr = "?l @ replicate (128 - length ?l) 0"
  have nz: "\<forall>j < length ?l. ?arr ! j \<noteq> 0"
    using takeWhile_stops(2) [of _ "\<lambda>c. c \<noteq> 10" xs] c_string_at(1) [OF assms(1)] by (auto simp: nth_append)
  show ?thesis
  proof (cases "?n \<le> length ?l")
    case True
    then have "take (length ?l - ?n) (drop ?n ?arr) = command_args xs" by (simp add: command_args_def)
    moreover have "length (command_args xs) = length ?l - ?n" by (simp add: command_args_def)
    ultimately show ?thesis
      using copy_args_run [of "length ?l" ?arr ?n 0 ?n] nz assms(2) True by simp
  next
    case False
    then have "command_args xs = []" by (simp add: command_args_def)
    then show ?thesis using False by (subst copy_args.simps) simp
  qed
qed

text \<open>Kernel memory is the same outside a region.\<close>

definition same_kernel_but :: "u32 \<Rightarrow> nat \<Rightarrow> mem \<Rightarrow> mem \<Rightarrow> bool" where
  "same_kernel_but s n m m' \<longleftrightarrow> (\<forall>a. 0x400000 \<le> unat a \<and> unat a < 0x800000 \<and> \<not> in_region s n a \<longrightarrow> m' a = m a)"

text \<open>A program file of the image that can be started: a loaded executable that fits into the window, with
  the local arrays of \<open>execute\<close> on the kernel's stack and not in the image.\<close>

definition program_ok :: "environment \<Rightarrow> kernel \<Rightarrow> u32 \<Rightarrow> bool" where
  "program_ok env k inode \<longleftrightarrow> (let bs = file_bytes (vmem k) (fs k) inode in
     file_ok (vmem k) (fs k) inode \<and> 40 \<le> length bs \<and> length bs \<le> 0x3B8000 \<and>
     take 4 bs = [0x7F, 0x45, 0x4C, 0x46] \<and> kernel_area (stack_array env) 44 \<and>
     (\<forall>a. in_region (stack_array env) 44 a \<longrightarrow> \<not> in_image (vmem k) (fs k) inode a))"

lemma file_ok_counts:
  assumes "boot_block_addr f = boot_block_addr g"
  shows "file_bytes m f inode = file_bytes m g inode" "file_ok m f inode = file_ok m g inode"
    "in_image m f inode = in_image m g inode" "file_size m f inode = file_size m g inode"
  using assms by (simp_all add: file_bytes_def file_ok_def in_image_def data_start_def file_size_def fun_eq_iff)

lemma load_program_succeeds:
  assumes k: "can_start k" "0 \<in> set (processes_running k)" and prog: "program_ok env k inode"
    and args: "copy_args arr n 0 idx (replicate 128 0) = Some args"
  defines "bs \<equiv> file_bytes (vmem k) (fs k) inode"
  shows "\<exists>k'. load_program env inode n idx arr k = Some (EnterUser (bytes_word bs 24) 0x83FFFFC k') \<and>
    (\<forall>j < length bs. user_load (0x8048000 + of_nat j) k' = Some (bs ! j)) \<and>
    same_kernel_but (stack_array env) 44 (vmem k) (vmem k') \<and> video_kept k k'"
proof -
  let ?s = "stack_array env"
  note p = prog [unfolded program_ok_def Let_def, folded bs_def]
  have t: "tables_ok (paging k)" using k(1) by (simp add: can_start_def)
  have size: "length bs = file_size (vmem k) (fs k) inode" by (simp add: bs_def)
  have in40: "in_region ?s 44 a" if "in_region ?s 40 a" for a using that by (rule in_region_mono) simp
  have ok: "file_ok (vmem k) (fs k) inode" using p by blast
  have n0: "40 = min (unat (40 :: u32)) (file_size (vmem k) (fs k) inode - unat (0 :: u32))"
    "unat (0 :: u32) \<le> file_size (vmem k) (fs k) inode" using p size by simp_all
  have area0: "kernel_area ?s 40" using p by (simp add: kernel_area_def)
  have apart0: "\<not> in_image (vmem k) (fs k) inode a" if "in_region ?s 40 a" for a using in40 [OF that] p by blast
  from read_data_user_kernel [OF t ok area0 apart0 n0, folded bs_def]
  obtain k1 where k1: "read_data_user inode 0 ?s 40 k = Some (of_nat 40, k1)"
    "k1 = k\<lparr>fs := read_counts (vmem k) (fs k), phys := put_bytes (phys k) ?s (take 40 (drop (unat (0 :: u32)) bs))\<rparr>"
    "same_image (vmem k) (vmem k1) (fs k) inode"
    "\<forall>i < 40. vmem k1 (?s + of_nat i) = bs ! (unat (0 :: u32) + i)"
    "\<forall>a. 0x400000 \<le> unat a \<and> unat a < 0x800000 \<and> \<not> in_region ?s 40 a \<longrightarrow> vmem k1 a = vmem k a"
    by auto
  have magic: "is_executable (vmem k1) ?s"
  proof -
    have "bs ! i = [0x7F, 0x45, 0x4C, 0x46] ! i" if "i < 4" for i
      using p that by (metis nth_take)
    from this [of 0] this [of 1] this [of 2] this [of 3] k1(4) [rule_format, of 0] k1(4) [rule_format, of 1]
      k1(4) [rule_format, of 2] k1(4) [rule_format, of 3]
    show ?thesis by (simp add: is_executable_def flip: numeral_2_eq_2)
  qed
  have t1: "tables_ok (paging k1)" using t by (simp add: k1(2))
  have fs1: "fs k1 = read_counts (vmem k) (fs k)" by (simp add: k1(2))
  note kept1 = file_kept_image [OF k1(3) ok]
  have "unat (?s + 40) = unat ?s + 40" using p unat_add_small [of ?s 40] by (simp add: kernel_area_def)
  then have area: "kernel_area (?s + 40) 4" using p by (simp add: kernel_area_def)
  have apart1: "\<not> in_image (vmem k1) (fs k1) inode a" if "in_region (?s + 40) 4 a" for a
  proof -
    have "in_region ?s 44 a" using that in_region_sub [of ?s 40 4 a 44] by simp
    moreover have "in_image (vmem k1) (fs k1) inode = in_image (vmem k) (fs k) inode"
      using file_ok_counts(3) [of "fs k1" "fs k"] kept1(4) by (simp add: fs1)
    ultimately show ?thesis using p by simp
  qed
  have size1: "file_bytes (vmem k1) (fs k1) inode = bs" "file_ok (vmem k1) (fs k1) inode"
    using kept1 by (simp_all add: fs1 bs_def)
  then have size2: "file_size (vmem k1) (fs k1) inode = length bs" by (metis length_file_bytes)
  have "40 \<le> length bs" using p by blast
  then have "4 \<le> length bs - 24" "24 \<le> length bs" by linarith+
  then have "4 = min (unat (4 :: u32)) (file_size (vmem k1) (fs k1) inode - unat (24 :: u32))"
    "unat (24 :: u32) \<le> file_size (vmem k1) (fs k1) inode" by (simp_all add: min_def size2)
  from read_data_user_kernel [OF t1 size1(2) area apart1 this]
  obtain k2 where k2: "read_data_user inode 24 (?s + 40) 4 k1 = Some (of_nat 4, k2)"
    "k2 = k1\<lparr>fs := read_counts (vmem k1) (fs k1), phys := put_bytes (phys k1) (?s + 40) (take 4 (drop (unat (24 :: u32)) bs))\<rparr>"
    "same_image (vmem k1) (vmem k2) (fs k1) inode"
    "\<forall>i < 4. vmem k2 (?s + 40 + of_nat i) = bs ! (unat (24 :: u32) + i)"
    "\<forall>a. 0x400000 \<le> unat a \<and> unat a < 0x800000 \<and> \<not> in_region (?s + 40) 4 a \<longrightarrow> vmem k2 a = vmem k1 a"
    unfolding size1(1) by auto
  note kept2 = file_kept_image [OF k2(3) size1(2)]
  have bytes2: "file_bytes (vmem k2) (fs k2) inode = bs" "file_ok (vmem k2) (fs k2) inode"
    using kept2 size1 by (simp_all add: k2(2))
  have entry: "load32 (vmem k2) (?s + 40) = bytes_word bs 24"
    using k2(4) [rule_format, of 0] k2(4) [rule_format, of 1] k2(4) [rule_format, of 2] k2(4) [rule_format, of 3]
      \<open>40 \<le> length bs\<close>
    by (simp add: load32_def bytes_word_def arr_reader_def)
  define i where "i = find_slot (processes_running k) 0"
  have same_slots: "processes_running k2 = processes_running k" by (simp add: k2(2) k1(2))
  have "i < length (processes_running k)"
  proof (rule ccontr)
    assume "\<not> i < length (processes_running k)"
    then have "\<forall>j < length (processes_running k). processes_running k ! j \<noteq> 0"
      using find_slot_spec [of 0 "processes_running k", folded i_def] by auto
    then show False using k(2) by (auto simp: in_set_conv_nth)
  qed
  then have i: "i < 6" "i < length (processes_running k)" using k(1) by (simp_all add: can_start_def)
  let ?k = "k2\<lparr>processes_running := (processes_running k2)[i := 1]\<rparr>" and ?pid = "of_nat (i + 1) :: u32"
  have v: "vmem ?k = vmem k2" by (rule vmem_eq) simp_all
  have "\<exists>k'. start_process env inode ?pid n idx arr ?k =
      Some (EnterUser (load32 (vmem ?k) (?s + 40)) 0x83FFFFC k') \<and>
    (\<forall>j < length bs. user_load (0x8048000 + of_nat j) k' = Some (bs ! j)) \<and> same_kernel (vmem ?k) (vmem k') \<and> video_kept ?k k'"
    by (rule start_process_succeeds [OF _ _ i(1) _ _ _ area args])
      (use t bytes2 p v in \<open>simp_all add: k2(2) k1(2)\<close>)
  then obtain k' where "start_process env inode ?pid n idx arr ?k = Some (EnterUser (bytes_word bs 24) 0x83FFFFC k')"
    "\<forall>j < length bs. user_load (0x8048000 + of_nat j) k' = Some (bs ! j)" "same_kernel (vmem k2) (vmem k')" "video_kept ?k k'"
    unfolding v entry by blast
  moreover have "video_kept k k'"
  proof -
    have "video_kept k k1" unfolding k1(2) by (rule video_kept_phys [OF area0]) simp
    moreover have "video_kept k1 k2" unfolding k2(2) by (rule video_kept_phys [OF area]) simp
    moreover have "video_kept k2 ?k" by (simp add: video_kept_def window_frame_def)
    ultimately show ?thesis using \<open>video_kept ?k k'\<close> video_kept_trans by metis
  qed
  moreover have "same_kernel_but ?s 44 (vmem k) (vmem k')"
    unfolding same_kernel_but_def
  proof (intro allI impI)
    fix a assume a: "0x400000 \<le> unat a \<and> unat a < 0x800000 \<and> \<not> in_region ?s 44 a"
    have "in_region (?s + 40) 4 a \<Longrightarrow> in_region ?s 44 a" using in_region_sub [of ?s 40 4 a 44] by simp
    then have "\<not> in_region ?s 40 a" "\<not> in_region (?s + 40) 4 a" using a in40 by blast+
    with a k1(5) k2(5) calculation(3) show "vmem k' a = vmem k a" by (simp add: same_kernel_def)
  qed
  ultimately show ?thesis
    using k1(1) k2(1) magic i(2) by (simp add: load_program_def same_slots i_def [symmetric] Let_def)
qed

text \<open>The argument buffer of a control block holds the arguments of the command, ended by a NUL.\<close>

definition has_args :: "u8 list \<Rightarrow> pcb \<Rightarrow> bool" where
  "has_args xs p \<longleftrightarrow> arg_size p = of_nat (length (command_line xs)) \<and>
     arg_arr p = command_args xs @ replicate (128 - length (command_args xs)) 0"

lemma execute_string_runs:
  assumes k: "can_start k" "0 \<in> set (processes_running k)"
    and cmd: "c_string cmd xs" "length xs \<le> 128" "length (command_line xs) \<le> 126"
    and look: "read_dentry_by_name (vmem k) (Some (arr_reader (\<lambda>_. 0) (command_name xs @ [0])))
      (Some (stack_dentry env)) (fs k) = Some (r, Some d, f)" "r \<noteq> -1"
    and prog: "program_ok env k (inode_num d)"
  defines "bs \<equiv> file_bytes (vmem k) (fs k) (inode_num d)"
  shows "\<exists>i k'. execute_string env cmd k = Some (EnterUser (bytes_word bs 24) 0x83FFFFC k') \<and> started i k k' \<and>
    (\<forall>j < length bs. user_load (0x8048000 + of_nat j) k' = Some (bs ! j)) \<and>
    has_args xs (pcbs k' (pcb_of (of_nat (i + 1)))) \<and> same_kernel_but (stack_array env) 44 (vmem k) (vmem k') \<and>
    video_kept k k'"
proof -
  have len: "strlen cmd = Some (of_nat (length xs))" using strlen_Some_iff cmd(1) by auto
  have short: "\<not> (of_nat (length xs) :: u32) > of_nat 128"
    using cmd(2) by (simp add: word_less_nat_alt unat_of_nat_u32)
  let ?k = "k\<lparr>fs := f\<rparr>"
  have bb: "boot_block_addr f = boot_block_addr (fs k)" using lookup_fs(1) [OF look(1)] .
  note same = file_ok_counts [OF bb]
  have v: "vmem ?k = vmem k" by (rule vmem_eq) simp_all
  have ready: "can_start ?k" "0 \<in> set (processes_running ?k)" "program_ok env ?k (inode_num d)"
    using k prog by (simp_all add: can_start_def program_ok_def v same)
  from load_program_succeeds [OF ready args_copied [OF cmd(1,3)]] obtain k' where
    k': "load_program env (inode_num d) (length (command_line xs)) (length (command_name xs) + 1)
        (command_line xs @ replicate (128 - length (command_line xs)) 0) ?k = Some (EnterUser (bytes_word bs 24) 0x83FFFFC k')"
    "\<forall>j < length bs. user_load (0x8048000 + of_nat j) k' = Some (bs ! j)"
    "same_kernel_but (stack_array env) 44 (vmem k) (vmem k')" "video_kept k k'"
    unfolding v bs_def by (auto simp: same video_kept_def window_frame_def)
  have run: "execute_string env cmd k = Some (EnterUser (bytes_word bs 24) 0x83FFFFC k')"
    using len short parse_command_line [OF cmd(1,3)] look k'(1) by (simp add: execute_string_def Let_def)
  have u: "untouched k ?k" using bb by (rule untouched_fs)
  from load_program_enters(2) [OF k'(1) refl ready(1)] args_copied [OF cmd(1,3)] obtain i where
    "started i ?k k'" "has_args xs (pcbs k' (pcb_of (of_nat (i + 1))))" by (auto simp: has_args_def)
  then show ?thesis using run k'(2-4) started_untouched [OF u] by blast
qed

text \<open>[C4] Running a command: with a free process slot and a line of at most 126 characters whose first word names
  an executable of the image that fits the window, \<open>execute\<close> never fails and does not return: it enters the program
  at the entry point in bytes 24 to 27 of the file, every byte of the file is at its place from 0x8048000 on,
  a process is started, and its argument buffer holds the rest of the line.\<close>

theorem execute_runs_command:
  assumes k: "can_start k" "0 \<in> set (processes_running k)"
    and cmd: "command \<noteq> 0" "string_at command k = Some cmd" "c_string cmd xs" "length xs \<le> 128"
      "length (command_line xs) \<le> 126"
    and look: "read_dentry_by_name (vmem k) (Some (arr_reader (\<lambda>_. 0) (command_name xs @ [0])))
      (Some (stack_dentry env)) (fs k) = Some (r, Some d, f)" "r \<noteq> -1"
    and prog: "program_ok env k (inode_num d)"
  defines "bs \<equiv> file_bytes (vmem k) (fs k) (inode_num d)"
  shows "\<exists>i k'. execute env command k = Some (EnterUser (bytes_word bs 24) 0x83FFFFC k') \<and> started i k k' \<and>
    (\<forall>j < length bs. user_load (0x8048000 + of_nat j) k' = Some (bs ! j)) \<and>
    has_args xs (pcbs k' (pcb_of (of_nat (i + 1))))"
  using execute_string_runs [OF k cmd(3-5) look prog, folded bs_def] cmd(1,2) by (auto simp: execute_def)

end
