(* ===== verification/Switching.thy ===== *)
theory Switching imports Execution begin

text \<open>
  Ending and switching processes: where control blocks lie, what \<open>halt\<close> gives back to the process that
  called \<open>execute\<close> and the round robin of the scheduler.
\<close>

subsection \<open>Kernel stacks and control blocks\<close>

definition kernel_stack :: "u32 \<Rightarrow> kernel \<Rightarrow> bool" where
  "kernel_stack pid k \<longleftrightarrow> unat (pcb_of pid) \<le> unat (esp k) \<and> unat (esp k) < unat (pcb_of pid) + 0x2000"

lemma and_page:
  assumes "unat w < 0x1000000"
  shows "unat (w AND 0xFFE000 :: u32) = unat w - unat w mod 0x2000"
proof -
  have masks: "(0x1FFF :: u32) = mask 13" "(0xFFFFFF :: u32) = mask 24" by (simp_all add: mask_eq_exp_minus_1)
  have low: "unat (w AND 0x1FFF) = unat w mod 0x2000"
    unfolding masks by (simp flip: take_bit_eq_mask add: unsigned_take_bit_eq) (simp add: take_bit_eq_mod)
  have "unat (w AND 0xFFFFFF) = unat w"
    unfolding masks using assms by (simp flip: take_bit_eq_mask add: unsigned_take_bit_eq) (simp add: take_bit_eq_mod)
  then have all: "w AND 0xFFFFFF = w" by (simp add: word_unat_eq_iff)
  have "(w AND 0xFFE000) OR (w AND 0x1FFF) = w AND 0xFFFFFF" by (simp flip: bit.conj_disj_distrib)
  moreover have "(w AND 0xFFE000) OR (w AND 0x1FFF) = (w AND 0xFFE000) + (w AND 0x1FFF)"
    by (rule or_disjoint_add) (simp add: ac_simps flip: and.assoc)
  ultimately have "w AND 0xFFE000 = w - (w AND 0x1FFF)" using all by (metis add_diff_cancel_right')
  moreover have "w AND 0x1FFF \<le> w" by (simp add: word_le_nat_alt low)
  ultimately show ?thesis using low by (simp add: unat_sub)
qed

lemma pcb_of_pid:
  assumes "p < 6"
  shows "unat (pcb_of (of_nat (p + 1))) = 0x800000 - (p + 2) * 0x2000" "pid_of (pcb_of (of_nat (p + 1))) = of_nat (p + 1)"
proof -
  consider "p = 0" | "p = 1" | "p = 2" | "p = 3" | "p = 4" | "p = 5" using assms by linarith
  then show "unat (pcb_of (of_nat (p + 1))) = 0x800000 - (p + 2) * 0x2000"
    "pid_of (pcb_of (of_nat (p + 1))) = of_nat (p + 1)"
    by (cases; simp add: pcb_of_def pid_of_def)+
qed

lemma stack_pcb:
  assumes "p < 6" "kernel_stack (of_nat (p + 1)) k"
  shows "get_pcb_address k = pcb_of (of_nat (p + 1))"
proof -
  let ?b = "0x800000 - (p + 2) * 0x2000"
  have e: "?b \<le> unat (esp k)" "unat (esp k) < ?b + 0x2000"
    using assms(2) pcb_of_pid(1) [OF assms(1)] by (simp_all add: kernel_stack_def)
  have "?b = 0x2000 * (1022 - p)" using assms(1) by simp
  then have "unat (esp k) mod 0x2000 = unat (esp k) - ?b"
    using e by (metis add_diff_inverse_nat mod_less mod_mult_self2 add.commute less_diff_conv2 not_le)
  then have "unat (get_pcb_address k) = unat (pcb_of (of_nat (p + 1)))"
    using and_page [of "esp k"] e pcb_of_pid(1) [OF assms(1)] assms(1) by (simp add: get_pcb_address_def)
  then show ?thesis by (simp add: word_unat_eq_iff)
qed

subsection \<open>\<open>halt\<close>\<close>

text \<open>Closing changes the descriptors of the running process and the file system's counters.\<close>

definition fds_changed :: "u32 \<Rightarrow> file_desc list \<Rightarrow> fs_state \<Rightarrow> kernel \<Rightarrow> kernel" where
  "fds_changed a ds f k = (upd_pcb a (\<lambda>p. p\<lparr>fd_array := ds\<rparr>) k)\<lparr>fs := f\<rparr>"

lemma fds_changed_simps [simp]:
  "pcbs (fds_changed a ds f k) a = (pcbs k a)\<lparr>fd_array := ds\<rparr>"
  "b \<noteq> a \<Longrightarrow> pcbs (fds_changed a ds f k) b = pcbs k b"
  "get_pcb_address (fds_changed a ds f k) = get_pcb_address k" "paging (fds_changed a ds f k) = paging k"
  "phys (fds_changed a ds f k) = phys k" "processes_running (fds_changed a ds f k) = processes_running k"
  "sched (fds_changed a ds f k) = sched k"
  "fds_changed a ds' f' (fds_changed a ds f k) = fds_changed a ds' f' k"
  by (simp_all add: fds_changed_def upd_pcb_def get_pcb_address_def)

lemma fds_changed_same: "fds_changed a (fd_array (pcbs k a)) (fs k) k = k"
  by (simp add: fds_changed_def upd_pcb_def)

lemma sys_close_changes:
  assumes ok: "pcb_ok (pcbs k (get_pcb_address k))" and a: "get_pcb_address k \<noteq> 0"
  obtains r ds f where "sys_close fd k = Some (r, fds_changed (get_pcb_address k) ds f k)"
    "pcb_ok ((pcbs k (get_pcb_address k))\<lparr>fd_array := ds\<rparr>)"
    "\<forall>j < 8. fd_flags (ds ! j) ! 0 = 1 \<longrightarrow> fd_flags (fd_array (pcbs k (get_pcb_address k)) ! j) ! 0 = 1 \<and>
       (2 \<le> j \<longrightarrow> fd \<noteq> of_nat j)"
proof -
  let ?a = "get_pcb_address k"
  have len: "length (fd_array (pcbs k ?a)) = 8" using ok by (simp add: pcb_ok_def)
  show thesis
  proof (rule sys_close_cases [OF ok a, of fd])
    assume c: "sys_close fd k = Some (-1, k)"
      "\<not> (2 \<le> sint fd \<and> sint fd \<le> 7 \<and> fd_flags (fd_array (pcbs k ?a) ! unat fd) ! 0 \<noteq> 0)"
    have "fd \<noteq> of_nat j" if "2 \<le> j" "j < 8" "fd_flags (fd_array (pcbs k ?a) ! j) ! 0 = 1" for j
      using c(2) that sint_fd [OF that(2)] by auto
    then show thesis
      using that [of "-1" "fd_array (pcbs k ?a)" "fs k"] c(1) ok by (simp add: fds_changed_same)
  next
    fix i f
    assume i: "fd = of_nat i" "2 \<le> i" "i < 8"
      "sys_close fd k = Some (0, upd_pcb ?a (upd_fd i closed) (k\<lparr>fs := f\<rparr>))"
    let ?ds = "fd_array (upd_fd i closed (pcbs k ?a))"
    have p: "(pcbs k ?a)\<lparr>fd_array := ?ds\<rparr> = upd_fd i closed (pcbs k ?a)" by (simp add: upd_fd_def)
    have eq: "upd_pcb ?a (upd_fd i closed) (k\<lparr>fs := f\<rparr>) = fds_changed ?a ?ds f k"
      by (simp add: fds_changed_def upd_pcb_def p)
    note closed = handle_close_ok [OF ok i(2,3)]
    have inj: "of_nat i \<noteq> (of_nat j :: i32)" if "j \<noteq> i" "j < 8" for j
    proof -
      have "unat (of_nat i :: i32) = i" "unat (of_nat j :: i32) = j" using that i(3) by simp_all
      then show ?thesis using that(1) by metis
    qed
    show thesis
      by (rule that [of 0 ?ds f]) (use i closed eq p len inj in \<open>auto simp: i(1)\<close>)
  qed
qed

lemma close_all_changes:
  assumes "pcb_ok (pcbs k a)" "get_pcb_address k = a" "a \<noteq> 0" "\<forall>i \<in> set is. i < 8"
  shows "\<exists>ds f. close_all a is k = Some (fds_changed a ds f k) \<and> pcb_ok ((pcbs k a)\<lparr>fd_array := ds\<rparr>) \<and>
    (\<forall>j < 8. fd_flags (ds ! j) ! 0 = 1 \<longrightarrow> fd_flags (fd_array (pcbs k a) ! j) ! 0 = 1 \<and> (2 \<le> j \<longrightarrow> j \<notin> set is))"
  using assms
proof (induction "is" arbitrary: k)
  case Nil
  then show ?case by (intro exI [of _ "fd_array (pcbs k a)"] exI [of _ "fs k"]) (simp add: fds_changed_same)
next
  case (Cons i js)
  show ?case
  proof (cases "fd_flags (fd_array (pcbs k a) ! i) ! 0 = 1")
    case False
    then show ?thesis using Cons.IH [OF Cons.prems(1-3)] Cons.prems(4) by auto
  next
    case True
    obtain r ds f where close: "sys_close (of_nat i) k = Some (r, fds_changed a ds f k)"
      "pcb_ok ((pcbs k a)\<lparr>fd_array := ds\<rparr>)"
      "\<forall>j < 8. fd_flags (ds ! j) ! 0 = 1 \<longrightarrow> fd_flags (fd_array (pcbs k a) ! j) ! 0 = 1 \<and> (2 \<le> j \<longrightarrow> (of_nat i :: i32) \<noteq> of_nat j)"
      using sys_close_changes [of k "of_nat i"] Cons.prems(1-3) by metis
    let ?k = "fds_changed a ds f k"
    have "\<exists>ds' f'. close_all a js ?k = Some (fds_changed a ds' f' ?k) \<and> pcb_ok ((pcbs ?k a)\<lparr>fd_array := ds'\<rparr>) \<and>
      (\<forall>j < 8. fd_flags (ds' ! j) ! 0 = 1 \<longrightarrow> fd_flags (fd_array (pcbs ?k a) ! j) ! 0 = 1 \<and> (2 \<le> j \<longrightarrow> j \<notin> set js))"
      by (rule Cons.IH) (use Cons.prems close(2) in simp_all)
    then obtain ds' f' where rest: "close_all a js ?k = Some (fds_changed a ds' f' k)"
      "pcb_ok ((pcbs k a)\<lparr>fd_array := ds'\<rparr>)"
      "\<forall>j < 8. fd_flags (ds' ! j) ! 0 = 1 \<longrightarrow> fd_flags (ds ! j) ! 0 = 1 \<and> (2 \<le> j \<longrightarrow> j \<notin> set js)" by auto
    have "close_all a (i # js) k = Some (fds_changed a ds' f' k)" using True close(1) rest(1) by simp
    moreover have "\<forall>j < 8. fd_flags (ds' ! j) ! 0 = 1 \<longrightarrow>
        fd_flags (fd_array (pcbs k a) ! j) ! 0 = 1 \<and> (2 \<le> j \<longrightarrow> j \<notin> set (i # js))"
      using rest(3) close(3) by auto
    ultimately show ?thesis using rest(2) by blast
  qed
qed

text \<open>Process \<open>c + 1\<close>, started by process \<open>p + 1\<close>, is running in the kernel.\<close>

definition running_child :: "nat \<Rightarrow> nat \<Rightarrow> kernel \<Rightarrow> bool" where
  "running_child c p k \<longleftrightarrow> (let a = pcb_of (of_nat (c + 1)) in
     3 \<le> c \<and> c < 6 \<and> p < 6 \<and> p \<noteq> c \<and> kernel_stack (of_nat (c + 1)) k \<and> pcb_ok (pcbs k a) \<and>
     process_id (pcbs k a) = of_nat (c + 1) \<and> parent (pcbs k a) = pcb_of (of_nat (p + 1)) \<and>
     parent_process_id (pcbs k a) = of_nat (p + 1) \<and> length (processes_running k) = 6 \<and>
     tables_ok (paging k) \<and> current_term (sched k) < length (terminals (sched k)))"

lemma pcb_of_kernel:
  assumes "p < 6"
  shows "0x400000 \<le> unat (pcb_of (of_nat (p + 1))) \<and> unat (pcb_of (of_nat (p + 1))) < 0x800000"
proof -
  have "p \<in> {0..5}" using assms by simp
  then show ?thesis unfolding pcb_of_pid(1) [OF assms] by (auto simp: atLeastAtMost_upt upt_rec)
qed

lemma pcb_of_inj: "p < 6 \<Longrightarrow> q < 6 \<Longrightarrow> pcb_of (of_nat (p + 1)) = pcb_of (of_nat (q + 1)) \<Longrightarrow> p = q"
  using pcb_of_pid(1) [of p] pcb_of_pid(1) [of q] by simp

lemma halt_child:
  assumes run: "running_child c p k"
  defines "a \<equiv> pcb_of (of_nat (c + 1))" and "b \<equiv> pcb_of (of_nat (p + 1))"
  obtains k' where "halt env st k = Some (Resumes k')" "esp k' = parent_esp (pcbs k a)" "ebp k' = parent_ebp (pcbs k a)"
    "processes_running k' = (processes_running k)[c := 0]" "runs p k'" "get_current_pid k' = of_nat (p + 1)"
    "tss_esp0 k' = END_KMEM - of_nat (p + 1) * PCB_SIZE" "pcbs k' b = (pcbs k b)\<lparr>status := ucast st\<rparr>"
    "\<forall>x. x \<noteq> a \<and> x \<noteq> b \<longrightarrow> pcbs k' x = pcbs k x" "status (pcbs k' a) = status (pcbs k a)"
    "\<forall>j < 8. 2 \<le> j \<longrightarrow> fd_flags (fd_array (pcbs k' a) ! j) ! 0 \<noteq> 1" "pcb_ok (pcbs k' a)"
    "other_pids_kept k k'"
proof -
  note r = run [unfolded running_child_def Let_def, folded a_def b_def]
  have c: "c < 6" "3 \<le> c" and p: "p < 6" and ok: "pcb_ok (pcbs k a)" using r by blast+
  have here: "get_pcb_address k = a" using stack_pcb [OF c(1)] r by (simp add: a_def)
  have a0: "a \<noteq> 0" using pcb_of_kernel [OF c(1)] by (auto simp: a_def)
  have ab: "b \<noteq> a" using pcb_of_inj [OF c(1) p] r by (auto simp: a_def b_def)
  have pid: "process_id (pcbs k a) = of_nat (c + 1)" using r by blast
  have sid: "sint (of_nat (c + 1) :: i32) = int c + 1" using sint_of_nat_u32 [of "c + 1"] c by simp
  define k1 where "k1 = k\<lparr>processes_running := (processes_running k)[c := 0]\<rparr>"
  have set: "set_running (of_nat (c + 1)) 0 k = Some k1"
    unfolding set_running_def Let_def sid using c r by (simp add: k1_def)
  have here1: "get_pcb_address k1 = a" "pcbs k1 = pcbs k" using here by (simp_all add: k1_def get_pcb_address_def)
  have "pcb_ok (pcbs k1 a)" using ok here1 by simp
  from close_all_changes [OF this here1(1) a0, of "[0..<8]"] obtain ds f where
    close: "close_all a [0..<8] k1 = Some (fds_changed a ds f k1)" "pcb_ok ((pcbs k a)\<lparr>fd_array := ds\<rparr>)"
    "\<forall>j < 8. fd_flags (ds ! j) ! 0 = 1 \<longrightarrow> \<not> 2 \<le> j" by (auto simp: here1(2) simp del: upt_rec_numeral)
  let ?k2 = "fds_changed a ds f k1"
  have p2: "pcbs ?k2 a = (pcbs k a)\<lparr>fd_array := ds\<rparr>" by (simp add: here1(2))
  have up: "parent (pcbs k a) = b" "parent_process_id (pcbs k a) = of_nat (p + 1)" using r by blast+
  have "xlate (paging ?k2) b = Some (b, False)"
    using xlate_kernel [of "paging k" b] r pcb_of_kernel [OF p] by (simp add: b_def pde_index_range k1_def)
  then have mapped: "mapped b ?k2" by (simp add: mapped_def)
  define k3 where "k3 = set_pid (of_nat (p + 1)) (upd_pcb b (\<lambda>x. x\<lparr>status := ucast st\<rparr>) ?k2)"
  define k4 where "k4 = k3\<lparr>paging := snd (paging_change_process (of_nat (p + 1)) (paging k3))\<rparr>"
  define k' where "k' = k4\<lparr>tss_ss0 := KERNEL_DS, tss_esp0 := END_KMEM - of_nat (p + 1) * PCB_SIZE,
    ebp := parent_ebp (pcbs k4 a), esp := parent_esp (pcbs k4 a)\<rparr>"
  have big: "sint (of_nat (c + 1) :: i32) > 3" unfolding sid using c by simp
  have "end_process a st k = Some (Resumes k')"
    using set close(1) mapped pid up big p2 here1(2)
    by (simp add: end_process_def Let_def k'_def k4_def k3_def restoreparent_def del: of_nat_add of_nat_Suc upt_rec_numeral)
  moreover have "\<not> sint (of_nat (c + 1) :: i32) < 4" unfolding sid using c by simp
  ultimately have run: "halt env st k = Some (Resumes k')" by (simp add: halt_def here pid Let_def del: of_nat_add of_nat_Suc)
  have k3: "pcbs k3 = pcbs (upd_pcb b (\<lambda>x. x\<lparr>status := ucast st\<rparr>) ?k2)" "paging k3 = paging k"
    "processes_running k3 = processes_running k1" "other_pids_kept k k3"
    "get_current_pid k3 = of_nat (p + 1)"
    using r by (simp_all add: k3_def k1_def set_pid_def upd_terminal_def get_current_pid_def other_pids_kept_def)
  have "runs p k4"
    unfolding k4_def by (rule change_process_runs) (use r p k3(2) in simp_all)
  then have "runs p k'" by (simp add: runs_def k'_def)
  moreover have "pcbs k' = pcbs k3" by (simp add: k'_def k4_def)
  moreover have "pcbs k3 a = (pcbs k a)\<lparr>fd_array := ds\<rparr>" "pcbs k3 b = (pcbs k b)\<lparr>status := ucast st\<rparr>"
    "\<forall>x. x \<noteq> a \<and> x \<noteq> b \<longrightarrow> pcbs k3 x = pcbs k x"
    using ab p2 by (simp_all add: k3(1) here1(2))
  moreover have "pcbs k4 = pcbs k3" by (simp add: k4_def)
  moreover have "processes_running k' = (processes_running k)[c := 0]" "get_current_pid k' = of_nat (p + 1)"
    "other_pids_kept k k'" "tss_esp0 k' = END_KMEM - of_nat (p + 1) * PCB_SIZE"
    using k3 by (simp_all add: k'_def k4_def k1_def get_current_pid_def other_pids_kept_def)
  moreover have "esp k' = parent_esp (pcbs k4 a)" "ebp k' = parent_ebp (pcbs k4 a)" by (simp_all add: k'_def)
  ultimately show thesis using that [OF run] close(2,3) by auto
qed

text \<open>What the program leaves in its control block for its end.\<close>

definition keeps_links :: "u32 \<Rightarrow> kernel \<Rightarrow> kernel \<Rightarrow> bool" where
  "keeps_links a k k' \<longleftrightarrow> process_id (pcbs k' a) = process_id (pcbs k a) \<and> parent (pcbs k' a) = parent (pcbs k a) \<and>
     parent_process_id (pcbs k' a) = parent_process_id (pcbs k a) \<and> parent_esp (pcbs k' a) = parent_esp (pcbs k a) \<and>
     parent_ebp (pcbs k' a) = parent_ebp (pcbs k a) \<and> pcb_ok (pcbs k' a) \<and> tables_ok (paging k') \<and>
     length (processes_running k') = 6 \<and> current_term (sched k') < length (terminals (sched k'))"

text \<open>[C3] From \<open>execute\<close> to \<open>halt\<close> and back. Process \<open>p + 1\<close> calls \<open>execute\<close>, which starts process \<open>i + 1\<close> above the three
  shells; whatever the program does, as long as its control block's links to the caller are left alone, its \<open>halt\<close>
  continues the caller where it was: on the same stack and base pointer, with the caller's memory mapped, as the
  running process of the terminal and with the caller's kernel stack for its next calls. The slot is free again and
  no descriptor of the program is left open. The exit status arrives in the caller's control block, but
  \<open>execute\<close> returns the status field of the program's own block, which \<open>halt\<close> has not written.\<close>

theorem execute_halt_returns:
  assumes exec: "execute env command k = Some (EnterUser eip us k1)" "started i k k1" "3 \<le> i"
    and caller: "p < 6" "kernel_stack (of_nat (p + 1)) k" "processes_running k ! p \<noteq> 0"
    and program: "keeps_links (pcb_of (of_nat (i + 1))) k1 k2" "kernel_stack (of_nat (i + 1)) k2"
  shows "\<exists>k3. halt env' st k2 = Some (Resumes k3) \<and> esp k3 = esp k \<and> ebp k3 = ebp k \<and> runs p k3 \<and>
    get_current_pid k3 = of_nat (p + 1) \<and> tss_esp0 k3 = END_KMEM - of_nat (p + 1) * PCB_SIZE \<and>
    processes_running k3 = (processes_running k2)[i := 0] \<and>
    (\<forall>j < 8. 2 \<le> j \<longrightarrow> fd_flags (fd_array (pcbs k3 (pcb_of (of_nat (i + 1)))) ! j) ! 0 \<noteq> 1) \<and>
    status (pcbs k3 (pcb_of (of_nat (p + 1)))) = ucast st \<and>
    execute_resumed (pcb_of (of_nat (i + 1))) k3 = status (pcbs k2 (pcb_of (of_nat (i + 1))))"
proof -
  let ?a = "pcb_of (of_nat (i + 1))"
  note s = exec(2) [unfolded started_def Let_def]
  have i: "i < 6" and slot: "takes_slot i k k1" and fresh: "fresh_pcb (of_nat (i + 1)) (get_pcb_address k) (pcbs k1 ?a)"
    and regs: "parent_esp (pcbs k1 ?a) = esp k" "parent_ebp (pcbs k1 ?a) = ebp k"
    using s by blast+
  have pi: "p \<noteq> i" using slot caller(3) by (auto simp: takes_slot_def)
  have here: "get_pcb_address k = pcb_of (of_nat (p + 1))" by (rule stack_pcb [OF caller(1,2)])
  have "(of_nat (i + 1) :: u32) > 3" using i exec(3) by (simp add: word_less_nat_alt unat_of_nat_u32 del: of_nat_Suc of_nat_add)
  then have "process_id (pcbs k1 ?a) = of_nat (i + 1)" "parent (pcbs k1 ?a) = pcb_of (of_nat (p + 1))"
    "parent_process_id (pcbs k1 ?a) = of_nat (p + 1)"
    using fresh pcb_of_pid(2) [OF caller(1)] by (simp_all add: fresh_pcb_def here)
  then have child: "running_child i p k2"
    unfolding running_child_def Let_def using program i exec(3) caller(1) pi unfolding keeps_links_def by auto
  show ?thesis
  proof (rule halt_child [OF child, of env' st], goal_cases)
    case (1 k3)
    then show ?thesis using regs program(1) by (intro exI [of _ k3]) (auto simp: keeps_links_def execute_resumed_def)
  qed
qed

subsection \<open>The scheduler\<close>

lemma displays_flush: "tables_ok (flush_tlb st)" if "tables_ok st"
  using that by simp

lemma scheduler_next_run:
  assumes ok: "displays_ok k" and on: "is_on (sched k) ! ((current_term (sched k) + 1) mod 3) \<noteq> 0"
    and pid: "t_pid (terminals (sched k) ! ((current_term (sched k) + 1) mod 3)) = of_nat (q + 1)" "q < 6"
  defines "c \<equiv> current_term (sched k)" and "n \<equiv> (current_term (sched k) + 1) mod 3"
  obtains k' where "scheduler_next env k = Some (Resumes k')" "screens_ok k'" "current_term (sched k') = n" "runs q k'"
    "esp k' = t_esp (terminals (sched k) ! n)" "ebp k' = t_ebp (terminals (sched k) ! n)"
    "terminals (sched k') = (terminals (sched k))[c := (terminals (sched k) ! c)\<lparr>t_esp := esp k, t_ebp := ebp k\<rparr>]"
    "tss_esp0 k' = END_KMEM - of_nat (q + 1) * PCB_SIZE" "is_on (sched k') = is_on (sched k)"
    "visable_term (sched k') = visable_term (sched k)" "pcbs k' = pcbs k" "processes_running k' = processes_running k"
    "phys k' = phys k"
proof -
  have d: "tables_ok (paging k)" "vid_bufs (sched k) = [0xB9000, 0xBA000, 0xBB000]" "visable_term (sched k) < 3"
    "c < 3" "length (terminals (sched k)) = 3" "\<forall>t < 3. cursor_ok (terminals (sched k) ! t)"
    using ok by (simp_all add: displays_ok_def c_def)
  have n: "n < 3" "n \<noteq> c" using d(4) unfolding n_def c_def by (simp, presburger)
  define s where "s = (sched k)\<lparr>terminals := (terminals (sched k))[c := (terminals (sched k) ! c)\<lparr>t_esp := esp k, t_ebp := ebp k\<rparr>],
    current_term := n\<rparr>"
  define k1 where "k1 = k\<lparr>sched := s\<rparr>"
  define f where "f = screen_frame k n"
  have f: "f \<in> video_frames" using buffers_in_video_frames(1) [OF d(2) n(1)]
    by (simp add: f_def screen_frame_def video_frames_def)
  define k2 where "k2 = k1\<lparr>paging := set_video_frame f (paging k1)\<rparr>"
  have save: "save_esp_ebpasm k\<lparr>sched := (sched (save_esp_ebpasm k))\<lparr>current_term := (current_term (sched (save_esp_ebpasm k)) + 1) mod 3\<rparr>\<rparr> = k1"
    by (simp add: save_esp_ebpasm_def save_esp_ebp_def upd_terminal_def k1_def s_def n_def c_def)
  have trm: "terminals s ! n = terminals (sched k) ! n" "current_term s = n" "visable_term s = visable_term (sched k)"
    "is_on s = is_on (sched k)" using n by (simp_all add: s_def)
  have buffer: "paging_set_write_to_buffer (of_nat n) st = set_video_frame (vid_bufs (sched k) ! n) st" for st
    using d(2) n(1) by (auto simp: paging_set_write_to_buffer_def less_Suc_eq numeral_3_eq_3)
  have window: "select_window n k1 = k2"
    by (simp add: select_window_def k2_def f_def screen_frame_def buffer paging_set_write_to_videomem_def)
      (simp add: k1_def trm)
  define k' where "k' = k2\<lparr>paging := snd (paging_change_process (of_nat (q + 1)) (paging k2)), tss_ss0 := KERNEL_DS,
    tss_esp0 := END_KMEM - of_nat (q + 1) * PCB_SIZE, ebp := t_ebp (terminals (sched k) ! n), esp := t_esp (terminals (sched k) ! n)\<rparr>"
  have sched: "sched k1 = s" "sched k2 = s" "sched k' = s" by (simp_all add: k1_def k2_def k'_def)
  have run: "scheduler_next env k = Some (Resumes k')"
    unfolding scheduler_next_def Let_def save
    using on [folded n_def] pid(1) [folded n_def]
    by (simp add: sched trm window restoreparent_def k'_def del: of_nat_add of_nat_Suc)
  have t2: "tables_ok (paging k2)"
    using tables_ok_set_video_frame [OF d(1) f] by (simp add: k2_def k1_def)
  have minus: "of_nat (q + 1) - 1 = (of_nat q :: u32)" by simp
  have "runs q (k2\<lparr>paging := snd (paging_change_process (of_nat (q + 1)) (paging k2))\<rparr>)"
    by (rule change_process_runs [OF t2 pid(2) minus])
  then have r: "runs q k'" by (simp add: runs_def k'_def)
  have "page_table_0M_4M (paging k') = page_table_0M_4M (paging k2)"
    unfolding k'_def change_process_eq [OF minus pid(2)] by (simp add: frame_simps)
  then have w: "window_frame k' = f"
    using window_set_frame [OF d(1) f] by (simp add: window_frame_def k2_def k1_def)
  have "cursor_ok (terminals s ! t)" if "t < 3" for t
    using d(4-6) that by (cases "t = c") (auto simp: s_def cursor_ok_def)
  then have "screens_ok k'"
    using r n(1) d w by (simp add: screens_ok_def displays_ok_def sched trm runs_def screen_frame_def f_def) (simp add: s_def)
  then show thesis
    using that [OF run] r sched trm by (simp add: k'_def s_def k2_def k1_def)
qed

text \<open>What may happen between two ticks: the running code changes everything but the registers and processes
  saved for the terminals that do not run.\<close>

definition between_ticks :: "kernel \<Rightarrow> kernel \<Rightarrow> bool" where
  "between_ticks k k' \<longleftrightarrow> displays_ok k' \<and> current_term (sched k') = current_term (sched k) \<and>
     (\<forall>t < 3. is_on (sched k') ! t \<noteq> 0) \<and>
     (\<forall>t < 3. t \<noteq> current_term (sched k) \<longrightarrow>
        t_esp (terminals (sched k') ! t) = t_esp (terminals (sched k) ! t) \<and>
        t_ebp (terminals (sched k') ! t) = t_ebp (terminals (sched k) ! t) \<and>
        t_pid (terminals (sched k') ! t) = t_pid (terminals (sched k) ! t))"

definition pids_ok :: "kernel \<Rightarrow> bool" where
  "pids_ok k \<longleftrightarrow> (\<forall>t < 3. \<exists>q < 6. t_pid (terminals (sched k) ! t) = of_nat (q + 1))"

lemma scheduler_tick:
  assumes "displays_ok k" "\<forall>t < 3. is_on (sched k) ! t \<noteq> 0" "pids_ok k"
  defines "c \<equiv> current_term (sched k)" and "n \<equiv> (current_term (sched k) + 1) mod 3"
  obtains k' q where "scheduler_next env k = Some (Resumes k')" "screens_ok k'" "current_term (sched k') = n"
    "esp k' = t_esp (terminals (sched k) ! n)" "ebp k' = t_ebp (terminals (sched k) ! n)"
    "t_esp (terminals (sched k') ! c) = esp k" "t_ebp (terminals (sched k') ! c) = ebp k"
    "\<forall>t < 3. t \<noteq> c \<longrightarrow> terminals (sched k') ! t = terminals (sched k) ! t" "\<forall>t < 3. is_on (sched k') ! t \<noteq> 0"
    "\<forall>t < 3. t_pid (terminals (sched k') ! t) = t_pid (terminals (sched k) ! t)"
    "t_pid (terminals (sched k) ! n) = of_nat (q + 1)" "runs q k'"
proof -
  have n: "n < 3" by (simp add: n_def)
  have d: "c < 3" "length (terminals (sched k)) = 3" using assms(1) by (simp_all add: displays_ok_def c_def)
  obtain q where q: "q < 6" "t_pid (terminals (sched k) ! n) = of_nat (q + 1)" using assms(3) n unfolding pids_ok_def by blast
  have on: "is_on (sched k) ! n \<noteq> 0" using assms(2) n by blast
  show thesis
  proof (rule scheduler_next_run [OF assms(1) on [unfolded n_def] q(2) [unfolded n_def] q(1), folded n_def c_def, of env])
    fix k'
    assume k': "scheduler_next env k = Some (Resumes k')" "screens_ok k'" "current_term (sched k') = n" "runs q k'"
      "esp k' = t_esp (terminals (sched k) ! n)" "ebp k' = t_ebp (terminals (sched k) ! n)"
      "terminals (sched k') = (terminals (sched k))[c := (terminals (sched k) ! c)\<lparr>t_esp := esp k, t_ebp := ebp k\<rparr>]"
      "is_on (sched k') = is_on (sched k)"
    show thesis
      by (rule that [OF k'(1-3,5,6) _ _ _ _ _ q(2) k'(4)]) (use d assms(2) in \<open>auto simp: k'(7,8) nth_list_update\<close>)
  qed
qed

lemma mod3_cycle: "c < 3 \<Longrightarrow> ((((c + 1) mod 3) + 1) mod 3 + 1) mod 3 = c \<and> (c + 1) mod 3 \<noteq> c \<and> ((c + 1) mod 3 + 1) mod 3 \<noteq> c \<and>
    ((c + 1) mod 3 + 1) mod 3 \<noteq> (c + 1) mod (3 :: nat)"
proof -
  assume "c < 3"
  then consider "c = 0" | "c = 1" | "c = 2" by linarith
  then show ?thesis by cases simp_all
qed

text \<open>[C15] Round robin: when all three terminals have their shell, every tick of the timer resumes the next terminal,
  and whatever runs in between, the third tick resumes the interrupted code where it was: on the same stack and
  base pointer, with the memory of its terminal's process mapped and its output window on its own screen. No terminal waits for more than three ticks.\<close>

theorem round_robin:
  assumes k: "displays_ok k" "\<forall>t < 3. is_on (sched k) ! t \<noteq> 0" "pids_ok k"
  shows "\<exists>k1. scheduler_next env k = Some (Resumes k1) \<and> current_term (sched k1) = (current_term (sched k) + 1) mod 3 \<and>
    (\<forall>k1'. between_ticks k1 k1' \<and> pids_ok k1' \<longrightarrow>
      (\<exists>k2. scheduler_next env1 k1' = Some (Resumes k2) \<and> current_term (sched k2) = (current_term (sched k) + 2) mod 3 \<and>
        (\<forall>k2'. between_ticks k2 k2' \<and> pids_ok k2' \<longrightarrow>
          (\<exists>k3 q. scheduler_next env2 k2' = Some (Resumes k3) \<and> current_term (sched k3) = current_term (sched k) \<and>
             esp k3 = esp k \<and> ebp k3 = ebp k \<and> screens_ok k3 \<and>
             t_pid (terminals (sched k) ! current_term (sched k)) = of_nat (q + 1) \<and> runs q k3))))"
proof -
  let ?c = "current_term (sched k)"
  have c: "?c < 3" using k(1) by (simp add: displays_ok_def)
  note cyc = mod3_cycle [OF c]
  obtain k1 where k1: "scheduler_next env k = Some (Resumes k1)" "current_term (sched k1) = (?c + 1) mod 3"
    "t_esp (terminals (sched k1) ! ?c) = esp k" "t_ebp (terminals (sched k1) ! ?c) = ebp k"
    "\<forall>t < 3. t_pid (terminals (sched k1) ! t) = t_pid (terminals (sched k) ! t)"
    by (rule scheduler_tick [OF k, of env])
  have two: "((?c + 1) mod 3 + 1) mod 3 = (?c + 2) mod 3" by (simp add: mod_Suc_eq)
  show ?thesis
  proof (rule exI [of _ k1], intro conjI allI impI k1(1,2))
    fix k1'
    assume b1: "between_ticks k1 k1' \<and> pids_ok k1'"
    have d1: "displays_ok k1'" "current_term (sched k1') = (?c + 1) mod 3" "\<forall>t < 3. is_on (sched k1') ! t \<noteq> 0"
      "pids_ok k1'" using b1 k1(2) by (simp_all add: between_ticks_def)
    have s1: "t_esp (terminals (sched k1') ! ?c) = esp k" "t_ebp (terminals (sched k1') ! ?c) = ebp k"
      "t_pid (terminals (sched k1') ! ?c) = t_pid (terminals (sched k) ! ?c)"
      using b1 k1 c cyc by (simp_all add: between_ticks_def)
    obtain k2 where k2: "scheduler_next env1 k1' = Some (Resumes k2)" "current_term (sched k2) = ((?c + 1) mod 3 + 1) mod 3"
      "\<forall>t < 3. t \<noteq> (?c + 1) mod 3 \<longrightarrow> terminals (sched k2) ! t = terminals (sched k1') ! t"
      by (rule scheduler_tick [OF d1(1,3,4), of env1, unfolded d1(2)])
    show "\<exists>k2. scheduler_next env1 k1' = Some (Resumes k2) \<and> current_term (sched k2) = (?c + 2) mod 3 \<and>
        (\<forall>k2'. between_ticks k2 k2' \<and> pids_ok k2' \<longrightarrow>
          (\<exists>k3 q. scheduler_next env2 k2' = Some (Resumes k3) \<and> current_term (sched k3) = ?c \<and>
             esp k3 = esp k \<and> ebp k3 = ebp k \<and> screens_ok k3 \<and>
             t_pid (terminals (sched k) ! ?c) = of_nat (q + 1) \<and> runs q k3))"
    proof (rule exI [of _ k2], intro conjI allI impI k2(1) k2(2) [unfolded two])
      fix k2'
      assume b2: "between_ticks k2 k2' \<and> pids_ok k2'"
      have d2: "displays_ok k2'" "current_term (sched k2') = ((?c + 1) mod 3 + 1) mod 3" "\<forall>t < 3. is_on (sched k2') ! t \<noteq> 0"
        "pids_ok k2'" using b2 k2(2) by (simp_all add: between_ticks_def)
      have s2: "t_esp (terminals (sched k2') ! ?c) = esp k" "t_ebp (terminals (sched k2') ! ?c) = ebp k"
        "t_pid (terminals (sched k2') ! ?c) = t_pid (terminals (sched k) ! ?c)"
        using b2 k2 c cyc s1 by (simp_all add: between_ticks_def)
      have next_c: "(current_term (sched k2') + 1) mod 3 = ?c" using cyc d2(2) by simp
      obtain k3 q where "scheduler_next env2 k2' = Some (Resumes k3)" "screens_ok k3" "current_term (sched k3) = ?c"
        "esp k3 = t_esp (terminals (sched k2') ! ?c)" "ebp k3 = t_ebp (terminals (sched k2') ! ?c)"
        "t_pid (terminals (sched k2') ! ?c) = of_nat (q + 1)" "runs q k3"
        by (rule scheduler_tick [OF d2(1,3,4), of env2, unfolded next_c])
      then show "\<exists>k3 q. scheduler_next env2 k2' = Some (Resumes k3) \<and> current_term (sched k3) = ?c \<and>
             esp k3 = esp k \<and> ebp k3 = ebp k \<and> screens_ok k3 \<and>
             t_pid (terminals (sched k) ! ?c) = of_nat (q + 1) \<and> runs q k3"
        using s2 by (intro exI [of _ k3] exI [of _ q]) simp
    qed
  qed
qed

end
