(* ===== verification/ProcessTable.thy ===== *)
theory ProcessTable imports Switching begin

text \<open>
  Processes are numbered by their slot. The invariant: the three shells stay; every running process has its control
  block; a process above the shells has a running parent, which is nobody else's parent and not on top of any terminal,
  because it waits in \<open>execute\<close>; each terminal has one running process on top, and no two the same.
\<close>

definition running :: "kernel \<Rightarrow> nat \<Rightarrow> bool" where
  "running k p \<longleftrightarrow> p < 6 \<and> processes_running k ! p \<noteq> 0"

definition pcb_at :: "kernel \<Rightarrow> nat \<Rightarrow> pcb" where
  "pcb_at k p = pcbs k (pcb_of (of_nat (p + 1)))"

definition waits_for :: "kernel \<Rightarrow> nat \<Rightarrow> nat \<Rightarrow> bool" where
  "waits_for k q p \<longleftrightarrow> running k p \<and> 3 \<le> p \<and> q < 6 \<and> parent (pcb_at k p) = pcb_of (of_nat (q + 1)) \<and>
     parent_process_id (pcb_at k p) = of_nat (q + 1)"

definition on_top :: "kernel \<Rightarrow> nat \<Rightarrow> nat \<Rightarrow> bool" where
  "on_top k t p \<longleftrightarrow> p < 6 \<and> t_pid (terminals (sched k) ! t) = of_nat (p + 1)"

definition table_ok :: "kernel \<Rightarrow> bool" where
  "table_ok k \<longleftrightarrow> can_start k \<and> current_term (sched k) < 3 \<and> length (terminals (sched k)) = 3 \<and>
     (\<forall>p < 3. running k p) \<and>
     (\<forall>p. running k p \<longrightarrow> pcb_ok (pcb_at k p) \<and> process_id (pcb_at k p) = of_nat (p + 1)) \<and>
     (\<forall>p. running k p \<and> 3 \<le> p \<longrightarrow> (\<exists>q. q \<noteq> p \<and> running k q \<and> waits_for k q p)) \<and>
     (\<forall>q p p'. waits_for k q p \<and> waits_for k q p' \<longrightarrow> p = p') \<and>
     (\<forall>t < 3. \<exists>p. running k p \<and> on_top k t p) \<and>
     (\<forall>t < 3. \<forall>t' < 3. \<forall>p. on_top k t p \<and> on_top k t' p \<longrightarrow> t = t') \<and>
     (\<forall>t < 3. \<forall>q p. on_top k t q \<longrightarrow> \<not> waits_for k q p)"

text \<open>What the code of a program and the calls of other components leave alone.\<close>

definition table_kept :: "kernel \<Rightarrow> kernel \<Rightarrow> bool" where
  "table_kept k k' \<longleftrightarrow> can_start k' \<and> (\<forall>p. running k' p = running k p) \<and>
     (\<forall>p. running k p \<longrightarrow> pcb_ok (pcb_at k' p) \<and> process_id (pcb_at k' p) = process_id (pcb_at k p) \<and>
        (3 \<le> p \<longrightarrow> parent (pcb_at k' p) = parent (pcb_at k p) \<and>
           parent_process_id (pcb_at k' p) = parent_process_id (pcb_at k p))) \<and>
     current_term (sched k') < 3 \<and> length (terminals (sched k')) = length (terminals (sched k)) \<and>
     (\<forall>t < 3. t_pid (terminals (sched k') ! t) = t_pid (terminals (sched k) ! t))"

text \<open>
  Steps: the process on top of the scheduled terminal calls \<open>execute\<close> or, above the shells, \<open>halt\<close>; a shell calls
  \<open>halt\<close> and is started again; the timer ticks when every terminal has its shell; or something happens that leaves
  the links between the processes alone.
\<close>

definition in_kernel :: "kernel \<Rightarrow> nat \<Rightarrow> bool" where
  "in_kernel k p \<longleftrightarrow> on_top k (current_term (sched k)) p \<and> kernel_stack (of_nat (p + 1)) k"

inductive table_step :: "kernel \<Rightarrow> kernel \<Rightarrow> bool" where
  exec: "in_kernel k p \<Longrightarrow> execute_string env cmd k = Some (EnterUser eip us k') \<Longrightarrow> table_step k k'"
| exec_fails: "execute_string env cmd k = Some (Returns r k') \<Longrightarrow> table_step k k'"
| halt: "in_kernel k p \<Longrightarrow> 3 \<le> p \<Longrightarrow> halt env st k = Some (Resumes k') \<Longrightarrow> table_step k k'"
| restart: "in_kernel k p \<Longrightarrow> p < 3 \<Longrightarrow> halt env st k = Some (EnterUser eip us k') \<Longrightarrow> table_step k k'"
| tick: "\<forall>t < 3. is_on (sched k) ! t \<noteq> 0 \<Longrightarrow> displays_ok k \<Longrightarrow> scheduler_next env k = Some (Resumes k') \<Longrightarrow> table_step k k'"
| other: "table_kept k k' \<Longrightarrow> table_step k k'"

lemma table_kept_ok:
  assumes "table_kept k k'" "table_ok k"
  shows "table_ok k'"
proof -
  have r: "running k' = running k" using assms(1) by (simp add: table_kept_def fun_eq_iff)
  have w: "waits_for k' = waits_for k" using assms(1) by (auto simp: table_kept_def waits_for_def r fun_eq_iff)
  have t: "on_top k' t = on_top k t" if "t < 3" for t
    using assms(1) that by (simp add: table_kept_def on_top_def fun_eq_iff)
  show ?thesis
    using assms unfolding table_ok_def r w by (auto simp: table_kept_def t)
qed

lemma untouched_table_kept: "untouched k k' \<Longrightarrow> table_ok k \<Longrightarrow> table_kept k k'"
  using can_start_untouched [of k k'] by (auto simp: untouched_def table_kept_def table_ok_def pcb_at_def running_def)

lemma of_nat_pid_inj:
  assumes "p < 6" "q < 6" "(of_nat (p + 1) :: u32) = of_nat (q + 1)"
  shows "p = q"
proof -
  have e: "unat (of_nat (p + 1) :: u32) = p + 1" "unat (of_nat (q + 1) :: u32) = q + 1"
    by (rule unat_of_nat_u32, use assms(1,2) in linarith)+
  from arg_cong [OF assms(3), of unat] show ?thesis unfolding e by (rule add_right_imp_eq)
qed

lemma on_top_unique: "on_top k t p \<Longrightarrow> on_top k t q \<Longrightarrow> p = q"
  using of_nat_pid_inj [of p q] by (auto simp: on_top_def)

lemma table_okD:
  assumes "table_ok k"
  shows "can_start k" "current_term (sched k) < 3" "length (terminals (sched k)) = 3" "p < 3 \<Longrightarrow> running k p"
    "running k p \<Longrightarrow> pcb_ok (pcb_at k p) \<and> process_id (pcb_at k p) = of_nat (p + 1)"
    "running k p \<Longrightarrow> 3 \<le> p \<Longrightarrow> \<exists>q. q \<noteq> p \<and> running k q \<and> waits_for k q p"
    "waits_for k q p \<Longrightarrow> waits_for k q p' \<Longrightarrow> p = p'" "t < 3 \<Longrightarrow> \<exists>p. running k p \<and> on_top k t p"
    "t < 3 \<Longrightarrow> t' < 3 \<Longrightarrow> on_top k t p \<Longrightarrow> on_top k t' p \<Longrightarrow> t = t'"
    "t < 3 \<Longrightarrow> on_top k t q \<Longrightarrow> \<not> waits_for k q p"
proof -
  note a = assms [unfolded table_ok_def, THEN conjunct2, THEN conjunct2, THEN conjunct2]
  note b = a [THEN conjunct2, THEN conjunct2, THEN conjunct2]
  note c = b [THEN conjunct2, THEN conjunct2]
  show "can_start k" "current_term (sched k) < 3" "length (terminals (sched k)) = 3"
    using assms by (simp_all add: table_ok_def)
  show "p < 3 \<Longrightarrow> running k p" using a [THEN conjunct1] by blast
  show "running k p \<Longrightarrow> pcb_ok (pcb_at k p) \<and> process_id (pcb_at k p) = of_nat (p + 1)"
    using a [THEN conjunct2, THEN conjunct1] by blast
  show "running k p \<Longrightarrow> 3 \<le> p \<Longrightarrow> \<exists>q. q \<noteq> p \<and> running k q \<and> waits_for k q p"
    using a [THEN conjunct2, THEN conjunct2, THEN conjunct1] by blast
  show "waits_for k q p \<Longrightarrow> waits_for k q p' \<Longrightarrow> p = p'" using b [THEN conjunct1] by blast
  show "t < 3 \<Longrightarrow> \<exists>p. running k p \<and> on_top k t p" using b [THEN conjunct2, THEN conjunct1] by blast
  show "t < 3 \<Longrightarrow> t' < 3 \<Longrightarrow> on_top k t p \<Longrightarrow> on_top k t' p \<Longrightarrow> t = t'" using c [THEN conjunct1] by blast
  show "t < 3 \<Longrightarrow> on_top k t q \<Longrightarrow> \<not> waits_for k q p" using c [THEN conjunct2] by blast
qed

lemma waits_for_unique:
  assumes "waits_for k q p" "waits_for k q' p"
  shows "q = q'"
proof (rule of_nat_pid_inj)
  show "q < 6" "q' < 6" using assms by (simp_all add: waits_for_def)
  from assms have "parent_process_id (pcb_at k p) = of_nat (q + 1)" "parent_process_id (pcb_at k p) = of_nat (q' + 1)"
    unfolding waits_for_def by blast+
  then show "of_nat (q + 1) = (of_nat (q' + 1) :: u32)" by (rule trans [OF sym])
qed

text \<open>The table as far as it matters, and the two ways it changes.\<close>

lemma table_okI:
  assumes "can_start k'" "current_term (sched k') < 3" "length (terminals (sched k')) = 3"
    and run: "\<And>p. running k' p \<longleftrightarrow> (if p = x then new else running k p)" "3 \<le> x" "x < 6"
    and pcb: "\<And>p. running k' p \<Longrightarrow> pcb_ok (pcb_at k' p) \<and> process_id (pcb_at k' p) = of_nat (p + 1)"
    and waits: "\<And>q p. waits_for k' q p \<longleftrightarrow> (if p = x then new \<and> q = y else waits_for k q p)"
    and top: "\<And>t p. t < 3 \<Longrightarrow> on_top k' t p \<longleftrightarrow> (if t = current_term (sched k) then p = z else on_top k t p)"
    and ok: "table_ok k" "y \<noteq> x" "running k y" "z = (if new then x else y)" 
    and change: "if new then \<not> running k x \<and> on_top k (current_term (sched k)) y
      else on_top k (current_term (sched k)) x \<and> waits_for k y x"
  shows "table_ok k'"
proof -
  note t = table_okD [OF ok(1)]
  have c: "current_term (sched k) < 3" by (rule t(2))
  have no_child: "\<not> waits_for k x p" if "new" for p
  proof
    assume w: "waits_for k x p"
    then have "running k p" "3 \<le> p" by (simp_all add: waits_for_def)
    from t(6) [OF this] obtain q where q: "q \<noteq> p" "running k q" "waits_for k q p" by blast
    have "q = x" by (rule waits_for_unique [OF q(3) w])
    then show False using q(2) change that by simp
  qed
  have tops: "\<exists>p. running k' p \<and> on_top k' u p" if u: "u < 3" for u
  proof (cases "u = current_term (sched k)")
    case True
    then show ?thesis using u ok(2-4) run(1) top [OF u] by (cases new) auto
  next
    case False
    obtain p where p: "running k p" "on_top k u p" using t(8) [OF u] by blast
    then have "p = x \<Longrightarrow> new" using change t(9) [OF u c, of x] False by (auto split: if_splits)
    then show ?thesis using p False run(1) top [OF u] by (intro exI [of _ p]) simp
  qed
  have parents: "\<exists>q. q \<noteq> p \<and> running k' q \<and> waits_for k' q p" if p: "running k' p" "3 \<le> p" for p
  proof (cases "p = x")
    case True
    then show ?thesis using p run(1) waits ok(2,3) by (intro exI [of _ y]) simp
  next
    case False
    then obtain q where q: "q \<noteq> p" "running k q" "waits_for k q p" using t(6) [of p] p run(1) by auto
    have "q = x \<Longrightarrow> new" using q(3) change t(10) [OF c, of x p] by (auto split: if_splits)
    then show ?thesis using q False run(1) waits by (intro exI [of _ q]) auto
  qed
  have unique: "p = p'" if "waits_for k' q p" "waits_for k' q p'" for q p p'
    using that waits change t(7) [of q p p'] t(10) [OF c, of y] by (auto split: if_splits)
  have no_wait: "\<not> waits_for k' q p" if u: "u < 3" and q: "on_top k' u q" for u q p
  proof (cases "u = current_term (sched k)")
    case True
    then have "q = z" using q top [OF u] by simp
    then show ?thesis using waits change ok(2,4) no_child t(7) [of y] by (auto split: if_splits)
  next
    case False
    then have k: "on_top k u q" using q top [OF u] by simp
    then have "\<not> waits_for k q p" using t(10) [OF u] by blast
    moreover have "q \<noteq> y" if new using k change that t(9) [OF u c, of q] False by (auto split: if_splits)
    ultimately show ?thesis using waits by auto
  qed
  have distinct: "u = u'" if "u < 3" "u' < 3" "on_top k' u p" "on_top k' u' p" for u u' p
  proof -
    have other: "\<not> on_top k v z" if "v < 3" "v \<noteq> current_term (sched k)" for v
    proof (cases new)
      case True
      then show ?thesis using change ok(4) t(8) [OF that(1)] on_top_unique [of k v x] by auto
    next
      case False
      then show ?thesis using change ok(4) t(10) [OF that(1)] by auto
    qed
    show ?thesis
      using that top [OF that(1)] top [OF that(2)] other t(9) [OF that(1,2), of p] by (auto split: if_splits)
  qed
  have shells: "running k' p" if "p < 3" for p using that t(4) [OF that] run(1,2) by auto
  have "\<forall>p < 3. running k' p" using shells by blast
  moreover have "\<forall>p. running k' p \<longrightarrow> pcb_ok (pcb_at k' p) \<and> process_id (pcb_at k' p) = of_nat (p + 1)" using pcb by blast
  moreover have "\<forall>p. running k' p \<and> 3 \<le> p \<longrightarrow> (\<exists>q. q \<noteq> p \<and> running k' q \<and> waits_for k' q p)" using parents by blast
  moreover have "\<forall>q p p'. waits_for k' q p \<and> waits_for k' q p' \<longrightarrow> p = p'" using unique by blast
  moreover have "\<forall>u < 3. \<exists>p. running k' p \<and> on_top k' u p" using tops by blast
  moreover have "\<forall>u < 3. \<forall>u' < 3. \<forall>p. on_top k' u p \<and> on_top k' u' p \<longrightarrow> u = u'" using distinct by blast
  moreover have "\<forall>u < 3. \<forall>q p. on_top k' u q \<longrightarrow> \<not> waits_for k' q p" using no_wait by blast
  ultimately show ?thesis using assms(1-3) unfolding table_ok_def by (intro conjI)
qed

text \<open>Starting a program: the new process is on top of the terminal and its caller waits for it.\<close>

lemma pcb_ok_shape: "pcb_ok p \<Longrightarrow> pcb_shape p"
  by (simp add: pcb_ok_def pcb_shape_def fd_ok_def)

lemma shapes_kept:
  assumes "\<forall>x. pcb_shape (pcbs k x)" "pcb_shape (pcbs k' a)" "pcb_shape (pcbs k' b)" "\<forall>x. x \<noteq> a \<and> x \<noteq> b \<longrightarrow> pcbs k' x = pcbs k x"
  shows "\<forall>x. pcb_shape (pcbs k' x)"
  using assms by metis

lemma waits_for_slot: "\<not> p < 6 \<Longrightarrow> \<not> waits_for k q p"
  by (simp add: waits_for_def running_def)

lemma other_pcbs_kept:
  assumes "\<forall>x. x \<noteq> pcb_of (of_nat (i + 1)) \<longrightarrow> pcbs k' x = pcbs k x" "i < 6" "p < 6" "p \<noteq> i"
  shows "pcb_at k' p = pcb_at k p"
  using assms pcb_of_inj [of p i] by (auto simp: pcb_at_def)

lemma on_top_running: "table_ok k \<Longrightarrow> t < 3 \<Longrightarrow> on_top k t p \<Longrightarrow> running k p"
  using table_okD(8) [of k t] on_top_unique [of k t p] by blast

lemma exec_table_ok:
  assumes start: "started i k k'" and p: "in_kernel k p" and ok: "table_ok k"
  shows "table_ok k'"
proof -
  note t = table_okD [OF ok]
  let ?c = "current_term (sched k)" and ?a = "pcb_of (of_nat (i + 1))"
  note s = start [unfolded started_def Let_def]
  have i: "i < 6" and slot: "takes_slot i k k'" and fresh: "fresh_pcb (of_nat (i + 1)) (get_pcb_address k) (pcbs k' ?a)"
    and others: "\<forall>b. b \<noteq> ?a \<longrightarrow> pcbs k' b = pcbs k b" and pid: "get_current_pid k' = of_nat (i + 1)"
    and kept: "other_pids_kept k k'" and runs: "runs i k'"
    using s by blast+
  have top: "on_top k ?c p" and stack: "kernel_stack (of_nat (p + 1)) k" using p by (simp_all add: in_kernel_def)
  have run: "running k p" "p < 6" using on_top_running [OF ok t(2) top] top by (simp_all add: on_top_def)
  have len: "length (processes_running k) = 6" using t(1) by (simp add: can_start_def)
  have new: "\<not> running k i" using slot by (simp add: takes_slot_def running_def)
  then have i3: "3 \<le> i" using t(4) [of i] by linarith
  have running': "running k' x \<longleftrightarrow> (if x = i then True else running k x)" for x
    using slot i len by (auto simp: takes_slot_def running_def nth_list_update)
  have "(of_nat (i + 1) :: u32) > 3" using i i3 by (simp add: word_less_nat_alt unat_of_nat_u32 del: of_nat_Suc of_nat_add)
  then have at_i: "pcb_ok (pcb_at k' i)" "process_id (pcb_at k' i) = of_nat (i + 1)" "parent (pcb_at k' i) = pcb_of (of_nat (p + 1))"
    "parent_process_id (pcb_at k' i) = of_nat (p + 1)"
    using fresh pcb_of_pid(2) [OF run(2)] stack_pcb [OF run(2) stack] by (simp_all add: fresh_pcb_def pcb_at_def)
  have at: "pcb_at k' x = pcb_at k x" if "x < 6" "x \<noteq> i" for x by (rule other_pcbs_kept [OF others i that])
  have "\<forall>x. pcb_shape (pcbs k' x)"
    by (rule shapes_kept [of k k' ?a ?a]) (use t(1) others at_i(1) in \<open>simp_all add: can_start_def pcb_at_def pcb_ok_shape\<close>)
  then have start': "can_start k'"
    using t(1) runs slot kept by (simp add: can_start_def runs_def takes_slot_def other_pids_kept_def)
  have wait: "waits_for k' q x \<longleftrightarrow> (if x = i then True \<and> q = p else waits_for k q x)" for q x
  proof (cases "x = i")
    case True
    have "waits_for k' p i" using running' i3 run(2) at_i by (simp add: waits_for_def)
    then show ?thesis using True waits_for_unique by auto
  next
    case other: False
    show ?thesis
    proof (cases "x < 6")
      case True
      from running' [of x] other have "running k' x = running k x" by simp
      then show ?thesis using other by (simp add: waits_for_def at [OF True other])
    qed (use other in \<open>simp add: waits_for_slot\<close>)
  qed
  have tops: "on_top k' u x \<longleftrightarrow> (if u = ?c then x = i else on_top k u x)" if "u < 3" for u x
  proof (cases "u = ?c")
    case True
    then have "on_top k' u i" using pid kept i by (simp add: on_top_def get_current_pid_def other_pids_kept_def)
    then show ?thesis using True on_top_unique by auto
  qed (use kept in \<open>simp add: on_top_def other_pids_kept_def\<close>)
  show ?thesis
  proof (rule table_okI [OF start' _ _ running' i3 i _ wait tops ok _ run(1)])
    show "current_term (sched k') < 3" "length (terminals (sched k')) = 3" using kept t(2,3) by (simp_all add: other_pids_kept_def)
    show "pcb_ok (pcb_at k' x) \<and> process_id (pcb_at k' x) = of_nat (x + 1)" if "running k' x" for x
      using that running' [of x] at_i t(5) [of x] at [of x] by (cases "x = i") (auto simp: running_def)
  qed (use run new top in auto)
qed

lemma halt_table_ok:
  assumes halt: "halt env st k = Some (Resumes k')" and c: "in_kernel k c" "3 \<le> c" and ok: "table_ok k"
  shows "table_ok k'"
proof -
  note t = table_okD [OF ok]
  let ?c = "current_term (sched k)" and ?a = "pcb_of (of_nat (c + 1))"
  have top: "on_top k ?c c" and stack: "kernel_stack (of_nat (c + 1)) k" using c(1) by (simp_all add: in_kernel_def)
  have run: "running k c" "c < 6" using on_top_running [OF ok t(2) top] top by (simp_all add: on_top_def)
  obtain q where q: "q \<noteq> c" "running k q" "waits_for k q c" using t(6) [OF run(1) c(2)] by blast
  let ?b = "pcb_of (of_nat (q + 1))"
  have q6: "q < 6" using q(2) by (simp add: running_def)
  have "pcb_ok (pcb_at k c)" "process_id (pcb_at k c) = of_nat (c + 1)" using t(5) [OF run(1)] by simp_all
  moreover have "parent (pcb_at k c) = ?b" "parent_process_id (pcb_at k c) = of_nat (q + 1)" using q(3) by (simp_all add: waits_for_def)
  ultimately have child: "running_child c q k"
    using c(2) run(2) q6 q(1) stack t(1-3) unfolding running_child_def Let_def can_start_def pcb_at_def by simp
  obtain k2 where "halt env st k = Some (Resumes k2)" and e: "processes_running k2 = (processes_running k)[c := 0]" "runs q k2"
    "get_current_pid k2 = of_nat (q + 1)" "pcbs k2 ?b = (pcbs k ?b)\<lparr>status := ucast st\<rparr>"
    "\<forall>x. x \<noteq> ?a \<and> x \<noteq> ?b \<longrightarrow> pcbs k2 x = pcbs k x" "pcb_ok (pcbs k2 ?a)" "other_pids_kept k k2"
    by (rule halt_child [OF child, of env st])
  then have [simp]: "k2 = k'" using halt by simp
  note e = e [simplified]
  have len: "length (processes_running k) = 6" using t(1) by (simp add: can_start_def)
  have running': "running k' x \<longleftrightarrow> (if x = c then False else running k x)" for x
    using e(1) run(2) len by (auto simp: running_def nth_list_update)
  have at: "pcb_at k' x = (if x = q then (pcb_at k x)\<lparr>status := ucast st\<rparr> else pcb_at k x)" if "x < 6" "x \<noteq> c" for x
    using e(4,5) pcb_of_inj [OF that(1) run(2)] pcb_of_inj [OF that(1) q6] that(2) by (auto simp: pcb_at_def)
  have "pcb_shape (pcbs k' ?b)" using t(1) e(4) by (simp add: can_start_def pcb_shape_def)
  then have "\<forall>x. pcb_shape (pcbs k' x)"
    using shapes_kept [of k k' ?a ?b] t(1) e(5,6) by (simp add: can_start_def pcb_ok_shape)
  then have start': "can_start k'" using t(1) e(1,2,7) by (simp add: can_start_def runs_def other_pids_kept_def)
  have wait: "waits_for k' r x \<longleftrightarrow> (if x = c then False \<and> r = q else waits_for k r x)" for r x
  proof (cases "x = c")
    case True
    then show ?thesis using running' by (simp add: waits_for_def)
  next
    case other: False
    show ?thesis
    proof (cases "x < 6")
      case True
      from running' [of x] other have "running k' x = running k x" by simp
      moreover have "parent (pcb_at k' x) = parent (pcb_at k x)" "parent_process_id (pcb_at k' x) = parent_process_id (pcb_at k x)"
        using at [OF True other] by simp_all
      ultimately show ?thesis using other by (simp add: waits_for_def)
    qed (use other in \<open>simp add: waits_for_slot\<close>)
  qed
  have tops: "on_top k' u x \<longleftrightarrow> (if u = ?c then x = q else on_top k u x)" if "u < 3" for u x
  proof (cases "u = ?c")
    case True
    then have "on_top k' u q" using e(3,7) q6 by (simp add: on_top_def get_current_pid_def other_pids_kept_def)
    then show ?thesis using True on_top_unique by auto
  qed (use e(7) in \<open>simp add: on_top_def other_pids_kept_def\<close>)
  show ?thesis
  proof (rule table_okI [OF start' _ _ running' c(2) run(2) _ wait tops ok q(1,2)])
    show "current_term (sched k') < 3" "length (terminals (sched k')) = 3" using e(7) t(2,3) by (simp_all add: other_pids_kept_def)
    show "pcb_ok (pcb_at k' x) \<and> process_id (pcb_at k' x) = of_nat (x + 1)" if "running k' x" for x
    proof -
      have x: "x \<noteq> c" "running k x" "x < 6" using that running' [of x] by (auto simp: running_def split: if_splits)
      show ?thesis using t(5) [OF x(2)] at [OF x(3,1)] by (cases "x = q") (simp_all add: pcb_ok_def)
    qed
  qed (use q top in auto)
qed

text \<open>A shell that halts is started again in its own slot.\<close>

lemma not_three: "(of_nat (p + 1) :: u32) > 3 \<longleftrightarrow> 3 \<le> p" "sint (of_nat (p + 1) :: i32) = int p + 1" if "p < 6"
  using sint_of_nat_u32 [of "p + 1"] that by (auto simp: word_less_nat_alt unat_of_nat_u32 simp del: of_nat_Suc of_nat_add)

lemma restart_table_ok:
  assumes halt: "halt env st k = Some (EnterUser eip us k')" and p: "in_kernel k p" "p < 3" and ok: "table_ok k"
  shows "table_ok k'"
proof -
  note t = table_okD [OF ok]
  let ?c = "current_term (sched k)" and ?a = "pcb_of (of_nat (p + 1))"
  have p6: "p < 6" using p(2) by simp
  have top: "on_top k ?c p" and stack: "kernel_stack (of_nat (p + 1)) k" using p by (simp_all add: in_kernel_def)
  have here: "get_pcb_address k = ?a" by (rule stack_pcb [OF p6 stack])
  have pid: "process_id (pcbs k ?a) = of_nat (p + 1)" using t(5) [OF t(4) [OF p(2)]] by (simp add: pcb_at_def)
  have len: "length (processes_running k) = 6" using t(1) by (simp add: can_start_def)
  define k1 where "k1 = fold putc (chars ''Cannot close base process -- '') k"
  have u: "untouched k k1" unfolding k1_def by (rule untouched_putc)
  define k2 where "k2 = k1\<lparr>dev := cli (dev k1), processes_running := (processes_running k1)[p := 0]\<rparr>"
  have run1: "processes_running k1 = processes_running k" "pcbs k1 = pcbs k" using u by (simp_all add: untouched_def)
  have set: "set_running (of_nat (p + 1)) 0 (k1\<lparr>dev := cli (dev k1)\<rparr>) = Some k2"
    unfolding set_running_def not_three(2) [OF p6] using p6 len run1 by (simp add: k2_def)
  have less: "sint (of_nat (p + 1) :: i32) < 4" unfolding not_three(2) [OF p6] using p(2) by simp
  have pid1: "process_id (pcbs (k1\<lparr>dev := cli (dev k1)\<rparr>) ?a) = of_nat (p + 1)" using pid run1 by simp
  have "halt env st k = execute_shell env k2 \<bind> (\<lambda>out. case out of Returns _ k \<Rightarrow> end_process ?a st k | _ \<Rightarrow> Some out)"
    unfolding halt_def Let_def here pid if_P [OF less] say_message [OF messages(3), of k, folded k1_def] Option.bind_lunit pid1 set ..
  from trans [OF this [symmetric] halt] obtain out where out: "execute_shell env k2 = Some out"
    "(case out of Returns _ k \<Rightarrow> end_process ?a st k | _ \<Rightarrow> Some out) = Some (EnterUser eip us k')"
    by (auto simp only: bind_eq_Some_conv)
  then have "execute_shell env k2 = Some (EnterUser eip us k')"
    by (cases out) (auto simp: bind_eq_Some_conv end_process_def restoreparent_def Let_def)
  moreover have same: "pcbs k2 = pcbs k" "paging k2 = paging k" "esp k2 = esp k" "sched k2 = sched k1"
    using u by (simp_all add: k2_def untouched_def)
  moreover have start2: "can_start k2" using t(1) u by (simp add: can_start_def untouched_def k2_def)
  ultimately obtain i where s: "started i k2 k'" unfolding execute_shell_def using execute_string_enters by blast
  note s = s [unfolded started_def Let_def]
  have slot: "takes_slot i k2 k'" using s by blast
  have running2: "processes_running k2 = (processes_running k)[p := 0]" by (simp add: k2_def run1)
  have "i = p"
  proof (rule ccontr)
    assume "i \<noteq> p"
    moreover have "\<not> p < i" using slot p6 len by (auto simp: takes_slot_def running2)
    ultimately have "i < p" by simp
    then have "running k i" "processes_running k ! i = 0" using t(4) [of i] p(2) slot by (simp_all add: takes_slot_def running2)
    then show False by (simp add: running_def)
  qed
  note s = s [unfolded this] and slot = slot [unfolded this]
  have fresh: "fresh_pcb (of_nat (p + 1)) (get_pcb_address k2) (pcbs k' ?a)" and runs: "runs p k'" using s by blast+
  have others: "\<forall>b. b \<noteq> ?a \<longrightarrow> pcbs k' b = pcbs k b" and kept: "other_pids_kept k1 k'" and top': "get_current_pid k' = of_nat (p + 1)"
    using s same by (simp_all add: other_pids_kept_def)
  have kept: "other_pids_kept k k'" using kept u by (simp add: other_pids_kept_def untouched_def)
  have new: "pcb_ok (pcb_at k' p)" "process_id (pcb_at k' p) = of_nat (p + 1)" using fresh by (simp_all add: fresh_pcb_def pcb_at_def)
  have at: "pcb_at k' x = pcb_at k x" if "x < 6" "x \<noteq> p" for x by (rule other_pcbs_kept [OF others p6 that])
  have "\<forall>x. pcb_shape (pcbs k' x)"
    by (rule shapes_kept [of k k' ?a ?a]) (use t(1) others new(1) in \<open>simp_all add: can_start_def pcb_at_def pcb_ok_shape\<close>)
  then have start': "can_start k'"
    using t(1) runs slot running2 kept by (simp add: can_start_def runs_def takes_slot_def other_pids_kept_def)
  have runs_same: "running k' x = running k x" for x
    using slot t(4) [OF p(2)] len by (auto simp: running_def takes_slot_def running2 nth_list_update)
  have pids: "t_pid (terminals (sched k') ! u) = t_pid (terminals (sched k) ! u)" for u
    using top' top kept by (cases "u = ?c") (simp_all add: on_top_def get_current_pid_def other_pids_kept_def)
  have "table_kept k k'"
    unfolding table_kept_def
  proof (intro conjI allI impI start' runs_same pids)
    fix x
    assume x: "running k x"
    have *: "pcb_ok (pcb_at k' x) \<and> process_id (pcb_at k' x) = process_id (pcb_at k x) \<and> (3 \<le> x \<longrightarrow> pcb_at k' x = pcb_at k x)"
      using new pid t(5) [OF x] at [of x] x p(2) by (cases "x = p") (auto simp: running_def pcb_at_def)
    then show "pcb_ok (pcb_at k' x)" "process_id (pcb_at k' x) = process_id (pcb_at k x)" by blast+
    show "parent (pcb_at k' x) = parent (pcb_at k x)" "parent_process_id (pcb_at k' x) = parent_process_id (pcb_at k x)" if "3 \<le> x"
      using * that by simp_all
  qed (use kept t(2) in \<open>simp_all add: other_pids_kept_def\<close>)
  then show ?thesis by (rule table_kept_ok) (rule ok)
qed

text \<open>A tick only saves and loads registers.\<close>

lemma tick_table_ok:
  assumes on: "\<forall>t < 3. is_on (sched k) ! t \<noteq> 0" "displays_ok k"
    and tick: "scheduler_next env k = Some (Resumes k')" and ok: "table_ok k"
  shows "table_ok k'"
proof -
  note t = table_okD [OF ok]
  let ?n = "(current_term (sched k) + 1) mod 3" and ?c = "current_term (sched k)"
  have n: "?n < 3" by simp
  from t(8) [OF n] obtain q where q: "t_pid (terminals (sched k) ! ?n) = of_nat (q + 1)" "q < 6" unfolding on_top_def by blast
  have "is_on (sched k) ! ?n \<noteq> 0" using on(1) n by blast
  from on(2) this q obtain k2 where k2: "scheduler_next env k = Some (Resumes k2)" "current_term (sched k2) = ?n" "runs q k2"
    "terminals (sched k2) = (terminals (sched k))[?c := (terminals (sched k) ! ?c)\<lparr>t_esp := esp k, t_ebp := ebp k\<rparr>]"
    "pcbs k2 = pcbs k" "processes_running k2 = processes_running k"
    by (rule scheduler_next_run [of k q, where env = env])
  then have [simp]: "k2 = k'" using tick by simp
  note k2 = k2 [simplified]
  have "can_start k'" "current_term (sched k') < 3" using t(1,3) k2 by (auto simp: can_start_def runs_def)
  moreover have "t_pid (terminals (sched k') ! u) = t_pid (terminals (sched k) ! u)" if "u < 3" for u
    using k2(4) t(2,3) that by (cases "u = ?c") simp_all
  ultimately have "table_kept k k'" using t(5) k2(4-) by (simp add: table_kept_def running_def pcb_at_def)
  then show ?thesis by (rule table_kept_ok) (rule ok)
qed

inductive_cases table_stepE [elim]: "table_step k k'"

text \<open>[C1] The process table stays in order whatever the processes of the three terminals do: in every kernel reached by
  programs being started, failing to start and halting, by shells being restarted and by ticks of the timer, the
  three shells run, each running process has a well-formed control block under its own number, each one above the
  shells was started by another running process, no process has two children, each terminal has exactly one running
  process on top, different for the three, and the process on top never waits for a child.\<close>

theorem process_table_invariant:
  assumes "table_step\<^sup>*\<^sup>* k k'" "table_ok k"
  shows "table_ok k'"
  using assms
proof (induction rule: rtranclp_induct)
  case (step k1 k2)
  then have ok: "table_ok k1" by blast
  from step.hyps(2) show ?case
  proof cases
    case (exec p env cmd eip us)
    then obtain i where "started i k1 k2" using execute_string_enters [OF exec(2) table_okD(1) [OF ok]] by blast
    then show ?thesis by (rule exec_table_ok [OF _ exec(1) ok])
  next
    case (exec_fails env cmd r)
    then have "table_kept k1 k2" using execute_string_returns [OF exec_fails] untouched_table_kept ok by blast
    then show ?thesis by (rule table_kept_ok) (rule ok)
  qed (use ok halt_table_ok restart_table_ok tick_table_ok table_kept_ok in blast)+
qed

end
