(* ===== verification/Idt.thy ===== *)
theory Idt imports Switching begin

text \<open>
  The interrupt descriptor table: the gate descriptors of \<open>x86_desc.h\<close>, \<open>initialize_IDT\<close> of \<open>idt.c\<close>
  and the handlers behind the gates. The addresses of the handlers are chosen by the linker and are a
  parameter. Of the processor the reading of a gate descriptor is written out: where it leads, whether
  interrupts are off on entry, and which privilege level may reach it with \<open>INT\<close>.
\<close>

subsection \<open>Gate descriptors\<close>

record idt_desc =
  offset_15_00 :: u16
  seg_selector :: u16
  reserved4 :: u8
  reserved3 :: "1 word"
  reserved2 :: "1 word"
  reserved1 :: "1 word"
  gate_size :: "1 word"
  reserved0 :: "1 word"
  dpl :: "2 word"
  present :: "1 word"
  offset_31_16 :: u16

text \<open>The other view of the union: the two words of the packed structure.\<close>

definition idt_val :: "idt_desc \<Rightarrow> u32 list" where
  "idt_val d = [push_bit 16 (ucast (seg_selector d)) OR ucast (offset_15_00 d),
     push_bit 16 (ucast (offset_31_16 d)) OR push_bit 15 (ucast (present d)) OR push_bit 13 (ucast (dpl d)) OR
     push_bit 12 (ucast (reserved0 d)) OR push_bit 11 (ucast (gate_size d)) OR push_bit 10 (ucast (reserved1 d)) OR
     push_bit 9 (ucast (reserved2 d)) OR push_bit 8 (ucast (reserved3 d)) OR ucast (reserved4 d)]"

definition SET_IDT_ENTRY :: "u32 \<Rightarrow> idt_desc \<Rightarrow> idt_desc" where
  "SET_IDT_ENTRY handler d = d\<lparr>
     offset_31_16 := ucast (drop_bit 16 (handler AND 0xFFFF0000)),
     offset_15_00 := ucast (handler AND 0xFFFF)\<rparr>"

subsection \<open>\<open>initialize_IDT\<close>\<close>

abbreviation (input) "KERNEL_CS \<equiv> (0x10 :: u16)"
abbreviation (input) "EXCEPTION_COUNT \<equiv> (32 :: nat)"
abbreviation (input) "PITNO \<equiv> (0x20 :: nat)"
abbreviation (input) "KEYBOARD \<equiv> (0x21 :: nat)"
abbreviation (input) "RTC \<equiv> (0x28 :: nat)"
abbreviation (input) "SYSTEMCALLNO \<equiv> (0x80 :: nat)"

datatype handler = Handle0 | Handle1 | Handle2 | Handle3 | Handle4 | Handle5 | Handle6 | Handle7 | Handle8
  | Handle9 | Handle10 | Handle14 | Commonehandler | Keyboardhandlerasm | Rtchandlerasm | Systemcallasm | Pithandlerasm

definition fill_gate :: "1 word \<Rightarrow> 2 word \<Rightarrow> idt_desc \<Rightarrow> idt_desc" where
  "fill_gate r3 level d = d\<lparr>dpl := level, present := 1, seg_selector := KERNEL_CS, reserved4 := 0, reserved3 := r3,
     reserved2 := 1, reserved1 := 1, reserved0 := 0, gate_size := 1\<rparr>"

definition exception_handler :: "nat \<Rightarrow> handler" where
  "exception_handler i =
     (if i = 0 then Handle0 else if i = 1 then Handle1 else if i = 2 then Handle2 else if i = 3 then Handle3
      else if i = 4 then Handle4 else if i = 5 then Handle5 else if i = 6 then Handle6 else if i = 7 then Handle7
      else if i = 8 then Handle8 else if i = 14 then Handle14 else if i = 9 then Handle9 else if i = 13 then Handle0
      else Commonehandler)"

definition set_vector :: "(handler \<Rightarrow> u32) \<Rightarrow> 1 word \<Rightarrow> 2 word \<Rightarrow> handler \<Rightarrow> nat \<Rightarrow> idt_desc list \<Rightarrow> idt_desc list" where
  "set_vector address r3 level h i idt = idt[i := SET_IDT_ENTRY (address h) (fill_gate r3 level (idt ! i))]"

definition initialize_IDT :: "(handler \<Rightarrow> u32) \<Rightarrow> idt_desc list \<Rightarrow> idt_desc list" where
  "initialize_IDT address idt =
     (let idt = fold (\<lambda>i. set_vector address 0 0 (exception_handler i) i) [0..<EXCEPTION_COUNT] idt;
          idt = set_vector address 1 0 Keyboardhandlerasm KEYBOARD idt;
          idt = set_vector address 1 0 Rtchandlerasm RTC idt;
          idt = set_vector address 1 3 Systemcallasm SYSTEMCALLNO idt
      in set_vector address 0 3 Pithandlerasm PITNO idt)"

text \<open>The table of \<open>x86_desc.S\<close> before it is filled.\<close>

definition empty_idt :: "idt_desc list" where
  "empty_idt = replicate 256 \<lparr>offset_15_00 = 0, seg_selector = 0, reserved4 = 0, reserved3 = 0, reserved2 = 0,
     reserved1 = 0, gate_size = 0, reserved0 = 0, dpl = 0, present = 0, offset_31_16 = 0\<rparr>"

subsection \<open>The handlers\<close>

text \<open>What the devices and registers hold when the processor takes the vector, and what becomes of it: a
  handler returns or switches, or it prints and stays in \<open>while(1)\<close>.\<close>

record interrupt_frame =
  scan_code :: u8
  unset_char :: u8
  cr2 :: u32
  reg_eax :: i32
  reg_ebx :: u32
  reg_ecx :: u32
  reg_edx :: u32

datatype served = Finished outcome | Stuck kernel

definition stuck_after :: "u8 list \<Rightarrow> kernel \<Rightarrow> served option" where
  "stuck_after msg k = map_option Stuck (say msg k)"

definition handle0 :: "kernel \<Rightarrow> served option" where
  "handle0 = stuck_after (chars ''general Protection exception'' @ [10])"
definition handle1 :: "kernel \<Rightarrow> served option" where
  "handle1 = stuck_after (chars ''Debug exception'' @ [10])"
definition handle2 :: "kernel \<Rightarrow> served option" where
  "handle2 = stuck_after (chars ''NMI Interupt'' @ [10])"
definition handle3 :: "kernel \<Rightarrow> served option" where
  "handle3 = stuck_after (chars ''Breakpoint Exception'' @ [10])"
definition handle4 :: "kernel \<Rightarrow> served option" where
  "handle4 = stuck_after (chars ''Overflow Exception'' @ [10])"
definition handle5 :: "kernel \<Rightarrow> served option" where
  "handle5 = stuck_after (chars ''BOUND Range Exceeded Exception'' @ [10])"
definition handle6 :: "kernel \<Rightarrow> served option" where
  "handle6 = stuck_after (chars ''Invalid Opcode Exception'' @ [10])"
definition handle7 :: "kernel \<Rightarrow> served option" where
  "handle7 = stuck_after (chars ''Device Not Available Exception'' @ [10])"
definition handle8 :: "kernel \<Rightarrow> served option" where
  "handle8 = stuck_after (chars ''Double Fault Exception'' @ [10])"
definition handle9 :: "kernel \<Rightarrow> served option" where
  "handle9 = stuck_after (chars ''Coprocessor Segment Overrun'' @ [10])"
definition handle10 :: "kernel \<Rightarrow> served option" where
  "handle10 = stuck_after (chars ''Invalid TSS exception'' @ [10])"
definition commonehandler :: "kernel \<Rightarrow> served option" where
  "commonehandler = stuck_after (chars ''exception raised'')"

definition keyboard_handler :: "u8 \<Rightarrow> u8 \<Rightarrow> kernel \<Rightarrow> kernel option" where
  "keyboard_handler code junk k = check_input code junk k"

definition rtc_handler :: "kernel \<Rightarrow> kernel" where
  "rtc_handler k = k\<lparr>dev := rtchandler (dev k)\<rparr>"

text \<open>What runs behind each address. The linkage routines of the devices save and restore the registers
  around the C handler, so the interrupted code sees its own \<open>eax\<close> again.\<close>

fun run_handler :: "handler \<Rightarrow> environment \<Rightarrow> interrupt_frame \<Rightarrow> kernel \<Rightarrow> served option" where
  "run_handler Handle0 env fr k = handle0 k"
| "run_handler Handle1 env fr k = handle1 k"
| "run_handler Handle2 env fr k = handle2 k"
| "run_handler Handle3 env fr k = handle3 k"
| "run_handler Handle4 env fr k = handle4 k"
| "run_handler Handle5 env fr k = handle5 k"
| "run_handler Handle6 env fr k = handle6 k"
| "run_handler Handle7 env fr k = handle7 k"
| "run_handler Handle8 env fr k = handle8 k"
| "run_handler Handle9 env fr k = handle9 k"
| "run_handler Handle10 env fr k = handle10 k"
| "run_handler Handle14 env fr k = map_option Finished (handle14 env (cr2 fr) k)"
| "run_handler Commonehandler env fr k = commonehandler k"
| "run_handler Keyboardhandlerasm env fr k =
     map_option (Finished o Returns (reg_eax fr)) (keyboard_handler (scan_code fr) (unset_char fr) k)"
| "run_handler Rtchandlerasm env fr k = Some (Finished (Returns (reg_eax fr) (rtc_handler k)))"
| "run_handler Systemcallasm env fr k =
     map_option Finished (systemcall env (reg_eax fr) (reg_ebx fr) (reg_ecx fr) (reg_edx fr) k)"
| "run_handler Pithandlerasm env fr k = map_option Finished (pithandler env k)"

subsection \<open>How the processor reads a gate\<close>

definition gate_target :: "idt_desc \<Rightarrow> u32" where
  "gate_target d = (let v = idt_val d in (v ! 1 AND 0xFFFF0000) OR (v ! 0 AND 0xFFFF))"

definition gate_selector :: "idt_desc \<Rightarrow> u32" where
  "gate_selector d = drop_bit 16 (idt_val d ! 0)"

definition gate_present :: "idt_desc \<Rightarrow> bool" where
  "gate_present d \<longleftrightarrow> bit (idt_val d ! 1) 15"

definition gate_level :: "idt_desc \<Rightarrow> u32" where
  "gate_level d = drop_bit 13 (idt_val d ! 1) AND 3"

datatype gate = Interrupt_gate | Trap_gate

definition gate_type :: "idt_desc \<Rightarrow> gate option" where
  "gate_type d = (let t = drop_bit 8 (idt_val d ! 1) AND 0x1F
     in if t = 0x0E then Some Interrupt_gate else if t = 0x0F then Some Trap_gate else None)"

text \<open>A well-formed 32-bit gate into the kernel's code segment.\<close>

definition gate_ok :: "idt_desc \<Rightarrow> bool" where
  "gate_ok d \<longleftrightarrow> gate_present d \<and> gate_type d \<noteq> None \<and> gate_selector d = 0x10 \<and> idt_val d ! 1 AND 0xFF = 0"

text \<open>The instruction \<open>INT i\<close> at privilege level \<open>cpl\<close>: the address it leads to, or a protection fault.\<close>

definition int_enters :: "u32 \<Rightarrow> idt_desc list \<Rightarrow> nat \<Rightarrow> u32 option" where
  "int_enters cpl idt i =
     (let d = idt ! i in if gate_type d \<noteq> None \<and> cpl \<le> gate_level d \<and> gate_present d then Some (gate_target d) else None)"

subsection \<open>The finished table\<close>

text \<open>The plan behind the table: handler, kind of gate and level of each vector.\<close>

definition vector_plan :: "nat \<Rightarrow> (handler \<times> gate \<times> u32) option" where
  "vector_plan i =
     (if i < 32 then Some (exception_handler i, Interrupt_gate, 0) else if i = 0x20 then Some (Pithandlerasm, Interrupt_gate, 3)
      else if i = 0x21 then Some (Keyboardhandlerasm, Trap_gate, 0) else if i = 0x28 then Some (Rtchandlerasm, Trap_gate, 0)
      else if i = 0x80 then Some (Systemcallasm, Trap_gate, 3) else None)"

lemma fold_update_length: "length (fold (\<lambda>i xs. xs[i := f i (xs ! i)]) [0..<n] xs) = length xs"
  by (induction n) simp_all

lemma fold_update_each:
  "j < length xs \<Longrightarrow> fold (\<lambda>i xs. xs[i := f i (xs ! i)]) [0..<n] xs ! j = (if j < n then f j (xs ! j) else xs ! j)"
  by (induction n) (auto simp: nth_list_update fold_update_length less_Suc_eq)

text \<open>Reading a filled gate back.\<close>

lemma mask_halves: "(0xFFFF :: u32) = mask 16" "(0xFFFF0000 :: u32) = push_bit 16 (mask 16)"
  by (simp_all add: mask_eq_exp_minus_1)

lemma high_low_words:
  fixes h c :: u32
  assumes "c < 0x10000"
  shows "(push_bit 16 h OR c) AND 0xFFFF0000 = push_bit 16 h" "n + m \<le> 16 \<Longrightarrow> drop_bit n (push_bit 16 h OR c) AND mask m = drop_bit n c AND mask m"
    "bit (push_bit 16 h OR c) 15 = bit c 15"
proof -
  have c: "\<not> bit c i" if "16 \<le> i" for i
  proof -
    have "unat (take_bit 16 c) = unat c"
      unfolding unsigned_take_bit_eq using assms by (simp add: take_bit_eq_mod word_less_nat_alt)
    then have "take_bit 16 c = c" by (simp add: word_unat_eq_iff)
    then show ?thesis using that by (metis bit_take_bit_iff not_less)
  qed
  show "(push_bit 16 h OR c) AND 0xFFFF0000 = push_bit 16 h"
    unfolding mask_halves by (rule bit_word_eqI) (auto simp: bit_simps c)
  show "drop_bit n (push_bit 16 h OR c) AND mask m = drop_bit n c AND mask m" if "n + m \<le> 16"
    by (rule bit_word_eqI) (use that in \<open>auto simp: bit_simps\<close>)
  show "bit (push_bit 16 h OR c) 15 = bit c 15" by (simp add: bit_simps)
qed

lemma drop_high: "drop_bit 16 (push_bit 16 (ucast s) OR ucast x) = (ucast s :: u32)" for s x :: u16
  by (rule bit_word_eqI) (auto simp: bit_simps dest: bit_imp_le_length)

lemma gate_words:
  fixes d :: idt_desc and a :: u32 and r3 :: "1 word"
  assumes "r3 = 0 \<or> r3 = 1" "level = 0 \<or> level = 3"
  defines "g \<equiv> SET_IDT_ENTRY a (fill_gate r3 level d)"
  shows "idt_val g ! 0 = push_bit 16 0x10 OR ucast (ucast (a AND 0xFFFF) :: u16)"
    "idt_val g ! 1 = push_bit 16 (ucast (ucast (drop_bit 16 (a AND 0xFFFF0000)) :: u16)) OR
       (if level = 0 then 0x8E00 else 0xEE00) OR (if r3 = 0 then 0 else 0x100)"
  using assms(1,2) by (auto simp: g_def idt_val_def SET_IDT_ENTRY_def fill_gate_def or.assoc)

lemma gate_reads_back:
  fixes d :: idt_desc and a :: u32 and r3 :: "1 word"
  assumes "r3 = 0 \<or> r3 = 1" "level = 0 \<or> level = 3"
  defines "g \<equiv> SET_IDT_ENTRY a (fill_gate r3 level d)"
  shows "gate_target g = a" "gate_ok g" "gate_type g = Some (if r3 = 0 then Interrupt_gate else Trap_gate)"
    "gate_level g = ucast level"
proof -
  define h :: u32 where "h = ucast (ucast (drop_bit 16 (a AND 0xFFFF0000)) :: u16)"
  define c :: u32 where "c = (if level = 0 then 0x8E00 else 0xEE00) OR (if r3 = 0 then 0 else 0x100)"
  have v: "idt_val g ! 0 = push_bit 16 0x10 OR ucast (ucast (a AND 0xFFFF) :: u16)" "idt_val g ! 1 = push_bit 16 h OR c"
    unfolding g_def using gate_words [OF assms(1,2), of a d] by (simp_all add: h_def c_def)
  have c: "c < 0x10000" using assms(1,2) by (auto simp: c_def)
  note w = high_low_words(1) [OF c, of h] high_low_words(2) [OF c, of _ _ h] high_low_words(3) [OF c, of h]
  have low: "(push_bit 16 0x10 OR ucast (ucast (a AND 0xFFFF) :: u16)) AND 0xFFFF = a AND (0xFFFF :: u32)"
    unfolding mask_halves by (rule bit_word_eqI) (auto simp only: bit_simps, simp_all)
  show "gate_target g = a"
    unfolding gate_target_def Let_def v w(1) low unfolding h_def mask_halves by (rule bit_word_eqI) (auto simp: bit_simps)
  have sel: "gate_selector g = 0x10"
    using drop_high [of "0x10" "ucast (a AND 0xFFFF)"] by (simp add: gate_selector_def v)
  have t: "drop_bit 8 (idt_val g ! 1) AND 0x1F = drop_bit 8 c AND 0x1F"
    using w(2) [of 8 5] unfolding v by (simp add: mask_eq_exp_minus_1)
  have l: "drop_bit 13 (idt_val g ! 1) AND 3 = drop_bit 13 c AND 3"
    using w(2) [of 13 2] unfolding v by (simp add: mask_eq_exp_minus_1)
  have z: "idt_val g ! 1 AND 0xFF = c AND 0xFF"
    using w(2) [of 0 8] unfolding v by (simp add: mask_eq_exp_minus_1)
  have p: "gate_present g" unfolding gate_present_def v w(3) using assms(1,2) by (auto simp: c_def)
  show type: "gate_type g = Some (if r3 = 0 then Interrupt_gate else Trap_gate)"
    unfolding gate_type_def Let_def t using assms(1,2) by (auto simp: c_def)
  show "gate_level g = ucast level" unfolding gate_level_def l using assms(1,2) by (auto simp: c_def)
  show "gate_ok g" unfolding gate_ok_def z sel type using p assms(1,2) by (auto simp: c_def)
qed

subsection \<open>Properties of the table\<close>

lemma set_vector_nth:
  "i < length idt \<Longrightarrow> set_vector address r3 level h i idt ! j =
     (if j = i then SET_IDT_ENTRY (address h) (fill_gate r3 level (idt ! i)) else idt ! j)"
  by (simp add: set_vector_def)

lemma initialize_IDT_nth:
  assumes "length idt = 256" "i < 256"
  shows "initialize_IDT address idt ! i =
    (case vector_plan i of None \<Rightarrow> idt ! i
     | Some (h, g, l) \<Rightarrow> SET_IDT_ENTRY (address h) (fill_gate (if g = Interrupt_gate then 0 else 1) (ucast l) (idt ! i)))"
proof -
  define t where "t = fold (\<lambda>i. set_vector address 0 0 (exception_handler i) i) [0..<32] idt"
  have eq: "(\<lambda>i. set_vector address 0 0 (exception_handler i) i) =
      (\<lambda>i xs. xs[i := SET_IDT_ENTRY (address (exception_handler i)) (fill_gate 0 0 (xs ! i))])"
    by (simp add: set_vector_def fun_eq_iff)
  have t: "length t = 256"
    "t ! j = (if j < 32 then SET_IDT_ENTRY (address (exception_handler j)) (fill_gate 0 0 (idt ! j)) else idt ! j)" if "j < 256" for j
    using fold_update_each [of j idt "\<lambda>i d. SET_IDT_ENTRY (address (exception_handler i)) (fill_gate 0 0 d)" 32]
      fold_update_length [of "\<lambda>i d. SET_IDT_ENTRY (address (exception_handler i)) (fill_gate 0 0 d)" 32 idt] assms(1) that
    by (simp_all add: t_def eq del: upt_rec_numeral)
  have len: "length (set_vector address r3 l h j xs) = length xs" for r3 l h j xs by (simp add: set_vector_def)
  show ?thesis
    using t(1) [OF assms(2)] t(2) [OF assms(2)] t(2) [of "0x20"] t(2) [of "0x21"] t(2) [of "0x28"] t(2) [of "0x80"]
    unfolding initialize_IDT_def Let_def t_def [symmetric]
    by (auto simp: set_vector_nth len vector_plan_def)
qed

text \<open>[C25] \<open>initialize_IDT\<close> fills exactly the planned vectors, each with a well-formed 32-bit gate into the kernel's code
  segment that leads to the address of its handler, with the planned kind and privilege level, and leaves every other
  entry alone: the 32 exceptions and the timer get interrupt gates, keyboard, clock and system call trap gates.\<close>

theorem initialize_IDT_gates:
  assumes "length idt = 256" "i < 256"
  shows "case vector_plan i of
      None \<Rightarrow> initialize_IDT address idt ! i = idt ! i
    | Some (h, g, l) \<Rightarrow> (let d = initialize_IDT address idt ! i in
        gate_ok d \<and> gate_target d = address h \<and> gate_type d = Some g \<and> gate_level d = l)"
proof (cases "vector_plan i")
  case None
  then show ?thesis using initialize_IDT_nth [OF assms] by simp
next
  case (Some p)
  obtain h g l where p: "p = (h, g, l)" by (cases p) auto
  have l: "l = 0 \<or> l = 3" using Some p by (auto simp: vector_plan_def split: if_splits)
  let ?r = "if g = Interrupt_gate then 0 else 1 :: 1 word" and ?l = "ucast l :: 2 word"
  have r: "?r = 0 \<or> ?r = 1" by simp
  have "?l = 0 \<or> ?l = 3" "ucast ?l = l" using l by auto
  with gate_reads_back [OF r this(1), of "address h" "idt ! i"] show ?thesis
    using initialize_IDT_nth [OF assms, of address] Some p by (cases g) (simp_all add: Let_def)
qed

lemma initialize_IDT_gates_witness:
  "let d = initialize_IDT (\<lambda>h. if h = Systemcallasm then 0x401234 else 0x400000) empty_idt ! 0x80
   in gate_target d = 0x401234 \<and> gate_type d = Some Trap_gate \<and> gate_level d = 3"
  using initialize_IDT_gates [of empty_idt "0x80" "\<lambda>h. if h = Systemcallasm then 0x401234 else 0x400000"]
  by (simp add: empty_idt_def vector_plan_def Let_def)

lemma empty_gate: "i < 256 \<Longrightarrow> gate_type (empty_idt ! i) = None"
  by (simp add: empty_idt_def gate_type_def idt_val_def)

lemma int_enters_planned:
  assumes "i < 256"
  shows "int_enters cpl (initialize_IDT address empty_idt) i =
    (case vector_plan i of None \<Rightarrow> None | Some (h, g, l) \<Rightarrow> if cpl \<le> l then Some (address h) else None)"
proof (cases "vector_plan i")
  case None
  have "length empty_idt = 256" by (simp add: empty_idt_def)
  from initialize_IDT_nth [OF this assms, of address] None show ?thesis
    using empty_gate [OF assms] by (simp add: int_enters_def)
next
  case (Some p)
  obtain h g l where p: "p = (h, g, l)" by (cases p) auto
  have l: "l = 0 \<or> l = 3" using Some p by (auto simp: vector_plan_def split: if_splits)
  let ?r = "if g = Interrupt_gate then 0 else 1 :: 1 word" and ?l = "ucast l :: 2 word"
  have r: "?r = 0 \<or> ?r = 1" by simp
  have "?l = 0 \<or> ?l = 3" "ucast ?l = l" using l by auto
  with gate_reads_back [OF r this(1), of "address h" "empty_idt ! i"] show ?thesis
    using initialize_IDT_nth [of empty_idt i address] Some p assms
    by (simp add: Let_def int_enters_def gate_ok_def empty_idt_def)
qed

text \<open>[C24] With the table of the boot image, a program at user level can enter the kernel with \<open>INT\<close> through two
  vectors only: 0x80 leads to the system calls and 0x20 to the handler of the timer. Every other \<open>INT\<close> faults,
  the exceptions and the other devices included. The kernel itself can take any of the 36 planned vectors.\<close>

theorem user_vectors:
  "{i. i < 256 \<and> int_enters 3 (initialize_IDT address empty_idt) i \<noteq> None} = {0x20, 0x80} \<and>
   int_enters 3 (initialize_IDT address empty_idt) 0x80 = Some (address Systemcallasm) \<and>
   int_enters 3 (initialize_IDT address empty_idt) 0x20 = Some (address Pithandlerasm) \<and>
   {i. i < 256 \<and> int_enters 0 (initialize_IDT address empty_idt) i \<noteq> None} = {..<34} \<union> {0x28, 0x80}"
proof (intro conjI)
  note step = int_enters_planned [of _ _ address]
  show "int_enters 3 (initialize_IDT address empty_idt) 0x80 = Some (address Systemcallasm)"
    "int_enters 3 (initialize_IDT address empty_idt) 0x20 = Some (address Pithandlerasm)"
    by (simp_all add: step vector_plan_def)
  show "{i. i < 256 \<and> int_enters 3 (initialize_IDT address empty_idt) i \<noteq> None} = {0x20, 0x80}"
    by (auto simp: step vector_plan_def split: if_splits)
  show "{i. i < 256 \<and> int_enters 0 (initialize_IDT address empty_idt) i \<noteq> None} = {..<34} \<union> {0x28, 0x80}"
    by (auto simp: step vector_plan_def split: if_splits)
qed

subsection \<open>Properties of the handlers\<close>

definition exception_message :: "nat \<Rightarrow> u8 list" where
  "exception_message i =
     (if i = 0 \<or> i = 13 then chars ''general Protection exception'' @ [10] else if i = 1 then chars ''Debug exception'' @ [10]
      else if i = 2 then chars ''NMI Interupt'' @ [10] else if i = 3 then chars ''Breakpoint Exception'' @ [10]
      else if i = 4 then chars ''Overflow Exception'' @ [10] else if i = 5 then chars ''BOUND Range Exceeded Exception'' @ [10]
      else if i = 6 then chars ''Invalid Opcode Exception'' @ [10] else if i = 7 then chars ''Device Not Available Exception'' @ [10]
      else if i = 8 then chars ''Double Fault Exception'' @ [10] else if i = 9 then chars ''Coprocessor Segment Overrun'' @ [10]
      else chars ''exception raised'')"

lemma fold_putc_shown:
  assumes "vis.ready k"
  shows "vis.ready (fold putc xs k) \<and> shown visible (fold putc xs k) = fold spec_putc xs (shown visible k)"
  using assms
proof (induction xs arbitrary: k)
  case (Cons x xs)
  have "shown visible (putc x k) = spec_putc x (shown visible k)" "vis.ready (putc x k)"
    using vis.putc_refines [OF Cons.prems, of x] by (simp_all add: putc_def vis_ready)
  then show ?case using Cons.IH by simp
qed simp

lemma exception_message_plain: "chr8 (CHR ''%'') \<notin> set (exception_message i)"
  by (simp add: exception_message_def chars_def)

lemma stuck_after_message:
  "chr8 (CHR ''%'') \<notin> set msg \<Longrightarrow> stuck_after msg k = Some (Stuck (fold putc msg k))"
  by (simp add: stuck_after_def say_message)

lemma exception_stuck:
  assumes "i < 32" "i \<noteq> 14"
  shows "run_handler (exception_handler i) env fr k = Some (Stuck (fold putc (exception_message i) k))"
proof -
  have "run_handler (exception_handler i) env fr k = stuck_after (exception_message i) k"
    using assms
    by (simp add: exception_handler_def exception_message_def handle0_def handle1_def handle2_def handle3_def handle4_def
        handle5_def handle6_def handle7_def handle8_def handle9_def commonehandler_def)
  then show ?thesis using stuck_after_message [OF exception_message_plain] by simp
qed

text \<open>Every processor exception but the page fault stops the machine: the handler prints its message at the visible
  terminal's cursor into the screen that is mapped, and stays in its loop for good, with interrupts off because its
  gate is an interrupt gate. Processes, page tables and devices are as they were.\<close>

theorem exception_stops:
  assumes "i < 32" "i \<noteq> 14" "length idt = 256"
    "visable_term (sched k) < length (terminals (sched k))" "cursor_ok (terminals (sched k) ! visable_term (sched k))"
  shows "\<exists>k'. run_handler (exception_handler i) env fr k = Some (Stuck k') \<and>
    gate_type (initialize_IDT address idt ! i) = Some Interrupt_gate \<and>
    shown visible k' = fold spec_putc (exception_message i) (shown visible k) \<and> untouched k k'"
proof -
  have r: "(0 :: 1 word) = 0 \<or> (0 :: 1 word) = 1" "(0 :: 2 word) = 0 \<or> (0 :: 2 word) = 3" by simp_all
  have "initialize_IDT address idt ! i = SET_IDT_ENTRY (address (exception_handler i)) (fill_gate 0 0 (idt ! i))"
    using initialize_IDT_nth [OF assms(3), of i address] assms(1) by (simp add: vector_plan_def)
  then have "gate_type (initialize_IDT address idt ! i) = Some Interrupt_gate"
    using gate_reads_back(3) [OF r] by simp
  moreover have "vis.ready k" using assms(4,5) by (simp add: vis_ready)
  ultimately show ?thesis using exception_stuck [OF assms(1,2)] fold_putc_shown untouched_putc by blast
qed

lemma exception_stops_witness:
  "\<forall>env fr. \<exists>k'. run_handler Handle6 env fr example_kernel = Some (Stuck k') \<and> processes_running k' = [1, 1, 1, 0, 0, 0]"
proof (intro allI)
  fix env fr
  have "\<exists>k'. run_handler (exception_handler 6) env fr example_kernel = Some (Stuck k') \<and>
      gate_type (initialize_IDT (\<lambda>_. 0) empty_idt ! 6) = Some Interrupt_gate \<and>
      shown visible k' = fold spec_putc (exception_message 6) (shown visible example_kernel) \<and> untouched example_kernel k'"
    by (rule exception_stops) (simp_all add: example_keyboard_def example_cursor empty_idt_def)
  then show "\<exists>k'. run_handler Handle6 env fr example_kernel = Some (Stuck k') \<and> processes_running k' = [1, 1, 1, 0, 0, 0]"
    by (auto simp: exception_handler_def untouched_def)
qed

lemma running_child_untouched: "untouched k k' \<Longrightarrow> running_child c p k' = running_child c p k"
  by (simp add: untouched_def running_child_def kernel_stack_def)

lemma handle14_halts:
  "\<exists>k1. untouched k k1 \<and> handle14 env a k = halt env 80 k1"
proof -
  define k1 where "k1 = fold putc (chars ''Page Fault exception'' @ [10]) k"
  have "rendered (vmem k1) None (chars ''The Exception occurred at:%x'') [a] \<noteq> None"
    by (simp add: chars_def)
  then obtain bs where bs: "rendered (vmem k1) None (chars ''The Exception occurred at:%x'') [a] = Some bs" by blast
  have "printf (vmem k1) (chars ''The Exception occurred at:%x'') (\<lambda>_. a) k1 =
      Some (of_nat (length (chars ''The Exception occurred at:%x'')), fold putc bs k1)"
    using printf_rendered [OF bs, of "\<lambda>_. a" 0 k1] by (simp add: printf_def)
  then have "handle14 env a k = halt env (chr8 (CHR ''P'')) (fold putc bs k1)"
    unfolding handle14_def say_message [OF messages(5), of k, folded k1_def] Option.bind_lunit by simp
  moreover have "chr8 (CHR ''P'') = 80" by simp
  moreover have "untouched k (fold putc bs k1)"
    using untouched_trans [OF untouched_putc untouched_putc] unfolding k1_def by blast
  ultimately show ?thesis by metis
qed

text \<open>[C23] A page fault in a program ends only that program: the handler prints the address and halts the process with
  status \<open>'P'\<close>; the caller is continued where it called \<open>execute\<close>, with its memory and its kernel stack, the slot is
  free, and no other control block changes.\<close>

theorem page_fault_ends_program:
  assumes "running_child c p k"
  shows "\<exists>k'. run_handler (exception_handler 14) env fr k = Some (Finished (Resumes k')) \<and>
    esp k' = parent_esp (pcbs k (pcb_of (of_nat (c + 1)))) \<and> ebp k' = parent_ebp (pcbs k (pcb_of (of_nat (c + 1)))) \<and>
    processes_running k' = (processes_running k)[c := 0] \<and> runs p k' \<and> get_current_pid k' = of_nat (p + 1) \<and>
    status (pcbs k' (pcb_of (of_nat (p + 1)))) = 80 \<and>
    (\<forall>x. x \<noteq> pcb_of (of_nat (c + 1)) \<and> x \<noteq> pcb_of (of_nat (p + 1)) \<longrightarrow> pcbs k' x = pcbs k x)"
proof -
  obtain k1 where k1: "untouched k k1" "handle14 env (cr2 fr) k = halt env 80 k1" using handle14_halts by blast
  have "running_child c p k1" using running_child_untouched [OF k1(1)] assms by simp
  then show ?thesis
  proof (rule halt_child [of c p k1 env 80], goal_cases)
    case (1 k')
    then show ?case using k1
      by (intro exI [of _ k']) (simp add: untouched_def exception_handler_def del: of_nat_add of_nat_Suc)
  qed
qed

end
