(* ===== verification/Boot.thy ===== *)
theory Boot imports ProcessTable begin

text \<open>
  From power-on to three running shells: the initialisation of \<open>kernel.c\<close> and the first ticks of the timer.
\<close>

subsection \<open>What starting a program leaves of the scheduler\<close>

lemma read_data_user_sched:
  assumes run: "read_data_user inode offset buf len k = Some (r, k')"
  shows "sched k' = sched k" "boot_block_addr (fs k') = boot_block_addr (fs k)" "dentry_a (fs k') = dentry_a (fs k)"
proof -
  obtain r1 m f where read: "read_data (vmem k) (fs k) inode offset buf len = (r1, m, f)"
    by (cases "read_data (vmem k) (fs k) inode offset buf len")
  with run obtain bs where "user_write buf bs (k\<lparr>fs := f\<rparr>) = Some k'"
    by (auto simp: read_data_user_def Let_def)
  then obtain p where "k' = k\<lparr>fs := f, phys := p\<rparr>" using user_write_phys by blast
  then show "sched k' = sched k" "boot_block_addr (fs k') = boot_block_addr (fs k)" "dentry_a (fs k') = dentry_a (fs k)"
    using read_data_fs [OF read] by simp_all
qed

lemma start_process_sched:
  assumes "start_process env inode pid n idx arr k = Some (EnterUser eip us k')"
  shows "sched k' = sched (set_pid pid k)" "boot_block_addr (fs k') = boot_block_addr (fs k)" "dentry_a (fs k') = dentry_a (fs k)"
proof -
  define k2 where "k2 = (set_pid pid k)\<lparr>paging := snd (paging_change_process pid (paging (set_pid pid k)))\<rparr>"
  obtain r k3 where k3: "read_data_user inode 0 0x8048000 0x400000 k2 = Some (r, k3)"
    using assms by (auto simp: start_process_def Let_def k2_def bind_eq_Some_conv)
  have "sched k' = sched k3" "fs k' = fs k3"
    using assms k3
    by (auto simp: start_process_def Let_def k2_def bind_eq_Some_conv contextswitchasm_def save_parent_registers_def upd_pcb_def)
  then show "sched k' = sched (set_pid pid k)" "boot_block_addr (fs k') = boot_block_addr (fs k)" "dentry_a (fs k') = dentry_a (fs k)"
    using read_data_user_sched [OF k3] by (simp_all add: k2_def set_pid_def upd_terminal_def)
qed

lemma load_program_sched:
  assumes "load_program env inode n idx arr k = Some (EnterUser eip us k')"
  shows "\<exists>pid. sched k' = sched (set_pid pid k) \<and> boot_block_addr (fs k') = boot_block_addr (fs k) \<and> dentry_a (fs k') = dentry_a (fs k)"
proof -
  obtain r1 k1 where k1: "read_data_user inode 0 (stack_array env) 40 k = Some (r1, k1)"
    using assms by (auto simp: load_program_def bind_eq_Some_conv)
  have exe: "r1 = 40" "is_executable (vmem k1) (stack_array env)"
    using assms k1 by (auto simp: load_program_def split: if_splits)
  then obtain r2 k2 where k2: "read_data_user inode 24 (stack_array env + 40) 4 k1 = Some (r2, k2)"
    using assms k1 by (auto simp: load_program_def bind_eq_Some_conv)
  define i where "i = find_slot (processes_running k2) 0"
  have "start_process env inode (of_nat (i + 1)) n idx arr (k2\<lparr>processes_running := (processes_running k2)[i := 1]\<rparr>) =
      Some (EnterUser eip us k')"
    using assms k1 k2 exe
    by (cases "i < length (processes_running k2)") (auto simp: load_program_def Let_def i_def bind_eq_Some_conv)
  from start_process_sched [OF this]
  have "sched k' = sched (set_pid (of_nat (i + 1)) k) \<and> boot_block_addr (fs k') = boot_block_addr (fs k) \<and> dentry_a (fs k') = dentry_a (fs k)"
    using read_data_user_sched [OF k1] read_data_user_sched [OF k2] by (simp add: set_pid_def upd_terminal_def)
  then show ?thesis by blast
qed

lemma execute_string_sched:
  assumes "execute_string env cmd k = Some (EnterUser eip us k')"
  shows "\<exists>pid. sched k' = sched (set_pid pid k) \<and> boot_block_addr (fs k') = boot_block_addr (fs k) \<and> dentry_a (fs k') = dentry_a (fs k)"
proof -
  obtain len where len: "strlen cmd = Some len" using assms by (auto simp: execute_string_def bind_eq_Some_conv)
  then have "\<not> len > of_nat 128" using assms by (auto simp: execute_string_def bind_eq_Some_conv)
  then obtain n arr buf i r1 e f where parse: "parse_command cmd = Some (n, arr, buf, i)" and
    look: "read_dentry_by_name (vmem k) (Some (arr_reader (\<lambda>_. 0) buf)) (Some (stack_dentry env)) (fs k) = Some (r1, e, f)"
    using assms len by (auto simp: execute_string_def bind_eq_Some_conv)
  then obtain d :: dentry where "load_program env (inode_num d) n i arr (k\<lparr>fs := f\<rparr>) = Some (EnterUser eip us k')"
    using assms len \<open>\<not> len > of_nat 128\<close> by (auto simp: execute_string_def Let_def split: option.splits if_splits)
  from load_program_sched [OF this] show ?thesis using lookup_fs [OF look] by (auto simp: set_pid_def upd_terminal_def)
qed

subsection \<open>The image of the shell\<close>

definition shell_name :: "u8 list" where
  "shell_name = chars ''shell''"

text \<open>The first file entry with a name; the directory's own entry comes before the files. The one called \<open>shell\<close>
  has this inode, and it is a program that can be loaded.\<close>

definition file_entry :: "mem \<Rightarrow> u32 \<Rightarrow> u8 list \<Rightarrow> nat \<Rightarrow> bool" where
  "file_entry m bb xs e \<longleftrightarrow> e < 62 \<and> name_at m (bb + 128 + of_nat e * 64) = xs \<and>
     (\<forall>i < e. name_at m (bb + 128 + of_nat i * 64) \<noteq> xs) \<and> take (length xs) (name_at m (bb + 64)) \<noteq> xs"

definition shell_ok :: "environment \<Rightarrow> kernel \<Rightarrow> u32 \<Rightarrow> bool" where
  "shell_ok env k inode \<longleftrightarrow> (let bb = boot_block_addr (fs k) in
     wf_dentry (stack_dentry env) \<and> kernel_area bb 4096 \<and> (\<forall>a. in_region (stack_array env) 44 a \<longrightarrow> \<not> in_region bb 4096 a) \<and>
     program_ok env k inode \<and>
     (\<exists>e. file_entry (vmem k) bb shell_name e \<and> inode = sext8 (vmem k (bb + 128 + of_nat e * 64 + 36))))"

lemma name_at_cong: "(\<And>i. i < 32 \<Longrightarrow> m' (p + of_nat i) = m (p + of_nat i)) \<Longrightarrow> name_at m' p = name_at m p"
  unfolding name_at_def by (intro arg_cong [of _ _ "takeWhile (\<lambda>b. b \<noteq> 0)"] map_cong) simp_all

lemma short_name_nul:
  assumes "length (name_at m p) < 32"
  shows "0 \<in> range m"
proof -
  let ?xs = "map (\<lambda>i. m (p + of_nat i)) [0..<32]"
  have "length (takeWhile (\<lambda>b. b \<noteq> 0) ?xs) < length ?xs" using assms by (simp add: name_at_def)
  from nth_length_takeWhile [OF this] show ?thesis
    using assms by (simp add: name_at_def)
qed

lemma c_string_array:
  assumes "0 \<notin> set xs" "length xs < 2 ^ 32"
  shows "c_string (arr_reader junk (xs @ [0])) xs"
  using assms by (auto simp: c_string_def arr_reader_def nth_append unat_of_nat_u32)

lemma shell_name_string: "length shell_name = 5" "c_string (arr_reader (\<lambda>_. 0) (shell_name @ [0])) shell_name"
proof -
  show len: "length shell_name = 5" by (simp add: shell_name_def chars_def)
  have "0 \<notin> set shell_name" by (simp add: shell_name_def chars_def)
  then show "c_string (arr_reader (\<lambda>_. 0) (shell_name @ [0])) shell_name" by (rule c_string_array) (simp add: len)
qed

lemma entry_found:
  assumes e: "file_entry m (boot_block_addr f) xs e" and f: "boot_block_addr f \<noteq> 0"
    and name: "c_string name xs" "length xs < 32" and wf: "wf_dentry d"
  shows "read_dentry_by_name m (Some name) (Some d) f =
    Some (0, Some (d\<lparr>fname := xs @ replicate (32 - length xs) 0,
      file_type := sext8 (m (boot_block_addr f + 128 + of_nat e * 64 + 32)),
      inode_num := sext8 (m (boot_block_addr f + 128 + of_nat e * 64 + 36))\<rparr>), read_counts m f)"
proof -
  let ?bb = "boot_block_addr f"
  have nul: "0 \<in> range m"
    using e name(2) by (intro short_name_nul [of _ "?bb + 128 + of_nat e * 64"]) (simp add: file_entry_def)
  have "length xs \<le> 32" using name(2) by simp
  from lookup_by_name [OF f nul name(1) this wf] e obtain j where
    j: "j \<le> 62" "\<forall>i < j. name_at m (?bb + 128 + of_nat i * 64) \<noteq> xs" "j < 62 \<longrightarrow> name_at m (?bb + 128 + of_nat j * 64) = xs" and
    look: "read_dentry_by_name m (Some name) (Some d) f =
      (if j < 62 then
         Some (0, Some (d\<lparr>fname := xs @ replicate (32 - length xs) 0,
           file_type := sext8 (m (?bb + 128 + of_nat j * 64 + 32)),
           inode_num := sext8 (m (?bb + 128 + of_nat j * 64 + 36))\<rparr>), read_counts m f)
       else Some (-1, Some d, read_counts m f))"
    unfolding file_entry_def by blast
  have "j = e"
  proof (rule antisym)
    have at_e: "e < 62" "name_at m (?bb + 128 + of_nat e * 64) = xs" and before: "\<forall>i < e. name_at m (?bb + 128 + of_nat i * 64) \<noteq> xs"
      using e unfolding file_entry_def by blast+
    show "j \<le> e" using at_e(2) j(2) not_le by blast
    then have "j < 62" using at_e(1) by simp
    then show "e \<le> j" using before j(3) not_le by blast
  qed
  then show ?thesis using look e by (simp add: file_entry_def)
qed

lemma file_entry_kept:
  assumes e: "file_entry m bb xs e" and block: "\<And>j. j < 4096 \<Longrightarrow> m' (bb + of_nat j) = m (bb + of_nat j)"
  shows "file_entry m' bb xs e" "i < 64 \<Longrightarrow> m' (bb + 128 + of_nat e * 64 + of_nat i) = m (bb + 128 + of_nat e * 64 + of_nat i)"
proof -
  have entry: "m' (bb + 128 + of_nat e * 64 + of_nat i) = m (bb + 128 + of_nat e * 64 + of_nat i)" if "e < 62" "i < 64" for e i
    using block [of "128 + e * 64 + i"] that by (simp add: add.assoc)
  have names: "name_at m' (bb + 128 + of_nat e * 64) = name_at m (bb + 128 + of_nat e * 64)" if "e < 62" for e
    by (rule name_at_cong) (use entry [OF that] in simp)
  have dot: "name_at m' (bb + 64) = name_at m (bb + 64)"
    by (rule name_at_cong) (use block [of "64 + i" for i] in \<open>simp add: add.assoc\<close>)
  have e62: "e < 62" using e by (simp add: file_entry_def)
  have "name_at m' (bb + 128 + of_nat i * 64) \<noteq> xs" if "i < e" for i
    using e names [of i] that e62 by (simp add: file_entry_def)
  then show "file_entry m' bb xs e" using e names [OF e62] dot by (simp add: file_entry_def)
  show "m' (bb + 128 + of_nat e * 64 + of_nat i) = m (bb + 128 + of_nat e * 64 + of_nat i)" if "i < 64"
    by (rule entry [OF e62 that])
qed

lemma shell_found:
  assumes "shell_ok env k inode"
  shows "\<exists>d. read_dentry_by_name (vmem k) (Some (arr_reader (\<lambda>_. 0) (shell_name @ [0]))) (Some (stack_dentry env)) (fs k) =
      Some (0, Some d, read_counts (vmem k) (fs k)) \<and> inode_num d = inode"
proof -
  let ?bb = "boot_block_addr (fs k)"
  note s = assms [unfolded shell_ok_def Let_def]
  obtain e where e: "file_entry (vmem k) ?bb shell_name e" "inode = sext8 (vmem k (?bb + 128 + of_nat e * 64 + 36))" using s by blast
  have wf: "wf_dentry (stack_dentry env)" and bb: "?bb \<noteq> 0" using s by (auto simp: kernel_area_def)
  have "length shell_name < 32" using shell_name_string(1) by simp
  from entry_found [OF e(1) bb shell_name_string(2) this wf] show ?thesis using e(2) by simp
qed

lemma shell_ok_kept_apart:
  assumes ok: "shell_ok env k inode" and same: "same_kernel_but buf n (vmem k) (vmem k')"
    and fs: "boot_block_addr (fs k') = boot_block_addr (fs k)"
    and apart: "\<forall>a. in_region buf n a \<longrightarrow> \<not> in_region (boot_block_addr (fs k)) 4096 a \<and> \<not> in_image (vmem k) (fs k) inode a"
  shows "shell_ok env k' inode"
proof -
  let ?bb = "boot_block_addr (fs k)" and ?m = "vmem k" and ?m' = "vmem k'"
  note s = ok [unfolded shell_ok_def Let_def]
  note prog = s [THEN conjunct2, THEN conjunct2, THEN conjunct2, THEN conjunct1, unfolded program_ok_def Let_def]
  have area: "kernel_area ?bb 4096" using s by blast
  have ok1: "file_ok ?m (fs k) inode" using prog by blast
  have "same_image ?m ?m' (fs k) inode"
    unfolding same_image_def using same apart in_image_kernel [OF ok1] unfolding same_kernel_but_def by blast
  note kept = file_kept_image [OF this ok1] and counts = file_ok_counts [OF fs]
  have program: "program_ok env k' inode"
    using prog kept by (simp add: program_ok_def Let_def counts)
  have block: "?m' (?bb + of_nat j) = ?m (?bb + of_nat j)" if "j < 4096" for j
  proof -
    have "in_region ?bb 4096 (?bb + of_nat j)" using that by (intro in_region_offset) (simp add: unat_of_nat_u32)
    then show ?thesis using same apart kernel_area_in [OF area] unfolding same_kernel_but_def by blast
  qed
  obtain e where e: "file_entry ?m ?bb shell_name e" "inode = sext8 (?m (?bb + 128 + of_nat e * 64 + 36))" using s by blast
  have "file_entry ?m' ?bb shell_name e" "?m' (?bb + 128 + of_nat e * 64 + of_nat 36) = ?m (?bb + 128 + of_nat e * 64 + of_nat 36)"
    by (rule file_entry_kept [OF e(1)]; simp only: block)+
  then show ?thesis
    using s program e(2) unfolding shell_ok_def Let_def fs by auto
qed

lemma shell_ok_kept:
  assumes ok: "shell_ok env k inode" and same: "same_kernel_but (stack_array env) 44 (vmem k) (vmem k')"
    and fs: "boot_block_addr (fs k') = boot_block_addr (fs k)"
  shows "shell_ok env k' inode"
proof (rule shell_ok_kept_apart [OF ok same fs])
  show "\<forall>a. in_region (stack_array env) 44 a \<longrightarrow> \<not> in_region (boot_block_addr (fs k)) 4096 a \<and> \<not> in_image (vmem k) (fs k) inode a"
    using ok unfolding shell_ok_def program_ok_def Let_def by blast
qed

subsection \<open>The first ticks\<close>

text \<open>\<open>n\<close> of the three shells have been started, the terminal of the last one is scheduled.\<close>

definition starting :: "environment \<Rightarrow> u32 \<Rightarrow> nat \<Rightarrow> kernel \<Rightarrow> bool" where
  "starting env inode n k \<longleftrightarrow> displays_ok k \<and> can_start k \<and> shell_ok env k inode \<and> current_term (sched k) = (n + 2) mod 3 \<and>
     length (is_on (sched k)) = 3 \<and> (\<forall>t < 3. is_on (sched k) ! t \<noteq> 0 \<longleftrightarrow> t < n) \<and> (\<forall>p. running k p \<longleftrightarrow> p < n) \<and>
     (\<forall>p < n. pcb_ok (pcb_at k p) \<and> process_id (pcb_at k p) = of_nat (p + 1)) \<and>
     (\<forall>t < 3. t_pid (terminals (sched k) ! t) = of_nat (t + 1))"

text \<open>The part of \<open>scheduler_next\<close> before it looks whether the terminal has its shell.\<close>

definition next_terminal :: "kernel \<Rightarrow> kernel" where
  "next_terminal k =
     (let k = save_esp_ebpasm k;
          k = k\<lparr>sched := (sched k)\<lparr>current_term := (current_term (sched k) + 1) mod 3\<rparr>\<rparr>;
          cur = current_term (sched k);
          k = select_window cur k
      in k\<lparr>sched := (sched k)\<lparr>is_on := (is_on (sched k))[cur := 1]\<rparr>\<rparr>)"

lemma select_window_sched [simp]: "sched (select_window n k) = sched k" "processes_running (select_window n k) = processes_running k"
  "pcbs (select_window n k) = pcbs k" "fs (select_window n k) = fs k" "phys (select_window n k) = phys k" "dev (select_window n k) = dev k"
  by (simp_all add: select_window_def)

lemma save_esp_ebpasm_sched [simp]: "current_term (sched (save_esp_ebpasm k)) = current_term (sched k)"
  "is_on (sched (save_esp_ebpasm k)) = is_on (sched k)"
  by (simp_all add: save_esp_ebpasm_def save_esp_ebp_def upd_terminal_def)

lemma scheduler_next_starts:
  assumes "is_on (sched k) ! ((current_term (sched k) + 1) mod 3) = 0"
    and "execute_shell env (next_terminal k) = Some (EnterUser eip us k')"
  shows "scheduler_next env k = Some (EnterUser eip us k')"
  using assms by (simp add: scheduler_next_def next_terminal_def Let_def)

lemma select_window_frame:
  assumes "displays_ok k" "n < 3"
  shows "select_window n k = k\<lparr>paging := set_video_frame (screen_frame k n) (paging k)\<rparr>" "screen_frame k n \<in> video_frames"
proof -
  have d: "vid_bufs (sched k) = [0xB9000, 0xBA000, 0xBB000]" using assms(1) by (simp add: displays_ok_def)
  have "paging_set_write_to_buffer (of_nat n) st = set_video_frame (vid_bufs (sched k) ! n) st" for st
    using d assms(2) by (auto simp: paging_set_write_to_buffer_def less_Suc_eq numeral_3_eq_3)
  then show "select_window n k = k\<lparr>paging := set_video_frame (screen_frame k n) (paging k)\<rparr>"
    by (simp add: select_window_def screen_frame_def paging_set_write_to_videomem_def)
  show "screen_frame k n \<in> video_frames"
    using buffers_in_video_frames(1) [OF d assms(2)] by (simp add: screen_frame_def video_frames_def)
qed

text \<open>A state in which a program has been started can start another.\<close>

lemma started_can_start:
  assumes "started i k k'" "can_start k"
  shows "can_start k'"
proof -
  let ?a = "pcb_of (of_nat (i + 1))"
  note s = assms(1) [unfolded started_def Let_def]
  have "pcb_shape (pcbs k' ?a)" using s pcb_ok_shape unfolding fresh_pcb_def by blast
  moreover have "\<forall>b. b \<noteq> ?a \<longrightarrow> pcbs k' b = pcbs k b" using s by blast
  ultimately have "\<forall>x. pcb_shape (pcbs k' x)" using assms(2) shapes_kept [of k k' ?a ?a] by (simp add: can_start_def)
  moreover have "takes_slot i k k'" "runs i k'" "other_pids_kept k k'" using s by blast+
  ultimately show ?thesis using assms(2) by (simp add: can_start_def takes_slot_def runs_def other_pids_kept_def)
qed

lemma same_kernel_but: "same_kernel m m' \<Longrightarrow> same_kernel_but s n m m'"
  by (simp add: same_kernel_def same_kernel_but_def)

lemma next_terminal_effect:
  assumes k: "starting env inode n k" and n: "n < 3"
  defines "k1 \<equiv> next_terminal k"
  shows "displays_ok k1" "can_start k1" "shell_ok env k1 inode" "current_term (sched k1) = n" "\<forall>p. running k1 p \<longleftrightarrow> p < n"
    "is_on (sched k1) = (is_on (sched k))[n := 1]" "\<forall>t. t_pid (terminals (sched k1) ! t) = t_pid (terminals (sched k) ! t)"
    "pcbs k1 = pcbs k" "file_bytes (vmem k1) (fs k1) inode = file_bytes (vmem k) (fs k) inode"
proof -
  note s = k [unfolded starting_def]
  define j where "j = save_esp_ebpasm k\<lparr>sched := (sched (save_esp_ebpasm k))\<lparr>current_term := n\<rparr>\<rparr>"
  define c where "c = current_term (sched k)"
  have cur: "(c + 1) mod 3 = n" using s n by (simp add: c_def) presburger
  have c3: "c < 3" using s by (simp add: displays_ok_def c_def)
  have sj: "sched j = (sched k)\<lparr>terminals := (terminals (sched k))[c := (terminals (sched k) ! c)\<lparr>t_esp := esp k, t_ebp := ebp k\<rparr>],
      current_term := n\<rparr>"
    and j: "paging j = paging k" "phys j = phys k" "fs j = fs k" "pcbs j = pcbs k" "processes_running j = processes_running k"
    by (simp_all add: j_def save_esp_ebpasm_def save_esp_ebp_def upd_terminal_def c_def)
  have d: "displays_ok k" "can_start k" using s by blast+
  have len: "length (terminals (sched k)) = 3" using d(1) by (simp add: displays_ok_def)
  have tj: "cursor_ok (terminals (sched j) ! t) = cursor_ok (terminals (sched k) ! t)"
    "t_pid (terminals (sched j) ! t) = t_pid (terminals (sched k) ! t)" for t
    using c3 len by (simp_all add: sj nth_list_update cursor_ok_def)
  have dj: "displays_ok j" using d(1) n tj(1) by (simp add: displays_ok_def j(1)) (simp add: sj)
  note w = select_window_frame [OF dj n]
  have k1: "k1 = (select_window n j)\<lparr>sched := (sched j)\<lparr>is_on := (is_on (sched j))[n := 1]\<rparr>\<rparr>"
    using cur by (simp add: k1_def next_terminal_def Let_def j_def c_def)
  have tables: "tables_ok (paging k)" "tables_ok (paging k1)"
    using d(1) tables_ok_set_video_frame [OF _ w(2)] by (simp_all add: displays_ok_def k1 w(1) j)
  have same: "phys k1 = phys k" "fs k1 = fs k" "processes_running k1 = processes_running k"
    by (simp_all add: k1 j)
  show "displays_ok k1" using dj tables(2) by (simp add: displays_ok_def) (simp add: k1)
  show "can_start k1" using d(2) dj tables(2) by (simp add: can_start_def displays_ok_def) (simp add: k1 j sj)
  show "current_term (sched k1) = n" "is_on (sched k1) = (is_on (sched k))[n := 1]" "pcbs k1 = pcbs k"
    by (simp_all add: k1 sj j)
  show "\<forall>t. t_pid (terminals (sched k1) ! t) = t_pid (terminals (sched k) ! t)" using tj(2) by (simp add: k1)
  show "\<forall>p. running k1 p \<longleftrightarrow> p < n" using s by (simp add: running_def same)
  have kernel: "same_kernel (vmem k) (vmem k1)" by (rule same_kernel_paging [OF tables same(1)])
  have shell: "shell_ok env k inode" using s by blast
  show "shell_ok env k1 inode" by (rule shell_ok_kept [OF shell same_kernel_but [OF kernel]]) (simp add: same)
  have "file_ok (vmem k) (fs k) inode" using shell by (simp add: shell_ok_def program_ok_def Let_def)
  then show "file_bytes (vmem k1) (fs k1) inode = file_bytes (vmem k) (fs k) inode"
    using file_kept(2) [OF kernel] by (simp add: same)
qed

lemma shell_command: "command_name shell_name = shell_name" "command_line shell_name = shell_name"
  by (simp_all add: command_name_def shell_name_def chars_def ends_name_def)

lemma first_free_slot:
  assumes "takes_slot i k k'" "i < 6" "\<forall>p. running k p \<longleftrightarrow> p < n" "n < 6"
  shows "i = n"
proof (rule antisym)
  have "\<not> running k n" using assms(3) by simp
  moreover have "\<not> running k i" using assms(1) by (simp add: takes_slot_def running_def)
  moreover have "running k j" if "j < i" for j using assms(1,2) that by (simp add: takes_slot_def running_def)
  ultimately show "i \<le> n" "n \<le> i" using assms(3) not_le by blast+
qed

lemma tick_starts_shell:
  assumes k: "starting env inode n k" and n: "n < 3"
  shows "\<exists>k'. scheduler_next env k = Some (EnterUser (bytes_word (file_bytes (vmem k) (fs k) inode) 24) 0x83FFFFC k') \<and>
    starting env inode (n + 1) k'"
proof -
  note s = k [unfolded starting_def]
  define k1 where "k1 = next_terminal k"
  note e = next_terminal_effect [OF k n, folded k1_def]
  have six: "length (processes_running k1) = 6" using e(2) by (simp add: can_start_def)
  have free: "0 \<in> set (processes_running k1)"
    using e(5) n six by (auto simp: running_def in_set_conv_nth intro: exI [of _ n])
  obtain d where d: "read_dentry_by_name (vmem k1) (Some (arr_reader (\<lambda>_. 0) (command_name shell_name @ [0])))
      (Some (stack_dentry env)) (fs k1) = Some (0, Some d, read_counts (vmem k1) (fs k1))" "inode_num d = inode"
    using shell_found [OF e(3)] unfolding shell_command by blast
  have prog: "program_ok env k1 (inode_num d)" using e(3) d(2) by (simp add: shell_ok_def Let_def)
  have short: "length shell_name \<le> 128" "length (command_line shell_name) \<le> 126"
    unfolding shell_command using shell_name_string(1) by simp_all
  have "(0 :: i32) \<noteq> -1" by simp
  from execute_string_runs [OF e(2) free shell_name_string(2) short d(1) this prog] d(2) e(9)
  obtain i k' where run: "execute_shell env k1 = Some (EnterUser (bytes_word (file_bytes (vmem k) (fs k) inode) 24) 0x83FFFFC k')" and
    start: "started i k1 k'" and mem: "same_kernel_but (stack_array env) 44 (vmem k1) (vmem k')"
    unfolding execute_shell_def shell_name_def by auto
  note st = start [unfolded started_def Let_def]
  have slot: "takes_slot i k1 k'" "i < 6" using st by blast+
  have i: "i = n" using first_free_slot [OF slot e(5)] n by simp
  obtain pid where k': "sched k' = sched (set_pid pid k1)" "boot_block_addr (fs k') = boot_block_addr (fs k1)"
    using execute_string_sched [OF run [unfolded execute_shell_def]] by blast
  have "starting env inode (n + 1) k'"
    unfolding starting_def
  proof (intro conjI)
    show can: "can_start k'" by (rule started_can_start [OF start e(2)])
    show "displays_ok k'"
      using e(1) can by (simp add: displays_ok_def can_start_def k'(1)) (simp add: set_pid_def upd_terminal_def nth_list_update cursor_ok_def)
    show "shell_ok env k' inode" by (rule shell_ok_kept [OF e(3) mem k'(2)])
    show "current_term (sched k') = (n + 1 + 2) mod 3" using e(4) n by (simp add: k'(1) set_pid_def upd_terminal_def)
    show "length (is_on (sched k')) = 3" using s by (simp add: k'(1) set_pid_def upd_terminal_def e(6))
    show "\<forall>t < 3. is_on (sched k') ! t \<noteq> 0 \<longleftrightarrow> t < n + 1"
      using s by (auto simp: k'(1) set_pid_def upd_terminal_def e(6) nth_list_update)
    show "\<forall>p. running k' p \<longleftrightarrow> p < n + 1"
      using e(5) slot n six unfolding i by (auto simp: running_def takes_slot_def nth_list_update)
    show "\<forall>p < n + 1. pcb_ok (pcb_at k' p) \<and> process_id (pcb_at k' p) = of_nat (p + 1)"
    proof (intro allI impI)
      fix p assume p: "p < n + 1"
      show "pcb_ok (pcb_at k' p) \<and> process_id (pcb_at k' p) = of_nat (p + 1)"
      proof (cases "p = n")
        case True
        have "fresh_pcb (of_nat (i + 1)) (get_pcb_address k1) (pcbs k' (pcb_of (of_nat (i + 1))))" using st by blast
        then show ?thesis unfolding fresh_pcb_def pcb_at_def True i by blast
      next
        case False
        have others: "\<forall>b. b \<noteq> pcb_of (of_nat (n + 1)) \<longrightarrow> pcbs k' b = pcbs k1 b" using st unfolding i by blast
        have "pcb_at k' p = pcb_at k1 p" by (rule other_pcbs_kept [OF others]) (use p n False in auto)
        then show ?thesis using s p False by (simp add: pcb_at_def e(8))
      qed
    qed
    show "\<forall>t < 3. t_pid (terminals (sched k') ! t) = of_nat (t + 1)"
    proof (intro allI impI)
      fix t :: nat assume t: "t < 3"
      have pid: "get_current_pid k' = of_nat (n + 1)" and kept: "other_pids_kept k1 k'" using st unfolding i by blast+
      show "t_pid (terminals (sched k') ! t) = of_nat (t + 1)"
      proof (cases "t = n")
        case True
        then show ?thesis using pid kept e(4) by (simp add: get_current_pid_def other_pids_kept_def)
      next
        case False
        then have "t_pid (terminals (sched k') ! t) = t_pid (terminals (sched k1) ! t)"
          using kept e(4) unfolding other_pids_kept_def by blast
        then show ?thesis using s t e(7) by simp
      qed
    qed
  qed
  moreover have "is_on (sched k) ! ((current_term (sched k) + 1) mod 3) = 0"
  proof -
    have "(current_term (sched k) + 1) mod 3 = n" using s n by simp presburger
    moreover have "is_on (sched k) ! n \<noteq> 0 \<longleftrightarrow> n < n" using s n by blast
    ultimately show ?thesis by simp
  qed
  ultimately show ?thesis using scheduler_next_starts run unfolding k1_def by blast
qed

lemma shells_started:
  assumes "starting env inode 3 k"
  shows "table_ok k"
proof -
  note s = assms [unfolded starting_def]
  have run: "running k p \<longleftrightarrow> p < 3" for p using s by blast
  have pid: "t_pid (terminals (sched k) ! t) = of_nat (t + 1)" if "t < 3" for t using s that by blast
  have top: "on_top k t p \<longleftrightarrow> p = t" if "t < 3" for t p
  proof -
    have "on_top k t t" using pid [OF that] that by (simp add: on_top_def)
    then show ?thesis using on_top_unique by blast
  qed
  have waits: "\<not> waits_for k q p" for q p using run [of p] by (auto simp: waits_for_def)
  have "displays_ok k" "can_start k" using s by blast+
  moreover have "pcb_ok (pcb_at k p) \<and> process_id (pcb_at k p) = of_nat (p + 1)" if "p < 3" for p using s that by blast
  ultimately show ?thesis unfolding table_ok_def using run top waits by (simp add: displays_ok_def)
qed

subsection \<open>Messages\<close>

lemma video_frame_low:
  assumes "tables_ok (paging k)" "in_region (window_frame k) 4000 a"
  shows "unat a < 0x400000"
proof -
  obtain f where f: "f \<in> video_frames" "page_table_0M_4M (paging k) ! 184 = f OR VMEM_OR_MASK"
    using assms(1) unfolding tables_ok_def by blast
  have "window_frame k = f" using frame_of_video_pte [OF f(1)] by (simp add: window_frame_def f(2))
  then have "unat (window_frame k) \<le> 0xBB000" using f(1) by (auto simp: video_frames_def)
  then show ?thesis using in_region_interval [of "window_frame k" 4000 a] assms(2) by simp
qed

lemma output_kernel:
  assumes k: "displays_ok k" and same: "screen_change (visible k) k k'" "vis.ready k'"
    and out: "\<And>a. \<not> in_region (window_frame k) 4000 a \<Longrightarrow> phys k' a = phys k a"
  shows "displays_ok k' \<and> same_kernel (vmem k) (vmem k')"
proof
  note c = screen_change_console [OF same(1)]
  show d: "displays_ok k'"
    unfolding displays_ok_def
  proof (intro conjI allI impI)
    fix t :: nat assume t: "t < 3"
    show "cursor_ok (terminals (sched k') ! t)"
      using same(2) c(3) c(9) [of t] k t by (cases "t = visible k") (auto simp: displays_ok_def vis_ready visible_def)
  qed (use k c in \<open>simp_all add: displays_ok_def\<close>)
  have t: "tables_ok (paging k)" using k by (simp add: displays_ok_def)
  show "same_kernel (vmem k) (vmem k')"
    unfolding same_kernel_def
  proof (intro allI impI)
    fix a :: u32 assume a: "0x400000 \<le> unat a \<and> unat a < 0x800000"
    then have "\<not> in_region (window_frame k) 4000 a" using video_frame_low [OF t] by fastforce
    then show "vmem k' a = vmem k a" using a t c(1) out by (simp add: vmem_kernel)
  qed
qed

lemma displays_ready: "displays_ok k \<Longrightarrow> vis.ready k"
  by (simp add: displays_ok_def vis_ready)

lemma putc_kernel: "displays_ok k \<Longrightarrow> displays_ok (putc c k) \<and> same_kernel (vmem k) (vmem (putc c k))"
  using vis.putc_refines(2) [OF displays_ready] vis.putc_frame(1) [OF displays_ready]
  by (intro output_kernel screen_change_putc) (simp_all add: putc_def vis_ready)

lemma message_kernel: "displays_ok k \<Longrightarrow> displays_ok (fold putc bs k) \<and> same_kernel (vmem k) (vmem (fold putc bs k))"
proof (induction bs arbitrary: k)
  case (Cons b bs)
  show ?case using putc_kernel [OF Cons.prems] Cons.IH [of "putc b k"] same_kernel_trans by auto
qed (simp add: same_kernel_def)

lemma clear_kernel:
  assumes "displays_ok k"
  shows "displays_ok (setposition 0 0 (clear k)) \<and> same_kernel (vmem k) (vmem (setposition 0 0 (clear k)))"
proof (rule output_kernel [OF assms])
  have "visible (clear k) < length (terminals (sched (clear k)))"
    using assms by (simp add: clear_phys visible_def displays_ok_def)
  note pos = setposition_facts [OF this, of 0 0]
  show "vis.ready (setposition 0 0 (clear k))"
    using pos(1,2,5,6) assms by (intro vis.readyI) (simp_all add: clear_phys displays_ok_def visible_def)
  show "screen_change (visible k) k (setposition 0 0 (clear k))"
    unfolding setposition_def set_global_screen_x_def set_global_screen_y_def by (simp add: screen_changes)
  show "phys (setposition 0 0 (clear k)) a = phys k a" if "\<not> in_region (window_frame k) 4000 a" for a
    using that pos(3) by (simp add: clear_phys cleared_def in_region_def Let_def)
qed

subsection \<open>\<open>kernel.c\<close>\<close>

text \<open>The end of \<open>entry\<close>: the task state, the file system, page tables, devices and the scheduler, up to
  the loop that waits for the timer. \<open>prev\<close> is what register B of the clock reads as. The table of
  \<open>initialize_IDT\<close> is not part of the state.\<close>

definition start_kernel :: "environment \<Rightarrow> u32 \<Rightarrow> u8 \<Rightarrow> kernel \<Rightarrow> kernel option" where
  "start_kernel env mod_start prev k = do {
     let k = k\<lparr>tss_ss0 := KERNEL_DS, tss_esp0 := 0x800000\<rparr>;
     let k = k\<lparr>fs := snd (set_mod_start mod_start (fs k))\<rparr>;
     let k = k\<lparr>paging := paging_initialize (paging k)\<rparr>;
     let k = enable_cursor k;
     let k = k\<lparr>dev := i8259_init (dev k)\<rparr>;
     let k = init_keyboard k;
     let k = k\<lparr>dev := init_rtc prev (dev k)\<rparr>;
     k \<leftarrow> init_global_scheduler env k;
     d \<leftarrow> init_pit 500 (dev k);
     k \<leftarrow> say (chars ''Printing in pit'') (k\<lparr>dev := d\<rparr>);
     k \<leftarrow> say (chars ''Enabling Interrupts'' @ [10]) k;
     let k = setposition 0 0 (clear k);
     Some (k\<lparr>dev := sti (dev k)\<rparr>)
   }"

text \<open>The machine as the boot loader leaves it: the zeroed globals, and an image with a shell in kernel memory,
  apart from the four bytes the scheduler reads from it.\<close>

definition power_on :: "environment \<Rightarrow> u32 \<Rightarrow> u32 \<Rightarrow> kernel \<Rightarrow> bool" where
  "power_on env mod_start inode k \<longleftrightarrow> (let k0 = k\<lparr>fs := snd (set_mod_start mod_start (fs k)), paging := paging_initialize (paging k)\<rparr> in
     boot_state (paging k) \<and> length (terminals (sched k)) = 3 \<and> length (vid_bufs (sched k)) = 3 \<and> length (is_on (sched k)) = 3 \<and>
     processes_running k = replicate 6 0 \<and> (\<forall>a. pcb_shape (pcbs k a)) \<and> shell_ok env k0 inode \<and>
     kernel_area (exe_bytes_at env) 4 \<and>
     (\<forall>a. in_region (exe_bytes_at env) 4 a \<longrightarrow>
        \<not> in_region (boot_block_addr (fs k0)) 4096 a \<and> \<not> in_image (vmem k0) (fs k0) inode a))"

lemma scheduler_terminals:
  assumes "length (terminals (sched k)) = 3" "length (vid_bufs (sched k)) = 3" "length (is_on (sched k)) = 3"
  defines "k' \<equiv> fold init_terminal [0..<3] k"
  shows "vid_bufs (sched k') = [0xB9000, 0xBA000, 0xBB000]" "is_on (sched k') = [0, 0, 0]" "length (terminals (sched k')) = 3"
    "\<forall>t < 3. cursor_ok (terminals (sched k') ! t) \<and> t_pid (terminals (sched k') ! t) = of_nat (t + 1)"
    "\<exists>s. k' = k\<lparr>sched := s\<rparr>"
proof -
  have up: "[0..<3] = [0, 1, 2 :: nat]" by (simp add: upt_rec)
  obtain a b c where t: "terminals (sched k) = [a, b, c]" using assms(1) by (auto simp: length_Suc_conv numeral_3_eq_3)
  obtain d e f where v: "vid_bufs (sched k) = [d, e, f]" using assms(2) by (auto simp: length_Suc_conv numeral_3_eq_3)
  obtain g h i where o: "is_on (sched k) = [g, h, i]" using assms(3) by (auto simp: length_Suc_conv numeral_3_eq_3)
  show "vid_bufs (sched k') = [0xB9000, 0xBA000, 0xBB000]" "is_on (sched k') = [0, 0, 0]" "length (terminals (sched k')) = 3"
    unfolding k'_def up by (simp_all add: init_terminal_def t v o)
  show "\<exists>s. k' = k\<lparr>sched := s\<rparr>"
    unfolding k'_def up by (simp add: init_terminal_def t v o, intro exI, rule refl)
  show "\<forall>t < 3. cursor_ok (terminals (sched k') ! t) \<and> t_pid (terminals (sched k') ! t) = of_nat (t + 1)"
    unfolding k'_def up by (simp add: init_terminal_def t v o cursor_ok_def numeral_3_eq_3 less_Suc_eq)
qed

lemma init_global_scheduler_starts:
  assumes k: "tables_ok (paging k)" "processes_running k = replicate 6 0" "\<forall>a. pcb_shape (pcbs k a)" "shell_ok env k inode"
    and len: "length (terminals (sched k)) = 3" "length (vid_bufs (sched k)) = 3" "length (is_on (sched k)) = 3"
    and exe: "kernel_area (exe_bytes_at env) 4" "\<forall>a. in_region (exe_bytes_at env) 4 a \<longrightarrow>
        \<not> in_region (boot_block_addr (fs k)) 4096 a \<and> \<not> in_image (vmem k) (fs k) inode a"
  shows "\<exists>k'. init_global_scheduler env k = Some k' \<and> starting env inode 0 k' \<and> dev k' = dev k"
proof -
  obtain d where look: "read_dentry_by_name (vmem k) (Some (arr_reader (\<lambda>_. 0) (chars ''shell'' @ [0]))) (Some (stack_dentry env)) (fs k) =
      Some (0, Some d, read_counts (vmem k) (fs k))" and d: "inode_num d = inode"
    using shell_found [OF k(4)] unfolding shell_name_def by blast
  define k1 where "k1 = k\<lparr>fs := read_counts (vmem k) (fs k)\<rparr>"
  have v1: "vmem k1 = vmem k" by (rule vmem_eq) (simp_all add: k1_def)
  have prog: "file_ok (vmem k) (fs k) inode" "40 \<le> file_size (vmem k) (fs k) inode"
    using k(4) by (simp_all add: shell_ok_def program_ok_def Let_def)
  have bb: "boot_block_addr (fs k1) = boot_block_addr (fs k)" by (simp add: k1_def read_counts_def)
  note image = file_ok_counts(3) [OF bb]
  have ok1: "tables_ok (paging k1)" "file_ok (vmem k1) (fs k1) inode" using k(1) prog(1) by (simp_all add: v1) (simp_all add: k1_def)
  have apart1: "\<not> in_image (vmem k1) (fs k1) inode a" if "in_region (exe_bytes_at env) 4 a" for a
    using exe(2) that by (simp add: v1 image)
  have n: "4 = min (unat (4 :: u32)) (file_size (vmem k1) (fs k1) inode - unat (24 :: u32))"
    "unat (24 :: u32) \<le> file_size (vmem k1) (fs k1) inode" "(4 :: u32) \<noteq> 0"
    using prog(2) by (simp_all add: v1) (simp_all add: k1_def)
  obtain k2 where k2: "read_data_user inode 24 (exe_bytes_at env) 4 k1 = Some (of_nat 4, k2)"
    "k2 = k1\<lparr>fs := read_counts (vmem k1) (fs k1), phys := put_bytes (phys k1) (exe_bytes_at env)
       (take 4 (drop (unat (24 :: u32)) (file_bytes (vmem k1) (fs k1) inode)))\<rparr>"
    "\<forall>a. 0x400000 \<le> unat a \<and> unat a < 0x800000 \<and> \<not> in_region (exe_bytes_at env) 4 a \<longrightarrow> vmem k2 a = vmem k1 a"
    by (rule read_data_user_kernel [OF ok1 exe(1) apart1 n], assumption) (rule that)
  have same2: "same_kernel_but (exe_bytes_at env) 4 (vmem k) (vmem k2)" using k2(3) by (simp add: same_kernel_but_def v1)
  have bb2: "boot_block_addr (fs k2) = boot_block_addr (fs k)" by (simp add: k2(2) k1_def read_counts_def)
  have shell2: "shell_ok env k2 inode" by (rule shell_ok_kept_apart [OF k(4) same2 bb2 exe(2)])
  define k3 where "k3 = k2\<lparr>sched := (sched k2)\<lparr>exe_bytes := map (\<lambda>i. vmem k2 (exe_bytes_at env + of_nat i)) [0..<4]\<rparr>\<rparr>"
  define k4 where "k4 = fold init_terminal [0..<3] k3"
  have "length (terminals (sched k3)) = 3" "length (vid_bufs (sched k3)) = 3" "length (is_on (sched k3)) = 3"
    using len by (simp_all add: k3_def k2(2) k1_def)
  note i4 = scheduler_terminals [OF this, folded k4_def]
  then obtain s where s: "k4 = k3\<lparr>sched := s\<rparr>" by blast
  define k6 where "k6 = k4\<lparr>paging := snd (paging_change_process 1 (paging k4)), sched := (sched k4)\<lparr>current_term := 2, visable_term := 0\<rparr>\<rparr>"
  have run: "init_global_scheduler env k = Some k6"
    unfolding init_global_scheduler_def look
    using k2(1) [unfolded k1_def]
    by (simp add: d k6_def k4_def k3_def Let_def)
  have same6: "phys k6 = phys k2" "fs k6 = fs k2" "pcbs k6 = pcbs k" "processes_running k6 = processes_running k" "dev k6 = dev k"
    by (simp_all add: k6_def s k3_def k2(2) k1_def)
  have p4: "paging k4 = paging k" by (simp add: s k3_def k2(2) k1_def)
  have "(1 :: u32) - 1 = of_nat 0" by simp
  from change_process_runs [of k4, OF _ _ this] k(1) p4
  have t6: "tables_ok (paging k6)" by (simp add: runs_def k6_def)
  have t2: "tables_ok (paging k2)" using k(1) by (simp add: k2(2) k1_def)
  have shell6: "shell_ok env k6 inode"
    by (rule shell_ok_kept [OF shell2 same_kernel_but [OF same_kernel_paging [OF t2 t6 same6(1)]]]) (simp add: same6)
  have "starting env inode 0 k6"
    unfolding starting_def
  proof (intro conjI)
    show "displays_ok k6" using t6 i4 by (simp add: displays_ok_def) (simp add: k6_def)
    show "can_start k6" using t6 i4 k(2,3) by (simp add: can_start_def same6) (simp add: k6_def)
    show "\<forall>p. running k6 p \<longleftrightarrow> p < 0" using k(2) by (simp add: running_def same6)
    show "\<forall>t < 3. is_on (sched k6) ! t \<noteq> 0 \<longleftrightarrow> t < 0" using i4(2) by (auto simp: k6_def less_Suc_eq numeral_3_eq_3)
  qed (use shell6 i4 in \<open>simp_all add: k6_def\<close>)
  then show ?thesis using run same6(5) by blast
qed

lemma starting_kept:
  assumes k: "starting env inode n k" and same: "untouched k k'" "displays_ok k'" "same_kernel (vmem k) (vmem k')"
  shows "starting env inode n k'"
proof -
  note s = k [unfolded starting_def] and u = same(1) [unfolded untouched_def]
  have can: "can_start k'" using s can_start_untouched [OF same(1)] by blast
  have slots: "processes_running k' = processes_running k" and pcbs: "pcbs k' = pcbs k" and
    bb: "boot_block_addr (fs k') = boot_block_addr (fs k)" and terms: "current_term (sched k') = current_term (sched k)"
    "is_on (sched k') = is_on (sched k)" "t_pid (terminals (sched k') ! t) = t_pid (terminals (sched k) ! t)" for t
    using u by blast+
  have shell: "shell_ok env k inode" using s by blast
  have "shell_ok env k' inode" by (rule shell_ok_kept [OF shell same_kernel_but [OF same(3)] bb])
  then show ?thesis using s can same(2) by (simp add: starting_def running_def pcb_at_def slots pcbs terms)
qed

lemma starting_message:
  assumes "starting env inode n k" "chr8 (CHR ''%'') \<notin> set msg"
  shows "\<exists>k'. say msg k = Some k' \<and> starting env inode n k'"
proof -
  have "displays_ok k" using assms(1) by (simp add: starting_def)
  from message_kernel [OF this, of msg] show ?thesis
    using say_message [OF assms(2)] starting_kept [OF assms(1) untouched_putc] by blast
qed

lemma starting_clear: "starting env inode n k \<Longrightarrow> starting env inode n (setposition 0 0 (clear k))"
proof -
  assume k: "starting env inode n k"
  then have d: "displays_ok k" by (simp add: starting_def)
  have "screen_change (visible k) k (setposition 0 0 (clear k))"
    unfolding setposition_def set_global_screen_x_def set_global_screen_y_def by (simp add: screen_changes)
  from starting_kept [OF k untouched_screen [OF this]] show "starting env inode n (setposition 0 0 (clear k))"
    using clear_kernel [OF d] by blast
qed

lemma starting_cong:
  assumes "paging k' = paging k" "phys k' = phys k" "sched k' = sched k" "fs k' = fs k" "pcbs k' = pcbs k"
    "processes_running k' = processes_running k"
  shows "starting env inode n k' = starting env inode n k"
proof -
  have "vmem k' = vmem k" by (rule vmem_eq) (fact assms)+
  then show ?thesis
    using assms by (simp add: starting_def displays_ok_def can_start_def shell_ok_def program_ok_def running_def pcb_at_def)
qed

lemma start_kernel_starting:
  assumes "power_on env mod_start inode k"
  shows "\<exists>k'. start_kernel env mod_start prev k = Some k' \<and> starting env inode 0 k' \<and> interrupts_on (dev k')"
proof -
  define k0 where "k0 = k\<lparr>fs := snd (set_mod_start mod_start (fs k)), paging := paging_initialize (paging k)\<rparr>"
  note p = assms [unfolded power_on_def Let_def, folded k0_def]
  define k1 where "k1 = enable_cursor (k\<lparr>tss_ss0 := KERNEL_DS, tss_esp0 := 0x800000, fs := snd (set_mod_start mod_start (fs k)),
    paging := paging_initialize (paging k)\<rparr>)"
  define k2 where "k2 = (init_keyboard (k1\<lparr>dev := i8259_init (dev k1)\<rparr>))
    \<lparr>dev := init_rtc prev (dev (init_keyboard (k1\<lparr>dev := i8259_init (dev k1)\<rparr>)))\<rparr>"
  have same: "paging k2 = paging k0" "phys k2 = phys k0" "sched k2 = sched k" "fs k2 = fs k0" "pcbs k2 = pcbs k"
    "processes_running k2 = processes_running k"
    by (simp_all add: k2_def k1_def k0_def init_keyboard_def enable_cursor_def crtc_outb_def Let_def set_key_def)
  have v: "vmem k2 = vmem k0" by (rule vmem_eq) (fact same)+
  have "tables_ok (paging k2)" using p tables_ok_initialize [of "paging k"] by (simp add: same) (simp add: k0_def)
  moreover have "shell_ok env k2 inode" using p by (simp add: shell_ok_def program_ok_def v same)
  ultimately obtain k3 where k3: "init_global_scheduler env k2 = Some k3" "starting env inode 0 k3"
    using init_global_scheduler_starts [of k2 env inode] p by (auto simp: same v)
  obtain d where d: "init_pit 500 (dev k3) = Some d" by (simp add: init_pit_def Let_def)
  have "starting env inode 0 (k3\<lparr>dev := d\<rparr>)" using k3(2) by (simp add: starting_cong [of "k3\<lparr>dev := d\<rparr>" k3])
  from starting_message [OF this, of "chars ''Printing in pit''"]
  obtain k4 where k4: "say (chars ''Printing in pit'') (k3\<lparr>dev := d\<rparr>) = Some k4" "starting env inode 0 k4"
    by (auto simp: chars_def)
  from starting_message [OF k4(2), of "chars ''Enabling Interrupts'' @ [10]"]
  obtain k5 where k5: "say (chars ''Enabling Interrupts'' @ [10]) k4 = Some k5" "starting env inode 0 k5"
    by (auto simp: chars_def)
  define k6 where "k6 = setposition 0 0 (clear k5)"
  have "start_kernel env mod_start prev k = Some (k6\<lparr>dev := sti (dev k6)\<rparr>)"
    unfolding start_kernel_def Let_def using k3(1) [unfolded k2_def k1_def] d k4(1) k5(1) by (simp add: k6_def)
  moreover have "starting env inode 0 (k6\<lparr>dev := sti (dev k6)\<rparr>)"
    using starting_clear [OF k5(2), folded k6_def] by (simp add: starting_cong [of "k6\<lparr>dev := sti (dev k6)\<rparr>" k6])
  ultimately show ?thesis by (auto simp: sti_def)
qed

text \<open>[C5] From power-on to the process table: with an image that holds a shell, the initialisation succeeds and
  leaves interrupts on and no process. Each of the first three ticks then enters the shell of the next terminal at
  its entry point, whatever keeps this state of the start-up in between, and after the third the process table
  satisfies its invariant.\<close>

theorem kernel_starts_shells:
  assumes "power_on env mod_start inode k"
  shows "(\<exists>k'. start_kernel env mod_start prev k = Some k' \<and> interrupts_on (dev k') \<and> starting env inode 0 k') \<and>
    (\<forall>n < 3. \<forall>k1. starting env inode n k1 \<longrightarrow>
       (\<exists>k2. pithandler env k1 = Some (EnterUser (bytes_word (file_bytes (vmem k1) (fs k1) inode) 24) 0x83FFFFC k2) \<and>
          starting env inode (n + 1) k2)) \<and>
    (\<forall>k3. starting env inode 3 k3 \<longrightarrow> table_ok k3)"
proof (intro conjI allI impI)
  show "\<exists>k'. start_kernel env mod_start prev k = Some k' \<and> interrupts_on (dev k') \<and> starting env inode 0 k'"
    using start_kernel_starting [OF assms] by blast
next
  fix n :: nat and k1
  assume n: "n < 3" and k1: "starting env inode n k1"
  let ?k = "k1\<lparr>dev := send_eoi 0 (dev k1)\<rparr>"
  have "starting env inode n ?k" using k1 by (simp add: starting_cong [of ?k k1])
  moreover have "vmem ?k = vmem k1" by (rule vmem_eq) simp_all
  ultimately show "\<exists>k2. pithandler env k1 = Some (EnterUser (bytes_word (file_bytes (vmem k1) (fs k1) inode) 24) 0x83FFFFC k2) \<and>
      starting env inode (n + 1) k2"
    using tick_starts_shell [of env inode n ?k] n by (simp add: pithandler_def)
qed (rule shells_started)

end
