(* ===== verification/UserLib.thy ===== *)
theory UserLib imports Boot begin

text \<open>
  What the user programs are built from: the call wrappers of \<open>ece391syscall.S\<close> and the helpers of
  \<open>ece391support.c\<close>. A program runs on the memory of its process, which it reaches through the page tables, and
  enters the kernel through \<open>systemcall\<close>; where its string constants lie is a parameter. The lemmas say what the
  helpers do with strings in the window of the process, what output and a line of input change, and the locale
  \<open>printing_loop\<close> is what the loops of the programs share.
\<close>

subsection \<open>System calls\<close>

text \<open>A call that comes back to the program; the wrappers without a case here have the number in the call. The code
  that calls \<open>main\<close> halts with its result.\<close>

definition DO_CALL :: "environment \<Rightarrow> i32 \<Rightarrow> u32 \<Rightarrow> u32 \<Rightarrow> u32 \<Rightarrow> kernel \<Rightarrow> (i32 \<times> kernel) option" where
  "DO_CALL env number ebx ecx edx k =
     (case systemcall env number ebx ecx edx k of Some (Returns r k) \<Rightarrow> Some (r, k) | _ \<Rightarrow> None)"

abbreviation (input) "SYS_HALT \<equiv> (1 :: i32)"
abbreviation (input) "SYS_EXECUTE \<equiv> (2 :: i32)"
abbreviation (input) "SYS_READ \<equiv> (3 :: i32)"
abbreviation (input) "SYS_WRITE \<equiv> (4 :: i32)"
abbreviation (input) "SYS_OPEN \<equiv> (5 :: i32)"
abbreviation (input) "SYS_CLOSE \<equiv> (6 :: i32)"
abbreviation (input) "SYS_GETARGS \<equiv> (7 :: i32)"
abbreviation (input) "SYS_VIDMAP \<equiv> (8 :: i32)"

definition start_user :: "environment \<Rightarrow> (kernel \<Rightarrow> (i32 \<times> kernel) option) \<Rightarrow> kernel \<Rightarrow> outcome option" where
  "start_user env main k = do { (r, k) \<leftarrow> main k; systemcall env SYS_HALT r 0 0 k }"

subsection \<open>\<open>ece391support.c\<close>\<close>

partial_function (option) ece391_strlen_from :: "u32 \<Rightarrow> u32 \<Rightarrow> kernel \<Rightarrow> u32 option" where
  "ece391_strlen_from s len k = do {
     c \<leftarrow> user_load s k;
     if c \<noteq> 0 then ece391_strlen_from (s + 1) (len + 1) k else Some len
   }"

definition ece391_strlen :: "u32 \<Rightarrow> kernel \<Rightarrow> u32 option" where
  "ece391_strlen s k = ece391_strlen_from s 0 k"

partial_function (option) ece391_strcpy :: "u32 \<Rightarrow> u32 \<Rightarrow> kernel \<Rightarrow> kernel option" where
  "ece391_strcpy dst src k = do {
     c \<leftarrow> user_load src k;
     k \<leftarrow> user_store dst c k;
     if c \<noteq> 0 then ece391_strcpy (dst + 1) (src + 1) k else Some k
   }"

definition ece391_fdputs :: "environment \<Rightarrow> i32 \<Rightarrow> u32 \<Rightarrow> kernel \<Rightarrow> kernel option" where
  "ece391_fdputs env fd s k = do {
     len \<leftarrow> ece391_strlen s k;
     (_, k) \<leftarrow> DO_CALL env SYS_WRITE fd s len k;
     Some k
   }"

partial_function (option) ece391_strcmp :: "u32 \<Rightarrow> u32 \<Rightarrow> kernel \<Rightarrow> i32 option" where
  "ece391_strcmp s1 s2 k = do {
     a \<leftarrow> user_load s1 k;
     b \<leftarrow> user_load s2 k;
     if a = b then (if a = 0 then Some 0 else ece391_strcmp (s1 + 1) (s2 + 1) k) else Some (ucast a - ucast b)
   }"

partial_function (option) ece391_strncmp_loop :: "u32 \<Rightarrow> u32 \<Rightarrow> u32 \<Rightarrow> kernel \<Rightarrow> i32 option" where
  "ece391_strncmp_loop s1 s2 n k = do {
     a \<leftarrow> user_load s1 k;
     b \<leftarrow> user_load s2 k;
     if a = b then (if a = 0 \<or> n - 1 = 0 then Some 0 else ece391_strncmp_loop (s1 + 1) (s2 + 1) (n - 1) k)
     else Some (ucast a - ucast b)
   }"

definition ece391_strncmp :: "u32 \<Rightarrow> u32 \<Rightarrow> u32 \<Rightarrow> kernel \<Rightarrow> i32 option" where
  "ece391_strncmp s1 s2 n k = (if n = 0 then Some 0 else ece391_strncmp_loop s1 s2 n k)"

text \<open>\<open>beg\<close> and \<open>end\<close> are signed.\<close>

partial_function (option) ece391_strrev_loop :: "u32 \<Rightarrow> i32 \<Rightarrow> i32 \<Rightarrow> kernel \<Rightarrow> kernel option" where
  "ece391_strrev_loop s beg end' k =
     (if sint beg < sint end' then do {
        tmp \<leftarrow> user_load (s + end') k;
        c \<leftarrow> user_load (s + beg) k;
        k \<leftarrow> user_store (s + end') c k;
        k \<leftarrow> user_store (s + beg) tmp k;
        ece391_strrev_loop s (beg + 1) (end' - 1) k
      }
      else Some k)"

definition ece391_strrev :: "u32 \<Rightarrow> kernel \<Rightarrow> kernel option" where
  "ece391_strrev s k = do {
     len \<leftarrow> ece391_strlen s k;
     let end' = len - 1;
     if sint end' \<le> 0 then Some k else ece391_strrev_loop s 0 end' k
   }"

text \<open>The digit table is that of \<open>lib.c\<close>. The remainder and the quotient are unsigned, for \<open>newval\<close> is.\<close>

partial_function (option) ece391_itoa_loop :: "u32 \<Rightarrow> u32 \<Rightarrow> i32 \<Rightarrow> kernel \<Rightarrow> (u32 \<times> kernel) option" where
  "ece391_itoa_loop newbuf newval radix k =
     (if newval = 0 then Some (newbuf, k)
      else if radix = 0 then None
      else let i = newval mod radix in
        if unat i < length itoa_lookup then do {
          k \<leftarrow> user_store newbuf (itoa_lookup ! unat i) k;
          ece391_itoa_loop (newbuf + 1) (newval div radix) radix k
        }
        else None)"

definition ece391_itoa :: "u32 \<Rightarrow> u32 \<Rightarrow> i32 \<Rightarrow> kernel \<Rightarrow> kernel option" where
  "ece391_itoa value buf radix k =
     (if value = 0 then do {
        k \<leftarrow> user_store buf (chr8 (CHR ''0'')) k;
        user_store (buf + 1) 0 k
      }
      else do {
        (newbuf, k) \<leftarrow> ece391_itoa_loop buf value radix k;
        k \<leftarrow> user_store newbuf 0 k;
        ece391_strrev buf k
      })"

subsection \<open>Strings in user memory\<close>

definition user_string :: "nat \<Rightarrow> u32 \<Rightarrow> u8 list \<Rightarrow> kernel \<Rightarrow> bool" where
  "user_string p va xs k \<longleftrightarrow> user_buffer va (length xs + 1) \<and> 0 \<notin> set xs \<and>
     (\<forall>i \<le> length xs. phys k (user_pa p va + of_nat i) = (xs @ [0]) ! i)"

lemma user_load_window:
  assumes "runs p k" "user_buffer va n" "i < n"
  shows "user_load (va + of_nat i) k = Some (phys k (user_pa p va + of_nat i))"
  using xlate_window [OF assms] by (simp add: user_load_def)

lemma user_store_window:
  assumes "runs p k" "user_buffer buf n" "unat i < n"
  shows "user_store (buf + i) b k = Some (k\<lparr>phys := (phys k)(user_pa p buf + i := b)\<rparr>)"
  using xlate_window [OF assms] by (simp add: user_store_def)

lemma user_buffer_shift: "user_buffer va (n + m) \<Longrightarrow> user_buffer (va + of_nat n) m"
  using unat_add_small [of va "of_nat n"] by (simp add: user_buffer_def)

lemma user_pa_shift: "user_pa p (va + of_nat n) = user_pa p va + of_nat n"
  by (simp add: user_pa_def)

lemma user_string_load:
  assumes "runs p k" "user_string p va xs k" "i \<le> length xs"
  shows "user_load (va + of_nat i) k = Some ((xs @ [0]) ! i)"
  using user_load_window [of p k va "length xs + 1" i] assms by (simp add: user_string_def)

lemma user_string_hd: "runs p k \<Longrightarrow> user_string p va xs k \<Longrightarrow> user_load va k = Some (case xs of [] \<Rightarrow> 0 | x # _ \<Rightarrow> x)"
  using user_string_load [of p k va xs 0] by (auto split: list.splits)

lemma user_string_tl:
  assumes "user_string p va (x # xs) k"
  shows "user_string p (va + 1) xs k" "x \<noteq> 0"
proof -
  have "phys k (user_pa p va + of_nat (Suc i)) = (xs @ [0]) ! i" if "i \<le> length xs" for i
    using assms that unfolding user_string_def by (metis Suc_le_mono append_Cons length_Cons nth_Cons_Suc)
  moreover have "user_buffer (va + 1) (length xs + 1)"
    using user_buffer_shift [of va 1 "length xs + 1"] assms by (simp add: user_string_def add.commute)
  ultimately show "user_string p (va + 1) xs k"
    using assms user_pa_shift [of p va 1] by (simp add: user_string_def algebra_simps)
  show "x \<noteq> 0" using assms by (auto simp: user_string_def)
qed

lemma user_string_length: "user_string p va xs k \<Longrightarrow> length xs < 0x400000"
  by (simp add: user_string_def user_buffer_def)

lemma strlen_from_user:
  assumes "runs p k" "user_string p va xs k"
  shows "ece391_strlen_from va n k = Some (n + of_nat (length xs))"
  using assms
proof (induction xs arbitrary: va n)
  case Nil
  then show ?case using user_string_hd [OF Nil] by (subst ece391_strlen_from.simps) simp
next
  case (Cons x xs)
  note tl = user_string_tl [OF Cons.prems(2)]
  from Cons.IH [OF Cons.prems(1) tl(1), of "n + 1"] show ?case
    using user_string_hd [OF Cons.prems] tl(2) by (subst ece391_strlen_from.simps) (simp add: algebra_simps)
qed

lemma strlen_user: "runs p k \<Longrightarrow> user_string p va xs k \<Longrightarrow> ece391_strlen va k = Some (of_nat (length xs))"
  using strlen_from_user [of p k va xs 0] by (simp add: ece391_strlen_def)

text \<open>Comparison: the sign of the difference at the first place where the strings differ, the end included.\<close>

fun compare_strings :: "u8 list \<Rightarrow> u8 list \<Rightarrow> i32" where
  "compare_strings [] [] = 0"
| "compare_strings [] (y # ys) = - ucast y"
| "compare_strings (x # xs) [] = ucast x"
| "compare_strings (x # xs) (y # ys) = (if x = y then compare_strings xs ys else ucast x - ucast y)"

lemma strcmp_user:
  assumes "runs p k" "user_string p a xs k" "user_string p b ys k"
  shows "ece391_strcmp a b k = Some (compare_strings xs ys)"
  using assms
proof (induction xs ys arbitrary: a b rule: compare_strings.induct)
  case (4 x xs y ys)
  note tl = user_string_tl [OF 4(3)] user_string_tl [OF 4(4)]
  show ?case
    using user_string_hd [OF 4(2,3)] user_string_hd [OF 4(2,4)] 4(1) [OF _ 4(2) tl(1,3)] tl(2)
    by (subst ece391_strcmp.simps) simp
next
  case 1
  show ?case using user_string_hd [OF 1(1,2)] user_string_hd [OF 1(1,3)] by (subst ece391_strcmp.simps) simp
next
  case (2 y ys)
  show ?case using user_string_hd [OF 2(1,2)] user_string_hd [OF 2(1,3)] user_string_tl(2) [OF 2(3)]
    by (subst ece391_strcmp.simps) simp
next
  case (3 x xs)
  show ?case using user_string_hd [OF 3(1,2)] user_string_hd [OF 3(1,3)] user_string_tl(2) [OF 3(2)]
    by (subst ece391_strcmp.simps) simp
qed

lemma ucast_u8_eq [simp]: "(ucast x :: u32) = ucast y \<longleftrightarrow> x = y" "(ucast x :: u32) = 0 \<longleftrightarrow> x = 0" for x y :: u8
proof -
  have u: "unat (ucast z :: u32) = unat z" for z :: u8
  proof -
    have "unat z < 2 ^ LENGTH(8)" by (rule unsigned_less)
    then show ?thesis by (simp add: unsigned_ucast_eq take_bit_nat_eq_self)
  qed
  show "(ucast x :: u32) = ucast y \<longleftrightarrow> x = y" "(ucast x :: u32) = 0 \<longleftrightarrow> x = 0"
    by (simp_all only: word_unat_eq_iff u unsigned_0)
qed

lemma compare_strings_0: "0 \<notin> set xs \<Longrightarrow> 0 \<notin> set ys \<Longrightarrow> compare_strings xs ys = 0 \<longleftrightarrow> xs = ys"
proof (induction xs ys rule: compare_strings.induct)
  case (2 y ys)
  then show ?case by simp
next
  case (3 x xs)
  then show ?case by simp
next
  case (4 x xs y ys)
  then show ?case by auto
qed simp

lemma strncmp_loop_user:
  assumes "runs p k" "user_string p a xs k" "user_string p b ys k" "n \<noteq> 0"
  shows "ece391_strncmp_loop a b n k = Some (compare_strings (take (unat n) xs) (take (unat n) ys))"
  using assms
proof (induction xs arbitrary: a b n ys)
  case Nil
  show ?case
  proof (cases ys)
    case (Cons y zs)
    then show ?thesis
      using user_string_hd [OF Nil(1,2)] user_string_hd [OF Nil(1,3)] user_string_tl(2) [of p b y zs k] Nil(3,4)
      by (subst ece391_strncmp_loop.simps) (simp add: take_Cons' unat_eq_0)
  qed (use user_string_hd [OF Nil(1,2)] user_string_hd [OF Nil(1,3)] in
      \<open>simp add: ece391_strncmp_loop.simps [of a b]\<close>)
next
  case (Cons x xs)
  note tlx = user_string_tl [OF Cons.prems(2)]
  obtain m where m: "unat n = Suc m" using Cons.prems(4) by (cases "unat n") (simp_all add: unat_eq_0)
  then have un: "unat (n - 1) = m" using unat_minus_one [OF Cons.prems(4)] by simp
  show ?case
  proof (cases ys)
    case Nil
    then show ?thesis
      using user_string_hd [OF Cons.prems(1,2)] user_string_hd [OF Cons.prems(1,3)] tlx(2) m
      by (subst ece391_strncmp_loop.simps) simp
  next
    case ys: (Cons y zs)
    note tly = user_string_tl [OF Cons.prems(3) [unfolded ys]]
    have heads: "user_load a k = Some x" "user_load b k = Some y"
      using user_string_hd [OF Cons.prems(1,2)] user_string_hd [OF Cons.prems(1,3)] ys by simp_all
    show ?thesis
    proof (cases "n - 1 = 0")
      case True
      then have "m = 0" using un by simp
      then show ?thesis using heads True m ys by (subst ece391_strncmp_loop.simps) simp
    next
      case False
      from Cons.IH [OF Cons.prems(1) tlx(1) tly(1) this] show ?thesis
        using heads False m un ys tlx(2) by (subst ece391_strncmp_loop.simps) simp
    qed
  qed
qed

lemma strncmp_user:
  assumes "runs p k" "user_string p a xs k" "user_string p b ys k"
  shows "ece391_strncmp a b n k = Some (compare_strings (take (unat n) xs) (take (unat n) ys))"
  using strncmp_loop_user [OF assms, of n] by (simp add: ece391_strncmp_def)

text \<open>Stores into a buffer, as one list of bytes.\<close>

lemma put_bytes_write_list: "put_bytes m d bs = write_list m d bs"
  by (auto simp: put_bytes_def write_list_def in_region_def)

lemma user_string_written:
  assumes "user_buffer va (length xs + 1)" "0 \<notin> set xs"
  shows "user_string p va xs (k\<lparr>phys := write_list m (user_pa p va) (xs @ 0 # ys)\<rparr>)"
proof -
  have "write_list m (user_pa p va) (xs @ 0 # ys) (user_pa p va + of_nat i) = (xs @ [0]) ! i" if "i \<le> length xs" for i
  proof -
    have "i < 2 ^ 32" using that assms(1) by (simp add: user_buffer_def)
    then have "unat (user_pa p va + of_nat i - user_pa p va) = i" by (simp add: unat_of_nat_u32)
    then show ?thesis using that by (simp add: write_list_def in_region_def nth_append)
  qed
  then show ?thesis using assms by (simp add: user_string_def)
qed

lemma user_range_apart:
  assumes "user_buffer a n" "user_buffer b m" "unat a + n \<le> unat b \<or> unat b + m \<le> unat a" "p < 6" "i < n"
  shows "\<not> in_region (user_pa p b) m (user_pa p a + of_nat i)"
proof -
  have sub: "user_pa p a + of_nat i - user_pa p b = a + of_nat i - b" by (simp add: user_pa_def algebra_simps)
  have ai: "unat (a + of_nat i) = unat a + i"
    using unat_add_small [of a "of_nat i"] assms(1,5) by (simp add: user_buffer_def)
  have b: "unat b + m \<le> 0x8400000" "0x8000000 \<le> unat b" and a: "unat a + n \<le> 0x8400000"
    using assms(1,2) by (simp_all add: user_buffer_def)
  show ?thesis
  proof
    assume "in_region (user_pa p b) m (user_pa p a + of_nat i)"
    then have "unat (a + of_nat i - b) < m" by (simp add: in_region_def sub)
    moreover from this have "unat (a + of_nat i - b + b) = unat (a + of_nat i - b) + unat b"
      using b by (intro unat_add_small) simp
    ultimately have "unat b \<le> unat (a + of_nat i)" "unat (a + of_nat i) < unat b + m" by simp_all
    then show False using assms(3,5) ai by linarith
  qed
qed

text \<open>A string stays when the stores are elsewhere.\<close>

definition apart :: "u32 \<Rightarrow> nat \<Rightarrow> u32 \<Rightarrow> nat \<Rightarrow> bool" where
  "apart a n b m \<longleftrightarrow> unat a + n \<le> unat b \<or> unat b + m \<le> unat a"

lemma user_string_kept:
  assumes "user_string p va xs k" "user_buffer buf n" "apart va (length xs + 1) buf n" "p < 6"
    and "\<And>a. \<not> in_region (user_pa p buf) n a \<Longrightarrow> phys k' a = phys k a"
  shows "user_string p va xs k'"
proof -
  have "phys k' (user_pa p va + of_nat i) = phys k (user_pa p va + of_nat i)" if "i \<le> length xs" for i
    using that assms by (intro assms(5) user_range_apart [of va "length xs + 1"]) (simp_all add: user_string_def apart_def)
  then show ?thesis using assms(1) by (simp add: user_string_def)
qed


lemma user_store_list:
  assumes "runs p k" "user_buffer buf n" "i < length xs" "length xs \<le> n"
  shows "user_store (buf + of_nat i) b (k\<lparr>phys := write_list m (user_pa p buf) xs\<rparr>) =
    Some (k\<lparr>phys := write_list m (user_pa p buf) (xs[i := b])\<rparr>)"
proof -
  have "length xs \<le> 2 ^ 32" "i < n" "unat (of_nat i :: u32) = i"
    using assms by (simp_all add: user_buffer_def unat_of_nat_u32)
  then show ?thesis using user_store_window [of p "k\<lparr>phys := write_list m (user_pa p buf) xs\<rparr>" buf n "of_nat i"] assms
    by (simp add: write_list_update)
qed

lemma user_store_snoc:
  assumes "runs p k" "user_buffer buf n" "length xs < n"
  shows "user_store (buf + of_nat (length xs)) b (k\<lparr>phys := write_list m (user_pa p buf) xs\<rparr>) =
    Some (k\<lparr>phys := write_list m (user_pa p buf) (xs @ [b])\<rparr>)"
proof -
  have "length xs < 2 ^ 32" "unat (of_nat (length xs) :: u32) = length xs"
    using assms by (simp_all add: user_buffer_def unat_of_nat_u32)
  then show ?thesis
    using user_store_window [of p "k\<lparr>phys := write_list m (user_pa p buf) xs\<rparr>" buf n "of_nat (length xs)"] assms
    by (simp add: write_list_snoc)
qed

lemma user_load_list:
  assumes "runs p k" "user_buffer buf n" "i < length xs" "length xs \<le> n"
  shows "user_load (buf + of_nat i) (k\<lparr>phys := write_list m (user_pa p buf) xs\<rparr>) = Some (xs ! i)"
proof -
  have "length xs \<le> 2 ^ 32" "i < n" using assms by (simp_all add: user_buffer_def)
  then show ?thesis using user_load_window [of p "k\<lparr>phys := write_list m (user_pa p buf) xs\<rparr>" buf n i] assms
    by (simp add: write_list_at)
qed

lemma strcpy_user:
  assumes "runs p k" "user_string p src xs k" "user_buffer dst (length xs + 1)" "apart src (length xs + 1) dst (length xs + 1)"
  shows "ece391_strcpy dst src k = Some (k\<lparr>phys := write_list (phys k) (user_pa p dst) (xs @ [0])\<rparr>)"
  using assms
proof (induction xs arbitrary: dst src k)
  case Nil
  have "user_store (dst + of_nat 0) 0 (k\<lparr>phys := write_list (phys k) (user_pa p dst) []\<rparr>) =
      Some (k\<lparr>phys := write_list (phys k) (user_pa p dst) [0]\<rparr>)"
    using user_store_snoc [OF Nil(1), of dst 1 "[]" 0 "phys k"] Nil(3) by simp
  then show ?case using user_string_hd [OF Nil(1,2)] by (subst ece391_strcpy.simps) simp
next
  case (Cons x xs)
  note tl = user_string_tl [OF Cons.prems(2)]
  define k1 where "k1 = k\<lparr>phys := write_list (phys k) (user_pa p dst) [x]\<rparr>"
  have store: "user_store dst x k = Some k1"
    using user_store_snoc [OF Cons.prems(1,3), of "[]" x "phys k"] by (simp add: k1_def)
  have p: "p < 6" and r1: "runs p k1" using Cons.prems(1) by (simp_all add: runs_def k1_def)
  have one: "user_buffer dst 1" using Cons.prems(3) by (simp add: user_buffer_def)
  have next1: "unat (src + 1) = unat src + 1" "unat (dst + 1) = unat dst + 1"
    using Cons.prems(2,3) unat_add_small [of src 1] unat_add_small [of dst 1]
    by (simp_all add: user_string_def user_buffer_def)
  have "user_string p (src + 1) xs k1"
    by (rule user_string_kept [OF tl(1) one _ p])
      (use Cons.prems(4) next1 in \<open>simp_all add: apart_def k1_def write_list_outside, auto?\<close>)
  moreover have "user_buffer (dst + 1) (length xs + 1)" using Cons.prems(3) next1 by (simp add: user_buffer_def)
  moreover have "apart (src + 1) (length xs + 1) (dst + 1) (length xs + 1)"
    using Cons.prems(4) next1 by (auto simp: apart_def)
  ultimately have "ece391_strcpy (dst + 1) (src + 1) k1 =
      Some (k1\<lparr>phys := write_list (phys k1) (user_pa p (dst + 1)) (xs @ [0])\<rparr>)" by (rule Cons.IH [OF r1])
  moreover have "length xs + 1 < 4294967295" using user_string_length [OF tl(1)] by simp
  then have "write_list (write_list (phys k) (user_pa p dst) [x]) (user_pa p dst + 1) (xs @ [0]) =
      write_list (phys k) (user_pa p dst) (x # xs @ [0])"
    using put_bytes_step [of "xs @ [0]" "phys k" "user_pa p dst" x] write_list_snoc [of "[]" "phys k" "user_pa p dst" x]
    by (simp add: put_bytes_write_list)
  ultimately show ?case
    using user_string_hd [OF Cons.prems(1,2)] store tl(2) user_pa_shift [of p dst 1]
    by (subst ece391_strcpy.simps) (simp add: k1_def)
qed

subsection \<open>Numbers\<close>

lemma strrev_loop_user:
  assumes "runs p k" "user_buffer buf (length ys)" "e < length xs" "b \<le> length ys" "ys = xs @ zs"
  shows "ece391_strrev_loop buf (of_nat b) (of_nat e) (k\<lparr>phys := write_list m (user_pa p buf) ys\<rparr>) =
    Some (k\<lparr>phys := write_list m (user_pa p buf) (mirror b e xs @ zs)\<rparr>)"
  using assms(2-)
proof (induction "e - b" arbitrary: b e xs ys rule: less_induct)
  case less
  have len: "length ys \<le> 0x400000" using less.prems(1) by (simp add: user_buffer_def)
  have sint: "sint (of_nat i :: i32) = int i" if "i \<le> length ys" for i using that len by (simp add: sint_of_nat_u32)
  note signs = sint [of b] sint [of e]
  show ?case
  proof (cases "b < e")
    case False
    then show ?thesis using signs less.prems by (subst ece391_strrev_loop.simps) (simp add: mirror_trivial)
  next
    case True
    let ?xs = "xs[e := xs ! b, b := xs ! e]" and ?k = "\<lambda>ys. k\<lparr>phys := write_list m (user_pa p buf) ys\<rparr>"
    have in_ys: "e < length ys" "b < length ys" and xs: "ys ! e = xs ! e" "ys ! b = xs ! b"
      using True less.prems by (simp_all add: nth_append)
    have load: "user_load (buf + of_nat e) (?k ys) = Some (xs ! e)" "user_load (buf + of_nat b) (?k ys) = Some (xs ! b)"
      using user_load_list [OF assms(1) less.prems(1)] in_ys xs by simp_all
    have store: "user_store (buf + of_nat e) (xs ! b) (?k ys) = Some (?k (ys[e := xs ! b]))"
      "user_store (buf + of_nat b) (xs ! e) (?k (ys[e := xs ! b])) = Some (?k (ys[e := xs ! b, b := xs ! e]))"
      using user_store_list [OF assms(1) less.prems(1)] in_ys by simp_all
    have ys: "ys[e := xs ! b, b := xs ! e] = ?xs @ zs" using True less.prems by (simp add: list_update_append)
    have args: "(of_nat b + 1 :: i32) = of_nat (b + 1)" "(of_nat e - 1 :: i32) = of_nat (e - 1)"
      using True by (simp_all add: of_nat_diff)
    have "ece391_strrev_loop buf (of_nat (b + 1)) (of_nat (e - 1)) (?k (?xs @ zs)) =
        Some (?k (mirror (b + 1) (e - 1) ?xs @ zs))"
      using True less.prems by (intro less.hyps) auto
    then show ?thesis
      using load store True signs in_ys mirror_swap [OF True less.prems(2)]
      by (subst ece391_strrev_loop.simps) (simp add: ys args del: of_nat_add of_nat_Suc)
  qed
qed

lemma strrev_user:
  assumes "runs p k" "user_buffer buf (length xs + 1)" "0 \<notin> set xs"
  shows "ece391_strrev buf (k\<lparr>phys := write_list m (user_pa p buf) (xs @ [0])\<rparr>) =
    Some (k\<lparr>phys := write_list m (user_pa p buf) (rev xs @ [0])\<rparr>)"
proof -
  let ?k = "k\<lparr>phys := write_list m (user_pa p buf) (xs @ [0])\<rparr>"
  have r: "runs p ?k" using assms(1) by simp
  have len: "ece391_strlen buf ?k = Some (of_nat (length xs))"
    by (rule strlen_user [OF r user_string_written [OF assms(2,3), where m = m and ys = "[]"]])
  show ?thesis
  proof (cases xs)
    case Nil
    then show ?thesis using len by (simp add: ece391_strrev_def)
  next
    case (Cons x zs)
    have "sint (of_nat (length zs) :: i32) = int (length zs)"
      using assms(2) Cons by (simp add: user_buffer_def sint_of_nat_u32)
    moreover have "mirror 0 (length zs) xs = rev xs" using mirror_rev [of xs] Cons by simp
    ultimately show ?thesis
      using len strrev_loop_user [OF assms(1), of buf "xs @ [0]" "length zs" xs 0 "[0]" m] assms(2) Cons
      by (cases zs) (simp_all add: ece391_strrev_def)
  qed
qed

text \<open>The digits a number is printed with.\<close>

definition number_text :: "u32 \<Rightarrow> u32 \<Rightarrow> u8 list" where
  "number_text radix v = (if v = 0 then chars ''0'' else rev (digits_of (unat radix) (unat v)))"

lemma itoa_loop_user:
  assumes "runs p k" "2 \<le> unat radix" "unat radix \<le> 36" "user_buffer buf (length pre + length (digits_of (unat radix) (unat v)))"
  shows "ece391_itoa_loop (buf + of_nat (length pre)) v radix (k\<lparr>phys := write_list m (user_pa p buf) pre\<rparr>) =
    Some (buf + of_nat (length (pre @ digits_of (unat radix) (unat v))),
          k\<lparr>phys := write_list m (user_pa p buf) (pre @ digits_of (unat radix) (unat v))\<rparr>)"
  using assms
proof (induction "unat v" arbitrary: v pre rule: less_induct)
  case less
  have radix: "radix \<noteq> 0" "radix \<noteq> 1" using less.prems(2) by auto
  show ?case
  proof (cases "v = 0")
    case True
    then show ?thesis by (subst ece391_itoa_loop.simps) (simp add: digits_of.simps [of _ 0])
  next
    case False
    let ?d = "itoa_lookup ! unat (v mod radix)"
    have ds: "digits_of (unat radix) (unat v) = ?d # digits_of (unat radix) (unat (v div radix))"
      using False less.prems(2) by (subst digits_of.simps) (simp add: unat_eq_0 unat_mod unat_div)
    have "unat (v mod radix) < unat radix" using less.prems(2) by (simp add: unat_mod)
    then have small: "unat (v mod radix) < 37" using less.prems(3) by linarith
    have "length pre < length pre + length (digits_of (unat radix) (unat v))" by (simp add: ds)
    note store = user_store_snoc [OF less.prems(1,4) this, of ?d m]
    have "ece391_itoa_loop (buf + of_nat (length (pre @ [?d]))) (v div radix) radix
        (k\<lparr>phys := write_list m (user_pa p buf) (pre @ [?d])\<rparr>) =
      Some (buf + of_nat (length ((pre @ [?d]) @ digits_of (unat radix) (unat (v div radix)))),
        k\<lparr>phys := write_list m (user_pa p buf) ((pre @ [?d]) @ digits_of (unat radix) (unat (v div radix)))\<rparr>)"
      using less.prems(4) ds by (intro less.hyps [OF div_radix_less [OF False radix] less.prems(1-3)]) simp
    then show ?thesis
      using False radix small store
      by (subst ece391_itoa_loop.simps) (simp add: ds Let_def add_ac)
  qed
qed

lemma number_text:
  assumes "2 \<le> unat radix" "unat radix \<le> 36"
  shows "0 \<notin> set (number_text radix v)" "number_text radix v \<noteq> []" "length (number_text radix v) \<le> 32"
  using digits_of_nonzero [OF assms(2)] digits_of_empty [OF assms(1)] length_digits_of [of "unat v" 32 "unat radix"]
  by (simp_all add: number_text_def chars_def unat_eq_0)

lemma itoa_user:
  assumes k: "runs p k" and radix: "2 \<le> unat radix" "unat radix \<le> 36" and buf: "user_buffer buf (length (number_text radix v) + 1)"
  shows "ece391_itoa v buf radix k = Some (k\<lparr>phys := write_list (phys k) (user_pa p buf) (number_text radix v @ [0])\<rparr>)"
proof (cases "v = 0")
  case True
  have "user_store (buf + of_nat (length ([] :: u8 list))) 48 (k\<lparr>phys := write_list (phys k) (user_pa p buf) []\<rparr>) =
      Some (k\<lparr>phys := write_list (phys k) (user_pa p buf) ([] @ [48])\<rparr>)"
    by (rule user_store_snoc [OF k buf]) (simp add: True number_text_def chars_def)
  moreover have "user_store (buf + of_nat (length [48 :: u8])) 0 (k\<lparr>phys := write_list (phys k) (user_pa p buf) [48]\<rparr>) =
      Some (k\<lparr>phys := write_list (phys k) (user_pa p buf) ([48] @ [0])\<rparr>)"
    by (rule user_store_snoc [OF k buf]) (simp add: True number_text_def chars_def)
  ultimately show ?thesis using True by (simp add: ece391_itoa_def number_text_def chars_def)
next
  case False
  let ?ds = "digits_of (unat radix) (unat v)"
  have buf': "user_buffer buf (length ?ds + 1)" using buf False by (simp add: number_text_def)
  then have "user_buffer buf (length [] + length ?ds)" by (simp add: user_buffer_def)
  from itoa_loop_user [OF k radix this, of "phys k"]
  have loop: "ece391_itoa_loop buf v radix k = Some (buf + of_nat (length ?ds), k\<lparr>phys := write_list (phys k) (user_pa p buf) ?ds\<rparr>)"
    by simp
  have "length ?ds < length ?ds + 1" by simp
  note store = user_store_snoc [OF k buf' this, of 0 "phys k"]
  have "0 \<notin> set ?ds" using digits_of_nonzero [OF radix(2)] by simp
  from strrev_user [OF k buf' this, of "phys k"] show ?thesis
    using False loop store by (simp add: ece391_itoa_def number_text_def)
qed

text \<open>[C35] The number conversion of the programs is the kernel's \<open>itoa\<close> on the memory of the process: with a radix
  from 2 to 36 and room for 33 bytes in the window it always returns, and the bytes of the window it leaves are those
  the kernel's function leaves in memory, hence the digits of the number in this radix.\<close>

theorem user_itoa_is_itoa:
  assumes "runs p k" "2 \<le> unat radix" "unat radix \<le> 36" "user_buffer buf 33"
  shows "ece391_itoa v buf radix k = map_option (\<lambda>m. k\<lparr>phys := m\<rparr>) (itoa (phys k) v (user_pa p buf) radix)
    \<and> ece391_itoa v buf radix k \<noteq> None"
proof -
  have "user_buffer buf (length (number_text radix v) + 1)"
    using number_text(3) [OF assms(2,3), of v] user_buffer_mono [OF assms(4)] by simp
  from itoa_user [OF assms(1-3) this] show ?thesis
    using itoa_nonzero [OF assms(2,3), of v "phys k" "user_pa p buf"] itoa_zero [of "phys k" "user_pa p buf" radix]
    by (simp add: number_text_def)
qed


subsection \<open>A running program\<close>

lemma do_calls:
  "DO_CALL env SYS_READ fd buf n k = sys_read env fd buf n k"
  "DO_CALL env SYS_WRITE fd buf n k = sys_write env fd buf n k"
  "DO_CALL env SYS_OPEN buf x y k = sys_open env buf k"
  "DO_CALL env SYS_CLOSE fd x y k = sys_close fd k"
  "DO_CALL env SYS_GETARGS buf n z k = getargs buf n k"
  "DO_CALL env SYS_VIDMAP fd x y k = vidmap fd k"
  by (simp_all add: DO_CALL_def systemcall_def returning_def split: option.splits)

text \<open>Process \<open>p\<close> runs on the scheduled terminal and has the standard descriptors open.\<close>

definition program :: "nat \<Rightarrow> kernel \<Rightarrow> bool" where
  "program p k \<longleftrightarrow> (let a = fd_array (pcbs k (get_pcb_address k)) in
     runs p k \<and> cur.ready k \<and> length a = 8 \<and>
     fd_flags (a ! 0) ! 0 \<noteq> 0 \<and> operationstable (a ! 0) = Some stdin_table \<and>
     fd_flags (a ! 1) ! 0 \<noteq> 0 \<and> operationstable (a ! 1) = Some stdout_table)"

lemma programD:
  assumes "program p k"
  shows "runs p k" "cur.ready k" "p < 6" "tables_ok (paging k)"
  using assms by (simp_all add: program_def Let_def runs_def)

lemma program_pcb:
  assumes "runs p k" "cur.ready k" "pcb_ok (pcbs k (get_pcb_address k))"
  shows "program p k"
proof -
  let ?a = "fd_array (pcbs k (get_pcb_address k))"
  have "fd_ok 0 (?a ! 0)" "fd_ok 1 (?a ! 1)" "length ?a = 8" using assms(3) by (simp_all add: pcb_ok_def)
  then show ?thesis using assms(1,2) by (simp add: program_def Let_def fd_ok_def)
qed

lemma program_cong:
  assumes "program p k" "paging k' = paging k" "sched k' = sched k" "fd_array (pcbs k' (get_pcb_address k')) = fd_array (pcbs k (get_pcb_address k))"
  shows "program p k'"
  using assms by (simp add: program_def Let_def runs_def cur_ready)

subsection \<open>Output\<close>

text \<open>The screen of the scheduled terminal has changed as printing \<open>xs\<close> changes it, and nothing else has but the
  cursor registers.\<close>

definition printed :: "u8 list \<Rightarrow> kernel \<Rightarrow> kernel \<Rightarrow> bool" where
  "printed xs k k' \<longleftrightarrow> screen_change (current k) k k' \<and> cur.ready k' \<and>
     shown current k' = fold spec_putc xs (shown current k) \<and>
     (\<forall>a. \<not> in_region (window_frame k) 4000 a \<longrightarrow> phys k' a = phys k a)"

lemma screen_change_trans:
  assumes "screen_change t k k1" "screen_change t k1 k2"
  shows "screen_change t k k2"
proof -
  have "rescreen t p' x' y' ci' cr' (rescreen t p x y ci cr k) = rescreen t p' x' y' ci' cr' k" for p' x' y' ci' cr' p x y ci cr
    by (cases "t < length (terminals (sched k))") (simp_all add: rescreen_def list_update_beyond)
  then show ?thesis using assms unfolding screen_change_def by metis
qed

lemma printed_refl: "cur.ready k \<Longrightarrow> printed [] k k"
  by (simp add: printed_def screen_change_refl)

lemma printed_trans:
  assumes "printed xs k k1" "printed ys k1 k2"
  shows "printed (xs @ ys) k k2"
proof -
  have c: "screen_change (current k) k k1" using assms(1) by (simp add: printed_def)
  note same = screen_change_selects(2) [OF c] screen_change_console(6) [OF c]
  show ?thesis using assms c screen_change_trans [of "current k" k k1 k2] by (simp add: printed_def same)
qed

lemma printed_untouched: "printed xs k k' \<Longrightarrow> untouched k k'"
  unfolding printed_def using untouched_screen by blast

lemma printed_fields:
  assumes "printed xs k k'"
  shows "paging k' = paging k" "pcbs k' = pcbs k" "get_pcb_address k' = get_pcb_address k" "fs k' = fs k" "esp k' = esp k"
    "current_term (sched k') = current_term (sched k)" "terminalbuffer k' = terminalbuffer k" "flags k' = flags k"
    "numberofchars k' = numberofchars k" "linebuffer k' = linebuffer k"
  using assms by (auto simp: printed_def screen_change_def rescreen_def get_pcb_address_def)

lemma printed_program:
  assumes "printed xs k k'" "program p k"
  shows "program p k'"
  using assms printed_fields [OF assms(1)] by (simp add: program_def Let_def runs_def printed_def)

lemma printed_lines:
  assumes "printed xs k k'"
  shows "delivered_to k' = delivered_to k" "lines_ok k' = lines_ok k"
  using printed_fields [OF assms] screen_change_console(7,8) [of "current k" k k'] assms
  by (auto simp: delivered_to_def lines_ok_def printed_def fun_eq_iff)

lemma printed_memory:
  assumes "printed xs k k'" "tables_ok (paging k)" "0x400000 \<le> unat a"
  shows "phys k' a = phys k a"
proof -
  have "\<not> in_region (window_frame k) 4000 a" using video_frame_low [OF assms(2)] assms(3) by fastforce
  then show ?thesis using assms(1) by (simp add: printed_def)
qed

lemma printed_kernel:
  assumes "printed xs k k'" "tables_ok (paging k)"
  shows "same_kernel (vmem k) (vmem k')"
  using printed_memory [OF assms] printed_fields(1) [OF assms(1)] assms(2) by (simp add: same_kernel_def vmem_kernel)

lemma printed_user:
  assumes "printed xs k k'" "program p k" "user_buffer va n" "i < n"
  shows "phys k' (user_pa p va + of_nat i) = phys k (user_pa p va + of_nat i)"
  using printed_memory [OF assms(1) programD(4) [OF assms(2)]] user_pa_range [OF programD(3) [OF assms(2)] assms(3,4)] by simp

lemma printed_string:
  assumes "printed xs k k'" "program p k"
  shows "user_string p va ys k' = user_string p va ys k"
proof (cases "user_buffer va (length ys + 1)")
  case True
  then show ?thesis using printed_user [OF assms True] by (auto simp: user_string_def less_Suc_eq_le)
qed (simp add: user_string_def)


lemma screen_change_current:
  "screen_change (current k) k k1 \<Longrightarrow> screen_change (current k) k (set_screen_x current x k1)"
  "screen_change (current k) k k1 \<Longrightarrow> screen_change (current k) k (set_screen_y current y k1)"
  using screen_change_selects(2) [of "current k" k k1] rescreen_terminal
  unfolding set_screen_x_def set_screen_y_def screen_change_def by metis+

lemma screen_change_putc_modified: "screen_change (current k) k (putc_modified c k)"
  unfolding putc_modified_def putc_with_def scroll_with_def Let_def
  by (simp add: screen_change_current screen_change_video screen_change_refl)

lemma screen_change_write: "write_bytes buf i n k = Some k' \<Longrightarrow> screen_change (current k) k k'"
proof (induction n arbitrary: i k)
  case (Suc n)
  then obtain c where "write_bytes buf (i + 1) n (putc_modified c k) = Some k'"
    by (auto simp: bind_eq_Some_conv)
  note step = Suc.IH [OF this] screen_change_putc_modified [of k c]
  then show ?case using screen_change_trans screen_change_selects(2) [OF step(2)] by metis
qed (simp add: screen_change_refl)

text \<open>Writing bytes of the window to standard output prints them.\<close>

lemma write_prints:
  assumes k: "program p k" "user_buffer buf (length xs)"
    and xs: "\<forall>i < length xs. phys k (user_pa p buf + of_nat i) = xs ! i"
  obtains k' where "sys_write env 1 buf (of_nat (length xs)) k = Some (0, k')" "printed xs k k'"
proof -
  note k1 = programD [OF k(1)]
  have n: "nat (sint (of_nat (length xs) :: i32)) = length xs"
    using k(2) by (simp add: user_buffer_def sint_of_nat_u32)
  have load: "\<exists>pa user. xlate (paging k) (buf + of_nat (0 + j)) = Some (pa, user) \<and> phys k pa = xs ! j \<and>
      \<not> in_region (window_frame k) 4000 pa" if "j < length xs" for j
    using xlate_window [OF k1(1) k(2) that] xs that user_pa_range [OF k1(3) k(2) that] video_frame_low [OF k1(4)]
    by fastforce
  obtain k2 where k2: "write_bytes buf 0 (length xs) k = Some k2" "cur.ready k2"
    "shown current k2 = fold spec_putc xs (shown current k)"
    "\<forall>a. \<not> in_region (window_frame k) 4000 a \<longrightarrow> phys k2 a = phys k a"
    using write_bytes_refines [OF k1(2) load] by blast
  have "buf \<noteq> 0" using k(2) by (auto simp: user_buffer_def)
  then have "sys_write env 1 buf (of_nat (length xs)) k = Some (0, update_cursor k2)"
    using k(1) k2(1) n by (simp add: sys_write_def program_def Let_def terminal_write_def)
  moreover have "shown current (update_cursor k2) = shown current k2"
    by (simp add: shown_def current_def get_screen_x_def get_screen_y_def)
  then have "printed xs k (update_cursor k2)"
    using k2 screen_change_video(4) [OF screen_change_write [OF k2(1)]] by (simp add: printed_def cur_ready)
  ultimately show thesis by (rule that)
qed

lemma fdputs_prints:
  assumes "program p k" "user_string p s xs k"
  obtains k' where "ece391_fdputs env 1 s k = Some k'" "printed xs k k'"
proof -
  have buf: "user_buffer s (length xs)" and xs: "\<forall>i < length xs. phys k (user_pa p s + of_nat i) = xs ! i"
    using assms(2) by (auto simp: user_string_def user_buffer_def nth_append)
  from write_prints [OF assms(1) buf xs] obtain k' where
    "sys_write env 1 s (of_nat (length xs)) k = Some (0, k')" "printed xs k k'" by blast
  then show thesis using that strlen_user [OF programD(1) [OF assms(1)] assms(2)] by (simp add: ece391_fdputs_def do_calls)
qed

subsection \<open>Changes of a buffer\<close>

text \<open>Only a buffer in the window has changed, beside globals of the kernel.\<close>

definition user_changed :: "nat \<Rightarrow> u32 \<Rightarrow> nat \<Rightarrow> kernel \<Rightarrow> kernel \<Rightarrow> bool" where
  "user_changed p buf n k k' \<longleftrightarrow> user_buffer buf n \<and> sched k' = sched k \<and> paging k' = paging k \<and>
     get_pcb_address k' = get_pcb_address k \<and> (\<forall>a. \<not> in_region (user_pa p buf) n a \<longrightarrow> phys k' a = phys k a)"

lemma user_changed_list:
  assumes "user_buffer buf n" "length xs \<le> n"
  shows "user_changed p buf n k (k\<lparr>phys := write_list (phys k) (user_pa p buf) xs\<rparr>)"
proof -
  have "write_list (phys k) (user_pa p buf) xs a = phys k a" if "\<not> in_region (user_pa p buf) n a" for a
    using that assms(2) in_region_mono write_list_outside by blast
  then show ?thesis using assms(1) by (simp add: user_changed_def get_pcb_address_def)
qed

lemma user_changed_mono: "user_changed p buf m k k' \<Longrightarrow> m \<le> n \<Longrightarrow> user_buffer buf n \<Longrightarrow> user_changed p buf n k k'"
  unfolding user_changed_def using in_region_mono by blast

lemma user_changed_trans: "user_changed p buf n k k1 \<Longrightarrow> user_changed p buf n k1 k2 \<Longrightarrow> user_changed p buf n k k2"
  by (simp add: user_changed_def)

lemma user_changed_low:
  assumes "user_changed p buf n k k'" "p < 6" "unat a < 0x800000"
  shows "phys k' a = phys k a"
proof -
  have "\<not> in_region (user_pa p buf) n a"
  proof
    assume "in_region (user_pa p buf) n a"
    then have "unat (a - user_pa p buf) < n" by (simp add: in_region_def)
    from user_pa_range [OF assms(2) _ this, of buf] assms(1,3) show False by (simp add: user_changed_def)
  qed
  then show ?thesis using assms(1) by (simp add: user_changed_def)
qed

lemma user_changed_screen:
  assumes "user_changed p buf n k k'" "runs p k"
  shows "shown current k' = shown current k" "cur.ready k' = cur.ready k" "same_kernel (vmem k) (vmem k')"
proof -
  have k: "p < 6" "tables_ok (paging k)" using assms(2) by (simp_all add: runs_def)
  have f: "sched k' = sched k" "paging k' = paging k" "window_frame k' = window_frame k"
    using assms(1) by (simp_all add: user_changed_def window_frame_def)
  have "phys k' a = phys k a" if "in_region (window_frame k) 4000 a" for a
    using user_changed_low [OF assms(1) k(1)] video_frame_low [OF k(2) that] by simp
  then have "cells (window_frame k) (phys k') = cells (window_frame k) (phys k)"
    by (intro cells_same) (simp add: in_region_def unat_at_offset)
  then show "shown current k' = shown current k" "cur.ready k' = cur.ready k"
    by (simp_all add: shown_def f current_def get_screen_x_def get_screen_y_def cur_ready)
  show "same_kernel (vmem k) (vmem k')"
    using user_changed_low [OF assms(1) k(1)] k(2) f by (simp add: same_kernel_def vmem_kernel)
qed

lemma user_changed_program:
  assumes "user_changed p buf n k k'" "program p k" "fd_array (pcbs k' (get_pcb_address k)) = fd_array (pcbs k (get_pcb_address k))"
  shows "program p k'"
  using assms by (intro program_cong [OF assms(2)]) (simp_all add: user_changed_def)

lemma user_changed_string:
  assumes "user_changed p buf n k k'" "p < 6" "user_string p va xs k" "apart va (length xs + 1) buf n"
  shows "user_string p va xs k'"
  by (rule user_string_kept [OF assms(3) _ assms(4,2)]) (use assms(1) in \<open>simp_all add: user_changed_def\<close>)

subsection \<open>Input\<close>

text \<open>A line waits for the scheduled terminal.\<close>

definition line_waiting :: "u8 list \<Rightarrow> kernel \<Rightarrow> bool" where
  "line_waiting l k \<longleftrightarrow> lines_ok k \<and> current_term (sched k) < 3 \<and> delivered_to k (current_term (sched k)) = Some (l @ [10])"

lemma printed_waiting: "printed xs k k' \<Longrightarrow> line_waiting l k' = line_waiting l k"
  using printed_lines [of xs k k'] printed_fields(6) [of xs k k'] by (simp add: line_waiting_def)

text \<open>Reading the line: the buffer holds it, followed by NULs, and nothing else has changed but the line being gone.\<close>

definition line_read :: "nat \<Rightarrow> u32 \<Rightarrow> nat \<Rightarrow> u8 list \<Rightarrow> kernel \<Rightarrow> kernel \<Rightarrow> bool" where
  "line_read p buf n l k k' \<longleftrightarrow> untouched k k' \<and> sched k' = sched k \<and> fs k' = fs k \<and>
     phys k' = write_list (phys k) (user_pa p buf) (l @ 10 # replicate (n - (length l + 1)) 0)"

lemma read_line:
  assumes k: "program p k" "line_waiting l k" and buf: "user_buffer buf (unat nbytes)" "length l + 1 \<le> unat nbytes"
    and fuel: "0 < fuel env"
  obtains k' where "sys_read env 0 buf nbytes k = Some (of_nat (length l + 1), k')" "line_read p buf (unat nbytes) l k k'"
proof -
  let ?t = "current_term (sched k)" and ?P = "user_pa p buf" and ?n = "unat nbytes"
  let ?m = "put_bytes (phys k) ?P (replicate ?n 0)"
  let ?k = "k\<lparr>phys := ?m\<rparr>"
  note runs = programD(1) [OF k(1)]
  note w = k(2) [unfolded line_waiting_def]
  have max: "user_buffer buf (max ?n (length l + 1))" using buf by (simp add: max_def)
  have flag: "flags ?k ! ?t \<noteq> 0" and del: "delivered_to ?k ?t = Some (l @ [10])" and lines: "lines_ok ?k"
    using w by (auto simp: delivered_to_def lines_ok_def split: if_splits)
  define k' where "k' = forget_line ?t (update_cursor (?k\<lparr>phys := put_bytes ?m ?P (l @ [10])\<rparr>))"
  have run: "terminal_read (fuel env) (key_events env) 0 buf nbytes k = Some (of_nat (length l + 1), k')"
    using terminal_read_run [OF runs max refl terminal_wait_ready [OF flag fuel] _ lines _ del] runs w by (simp add: k'_def)
  have "buf \<noteq> 0" using buf by (auto simp: user_buffer_def)
  then have "sys_read env 0 buf nbytes k = Some (of_nat (length l + 1), k')"
    using run k(1) by (simp add: sys_read_def program_def Let_def)
  moreover have "?n \<le> 0x400000" using buf(1) unfolding user_buffer_def by linarith
  then have "put_bytes ?m ?P (l @ [10]) = write_list (phys k) ?P (l @ 10 # replicate (?n - (length l + 1)) 0)"
    using buf(2) by (auto simp: put_bytes_def write_list_def in_region_def nth_append nth_Cons' fun_eq_iff)
  then have "line_read p buf ?n l k k'"
    by (simp add: line_read_def k'_def forget_line_def untouched_def update_cursor_def crtc_outb_def Let_def)
  ultimately show thesis by (rule that)
qed

lemma line_read_changes:
  assumes "line_read p buf n l k k'" "user_buffer buf n" "length l + 1 \<le> n"
  shows "user_changed p buf n k k'" "pcbs k' = pcbs k"
  using assms user_changed_list [OF assms(2), of "l @ 10 # replicate (n - (length l + 1)) 0" p k]
  by (auto simp: line_read_def user_changed_def untouched_def get_pcb_address_def)

lemma line_read_string:
  assumes "line_read p buf n l k k'" "user_buffer buf n" "0 \<notin> set l" "length l + 1 < n"
  shows "user_string p buf (l @ [10]) k'"
proof -
  obtain d where "n = Suc (Suc (length l + d))" using assms(4) less_iff_Suc_add [of "length l + 1" n] by auto
  then have "phys k' = write_list (phys k) (user_pa p buf) ((l @ [10]) @ 0 # replicate d 0)"
    using assms(1) by (simp add: line_read_def)
  then show ?thesis
    using user_string_written [of buf "l @ [10]" p "phys k" "replicate d 0" k'] user_buffer_mono [OF assms(2)] assms(3,4)
    by (simp add: user_string_def)
qed

lemma cut_string:
  assumes "runs p k" "user_string p va xs k" "i \<le> length xs"
  defines "k' \<equiv> k\<lparr>phys := (phys k)(user_pa p va + of_nat i := 0)\<rparr>"
  shows "user_store (va + of_nat i) 0 k = Some k'" "user_string p va (take i xs) k'" "user_changed p va (length xs + 1) k k'"
    "pcbs k' = pcbs k"
proof -
  have buf: "user_buffer va (length xs + 1)" using assms(2) by (simp add: user_string_def)
  have u: "unat (of_nat j :: u32) = j" if "j \<le> length xs" for j
    using that user_string_length [OF assms(2)] by (simp add: unat_of_nat_u32)
  show "user_store (va + of_nat i) 0 k = Some k'"
    unfolding k'_def by (rule user_store_window [OF assms(1) buf]) (use u [OF assms(3)] assms(3) in simp)
  have "phys k' (user_pa p va + of_nat j) = (take i xs @ [0]) ! j" if "j \<le> i" for j
  proof (cases "j = i")
    case False
    then have "(of_nat j :: u32) \<noteq> of_nat i" using that assms(3) u by (simp add: word_unat_eq_iff)
    then show ?thesis using False that assms(2,3) by (simp add: k'_def user_string_def nth_append)
  qed (use assms(3) in \<open>simp add: k'_def nth_append\<close>)
  then show "user_string p va (take i xs) k'"
    using assms(2,3) user_buffer_mono [OF buf, of "i + 1"] by (auto simp: user_string_def min_def dest: in_set_takeD)
  have "in_region (user_pa p va) (length xs + 1) (user_pa p va + of_nat i)" using u [OF assms(3)] assms(3) by (simp add: in_region_def)
  then show "user_changed p va (length xs + 1) k k'" using buf by (auto simp: user_changed_def k'_def get_pcb_address_def)
  show "pcbs k' = pcbs k" by (simp add: k'_def)
qed

text \<open>String constants of the program, apart from its buffer.\<close>

definition strings_at :: "nat \<Rightarrow> (string \<Rightarrow> u32) \<Rightarrow> string list \<Rightarrow> u32 \<Rightarrow> nat \<Rightarrow> kernel \<Rightarrow> bool" where
  "strings_at p literal strs buf n k \<longleftrightarrow>
     (\<forall>s \<in> set strs. user_string p (literal s) (chars s) k \<and> apart (literal s) (length (chars s) + 1) buf n)"

lemma strings_at_member: "strings_at p literal strs buf n k \<Longrightarrow> s \<in> set strs \<Longrightarrow> user_string p (literal s) (chars s) k"
  by (simp add: strings_at_def)

lemma strings_printed:
  assumes "printed xs k k'" "program p k" "strings_at p literal strs buf n k"
  shows "strings_at p literal strs buf n k'"
  using assms(3) printed_string [OF assms(1,2)] by (simp add: strings_at_def)

lemma strings_changed:
  assumes "user_changed p buf m k k'" "p < 6" "strings_at p literal strs buf n k" "m \<le> n"
  shows "strings_at p literal strs buf n k'"
proof -
  have "apart a i buf m" if "apart a i buf n" for a i using that assms(4) by (auto simp: apart_def)
  then show ?thesis using assms(3) user_changed_string [OF assms(1,2)] by (simp add: strings_at_def)
qed

lemma puts_literal:
  assumes "program p k" "strings_at p literal strs buf n k" "s \<in> set strs"
  obtains k' where "ece391_fdputs env 1 (literal s) k = Some k'" "printed (chars s) k k'" "program p k'" "strings_at p literal strs buf n k'"
proof -
  obtain k' where "ece391_fdputs env 1 (literal s) k = Some k'" "printed (chars s) k k'"
    using fdputs_prints [OF assms(1) strings_at_member [OF assms(2,3)]] by blast
  then show thesis using that printed_program assms(1) strings_printed [OF _ assms(1,2)] by blast
qed

subsection \<open>Opening\<close>

lemma user_string_at:
  assumes "runs p k" "user_string p va xs k"
  shows "string_at va k = Some (at_ptr (vmem k) va)" "c_string (at_ptr (vmem k) va) xs"
proof -
  have v: "vmem k (va + of_nat i) = (xs @ [0]) ! i \<and> mapped (va + of_nat i) k" if "i \<le> length xs" for i
    using user_string_load [OF assms that] by (auto simp: user_load_def vmem_def mapped_def)
  then have nth: "at_ptr (vmem k) va (of_nat i) = (xs @ [0]) ! i" if "i \<le> length xs" for i using that by (simp add: at_ptr_def)
  show s: "c_string (at_ptr (vmem k) va) xs"
    using nth user_string_length [OF assms(2)] assms(2) by (auto simp: c_string_def user_string_def nth_append)
  have "strlen (at_ptr (vmem k) va) = Some (of_nat (length xs))" by (rule strlen_c_string [OF s])
  then show "string_at va k = Some (at_ptr (vmem k) va)"
    using v user_string_length [OF assms(2)] by (simp add: string_at_def list_all_iff unat_of_nat_u32)
qed

lemma fd_not_error:
  assumes "i < 8"
  shows "(of_nat i :: i32) \<noteq> -1"
proof
  assume "(of_nat i :: i32) = -1"
  then have "sint (of_nat i :: i32) = -1" by simp
  then show False using sint_fd [OF assms] by simp
qed

text \<open>What a successful \<open>open\<close> leaves: descriptor \<open>fd\<close> is new, at position 0 of the entry found.\<close>

definition just_opened :: "nat \<Rightarrow> kernel \<Rightarrow> nat \<Rightarrow> i32 \<Rightarrow> operations \<Rightarrow> i32 \<Rightarrow> kernel \<Rightarrow> bool" where
  "just_opened p k fd ftype table inode k' \<longleftrightarrow> (let a = get_pcb_address k; d = fd_array (pcbs k' a) ! fd in
     program p k' \<and> 2 \<le> fd \<and> fd < 8 \<and> get_pcb_address k' = a \<and> a \<noteq> 0 \<and> length (fd_array (pcbs k' a)) = 8 \<and>
     fd_flags d ! 0 \<noteq> 0 \<and> fd_flags d ! 1 = ucast ftype \<and> operationstable d = Some table \<and> fd_inode d = inode \<and> file_pos d = 0 \<and>
     upd_fd fd (opened ftype inode) (pcbs k a) = pcbs k' a \<and> fd_flags (fd_array (pcbs k a) ! fd) ! 0 = 0 \<and>
     (\<forall>j. 2 \<le> j \<longrightarrow> j < fd \<longrightarrow> fd_flags (fd_array (pcbs k a) ! j) ! 0 \<noteq> 0) \<and>
     vmem k' = vmem k \<and> phys k' = phys k \<and> paging k' = paging k \<and> sched k' = sched k \<and>
     boot_block_addr (fs k') = boot_block_addr (fs k) \<and> shown current k' = shown current k)"

lemma open_opens:
  assumes prog: "program p k" and pcb: "pcb_ok (pcbs k (get_pcb_address k))" "get_pcb_address k \<noteq> 0"
      "\<exists>i. 2 \<le> i \<and> i < 8 \<and> fd_flags (fd_array (pcbs k (get_pcb_address k)) ! i) ! 0 = 0"
    and str: "user_string p buf name k" "name \<noteq> []"
    and look: "\<And>nm. c_string nm name \<Longrightarrow> \<exists>d. read_dentry_by_name (vmem k) (Some nm) (Some (stack_dentry env)) (fs k) =
        Some (0, Some d, read_counts (vmem k) (fs k)) \<and> file_type d = ftype \<and> inode_num d = inode"
    and "open": "\<And>nm k2. c_string nm name \<Longrightarrow> vmem k2 = vmem k \<Longrightarrow> fs k2 = read_counts (vmem k) (fs k) \<Longrightarrow>
        \<exists>f. op_open env (Some table) nm k2 = Some (k2\<lparr>fs := f\<rparr>) \<and> boot_block_addr f = boot_block_addr (fs k)"
    and table: "ftype = 1 \<and> table = directorytable \<or> ftype = 2 \<and> table = filetable"
  obtains fd k' where "sys_open env buf k = Some (of_nat fd, k')" "just_opened p k fd ftype table inode k'"
proof -
  let ?a = "get_pcb_address k" and ?nm = "at_ptr (vmem k) buf"
  note runs = programD(1) [OF prog]
  note string = user_string_at [OF runs str(1)]
  have nonempty: "(of_nat (length name) :: u32) \<noteq> 0"
    using str(2) user_string_length [OF str(1)] by (simp add: word_unat_eq_iff unat_of_nat_u32)
  obtain d where d: "read_dentry_by_name (vmem k) (Some ?nm) (Some (stack_dentry env)) (fs k) = Some (0, Some d, read_counts (vmem k) (fs k))"
    "file_type d = ftype" "inode_num d = inode" using look [OF string(2)] by blast
  define k1 where "k1 = k\<lparr>fs := read_counts (vmem k) (fs k)\<rparr>"
  have v1: "vmem k1 = vmem k" by (rule vmem_eq) (simp_all add: k1_def)
  have a1: "get_pcb_address k1 = ?a" "pcbs k1 = pcbs k" by (simp_all add: k1_def get_pcb_address_def)
  have len8: "length (fd_array (pcbs k ?a)) = 8" using pcb(1) by (simp add: pcb_ok_def)
  define i where "i = find_fd (drop 2 (fd_array (pcbs k ?a))) 2"
  note free = first_free [OF len8, folded i_def]
  have i: "2 \<le> i" "i < 8" using free(1,3) pcb(3) by (simp, meson not_le less_le_trans)
  define k2 where "k2 = upd_pcb ?a (upd_fd i (opened ftype inode)) k1"
  have opened: "fd_array_handle_open ?a ftype inode k1 = (of_nat i, k2)"
    using handle_open_eq [OF pcb(2), of ftype inode k1] i(2) table by (auto simp: a1 i_def [symmetric] k2_def)
  have v2: "vmem k2 = vmem k" unfolding k2_def using v1 by (simp only: vmem_def upd_pcb_simps)
  have fs2: "fs k2 = read_counts (vmem k) (fs k)" by (simp add: k2_def k1_def)
  obtain f where f: "op_open env (Some table) ?nm k2 = Some (k2\<lparr>fs := f\<rparr>)" "boot_block_addr f = boot_block_addr (fs k)"
    using "open" [OF string(2) v2 fs2] by blast
  define k' where "k' = k2\<lparr>fs := f\<rparr>"
  have d_i: "fd_array (pcbs k2 ?a) ! i = opened ftype inode (fd_array (pcbs k ?a) ! i)"
    "j < 8 \<Longrightarrow> j \<noteq> i \<Longrightarrow> fd_array (pcbs k2 ?a) ! j = fd_array (pcbs k ?a) ! j"
    "length (fd_array (pcbs k2 ?a)) = 8" for j
    using i len8 by (simp_all add: k2_def a1)
  have "operationstable (opened ftype inode e) = Some table" for e using table by (auto simp: opened_def)
  note table' = this
  have "unat (of_nat i :: i32) = i" using i(2) by simp
  moreover have "buf \<noteq> 0" using str(1) by (auto simp: user_string_def user_buffer_def)
  ultimately have run: "sys_open env buf k = Some (of_nat i, k')"
    using string strlen_c_string [OF string(2)] nonempty d opened f(1) d_i(1) fd_not_error [OF i(2)] table'
    by (simp add: sys_open_def k1_def [symmetric] a1 k'_def)
  have v': "vmem k' = vmem k" unfolding v2 [symmetric] by (rule vmem_eq) (simp_all add: k'_def)
  have p': "paging k' = paging k" "sched k' = sched k" "phys k' = phys k" "get_pcb_address k' = ?a" "pcbs k' = pcbs k2"
    by (simp_all add: k'_def k2_def k1_def get_pcb_address_def)
  have "pcbs k' ?a = upd_fd i (opened ftype inode) (pcbs k ?a)" by (simp add: k'_def k2_def a1)
  moreover have "program p k'"
    using prog d_i i by (simp add: program_def Let_def p' runs_def cur_ready)
  moreover have "fd_ok i (fd_array (pcbs k ?a) ! i)" using pcb(1) i by (simp add: pcb_ok_def)
  moreover have "shown current k' = shown current k"
    by (simp add: shown_def current_def get_screen_x_def get_screen_y_def window_frame_def p')
  moreover have "boot_block_addr (fs k') = boot_block_addr (fs k)" using f(2) by (simp add: k'_def)
  ultimately have "just_opened p k i ftype table inode k'"
    using i d_i table' pcb(2) free(3) free(4) [OF i(2)]
    by (simp add: just_opened_def Let_def p' v' opened_def set_flag_def fd_ok_def)
  then show thesis by (rule that [OF run])
qed

subsection \<open>The directory\<close>

text \<open>A boot block in kernel memory whose first entry is the directory itself, and the names of the entries.\<close>

definition directory_ok :: "environment \<Rightarrow> kernel \<Rightarrow> bool" where
  "directory_ok env k \<longleftrightarrow> wf_dentry (stack_dentry env) \<and> kernel_area (boot_block_addr (fs k)) 4096 \<and>
     name_at (vmem k) (boot_block_addr (fs k) + 64) = [46]"

definition directory_names :: "kernel \<Rightarrow> u8 list list" where
  "directory_names k = map (\<lambda>i. name_at (vmem k) (boot_block_addr (fs k) + 64 + of_nat i * 64))
     [0..<min 63 (unat (load32 (vmem k) (boot_block_addr (fs k))))]"

lemma name_kept:
  assumes "same_kernel m m'" "kernel_area bb 4096" "j + 32 \<le> 4096"
  shows "name_at m' (bb + of_nat j) = name_at m (bb + of_nat j)"
proof (rule name_at_cong)
  fix i :: nat assume "i < 32"
  then have "in_region bb 4096 (bb + of_nat (j + i))" using assms(3) by (intro in_region_offset) (simp add: unat_of_nat_u32 del: of_nat_add)
  then have "m' (bb + of_nat (j + i)) = m (bb + of_nat (j + i))"
    using assms(1) kernel_area_in [OF assms(2)] by (simp add: same_kernel_def)
  then show "m' (bb + of_nat j + of_nat i) = m (bb + of_nat j + of_nat i)" by (simp add: add.assoc)
qed

lemma entry_kept:
  assumes "file_entry m bb name e" "\<And>a. in_region bb 4096 a \<Longrightarrow> m' a = m a"
  shows "file_entry m' bb name e" "i < 64 \<Longrightarrow> m' (bb + 128 + of_nat e * 64 + of_nat i) = m (bb + 128 + of_nat e * 64 + of_nat i)"
proof -
  have block: "m' (bb + of_nat j) = m (bb + of_nat j)" if "j < 4096" for j
    using that by (intro assms(2) in_region_offset) (simp add: unat_of_nat_u32)
  show "file_entry m' bb name e" by (rule file_entry_kept(1) [OF assms(1)]) (simp only: block)
  show "m' (bb + 128 + of_nat e * 64 + of_nat i) = m (bb + 128 + of_nat e * 64 + of_nat i)" if "i < 64"
    by (rule file_entry_kept(2) [OF assms(1) _ that]) (simp only: block)
qed

lemma boot_block_kept: "same_kernel m m' \<Longrightarrow> kernel_area bb 4096 \<Longrightarrow> in_region bb 4096 a \<Longrightarrow> m' a = m a"
  using kernel_area_in [of bb 4096 a] by (simp add: same_kernel_def)

lemma directory_kept:
  assumes "directory_ok env k" "same_kernel (vmem k) (vmem k')" "boot_block_addr (fs k') = boot_block_addr (fs k)"
  shows "directory_ok env k'" "directory_names k' = directory_names k"
proof -
  let ?bb = "boot_block_addr (fs k)"
  have area: "kernel_area ?bb 4096" using assms(1) by (simp add: directory_ok_def)
  show "directory_ok env k'"
    using assms name_kept [OF assms(2) area, of 64] by (simp add: directory_ok_def)
  have "name_at (vmem k') (?bb + 64 + of_nat i * 64) = name_at (vmem k) (?bb + 64 + of_nat i * 64)" if "i < 63" for i
    using name_kept [OF assms(2) area, of "64 + i * 64"] that by (simp add: add.assoc)
  moreover have "load32 (vmem k') ?bb = load32 (vmem k) ?bb"
    using same_kernel_load32 [OF assms(2) area, of 0] by simp
  ultimately show "directory_names k' = directory_names k"
    unfolding directory_names_def assms(3) by simp
qed

lemma directory_open:
  assumes prog: "program p k" and pcb: "pcb_ok (pcbs k (get_pcb_address k))" "get_pcb_address k \<noteq> 0"
      "\<exists>i. 2 \<le> i \<and> i < 8 \<and> fd_flags (fd_array (pcbs k (get_pcb_address k)) ! i) ! 0 = 0"
    and str: "user_string p buf [46] k" and dir: "directory_ok env k"
  obtains fd k' where "sys_open env buf k = Some (of_nat fd, k')" "just_opened p k fd 1 directorytable 0 k'"
proof -
  have nul: "0 \<in> range (vmem k)" using dir by (intro short_name_nul [of _ "boot_block_addr (fs k) + 64"]) (simp add: directory_ok_def)
  have bb: "boot_block_addr (fs k) \<noteq> 0" and wf: "wf_dentry (stack_dentry env)"
    and dot: "take (length [46 :: u8]) (name_at (vmem k) (boot_block_addr (fs k) + 64)) = [46]"
    using dir by (auto simp: directory_ok_def kernel_area_def)
  have short: "length [46 :: u8] \<le> 32" by simp
  have look: "\<exists>d. read_dentry_by_name (vmem k) (Some nm) (Some (stack_dentry env)) (fs k) =
      Some (0, Some d, read_counts (vmem k) (fs k)) \<and> file_type d = 1 \<and> inode_num d = 0" if "c_string nm [46]" for nm
    using read_dentry_by_name_directory [OF bb nul that short wf dot] by blast
  show thesis
  proof (rule open_opens [OF prog pcb str _ look])
    show "\<exists>f. op_open env (Some directorytable) nm k2 = Some (k2\<lparr>fs := f\<rparr>) \<and> boot_block_addr f = boot_block_addr (fs k)"
      if "vmem k2 = vmem k" "fs k2 = read_counts (vmem k) (fs k)" for nm k2
      using that by (intro exI [of _ "fs k2"]) simp
  qed (simp_all add: that)
qed

subsection \<open>Loops that print\<close>

text \<open>The loop of a program that prints a list of chunks one after the other: from a state with chunks left it goes on
  to one with the others left, having printed the first; with none left it returns 0.\<close>

locale printing_loop =
  fixes loop :: "'s \<Rightarrow> (i32 \<times> kernel) option" and kernel_of :: "'s \<Rightarrow> kernel" and left :: "u8 list list \<Rightarrow> 's \<Rightarrow> bool"
  assumes last_round: "left [] s \<Longrightarrow> \<exists>k'. loop s = Some (0, k') \<and> shown current k' = shown current (kernel_of s)"
    and next_round: "left (c # cs) s \<Longrightarrow> \<exists>s'. loop s = loop s' \<and> left cs s' \<and>
      shown current (kernel_of s') = fold spec_putc c (shown current (kernel_of s))"
begin

lemma loop_prints:
  "left cs s \<Longrightarrow> \<exists>k'. loop s = Some (0, k') \<and> shown current k' = fold spec_putc (concat cs) (shown current (kernel_of s))"
proof (induction cs arbitrary: s)
  case Nil
  from last_round [OF this] show ?case by simp
next
  case (Cons c cs)
  from next_round [OF Cons.prems] obtain s' where s': "loop s = loop s'" "left cs s'"
    "shown current (kernel_of s') = fold spec_putc c (shown current (kernel_of s))" by blast
  from Cons.IH [OF s'(2)] show ?case using s'(1,3) by simp
qed

end

end
