(* ===== verification/Programs.thy ===== *)
theory Programs imports UserLib begin

text \<open>
  The programs \<open>cat\<close> and \<open>ls\<close> on top of the system calls. Each copies to the screen, chunk by chunk, what reading an
  open descriptor delivers: their loops are the instances of \<open>printing_loop\<close> for a file and for the directory.
\<close>

subsection \<open>\<open>cat\<close>\<close>

partial_function (option) cat_loop ::
  "environment \<Rightarrow> (string \<Rightarrow> u32) \<Rightarrow> i32 \<Rightarrow> u32 \<Rightarrow> kernel \<Rightarrow> (i32 \<times> kernel) option" where
  "cat_loop env literal fd buf k = do {
     (cnt, k) \<leftarrow> DO_CALL env SYS_READ fd buf 1024 k;
     if cnt = 0 then Some (0, k)
     else if cnt = -1 then do {
       k \<leftarrow> ece391_fdputs env 1 (literal (''file read failed'' @ [CHR 0x0A])) k;
       Some (3, k)
     }
     else do {
       (r, k) \<leftarrow> DO_CALL env SYS_WRITE 1 buf cnt k;
       if r = -1 then Some (3, k) else cat_loop env literal fd buf k
     }
   }"

definition cat_main :: "environment \<Rightarrow> (string \<Rightarrow> u32) \<Rightarrow> u32 \<Rightarrow> kernel \<Rightarrow> (i32 \<times> kernel) option" where
  "cat_main env literal buf k = do {
     (r, k) \<leftarrow> DO_CALL env SYS_GETARGS buf 1024 0 k;
     if r \<noteq> 0 then do {
       k \<leftarrow> ece391_fdputs env 1 (literal (''could not read arguments'' @ [CHR 0x0A])) k;
       Some (3, k)
     }
     else do {
       (fd, k) \<leftarrow> DO_CALL env SYS_OPEN buf 0 0 k;
       if fd = -1 then do {
         k \<leftarrow> ece391_fdputs env 1 (literal (''file not found'' @ [CHR 0x0A])) k;
         Some (2, k)
       }
       else cat_loop env literal fd buf k
     }
   }"

subsection \<open>Copying the open file\<close>

text \<open>Descriptor \<open>fd\<close> of the program is open on the file at \<open>pos\<close>.\<close>

definition copying :: "nat \<Rightarrow> kernel \<Rightarrow> nat \<Rightarrow> u32 \<Rightarrow> nat \<Rightarrow> bool" where
  "copying p k fd inode pos \<longleftrightarrow> (let d = fd_array (pcbs k (get_pcb_address k)) ! fd in
     program p k \<and> reading k fd inode pos \<and> 2 \<le> fd \<and> fd < 8 \<and> fd_flags d ! 0 \<noteq> 0 \<and> operationstable d = Some filetable)"

lemma read_open_file:
  assumes k: "copying p k fd inode pos" and buf: "user_buffer buf (unat nbytes)" "0 < sint nbytes"
    and n: "n = min (unat nbytes) (file_size (vmem k) (fs k) inode - pos)"
  obtains k' where "sys_read env (of_nat fd) buf nbytes k = Some (of_nat n, k')" "copying p k' fd inode (pos + n)"
    "file_bytes (vmem k') (fs k') inode = file_bytes (vmem k) (fs k) inode"
    "\<forall>i < n. phys k' (user_pa p buf + of_nat i) = file_bytes (vmem k) (fs k) inode ! (pos + i)"
    "shown current k' = shown current k" "user_changed p buf n k k'"
proof -
  note c = k [unfolded copying_def Let_def]
  let ?a = "get_pcb_address k"
  have prog: "program p k" and r: "reading k fd inode pos" and fd: "2 \<le> fd" "fd < 8" using c by blast+
  note runs = programD(1) [OF prog]
  have len8: "length (fd_array (pcbs k ?a)) = 8" using prog by (simp add: program_def Let_def)
  have bufn: "user_buffer buf n" by (rule user_buffer_mono [OF buf(1)]) (simp add: n)
  from fs_read_effect [OF runs r fd(2) bufn buf(2) n] obtain k' where
    k': "fs_read (of_nat fd) buf nbytes k = Some (of_nat n, k')" "runs p k'" "reading k' fd inode (pos + n)"
    "file_bytes (vmem k') (fs k') inode = file_bytes (vmem k) (fs k) inode"
    "\<forall>i < n. user_load (buf + of_nat i) k' = Some (file_bytes (vmem k) (fs k) inode ! (pos + i))"
    "\<forall>a. \<not> in_region (user_pa p buf) n a \<longrightarrow> phys k' a = phys k a" "get_pcb_address k' = ?a" "sched k' = sched k"
    "paging k' = paging k"
    "\<forall>j < length (fd_array (pcbs k ?a)). fd_flags (fd_array (pcbs k' ?a) ! j) = fd_flags (fd_array (pcbs k ?a) ! j) \<and>
       operationstable (fd_array (pcbs k' ?a) ! j) = operationstable (fd_array (pcbs k ?a) ! j)"
    by blast
  have len: "length (fd_array (pcbs k' ?a)) = length (fd_array (pcbs k ?a))"
    using fs_read_run [OF runs r fd(2) bufn buf(2) n] k'(1) by (auto split: if_splits)
  have changed: "user_changed p buf n k k'" using bufn k'(6-9) by (simp add: user_changed_def)
  note same = user_changed_screen [OF changed runs]
  have "unat (of_nat fd :: i32) = fd" "sint (of_nat fd :: i32) = int fd" "(of_nat fd :: i32) \<noteq> 1"
    using fd sint_fd [OF fd(2)] by (auto simp: word_unat_eq_iff)
  moreover have "buf \<noteq> 0" using buf by (auto simp: user_buffer_def)
  ultimately have "sys_read env (of_nat fd) buf nbytes k = Some (of_nat n, k')"
    using c fd(2) k'(1) by (simp add: sys_read_def)
  moreover have "program p k'"
    using prog k'(2,7,10) len len8 same(2) by (simp add: program_def Let_def)
  then have "copying p k' fd inode (pos + n)"
    using c k' fd len8 by (simp add: copying_def Let_def)
  moreover have "\<forall>i < n. phys k' (user_pa p buf + of_nat i) = file_bytes (vmem k) (fs k) inode ! (pos + i)"
    using k'(5) user_load_window [OF k'(2) bufn] by simp
  ultimately show thesis using that k'(4) same(1) changed by blast
qed

lemma reading_kept:
  assumes r: "reading k fd inode pos" and u: "untouched k k'" and same: "same_kernel (vmem k) (vmem k')"
  shows "reading k' fd inode pos" "file_bytes (vmem k') (fs k') inode = file_bytes (vmem k) (fs k) inode"
proof -
  note r' = r [unfolded reading_def Let_def]
  have ok: "file_ok (vmem k) (fs k) inode" using r' by blast
  have bb: "boot_block_addr (fs k') = boot_block_addr (fs k)" and pcbs: "pcbs k' = pcbs k" and
    a: "get_pcb_address k' = get_pcb_address k" using u by (simp_all add: untouched_def get_pcb_address_def)
  note kept = file_kept [OF same ok] and counts = file_ok_counts [OF bb]
  show "reading k' fd inode pos" using r' by (simp add: reading_def Let_def pcbs a counts kept)
  show "file_bytes (vmem k') (fs k') inode = file_bytes (vmem k) (fs k) inode" by (simp add: counts kept)
qed

lemma cat_write:
  assumes k: "copying p k fd inode pos" and buf: "user_buffer buf 1024" and len: "length xs \<le> 1024"
    and xs: "\<forall>i < length xs. phys k (user_pa p buf + of_nat i) = xs ! i"
  obtains k' where "sys_write env 1 buf (of_nat (length xs)) k = Some (0, k')" "copying p k' fd inode pos"
    "file_bytes (vmem k') (fs k') inode = file_bytes (vmem k) (fs k) inode"
    "shown current k' = fold spec_putc xs (shown current k)"
proof -
  note c = k [unfolded copying_def Let_def]
  have prog: "program p k" and r: "reading k fd inode pos" using c by blast+
  obtain k' where k': "sys_write env 1 buf (of_nat (length xs)) k = Some (0, k')" "printed xs k k'"
    using write_prints [OF prog user_buffer_mono [OF buf len] xs] by blast
  note kept = reading_kept [OF r printed_untouched [OF k'(2)] printed_kernel [OF k'(2) programD(4) [OF prog]]]
  have "copying p k' fd inode pos"
    using c kept(1) printed_program [OF k'(2) prog] printed_fields [OF k'(2)] by (simp add: copying_def Let_def)
  then show thesis using that k' kept(2) by (simp add: printed_def)
qed

text \<open>What is left of the file, in pieces of the size of the buffer.\<close>

fun chunks :: "u8 list \<Rightarrow> u8 list list" where
  "chunks xs = (if xs = [] then [] else take 1024 xs # chunks (drop 1024 xs))"

declare chunks.simps [simp del]

lemma concat_chunks: "concat (chunks xs) = xs"
  by (induction xs rule: chunks.induct) (subst chunks.simps, simp)

definition file_left :: "nat \<Rightarrow> nat \<Rightarrow> u32 \<Rightarrow> u8 list list \<Rightarrow> kernel \<Rightarrow> bool" where
  "file_left p fd inode cs k \<longleftrightarrow>
     (\<exists>pos. copying p k fd inode pos \<and> cs = chunks (drop pos (file_bytes (vmem k) (fs k) inode)))"

lemma cat_round:
  assumes "copying p k fd inode pos" "user_buffer buf 1024"
  defines "bs \<equiv> drop pos (file_bytes (vmem k) (fs k) inode)"
  obtains k1 where "bs = []" "cat_loop env literal (of_nat fd) buf k = Some (0, k1)" "shown current k1 = shown current k"
  | k2 where "bs \<noteq> []" "cat_loop env literal (of_nat fd) buf k = cat_loop env literal (of_nat fd) buf k2"
    "copying p k2 fd inode (pos + length (take 1024 bs))" "file_bytes (vmem k2) (fs k2) inode = file_bytes (vmem k) (fs k) inode"
    "shown current k2 = fold spec_putc (take 1024 bs) (shown current k)"
proof -
  let ?bs = "file_bytes (vmem k) (fs k) inode" and ?size = "file_size (vmem k) (fs k) inode"
  define n where "n = min 1024 (?size - pos)"
  have pos: "pos \<le> ?size" using assms(1) by (simp add: copying_def reading_def Let_def)
  obtain k1 where k1: "sys_read env (of_nat fd) buf 1024 k = Some (of_nat n, k1)" "copying p k1 fd inode (pos + n)"
    "file_bytes (vmem k1) (fs k1) inode = ?bs" "\<forall>i < n. phys k1 (user_pa p buf + of_nat i) = ?bs ! (pos + i)"
    "shown current k1 = shown current k"
    using read_open_file [OF assms(1), of buf 1024 n env] assms(2) n_def by auto
  define xs where "xs = take 1024 bs"
  have len: "length xs = n" "n \<le> 1024" by (simp_all add: xs_def bs_def n_def)
  show thesis
  proof (cases "n = 0")
    case True
    then have "bs = []" using pos by (simp add: n_def bs_def)
    moreover have "cat_loop env literal (of_nat fd) buf k = Some (0, k1)"
      using k1(1) True by (subst cat_loop.simps) (simp add: do_calls)
    ultimately show thesis using that(1) k1(5) by blast
  next
    case False
    have load: "\<forall>i < length xs. phys k1 (user_pa p buf + of_nat i) = xs ! i"
      using k1(4) pos len by (simp add: xs_def bs_def n_def)
    obtain k2 where k2: "sys_write env 1 buf (of_nat n) k1 = Some (0, k2)" "copying p k2 fd inode (pos + n)"
      "file_bytes (vmem k2) (fs k2) inode = ?bs" "shown current k2 = fold spec_putc xs (shown current k)"
      using cat_write [OF k1(2) assms(2) _ load, of env] len k1(3,5) by metis
    have "sint (of_nat n :: i32) = int n" using len by (simp add: sint_of_nat_u32)
    then have "sint (of_nat n :: i32) \<noteq> sint (0 :: i32)" "sint (of_nat n :: i32) \<noteq> sint (-1 :: i32)" using False by simp_all
    then have "(of_nat n :: i32) \<noteq> 0" "(of_nat n :: i32) \<noteq> -1" by metis+
    then have "cat_loop env literal (of_nat fd) buf k = cat_loop env literal (of_nat fd) buf k2"
      using k1(1) k2(1) by (subst cat_loop.simps) (simp add: do_calls)
    moreover have "bs \<noteq> []" using False by (auto simp: n_def bs_def)
    ultimately show thesis using that(2) k2 len unfolding xs_def by simp
  qed
qed

interpretation cat_copies:
  printing_loop "cat_loop env literal (of_nat fd) buf" "\<lambda>k. k" "\<lambda>cs k. user_buffer buf 1024 \<and> file_left p fd inode cs k"
  for env literal fd buf p inode
proof
  fix k :: kernel assume "user_buffer buf 1024 \<and> file_left p fd inode [] k"
  then obtain pos where k: "user_buffer buf 1024" "copying p k fd inode pos" "drop pos (file_bytes (vmem k) (fs k) inode) = []"
    by (auto simp: file_left_def chunks.simps split: if_splits)
  show "\<exists>k'. cat_loop env literal (of_nat fd) buf k = Some (0, k') \<and> shown current k' = shown current k"
    by (rule cat_round [OF k(2,1), of env literal]) (use k(3) in auto)
next
  fix k :: kernel and c cs assume "user_buffer buf 1024 \<and> file_left p fd inode (c # cs) k"
  then obtain pos where k: "user_buffer buf 1024" "copying p k fd inode pos"
    and "c # cs = chunks (drop pos (file_bytes (vmem k) (fs k) inode))" by (auto simp: file_left_def)
  define bs where "bs = drop pos (file_bytes (vmem k) (fs k) inode)"
  have bs: "bs \<noteq> []" "c = take 1024 bs" "cs = chunks (drop 1024 bs)"
    using \<open>c # cs = _\<close> by (simp_all add: bs_def [symmetric] chunks.simps [of bs] split: if_splits)
  have rest: "drop (pos + length (take 1024 bs)) (file_bytes (vmem k) (fs k) inode) = drop 1024 bs"
    by (cases "1024 \<le> length bs") (simp_all add: bs_def add.commute)
  show "\<exists>k'. cat_loop env literal (of_nat fd) buf k = cat_loop env literal (of_nat fd) buf k' \<and>
      (user_buffer buf 1024 \<and> file_left p fd inode cs k') \<and> shown current k' = fold spec_putc c (shown current k)"
  proof (rule cat_round [OF k(2,1), of env literal, folded bs_def], goal_cases)
    case (2 k2)
    then have "file_left p fd inode cs k2"
      unfolding file_left_def using bs(3) rest by (intro exI [of _ "pos + length (take 1024 bs)"]) simp
    then show ?thesis using 2 k(1) bs(2) by blast
  qed (use bs(1) in simp)
qed

subsection \<open>The arguments\<close>

text \<open>A buffer in the window of a process is an object that \<open>strncpy\<close> can fill.\<close>

interpretation user_object:
  byte_object "\<lambda>k i. phys k (user_pa p buf + i)" "\<lambda>i b. user_store (buf + i) b" n "\<lambda>k :: kernel. runs p k \<and> user_buffer buf n"
    "\<lambda>k. k\<lparr>phys := (\<lambda>a. if in_region (user_pa p buf) n a then 0 else phys k a)\<rparr>" for p buf n
proof
  fix k :: kernel and i :: u32 and b :: u8
  assume k: "runs p k \<and> user_buffer buf n" and i: "unat i < n"
  have "in_region (user_pa p buf) n (user_pa p buf + i)" using i by (simp add: in_region_def)
  then show "\<exists>k'. user_store (buf + i) b k = Some k' \<and> (runs p k' \<and> user_buffer buf n) \<and>
      k'\<lparr>phys := (\<lambda>a. if in_region (user_pa p buf) n a then 0 else phys k' a)\<rparr> =
      k\<lparr>phys := (\<lambda>a. if in_region (user_pa p buf) n a then 0 else phys k a)\<rparr>"
    using user_store_window [of p k buf n i b] k i by (auto simp: runs_def fun_eq_iff intro!: arg_cong [of _ _ "\<lambda>f. k\<lparr>phys := f\<rparr>"])
qed (auto simp: user_store_window)

lemma getargs_run:
  assumes k: "runs p k" "user_buffer buf 1024"
    and args: "arg_arr (pcbs k (get_pcb_address k)) = name @ 0 # tail" "0 \<notin> set name" "length name < 1024"
      "sint (arg_size (pcbs k (get_pcb_address k))) \<le> 1023"
  obtains m where "getargs buf 1024 k = Some (0, k\<lparr>phys := m\<rparr>)" "\<forall>i < length name. m (user_pa p buf + of_nat i) = name ! i"
    "m (user_pa p buf + of_nat (length name)) = 0" "\<forall>a. \<not> in_region (user_pa p buf) 1024 a \<longrightarrow> m a = phys k a"
proof -
  let ?s = "arr_reader (\<lambda>_. 0) (name @ 0 # tail @ word_bytes (status (pcbs k (get_pcb_address k))))"
  have size: "unat (1024 :: u32) \<le> 1024" by simp
  obtain k1 where k1: "strncpy (\<lambda>_. ?s) (\<lambda>i b. user_store (buf + i) b) 1024 k = Some k1" "runs p k1"
    "k1\<lparr>phys := (\<lambda>a. if in_region (user_pa p buf) 1024 a then 0 else phys k1 a)\<rparr> =
       k\<lparr>phys := (\<lambda>a. if in_region (user_pa p buf) 1024 a then 0 else phys k a)\<rparr>"
    "\<forall>j. unat j < 1024 \<longrightarrow> phys k1 (user_pa p buf + j) =
       (if j < 1024 then (if \<forall>i \<le> j. ?s i \<noteq> 0 then ?s j else 0) else phys k (user_pa p buf + j))"
    using user_object.strncpy_object [of p k buf 1024 1024 ?s] k size by blast
  have fields: "k1 = k\<lparr>phys := phys k1\<rparr>" using arg_cong [OF k1(3), of "\<lambda>x. x\<lparr>phys := phys k1\<rparr>"] by simp
  have outside: "phys k1 a = phys k a" if "\<not> in_region (user_pa p buf) 1024 a" for a
    using fun_cong [OF arg_cong [OF k1(3), of phys], of a] that by simp
  have s: "?s i = (name @ 0 # tail @ word_bytes (status (pcbs k (get_pcb_address k)))) ! unat i" if "unat i \<le> length name" for i
    using that by (simp add: arr_reader_def)
  have nz: "?s i \<noteq> 0" if "unat i < length name" for i
  proof -
    have "name ! unat i \<noteq> 0" using nth_mem [OF that] args(2) by metis
    then show ?thesis using s [of i] that by (simp add: nth_append)
  qed
  have "phys k1 (user_pa p buf + of_nat i) = name ! i" if i: "i < length name" for i
  proof -
    have u: "unat (of_nat i :: u32) = i" using i args(3) by (simp add: unat_of_nat_u32)
    have "\<forall>j \<le> of_nat i. ?s j \<noteq> 0" using nz u i by (simp add: word_le_nat_alt)
    moreover have "(of_nat i :: u32) < 1024" "unat (of_nat i :: u32) < 1024" using u i args(3) by (simp_all add: word_less_nat_alt)
    ultimately show ?thesis using k1(4) s [of "of_nat i"] u i by (simp add: nth_append)
  qed
  moreover have "phys k1 (user_pa p buf + of_nat (length name)) = 0"
  proof -
    have u: "unat (of_nat (length name) :: u32) = length name" using args(3) by (simp add: unat_of_nat_u32)
    have "?s (of_nat (length name)) = 0" using s [of "of_nat (length name)"] u by (simp add: nth_append)
    moreover have "(of_nat (length name) :: u32) < 1024" "unat (of_nat (length name) :: u32) < 1024"
      using u args(3) by (simp_all add: word_less_nat_alt)
    ultimately show ?thesis using k1(4) by fastforce
  qed
  moreover have "buf \<noteq> 0" using k(2) by (auto simp: user_buffer_def)
  then have "getargs buf 1024 k = Some (0, k\<lparr>phys := phys k1\<rparr>)"
    using k1(1) fields args(1,4) by (simp add: getargs_def Let_def)
  ultimately show thesis using that outside by blast
qed

subsection \<open>Opening the file\<close>

text \<open>The directory names a regular file, and the image is apart from what the kernel copies entries to.\<close>

definition names_file :: "environment \<Rightarrow> kernel \<Rightarrow> u8 list \<Rightarrow> u32 \<Rightarrow> bool" where
  "names_file env k name inode \<longleftrightarrow> (let bb = boot_block_addr (fs k) in
     kernel_area bb 4096 \<and> wf_dentry (stack_dentry env) \<and> wf_dentry (dentry_a (fs k)) \<and> file_ok (vmem k) (fs k) inode \<and>
     (\<exists>e. file_entry (vmem k) bb name e \<and> sext8 (vmem k (bb + 128 + of_nat e * 64 + 32)) = (2 :: u32) \<and>
        inode = sext8 (vmem k (bb + 128 + of_nat e * 64 + 36))))"

lemma names_file_found:
  assumes k: "names_file env k name inode" and nm: "c_string nm name" "length name < 32" and d: "wf_dentry d"
  obtains d' where "read_dentry_by_name (vmem k) (Some nm) (Some d) (fs k) = Some (0, Some d', read_counts (vmem k) (fs k))"
    "file_type d' = 2" "inode_num d' = inode"
proof -
  note n = k [unfolded names_file_def Let_def]
  obtain e where e: "file_entry (vmem k) (boot_block_addr (fs k)) name e"
    "sext8 (vmem k (boot_block_addr (fs k) + 128 + of_nat e * 64 + 32)) = (2 :: u32)"
    "inode = sext8 (vmem k (boot_block_addr (fs k) + 128 + of_nat e * 64 + 36))" using n by blast
  have bb: "boot_block_addr (fs k) \<noteq> 0" using n by (auto simp: kernel_area_def)
  show thesis by (rule that [OF entry_found [OF e(1) bb nm d]]) (use e(2,3) in simp_all)
qed

lemma names_file_kept_image:
  assumes k: "names_file env k name inode" and block: "\<And>a. in_region (boot_block_addr (fs k)) 4096 a \<Longrightarrow> vmem k' a = vmem k a"
    and same: "same_image (vmem k) (vmem k') (fs k) inode"
    and fs: "boot_block_addr (fs k') = boot_block_addr (fs k)" "wf_dentry (dentry_a (fs k'))"
  shows "names_file env k' name inode"
proof -
  let ?bb = "boot_block_addr (fs k)" and ?m = "vmem k" and ?m' = "vmem k'"
  note n = k [unfolded names_file_def Let_def]
  have area: "kernel_area ?bb 4096" and ok: "file_ok ?m (fs k) inode" using n by blast+
  obtain e where e: "file_entry ?m ?bb name e" "sext8 (?m (?bb + 128 + of_nat e * 64 + 32)) = (2 :: u32)"
    "inode = sext8 (?m (?bb + 128 + of_nat e * 64 + 36))" using n by blast
  note entry = entry_kept [OF e(1) block]
  have "sext8 (?m' (?bb + 128 + of_nat e * 64 + 32)) = (2 :: u32)" using e(2) entry(2) [of 32] by simp
  moreover have "inode = sext8 (?m' (?bb + 128 + of_nat e * 64 + 36))" using e(3) entry(2) [of 36] by simp
  moreover have "file_ok ?m' (fs k') inode" using file_kept_image(3) [OF same ok] file_ok_counts(2) [OF fs(1)] by simp
  ultimately show ?thesis using n fs entry(1) unfolding names_file_def Let_def fs(1) by blast
qed

lemma names_file_kept:
  assumes "names_file env k name inode" "same_kernel (vmem k) (vmem k')"
    "boot_block_addr (fs k') = boot_block_addr (fs k)" "wf_dentry (dentry_a (fs k'))"
  shows "names_file env k' name inode"
proof (rule names_file_kept_image [OF assms(1) _ _ assms(3,4)])
  have n: "kernel_area (boot_block_addr (fs k)) 4096" "file_ok (vmem k) (fs k) inode"
    using assms(1) by (simp_all add: names_file_def Let_def)
  show "vmem k' a = vmem k a" if "in_region (boot_block_addr (fs k)) 4096 a" for a
    by (rule boot_block_kept [OF assms(2) n(1) that])
  show "same_image (vmem k) (vmem k') (fs k) inode" by (rule same_kernel_image [OF assms(2) n(2)])
qed

lemma cat_open:
  assumes prog: "program p k" and name: "names_file env k name inode"
    and str: "user_string p buf name k" "name \<noteq> []" "length name < 32"
    and pcb: "pcb_ok (pcbs k (get_pcb_address k))" "get_pcb_address k \<noteq> 0" "\<exists>i. 2 \<le> i \<and> i < 8 \<and> fd_flags (fd_array (pcbs k (get_pcb_address k)) ! i) ! 0 = 0"
  obtains fd k' where "sys_open env buf k = Some (of_nat fd, k')" "copying p k' fd inode 0"
    "file_bytes (vmem k') (fs k') inode = file_bytes (vmem k) (fs k) inode" "shown current k' = shown current k" "phys k' = phys k"
proof -
  note n = name [unfolded names_file_def Let_def]
  have look: "\<exists>d. read_dentry_by_name (vmem k) (Some nm) (Some (stack_dentry env)) (fs k) =
      Some (0, Some d, read_counts (vmem k) (fs k)) \<and> file_type d = 2 \<and> inode_num d = inode" if "c_string nm name" for nm
    using names_file_found [OF name that str(3)] n by metis
  have "open": "\<exists>f. op_open env (Some filetable) nm k2 = Some (k2\<lparr>fs := f\<rparr>) \<and> boot_block_addr f = boot_block_addr (fs k)"
    if nm: "c_string nm name" and k2: "vmem k2 = vmem k" "fs k2 = read_counts (vmem k) (fs k)" for nm k2
  proof -
    have bb2: "boot_block_addr (fs k2) = boot_block_addr (fs k)" "wf_dentry (dentry_a (fs k2))" using n by (simp_all add: k2(2) read_counts_def)
    have name2: "names_file env k2 name inode"
      by (rule names_file_kept [OF name _ bb2]) (simp add: k2(1) same_kernel_def)
    obtain d2 where "read_dentry_by_name (vmem k2) (Some nm) (Some (dentry_a (fs k2))) (fs k2) = Some (0, Some d2, read_counts (vmem k2) (fs k2))"
      using names_file_found [OF name2 nm str(3) bb2(2)] by blast
    then show ?thesis by (auto simp: fs_open_def read_counts_def bb2)
  qed
  obtain fd k' where k': "sys_open env buf k = Some (of_nat fd, k')" "just_opened p k fd 2 filetable inode k'"
    by (rule open_opens [OF prog pcb str(1,2) look "open"]) simp_all
  note o = k'(2) [unfolded just_opened_def Let_def]
  have v: "vmem k' = vmem k" and bb: "boot_block_addr (fs k') = boot_block_addr (fs k)" using o by blast+
  have "copying p k' fd inode 0"
    using o n by (simp add: copying_def reading_def Let_def v file_ok_counts [OF bb])
  moreover have "file_bytes (vmem k') (fs k') inode = file_bytes (vmem k) (fs k) inode" by (simp add: v file_ok_counts [OF bb])
  ultimately show thesis using that k'(1) o by blast
qed

lemma cat_runs:
  assumes k: "runs p k" "user_buffer buf 1024" "current_term (sched k) < length (terminals (sched k))"
      "cursor_ok (terminals (sched k) ! current_term (sched k))"
    and pcb: "pcb_ok (pcbs k (get_pcb_address k))" "get_pcb_address k \<noteq> 0"
      "\<exists>i. 2 \<le> i \<and> i < 8 \<and> fd_flags (fd_array (pcbs k (get_pcb_address k)) ! i) ! 0 = 0"
    and args: "arg_arr (pcbs k (get_pcb_address k)) = name @ 0 # tail" "0 \<notin> set name" "name \<noteq> []" "length name < 32"
      "sint (arg_size (pcbs k (get_pcb_address k))) \<le> 1023"
    and named: "names_file env k name inode"
  shows "\<exists>k'. cat_main env literal buf k = Some (0, k') \<and>
    shown current k' = fold spec_putc (file_bytes (vmem k) (fs k) inode) (shown current k)"
proof -
  have len: "length name < 1024" using args(4) by simp
  obtain m where m: "getargs buf 1024 k = Some (0, k\<lparr>phys := m\<rparr>)" "\<forall>i < length name. m (user_pa p buf + of_nat i) = name ! i"
    "m (user_pa p buf + of_nat (length name)) = 0" "\<forall>a. \<not> in_region (user_pa p buf) 1024 a \<longrightarrow> m a = phys k a"
    by (rule getargs_run [OF k(1,2) args(1,2) len args(5)])
  define k1 where "k1 = k\<lparr>phys := m\<rparr>"
  have p1: "paging k1 = paging k" "sched k1 = sched k" "fs k1 = fs k" "pcbs k1 = pcbs k" "get_pcb_address k1 = get_pcb_address k" "phys k1 = m"
    by (simp_all add: k1_def get_pcb_address_def)
  have ready: "cur.ready k" using k(3,4) by (simp add: cur_ready)
  have changed: "user_changed p buf 1024 k k1" using k(2) m(4) p1 by (simp add: user_changed_def)
  note screen = user_changed_screen [OF changed k(1)]
  note same = screen(3)
  have prog: "program p k1"
    using k(1) pcb(1) ready screen(2) by (intro program_pcb) (simp_all add: p1 runs_def)
  have buf: "user_string p buf name k1"
  proof -
    have "user_buffer buf (length name + 1)" using user_buffer_mono [OF k(2)] len by simp
    then show ?thesis using m(2,3) args(2) by (auto simp: user_string_def p1 nth_append le_less)
  qed
  have bb: "boot_block_addr (fs k1) = boot_block_addr (fs k)" "wf_dentry (dentry_a (fs k1))"
    using named by (simp_all add: p1 names_file_def Let_def)
  note file1 = names_file_kept [OF named same bb]
  have ok: "file_ok (vmem k) (fs k) inode" using named by (simp add: names_file_def Let_def)
  note bytes = file_kept(2) [OF same ok]
  obtain fd k2 where k2: "sys_open env buf k1 = Some (of_nat fd, k2)" "copying p k2 fd inode 0"
    "file_bytes (vmem k2) (fs k2) inode = file_bytes (vmem k1) (fs k1) inode" "shown current k2 = shown current k1" "phys k2 = phys k1"
    by (rule cat_open [OF prog file1 buf args(3,4) pcb [folded p1(4) p1(5)]])
  define bs where "bs = file_bytes (vmem k2) (fs k2) inode"
  have "file_left p fd inode (chunks bs) k2"
    unfolding file_left_def bs_def by (intro exI [of _ 0]) (simp add: k2(2))
  from cat_copies.loop_prints [OF conjI [OF k(2) this], of env literal, unfolded concat_chunks] obtain k' where
    k': "cat_loop env literal (of_nat fd) buf k2 = Some (0, k')" "shown current k' = fold spec_putc bs (shown current k2)" by blast
  have "fd < 8" using k2(2) by (simp add: copying_def Let_def)
  from fd_not_error [OF this] have "cat_main env literal buf k = Some (0, k')"
    using m(1) k2(1) k'(1) by (simp add: cat_main_def do_calls k1_def)
  then show ?thesis using k'(2) k2(3,4) screen(1) bytes by (simp add: p1 bs_def)
qed

text \<open>[C7] \<open>cat\<close> shows a file: when the arguments name a regular file of the directory and a descriptor is free,
  the program returns 0 and the screen and cursor of its terminal change as printing the bytes of the file, all of
  them and in order, changes the abstract screen.\<close>

theorem cat_shows_file:
  assumes k: "runs p k" "user_buffer buf 1024" "current_term (sched k) < length (terminals (sched k))"
      "cursor_ok (terminals (sched k) ! current_term (sched k))"
    and pcb: "pcb_ok (pcbs k (get_pcb_address k))" "get_pcb_address k \<noteq> 0"
      "\<exists>i. 2 \<le> i \<and> i < 8 \<and> fd_flags (fd_array (pcbs k (get_pcb_address k)) ! i) ! 0 = 0"
    and args: "arg_arr (pcbs k (get_pcb_address k)) = name @ 0 # tail" "0 \<notin> set name" "name \<noteq> []" "length name < 32"
      "sint (arg_size (pcbs k (get_pcb_address k))) \<le> 1023"
    and named: "names_file env k name inode"
  shows "\<exists>k'. cat_main env literal buf k = Some (0, k') \<and>
    shown current k' = fold spec_putc (file_bytes (vmem k) (fs k) inode) (shown current k)"
  by (rule cat_runs [OF assms])

end
