(* ===== verification/Ls.thy ===== *)
theory Ls imports UserLib begin

text \<open>
  The program \<open>ls\<close>: it opens the directory and prints the names \<open>dir_read\<close> delivers, one to a line. Its loop is an
  instance of \<open>printing_loop\<close>.
\<close>

subsection \<open>\<open>ls\<close>\<close>

partial_function (option) ls_loop ::
  "environment \<Rightarrow> (string \<Rightarrow> u32) \<Rightarrow> i32 \<Rightarrow> u32 \<Rightarrow> kernel \<Rightarrow> (i32 \<times> kernel) option" where
  "ls_loop env literal fd buf k = do {
     (cnt, k) \<leftarrow> DO_CALL env SYS_READ fd buf 32 k;
     if cnt = 0 then Some (0, k)
     else if cnt = -1 then do {
       k \<leftarrow> ece391_fdputs env 1 (literal (''directory entry read failed'' @ [CHR 0x0A])) k;
       Some (3, k)
     }
     else do {
       k \<leftarrow> user_store (buf + cnt) 10 k;
       (r, k) \<leftarrow> DO_CALL env SYS_WRITE 1 buf (cnt + 1) k;
       if r = -1 then Some (3, k) else ls_loop env literal fd buf k
     }
   }"

definition ls_main :: "environment \<Rightarrow> (string \<Rightarrow> u32) \<Rightarrow> u32 \<Rightarrow> kernel \<Rightarrow> (i32 \<times> kernel) option" where
  "ls_main env literal buf k = do {
     (fd, k) \<leftarrow> DO_CALL env SYS_OPEN (literal ''.'') 0 0 k;
     if fd = -1 then do {
       k \<leftarrow> ece391_fdputs env 1 (literal (''directory open failed'' @ [CHR 0x0A])) k;
       Some (2, k)
     }
     else ls_loop env literal fd buf k
   }"

subsection \<open>Reading the directory\<close>

text \<open>An entry read by its index is a string: the low byte of the file type ends a name of 32 characters.\<close>

lemma entry_string:
  assumes "length n \<le> 32" "0 \<notin> set n"
  shows "c_string (dentry_reader (\<lambda>_. 0) (d\<lparr>fname := n @ replicate (32 - length n) 0, file_type := w AND NOT 0xFF, inode_num := i\<rparr>)) n"
proof -
  have byte: "byte_of 0 (w AND NOT 0xFF) = 0"
  proof -
    have "(0xFF :: u32) = mask 8" by (simp add: mask_eq_exp_minus_1)
    then show ?thesis by (auto simp: byte_of_def bit_eq_iff bit_simps)
  qed
  then show ?thesis
    using assms
    by (cases "length n = 32")
      (auto simp: c_string_def dentry_reader_def dentry_bytes_def arr_reader_def word_bytes_def nth_append unat_of_nat_u32)
qed


text \<open>The descriptor is open on the directory, and \<open>pos\<close> entries have been read.\<close>

definition listing :: "environment \<Rightarrow> nat \<Rightarrow> kernel \<Rightarrow> nat \<Rightarrow> nat \<Rightarrow> bool" where
  "listing env p k fd pos \<longleftrightarrow> (let d = fd_array (pcbs k (get_pcb_address k)) ! fd in
     program p k \<and> directory_ok env k \<and> 2 \<le> fd \<and> fd < 8 \<and> fd_flags d ! 0 \<noteq> 0 \<and> operationstable d = Some directorytable \<and>
     file_pos d = of_nat pos \<and> pos \<le> 63)"

lemma name_at_facts: "length (name_at m p) \<le> 32" "0 \<notin> set (name_at m p)"
proof -
  show "length (name_at m p) \<le> 32"
    using length_takeWhile_le [of "\<lambda>b. b \<noteq> 0" "map (\<lambda>i. m (p + of_nat i)) [0..<32]"] by (simp add: name_at_def)
  show "0 \<notin> set (name_at m p)" by (auto simp: name_at_def dest: set_takeWhileD)
qed

lemma dir_read_entry:
  assumes k: "listing env p k fd pos" and pos: "pos < length (directory_names k)" and buf: "user_buffer buf 33"
  defines "n \<equiv> directory_names k ! pos"
  obtains bs where "dir_read env (of_nat fd) buf 32 k = Some (of_nat (length n),
      upd_pcb (get_pcb_address k) (upd_fd fd (\<lambda>d. d\<lparr>file_pos := file_pos d + 1\<rparr>))
        (k\<lparr>fs := read_counts (vmem k) (fs k), phys := write_list (phys k) (user_pa p buf) bs\<rparr>))"
    "take (length n) bs = n" "length bs \<le> 32" "length n \<le> length bs"
proof -
  let ?a = "get_pcb_address k" and ?bb = "boot_block_addr (fs k)" and ?m = "vmem k" and ?P = "user_pa p buf"
  note l = k [unfolded listing_def Let_def]
  have prog: "program p k" and dir: "directory_ok env k" and fd: "2 \<le> fd" "fd < 8" using l by blast+
  have n: "n = name_at ?m (?bb + 64 + of_nat pos * 64)" and pos': "pos < 63" "pos < unat (load32 ?m ?bb)"
    using pos by (simp_all add: n_def directory_names_def)
  note name = name_at_facts [of ?m "?bb + 64 + of_nat pos * 64", folded n]
  have nul: "0 \<in> range ?m" using dir by (intro short_name_nul [of _ "?bb + 64"]) (simp add: directory_ok_def)
  have wf: "wf_dentry (stack_dentry env)" and bb: "?bb \<noteq> 0" using dir by (auto simp: directory_ok_def kernel_area_def)
  have index: "\<not> ((of_nat pos :: u32) > 62 \<or> (of_nat pos :: u32) \<ge> load32 ?m ?bb)"
    using pos' by (simp add: word_less_nat_alt word_le_nat_alt unat_of_nat_u32)
  define e where "e = (stack_dentry env)\<lparr>fname := n @ replicate (32 - length n) 0,
      file_type := load32 ?m (?bb + 64 + of_nat pos * 64 + 32) AND NOT 0xFF, inode_num := load32 ?m (?bb + 64 + of_nat pos * 64 + 36)\<rparr>"
  have read: "read_dentry_by_index ?m (of_nat pos) (Some (stack_dentry env)) (fs k) = Some (0, Some e, read_counts ?m (fs k))"
    using read_dentry_by_index_correct [OF nul wf, of "of_nat pos" "fs k"] index by (simp add: Let_def e_def n)
  have string: "c_string (dentry_reader (\<lambda>_. 0) e) n" unfolding e_def by (rule entry_string [OF name])
  have len: "unat (of_nat (length n) :: u32) = length n" using name(1) by (simp add: unat_of_nat_u32)
  define bs where "bs = take (max 1 (length n)) (dentry_bytes e)"
  have bytes: "dir_bytes (dentry_bytes e) (length n) 32 = (bs, length n)"
    using name(1) by (auto simp: dir_bytes_def bs_def)
  have front: "dentry_bytes e = n @ replicate (32 - length n) 0 @ word_bytes (file_type e) @ word_bytes (inode_num e)
      @ concat (map word_bytes (reserved e))" by (simp add: dentry_bytes_def e_def)
  have bs: "take (length n) bs = n" "length bs \<le> 32" "length n \<le> length bs"
    using name(1) by (auto simp: bs_def front)
  have stored: "user_write buf bs (k\<lparr>fs := f\<rparr>) = Some (k\<lparr>fs := f, phys := write_list (phys k) ?P bs\<rparr>)" for f
    using user_write_bytes [of p "k\<lparr>fs := f\<rparr>" buf bs] programD(1) [OF prog] user_buffer_mono [OF buf, of "length bs"] bs(2)
    by (simp add: put_bytes_write_list runs_def)
  have fds: "unat (of_nat fd :: i32) = fd" "sint (of_nat fd :: i32) = int fd" "(of_nat fd :: i32) \<noteq> 1" "(of_nat fd :: i32) \<noteq> 0"
    using fd sint_fd [OF fd(2)] by (auto simp: word_unat_eq_iff)
  have "length (fd_array (pcbs k ?a)) = 8" using prog by (simp add: program_def Let_def)
  then have "dir_read env (of_nat fd) buf 32 k = Some (of_nat (length n),
      upd_pcb ?a (upd_fd fd (\<lambda>d. d\<lparr>file_pos := file_pos d + 1\<rparr>))
        (k\<lparr>fs := read_counts ?m (fs k), phys := write_list (phys k) ?P bs\<rparr>))"
    using l bb fds fd read strlen_c_string [OF string] bytes stored len by (simp add: dir_read_def Let_def)
  then show thesis using bs by (rule that)
qed

lemma dir_read_end:
  assumes k: "listing env p k fd pos" and pos: "\<not> pos < length (directory_names k)"
  shows "dir_read env (of_nat fd) buf 32 k = Some (0, k\<lparr>fs := read_counts (vmem k) (fs k)\<rparr>)"
proof -
  let ?a = "get_pcb_address k" and ?bb = "boot_block_addr (fs k)" and ?m = "vmem k"
  note l = k [unfolded listing_def Let_def]
  have prog: "program p k" and dir: "directory_ok env k" and fd: "2 \<le> fd" "fd < 8" using l by blast+
  have nul: "0 \<in> range ?m" using dir by (intro short_name_nul [of _ "?bb + 64"]) (simp add: directory_ok_def)
  have wf: "wf_dentry (stack_dentry env)" and bb: "?bb \<noteq> 0" using dir by (auto simp: directory_ok_def kernel_area_def)
  have "(of_nat pos :: u32) > 62 \<or> (of_nat pos :: u32) \<ge> load32 ?m ?bb"
    using pos l by (auto simp: directory_names_def word_less_nat_alt word_le_nat_alt unat_of_nat_u32)
  then have "read_dentry_by_index ?m (of_nat pos) (Some (stack_dentry env)) (fs k) = Some (-1, Some (stack_dentry env), read_counts ?m (fs k))"
    using read_dentry_by_index_correct [OF nul wf, of "of_nat pos" "fs k"] by (simp add: Let_def)
  moreover have "unat (of_nat fd :: i32) = fd" "sint (of_nat fd :: i32) = int fd" "(of_nat fd :: i32) \<noteq> 1" "(of_nat fd :: i32) \<noteq> 0"
    using fd sint_fd [OF fd(2)] by (auto simp: word_unat_eq_iff)
  moreover have "length (fd_array (pcbs k ?a)) = 8" using prog by (simp add: program_def Let_def)
  ultimately show ?thesis using l bb fd by (simp add: dir_read_def Let_def)
qed


subsection \<open>Printing the names\<close>

lemma read_directory:
  assumes "listing env p k fd pos" "user_buffer buf 33"
  shows "sys_read env (of_nat fd) buf nbytes k = dir_read env (of_nat fd) buf nbytes k"
proof -
  note l = assms(1) [unfolded listing_def Let_def]
  have fd: "2 \<le> fd" "fd < 8" using l by blast+
  have "unat (of_nat fd :: i32) = fd" "sint (of_nat fd :: i32) = int fd" "(of_nat fd :: i32) \<noteq> 1"
    using fd sint_fd [OF fd(2)] by (auto simp: word_unat_eq_iff)
  moreover have "buf \<noteq> 0" using assms(2) by (auto simp: user_buffer_def)
  ultimately show ?thesis using l fd(2) by (simp add: sys_read_def)
qed

lemma listing_next:
  assumes k: "listing env p k fd pos" and pos: "pos < length (directory_names k)"
    and changed: "user_changed p buf n k k'" and bb: "boot_block_addr (fs k') = boot_block_addr (fs k)"
    and pcb: "pcbs k' (get_pcb_address k) = upd_fd fd (\<lambda>d. d\<lparr>file_pos := file_pos d + 1\<rparr>) (pcbs k (get_pcb_address k))"
  shows "listing env p k' fd (pos + 1)" "directory_names k' = directory_names k" "program p k'"
proof -
  note l = k [unfolded listing_def Let_def]
  have prog: "program p k" and dir: "directory_ok env k" and fd: "2 \<le> fd" "fd < 8" using l by blast+
  note same = user_changed_screen [OF changed programD(1) [OF prog]]
  have f: "get_pcb_address k' = get_pcb_address k" "sched k' = sched k" "paging k' = paging k"
    using changed by (simp_all add: user_changed_def)
  have "length (fd_array (pcbs k (get_pcb_address k))) = 8" using prog by (simp add: program_def Let_def)
  then show p: "program p k'"
    using prog fd by (simp add: program_def Let_def f pcb runs_def cur_ready)
  note dir' = directory_kept [OF dir same(3) bb]
  then show "directory_names k' = directory_names k" by blast
  have "pos < 63" using pos by (simp add: directory_names_def)
  then show "listing env p k' fd (pos + 1)"
    using l p dir' fd \<open>length _ = 8\<close> by (simp add: listing_def Let_def f pcb)
qed

lemma listing_printed:
  assumes "listing env p k fd pos" "printed xs k k'"
  shows "listing env p k' fd pos" "directory_names k' = directory_names k"
proof -
  note l = assms(1) [unfolded listing_def Let_def]
  have prog: "program p k" and dir: "directory_ok env k" using l by blast+
  note f = printed_fields [OF assms(2)]
  have bb: "boot_block_addr (fs k') = boot_block_addr (fs k)" by (simp add: f)
  note dir' = directory_kept [OF dir printed_kernel [OF assms(2) programD(4) [OF prog]] bb]
  then show "directory_names k' = directory_names k" by blast
  show "listing env p k' fd pos" using l dir' printed_program [OF assms(2) prog] by (simp add: listing_def Let_def f)
qed

lemma ls_entry:
  assumes k: "listing env p k fd pos" and buf: "user_buffer buf 33" and pos: "pos < length (directory_names k)"
    and n: "n = directory_names k ! pos" "n \<noteq> []"
  obtains k' where "ls_loop env literal (of_nat fd) buf k = ls_loop env literal (of_nat fd) buf k'" "listing env p k' fd (pos + 1)"
    "directory_names k' = directory_names k" "shown current k' = fold spec_putc (n @ [10]) (shown current k)"
proof -
  let ?P = "user_pa p buf" and ?a = "get_pcb_address k"
  note l = k [unfolded listing_def Let_def]
  have prog: "program p k" using l by blast
  obtain bs where bs: "dir_read env (of_nat fd) buf 32 k = Some (of_nat (length n),
      upd_pcb ?a (upd_fd fd (\<lambda>d. d\<lparr>file_pos := file_pos d + 1\<rparr>))
        (k\<lparr>fs := read_counts (vmem k) (fs k), phys := write_list (phys k) ?P bs\<rparr>))"
    "take (length n) bs = n" "length bs \<le> 32" "length n \<le> length bs"
    using dir_read_entry [OF k pos buf] n(1) by blast
  define k1 where "k1 = upd_pcb ?a (upd_fd fd (\<lambda>d. d\<lparr>file_pos := file_pos d + 1\<rparr>))
        (k\<lparr>fs := read_counts (vmem k) (fs k), phys := write_list (phys k) ?P bs\<rparr>)"
  define k2 where "k2 = k1\<lparr>phys := (phys k1)(?P + of_nat (length n) := 10)\<rparr>"
  have len: "length n < 33" using bs(3,4) by simp
  have u: "unat (of_nat (length n) :: u32) = length n" using len by (simp add: unat_of_nat_u32)
  have r1: "runs p k1" using programD(1) [OF prog] by (simp add: k1_def runs_def)
  have store: "user_store (buf + of_nat (length n)) 10 k1 = Some k2"
    using user_store_window [OF r1 buf, of "of_nat (length n)"] u len by (simp add: k2_def)
  have outside: "phys k2 a = phys k a" if "\<not> in_region ?P 33 a" for a
  proof -
    have "a \<noteq> ?P + of_nat (length n)" using that u len by (auto simp: in_region_def)
    moreover have "\<not> in_region ?P (length bs) a" using that in_region_mono [of ?P "length bs" a 33] bs(3) by auto
    ultimately show ?thesis by (simp add: k2_def k1_def write_list_outside)
  qed
  have changed: "user_changed p buf 33 k k2"
    using buf outside by (simp add: user_changed_def k2_def k1_def get_pcb_address_def)
  have bb: "boot_block_addr (fs k2) = boot_block_addr (fs k)" by (simp add: k2_def k1_def)
  have pcb: "pcbs k2 ?a = upd_fd fd (\<lambda>d. d\<lparr>file_pos := file_pos d + 1\<rparr>) (pcbs k ?a)" by (simp add: k2_def k1_def)
  note next2 = listing_next [OF k pos changed bb pcb]
  have "phys k2 (?P + of_nat i) = (n @ [10]) ! i" if "i < length (n @ [10])" for i
  proof (cases "i < length n")
    case True
    have "(of_nat i :: u32) \<noteq> of_nat (length n)" using True len by (simp add: word_unat_eq_iff unat_of_nat_u32)
    moreover have "bs ! i = n ! i" using bs(2) True by (metis nth_take)
    ultimately show ?thesis using True bs(3,4) by (simp add: k2_def k1_def write_list_at nth_append)
  next
    case False
    then have "i = length n" using that by simp
    then show ?thesis by (simp add: k2_def)
  qed
  then have chars: "\<forall>i < length (n @ [10]). phys k2 (?P + of_nat i) = (n @ [10]) ! i" by blast
  have "user_buffer buf (length (n @ [10]))" using user_buffer_mono [OF buf] len by simp
  from write_prints [OF next2(3) this chars] obtain k3 where
    k3: "sys_write env 1 buf (of_nat (length (n @ [10]))) k2 = Some (0, k3)" "printed (n @ [10]) k2 k3" by blast
  have "sint (of_nat (length n) :: i32) = int (length n)" using len by (simp add: sint_of_nat_u32)
  then have "sint (of_nat (length n) :: i32) \<noteq> sint (0 :: i32)" "sint (of_nat (length n) :: i32) \<noteq> sint (-1 :: i32)" using n(2) by simp_all
  then have "(of_nat (length n) :: i32) \<noteq> 0" "(of_nat (length n) :: i32) \<noteq> -1" by metis+
  then have "ls_loop env literal (of_nat fd) buf k = ls_loop env literal (of_nat fd) buf k3"
    using bs(1) [folded k1_def] store k3(1)
    by (subst ls_loop.simps) (simp add: do_calls read_directory [OF k buf] add.commute [of "of_nat (length n)" 1])
  moreover note listing_printed [OF next2(1) k3(2)]
  moreover have "shown current k3 = fold spec_putc (n @ [10]) (shown current k)"
    using k3(2) user_changed_screen(1) [OF changed programD(1) [OF prog]] unfolding printed_def by simp
  ultimately show thesis using that next2(2) by metis
qed


lemma ls_end:
  assumes k: "listing env p k fd pos" and buf: "user_buffer buf 33"
    and pos: "pos < length (directory_names k) \<longrightarrow> directory_names k ! pos = []"
  shows "\<exists>k'. ls_loop env literal (of_nat fd) buf k = Some (0, k') \<and> shown current k' = shown current k"
proof (cases "pos < length (directory_names k)")
  case False
  from dir_read_end [OF k False, of buf] show ?thesis
    by (subst ls_loop.simps)
      (simp add: do_calls read_directory [OF k buf] shown_def current_def get_screen_x_def get_screen_y_def window_frame_def)
next
  case True
  let ?a = "get_pcb_address k"
  have "directory_names k ! pos = []" using pos True by blast
  note entry = dir_read_entry [OF k True buf, unfolded this]
  obtain bs where bs: "dir_read env (of_nat fd) buf 32 k = Some (of_nat (length ([] :: u8 list)),
      upd_pcb ?a (upd_fd fd (\<lambda>d. d\<lparr>file_pos := file_pos d + 1\<rparr>))
        (k\<lparr>fs := read_counts (vmem k) (fs k), phys := write_list (phys k) (user_pa p buf) bs\<rparr>))" "length bs \<le> 32"
    by (rule entry)
  define k1 where "k1 = upd_pcb ?a (upd_fd fd (\<lambda>d. d\<lparr>file_pos := file_pos d + 1\<rparr>))
        (k\<lparr>fs := read_counts (vmem k) (fs k), phys := write_list (phys k) (user_pa p buf) bs\<rparr>)"
  have "length bs \<le> 33" using bs(2) by simp
  then have "user_changed p buf 33 k k1"
    using user_changed_list [OF buf, of bs p k] by (simp add: user_changed_def k1_def get_pcb_address_def)
  moreover have "runs p k" using k programD(1) unfolding listing_def Let_def by blast
  ultimately have "shown current k1 = shown current k" by (rule user_changed_screen)
  moreover have "ls_loop env literal (of_nat fd) buf k = Some (0, k1)"
    using bs(1) by (subst ls_loop.simps) (simp add: do_calls read_directory [OF k buf] k1_def)
  ultimately show ?thesis by blast
qed

text \<open>The lines still to come: an entry with an empty name ends the listing.\<close>

definition listed :: "u8 list list \<Rightarrow> u8 list list" where
  "listed names = map (\<lambda>n. n @ [10]) (takeWhile (\<lambda>n. n \<noteq> []) names)"

definition names_left :: "environment \<Rightarrow> nat \<Rightarrow> nat \<Rightarrow> u8 list list \<Rightarrow> kernel \<Rightarrow> bool" where
  "names_left env p fd cs k \<longleftrightarrow> (\<exists>pos. listing env p k fd pos \<and> cs = listed (drop pos (directory_names k)))"

lemma listed_cases:
  "listed (drop i xs) = (if i < length xs \<and> xs ! i \<noteq> [] then (xs ! i @ [10]) # listed (drop (i + 1) xs) else [])"
  by (cases "i < length xs") (simp_all add: listed_def flip: Cons_nth_drop_Suc)

interpretation ls_lists:
  printing_loop "ls_loop env literal (of_nat fd) buf" "\<lambda>k. k" "\<lambda>cs k. user_buffer buf 33 \<and> names_left env p fd cs k"
  for env literal fd buf p
proof
  fix k :: kernel assume "user_buffer buf 33 \<and> names_left env p fd [] k"
  then obtain pos where k: "user_buffer buf 33" "listing env p k fd pos" and "[] = listed (drop pos (directory_names k))"
    by (auto simp: names_left_def)
  then have "pos < length (directory_names k) \<longrightarrow> directory_names k ! pos = []"
    using listed_cases [of pos "directory_names k"] by (simp split: if_splits)
  then show "\<exists>k'. ls_loop env literal (of_nat fd) buf k = Some (0, k') \<and> shown current k' = shown current k"
    by (rule ls_end [OF k(2,1)])
next
  fix k :: kernel and c cs assume "user_buffer buf 33 \<and> names_left env p fd (c # cs) k"
  then obtain pos where k: "user_buffer buf 33" "listing env p k fd pos" and "c # cs = listed (drop pos (directory_names k))"
    by (auto simp: names_left_def)
  then have pos: "pos < length (directory_names k)" "directory_names k ! pos \<noteq> []" and
    c: "c = directory_names k ! pos @ [10]" "cs = listed (drop (pos + 1) (directory_names k))"
    using listed_cases [of pos "directory_names k"] by (simp_all split: if_splits)
  obtain k' where k': "ls_loop env literal (of_nat fd) buf k = ls_loop env literal (of_nat fd) buf k'" "listing env p k' fd (pos + 1)"
    "directory_names k' = directory_names k" "shown current k' = fold spec_putc (directory_names k ! pos @ [10]) (shown current k)"
    by (rule ls_entry [OF k(2,1) pos(1) refl pos(2)])
  have "names_left env p fd cs k'" unfolding names_left_def using k'(2,3) c(2) by (intro exI [of _ "pos + 1"]) simp
  then show "\<exists>k'. ls_loop env literal (of_nat fd) buf k = ls_loop env literal (of_nat fd) buf k' \<and>
      (user_buffer buf 33 \<and> names_left env p fd cs k') \<and> shown current k' = fold spec_putc c (shown current k)"
    using k'(1,4) k(1) unfolding c(1) by blast
qed

text \<open>[C11] \<open>ls\<close> lists the directory: when a descriptor is free the program returns 0, and the screen of its terminal
  changes as printing the names of the directory entries, each on a line of its own and in the order of the image,
  changes the abstract screen. An entry with an empty name ends the list; names of 32 characters, which have no
  terminator in the image, are printed whole.\<close>

theorem ls_lists_directory:
  assumes prog: "program p k" and pcb: "pcb_ok (pcbs k (get_pcb_address k))" "get_pcb_address k \<noteq> 0"
      "\<exists>i. 2 \<le> i \<and> i < 8 \<and> fd_flags (fd_array (pcbs k (get_pcb_address k)) ! i) ! 0 = 0"
    and dot: "user_string p (literal ''.'') (chars ''.'') k" and dir: "directory_ok env k" and buf: "user_buffer buf 33"
  shows "\<exists>k'. ls_main env literal buf k = Some (0, k') \<and>
    shown current k' = fold spec_putc (concat (listed (directory_names k))) (shown current k)"
proof -
  have "chars ''.'' = [46]" by (simp add: chars_def)
  from directory_open [OF prog pcb dot [unfolded this] dir] obtain fd k1 where
    k1: "sys_open env (literal ''.'') k = Some (of_nat fd, k1)" "just_opened p k fd 1 directorytable 0 k1" by blast
  note o = k1(2) [unfolded just_opened_def Let_def]
  have bb: "boot_block_addr (fs k1) = boot_block_addr (fs k)" and v: "vmem k1 = vmem k" and fd: "fd < 8" using o by blast+
  have "directory_ok env k1" "directory_names k1 = directory_names k"
    using dir by (simp_all add: directory_ok_def directory_names_def bb v)
  then have "names_left env p fd (listed (directory_names k)) k1"
    unfolding names_left_def using o by (intro exI [of _ 0]) (simp add: listing_def Let_def)
  from ls_lists.loop_prints [OF conjI [OF buf this], of literal] obtain k' where
    k': "ls_loop env literal (of_nat fd) buf k1 = Some (0, k')"
    "shown current k' = fold spec_putc (concat (listed (directory_names k))) (shown current k1)" by blast
  then show ?thesis using k1(1) fd_not_error [OF fd] o by (simp add: ls_main_def do_calls)
qed

end
