(* ===== verification/Interactive.thy ===== *)
theory Interactive imports UserLib begin

text \<open>
  The programs that talk to the user: \<open>ece391testprint.c\<close>, \<open>ece391hello.c\<close> and \<open>ece391counter.c\<close>. The counting
  loop is an instance of \<open>printing_loop\<close>.
\<close>

subsection \<open>\<open>ece391testprint.c\<close> and \<open>ece391hello.c\<close>\<close>

definition testprint_main :: "environment \<Rightarrow> (string \<Rightarrow> u32) \<Rightarrow> kernel \<Rightarrow> (i32 \<times> kernel) option" where
  "testprint_main env literal k = do {
     k \<leftarrow> ece391_fdputs env 1 (literal (''Hello, if this ran, the program was correct. Yay!'' @ [CHR 0x0A])) k;
     Some (0, k)
   }"

definition hello_main :: "environment \<Rightarrow> (string \<Rightarrow> u32) \<Rightarrow> u32 \<Rightarrow> kernel \<Rightarrow> (i32 \<times> kernel) option" where
  "hello_main env literal buf k = do {
     k \<leftarrow> ece391_fdputs env 1 (literal ''Hi, what's your name? '') k;
     (cnt, k) \<leftarrow> DO_CALL env SYS_READ 0 buf 1023 k;
     if cnt = -1 then do {
       k \<leftarrow> ece391_fdputs env 1 (literal (''Can't read name from keyboard.'' @ [CHR 0x0A])) k;
       Some (3, k)
     }
     else do {
       k \<leftarrow> user_store (buf + cnt) 0 k;
       k \<leftarrow> ece391_fdputs env 1 (literal ''Hello, '') k;
       k \<leftarrow> ece391_fdputs env 1 buf k;
       Some (0, k)
     }
   }"

subsection \<open>\<open>ece391counter.c\<close>\<close>

partial_function (option) counter_loop ::
  "environment \<Rightarrow> (string \<Rightarrow> u32) \<Rightarrow> u32 \<Rightarrow> u32 \<Rightarrow> u32 \<Rightarrow> kernel \<Rightarrow> (i32 \<times> kernel) option" where
  "counter_loop env literal buf i max' k =
     (if i < max' then do {
        k \<leftarrow> ece391_itoa (i + 1) buf 10 k;
        k \<leftarrow> ece391_fdputs env 1 buf k;
        k \<leftarrow> ece391_fdputs env 1 (literal [CHR 0x0A]) k;
        counter_loop env literal buf (i + 1) max' k
      }
      else Some (0, k))"

definition counter_main :: "environment \<Rightarrow> (string \<Rightarrow> u32) \<Rightarrow> u32 \<Rightarrow> kernel \<Rightarrow> (i32 \<times> kernel) option" where
  "counter_main env literal buf k = do {
     k \<leftarrow> ece391_fdputs env 1 (literal (''Enter the Test Number: (0): 100, (1): 10000, (2): 100000'' @ [CHR 0x0A])) k;
     (cnt, k) \<leftarrow> DO_CALL env SYS_READ 0 buf 1023 k;
     if cnt = -1 then do {
       k \<leftarrow> ece391_fdputs env 1 (literal (''Can't read the number from keyboard.'' @ [CHR 0x0A])) k;
       Some (3, k)
     }
     else do {
       k \<leftarrow> user_store (buf + cnt) 0 k;
       len \<leftarrow> ece391_strlen buf k;
       c \<leftarrow> user_load buf k;
       if len > 2 \<or> (len = 2 \<and> (c < chr8 (CHR ''0'') \<or> c > chr8 (CHR ''2''))) then do {
         k \<leftarrow> ece391_fdputs env 1 (literal (''Wrong Choice!'' @ [CHR 0x0A])) k;
         Some (0, k)
       }
       else counter_loop env literal buf 0
         (if c = chr8 (CHR ''0'') then 100
          else if c = chr8 (CHR ''1'') then 10000
          else if c = chr8 (CHR ''2'') then 100000 else 0) k
     }
   }"

subsection \<open>Conversations\<close>

lemma chars_append: "chars (s @ t) = chars s @ chars t"
  by (simp add: chars_def)

text \<open>Prompt and answer: a literal is printed and the line that waits is read into the buffer and ended after its newline.\<close>

lemma ask_line_sized:
  assumes prog: "program p k" "line_waiting l k" and buf: "user_buffer buf (n + 1)" "unat nbytes = n" and l: "0 \<notin> set l" "length l + 1 < n"
    and strs: "strings_at p literal strs buf (n + 1) k" "s \<in> set strs" and fuel: "0 < fuel env"
  obtains k1 k2 where "ece391_fdputs env 1 (literal s) k = Some k1" "sys_read env 0 buf nbytes k1 = Some (of_nat (length l + 1), k2)"
    "user_string p buf (l @ [10]) k2" "program p k2" "strings_at p literal strs buf (n + 1) k2" "user_changed p buf (n + 1) k1 k2"
    "pcbs k2 = pcbs k" "printed (chars s) k k1" "untouched k k2" "fs k2 = fs k"
    "shown current k2 = fold spec_putc (chars s) (shown current k)"
proof -
  obtain k1 where k1: "ece391_fdputs env 1 (literal s) k = Some k1" "printed (chars s) k k1" "program p k1" "strings_at p literal strs buf (n + 1) k1"
    by (rule puts_literal [OF prog(1) strs])
  have wait1: "line_waiting l k1" using prog(2) printed_waiting [OF k1(2)] by simp
  have buf1: "user_buffer buf n" using user_buffer_mono [OF buf(1)] by simp
  have room: "length l + 1 \<le> n" using l(2) by simp
  obtain k2 where k2: "sys_read env 0 buf nbytes k1 = Some (of_nat (length l + 1), k2)" "line_read p buf n l k1 k2"
    using read_line [OF k1(3) wait1, of buf nbytes env] buf1 room fuel unfolding buf(2) by blast
  have string: "user_string p buf (l @ [10]) k2" by (rule line_read_string [OF k2(2) buf1 l])
  note change = line_read_changes [OF k2(2) buf1 room]
  have change': "user_changed p buf (n + 1) k1 k2" by (rule user_changed_mono [OF change(1) _ buf(1)]) simp
  have "program p k2" by (rule user_changed_program [OF change(1) k1(3)]) (simp add: change(2))
  moreover have "strings_at p literal strs buf (n + 1) k2"
    by (rule strings_changed [OF change' programD(3) [OF prog(1)] k1(4)]) simp
  moreover have "shown current k2 = fold spec_putc (chars s) (shown current k)"
    using user_changed_screen(1) [OF change(1) programD(1) [OF k1(3)]] k1(2) by (simp add: printed_def)
  moreover have "pcbs k2 = pcbs k" using change(2) printed_fields(2) [OF k1(2)] by simp
  moreover have "untouched k k2" using untouched_trans [OF printed_untouched [OF k1(2)]] k2(2) by (simp add: line_read_def)
  moreover have "fs k2 = fs k" using k2(2) printed_fields(4) [OF k1(2)] by (simp add: line_read_def)
  ultimately show thesis using that k1(1,2) k2(1) string change' by blast
qed

lemma ask_line:
  assumes prog: "program p k" "line_waiting l k" and buf: "user_buffer buf 1024" and l: "0 \<notin> set l" "length l \<le> 127"
    and strs: "strings_at p literal strs buf 1024 k" "s \<in> set strs" and fuel: "0 < fuel env"
  obtains k1 k2 where "ece391_fdputs env 1 (literal s) k = Some k1" "sys_read env 0 buf 1023 k1 = Some (of_nat (length l + 1), k2)"
    "user_string p buf (l @ [10]) k2" "program p k2" "strings_at p literal strs buf 1024 k2" "user_changed p buf 1024 k1 k2"
    "pcbs k2 = pcbs k" "printed (chars s) k k1" "untouched k k2" "fs k2 = fs k"
    "shown current k2 = fold spec_putc (chars s) (shown current k)"
proof -
  have size: "(1023 :: nat) + 1 = 1024" "unat (1023 :: i32) = 1023" "length l + 1 < 1023" using l(2) by simp_all
  show thesis
    by (rule ask_line_sized [OF prog _ size(2) l(1) size(3) _ strs(2) fuel, unfolded size(1), OF buf strs(1) that])
qed

lemma small_not_minus1: "n < 2 ^ 31 \<Longrightarrow> (of_nat n :: i32) \<noteq> -1"
proof
  assume n: "n < 2 ^ 31" and eq: "(of_nat n :: i32) = -1"
  have "sint (of_nat n :: i32) = int n" by (rule sint_of_nat_u32) (use n in simp)
  then show False by (simp add: eq)
qed

lemma hello_greets:
  assumes prog: "program p k" "line_waiting l k" and buf: "user_buffer buf 1024" and l: "0 \<notin> set l" "length l \<le> 127"
    and strs: "strings_at p literal [''Hi, what's your name? '', ''Hello, ''] buf 1024 k" and fuel: "0 < fuel env"
  shows "\<exists>k'. hello_main env literal buf k = Some (0, k') \<and>
    shown current k' = fold spec_putc (chars ''Hi, what's your name? '' @ chars ''Hello, '' @ l @ [10]) (shown current k)"
proof -
  define ask answer where "ask = ''Hi, what's your name? ''" and "answer = ''Hello, ''"
  note strs' = strs [folded ask_def answer_def]
  have member: "ask \<in> set [ask, answer]" "answer \<in> set [ask, answer]" by simp_all
  obtain k1 k2 where k2: "ece391_fdputs env 1 (literal ask) k = Some k1" "sys_read env 0 buf 1023 k1 = Some (of_nat (length l + 1), k2)"
    "user_string p buf (l @ [10]) k2" "program p k2" "strings_at p literal [ask, answer] buf 1024 k2"
    "shown current k2 = fold spec_putc (chars ask) (shown current k)"
    by (rule ask_line [OF prog buf l strs' member(1) fuel])
  have whole: "length l + 1 \<le> length (l @ [10])" by simp
  note cut = cut_string [OF programD(1) [OF k2(4)] k2(3) whole]
  define k3 where "k3 = k2\<lparr>phys := (phys k2)(user_pa p buf + of_nat (length l + 1) := 0)\<rparr>"
  note cut = cut [folded k3_def]
  have len: "length (l @ [10]) + 1 \<le> 1024" using l(2) by simp
  have p3: "program p k3" "strings_at p literal [ask, answer] buf 1024 k3"
    using user_changed_program [OF cut(3) k2(4)] strings_changed [OF cut(3) programD(3) [OF k2(4)] k2(5) len] by (simp_all add: k3_def)
  obtain k4 where k4: "ece391_fdputs env 1 (literal answer) k3 = Some k4" "printed (chars answer) k3 k4" "program p k4"
    by (rule puts_literal [OF p3 member(2)])
  have "user_string p buf (l @ [10]) k4" using cut(2) printed_string [OF k4(2) p3(1)] by simp
  from fdputs_prints [OF k4(3) this] obtain k5 where k5: "ece391_fdputs env 1 buf k4 = Some k5" "printed (l @ [10]) k4 k5" by blast
  have "shown current k5 = fold spec_putc (chars ask @ chars answer @ l @ [10]) (shown current k)"
    using printed_trans [OF k4(2) k5(2)] user_changed_screen(1) [OF cut(3) programD(1) [OF k2(4)]] k2(6) by (simp add: printed_def)
  moreover have "(of_nat (length l + 1) :: i32) \<noteq> -1" by (rule small_not_minus1) (use l(2) in simp)
  then have "hello_main env literal buf k = Some (0, k5)"
    using k2(1,2) cut(1) k4(1) k5(1) by (simp add: hello_main_def ask_def [symmetric] answer_def [symmetric] do_calls)
  ultimately show ?thesis unfolding ask_def answer_def by blast
qed


subsection \<open>Counting\<close>

definition counting :: "nat \<Rightarrow> (string \<Rightarrow> u32) \<Rightarrow> u32 \<Rightarrow> u32 \<Rightarrow> u8 list list \<Rightarrow> u32 \<times> kernel \<Rightarrow> bool" where
  "counting p literal buf max' cs = (\<lambda>(i, k). program p k \<and> strings_at p literal [[CHR 0x0A]] buf 1024 k \<and> user_buffer buf 1024 \<and>
     unat max' < 2 ^ 31 \<and> cs = map (\<lambda>j. number_text 10 (of_nat j) @ [10]) [unat i + 1..<unat max' + 1])"

lemma count_round:
  assumes k: "program p k" "strings_at p literal [[CHR 0x0A]] buf 1024 k" "user_buffer buf 1024"
  obtains k' where "program p k'" "strings_at p literal [[CHR 0x0A]] buf 1024 k'"
    "shown current k' = fold spec_putc (number_text 10 v @ [10]) (shown current k)"
    "i < max' \<Longrightarrow> v = i + 1 \<Longrightarrow> counter_loop env literal buf i max' k = counter_loop env literal buf (i + 1) max' k'"
proof -
  note runs = programD(1) [OF k(1)]
  have ten: "2 \<le> unat (10 :: u32)" "unat (10 :: u32) \<le> 36" by simp_all
  note digits = number_text [OF ten, of v]
  have buf: "user_buffer buf (length (number_text 10 v) + 1)" using user_buffer_mono [OF k(3)] digits(3) by simp
  define k1 where "k1 = k\<lparr>phys := write_list (phys k) (user_pa p buf) (number_text 10 v @ [0])\<rparr>"
  have run1: "ece391_itoa v buf 10 k = Some k1" unfolding k1_def by (rule itoa_user [OF runs ten buf])
  have "length (number_text 10 v @ [0]) \<le> 1024" using digits(3) by simp
  then have changed: "user_changed p buf 1024 k k1" unfolding k1_def by (rule user_changed_list [OF k(3)])
  have "fd_array (pcbs k1 (get_pcb_address k)) = fd_array (pcbs k (get_pcb_address k))" by (simp add: k1_def)
  note p1 = user_changed_program [OF changed k(1) this] strings_changed [OF changed programD(3) [OF k(1)] k(2) le_refl]
  have "user_string p buf (number_text 10 v) k1"
    unfolding k1_def by (rule user_string_written [OF buf digits(1)])
  from fdputs_prints [OF p1(1) this] obtain k2 where k2: "ece391_fdputs env 1 buf k1 = Some k2" "printed (number_text 10 v) k1 k2" by blast
  note p2 = printed_program [OF k2(2) p1(1)] strings_printed [OF k2(2) p1]
  have "[CHR 0x0A] \<in> set [[CHR 0x0A]]" by simp
  from puts_literal [OF p2 this] obtain k3 where k3: "ece391_fdputs env 1 (literal [CHR 0x0A]) k2 = Some k3"
    "printed (chars [CHR 0x0A]) k2 k3" "program p k3" "strings_at p literal [[CHR 0x0A]] buf 1024 k3" by blast
  have "chars [CHR 0x0A] = [10]" by (simp add: chars_def)
  then have "shown current k3 = fold spec_putc (number_text 10 v @ [10]) (shown current k)"
    using printed_trans [OF k2(2) k3(2)] user_changed_screen(1) [OF changed runs] by (simp add: printed_def)
  moreover have "counter_loop env literal buf i max' k = counter_loop env literal buf (i + 1) max' k3" if "i < max'" "v = i + 1"
    using that run1 k2(1) k3(1) by (subst counter_loop.simps) (simp add: add.commute [of i 1])
  ultimately show thesis using that k3(3,4) by blast
qed

interpretation counter_counts:
  printing_loop "\<lambda>(i, k). counter_loop env literal buf i max' k" snd "counting p literal buf max'" for env literal buf max' p
proof
  fix s :: "u32 \<times> kernel" assume "counting p literal buf max' [] s"
  then have "\<not> fst s < max'" by (auto simp: counting_def word_less_nat_alt)
  then show "\<exists>k'. (case s of (i, k) \<Rightarrow> counter_loop env literal buf i max' k) = Some (0, k') \<and> shown current k' = shown current (snd s)"
    by (auto simp: counter_loop.simps split: prod.splits)
next
  fix s :: "u32 \<times> kernel" and c cs assume "counting p literal buf max' (c # cs) s"
  then obtain i k where s: "s = (i, k)" and k: "program p k" "strings_at p literal [[CHR 0x0A]] buf 1024 k" "user_buffer buf 1024"
    and m: "unat max' < 2 ^ 31" "c # cs = map (\<lambda>j. number_text 10 (of_nat j) @ [10]) [unat i + 1..<unat max' + 1]"
    by (auto simp: counting_def)
  have less: "unat i < unat max'"
  proof (rule ccontr)
    assume "\<not> unat i < unat max'"
    then have "[unat i + 1..<unat max' + 1] = []" by simp
    then show False using m(2) by simp
  qed
  have i1: "unat (i + 1) = unat i + 1" using less m(1) unat_add_small [of i 1] by simp
  have "[unat i + 1..<unat max' + 1] = (unat i + 1) # [unat i + 1 + 1..<unat max' + 1]"
    using less by (simp add: upt_conv_Cons del: upt_Suc)
  note m2 = m(2) [unfolded this list.map]
  have "of_nat (unat i + 1) = i + 1" by simp
  then have c: "c = number_text 10 (i + 1) @ [10]" "cs = map (\<lambda>j. number_text 10 (of_nat j) @ [10]) [unat (i + 1) + 1..<unat max' + 1]"
    using m2 unfolding i1 by (simp_all only: list.inject)
  obtain k' where k': "program p k'" "strings_at p literal [[CHR 0x0A]] buf 1024 k'"
    "shown current k' = fold spec_putc (number_text 10 (i + 1) @ [10]) (shown current k)"
    "i < max' \<Longrightarrow> i + 1 = i + 1 \<Longrightarrow> counter_loop env literal buf i max' k = counter_loop env literal buf (i + 1) max' k'"
    by (rule count_round [OF k, of "i + 1" i max' env]) (rule that, assumption+)
  have "i < max'" using less by (simp add: word_less_nat_alt)
  then show "\<exists>s'. (case s of (i, k) \<Rightarrow> counter_loop env literal buf i max' k) = (case s' of (i, k) \<Rightarrow> counter_loop env literal buf i max' k) \<and>
      counting p literal buf max' cs s' \<and> shown current (snd s') = fold spec_putc c (shown current (snd s))"
    using k' k(3) m(1) c s by (intro exI [of _ "(i + 1, k')"]) (simp add: counting_def)
qed


definition max_count :: "u8 \<Rightarrow> nat" where
  "max_count c = (if c = chr8 (CHR ''0'') then 100 else if c = chr8 (CHR ''1'') then 10000 else 100000)"

abbreviation (input) "count_prompt \<equiv> ''Enter the Test Number: (0): 100, (1): 10000, (2): 100000'' @ [CHR 0x0A]"

text \<open>[C34] \<open>counter\<close> counts: when the line that waits is one of the digits 0, 1 and 2 the program returns 0, and its
  terminal shows the prompt and then the decimal numbers from 1 to 100, 10000 or 100000, each on a line of its own.
  The number conversion, the output of the number and of the newline all go through the memory of the process, and
  the loop ends.\<close>

theorem counter_counts_up:
  assumes prog: "program p k" "line_waiting [c] k" and c: "c \<in> set (chars ''012'')"
    and buf: "user_buffer buf 1024" and strs: "strings_at p literal [count_prompt, [CHR 0x0A]] buf 1024 k" and fuel: "0 < fuel env"
  shows "\<exists>k'. counter_main env literal buf k = Some (0, k') \<and>
    shown current k' = fold spec_putc (chars count_prompt @
      concat (map (\<lambda>j. number_text 10 (of_nat j) @ [10]) [1..<max_count c + 1])) (shown current k)"
proof -
  define ask where "ask = count_prompt"
  note strs' = strs [folded ask_def]
  have member: "ask \<in> set [ask, [CHR 0x0A]]" by simp
  have digit: "c = 48 \<or> c = 49 \<or> c = 50" using c by (simp add: chars_def)
  then have l: "0 \<notin> set [c]" "length [c] \<le> 127" by auto
  obtain k1 k2 where k2: "ece391_fdputs env 1 (literal ask) k = Some k1" "sys_read env 0 buf 1023 k1 = Some (of_nat (length [c] + 1), k2)"
    "user_string p buf ([c] @ [10]) k2" "program p k2" "strings_at p literal [ask, [CHR 0x0A]] buf 1024 k2"
    "shown current k2 = fold spec_putc (chars ask) (shown current k)"
    by (rule ask_line [OF prog buf l strs' member fuel])
  have whole: "length [c] + 1 \<le> length ([c] @ [10])" by simp
  note runs2 = programD(1) [OF k2(4)]
  note cut = cut_string [OF runs2 k2(3) whole]
  define k3 where "k3 = k2\<lparr>phys := (phys k2)(user_pa p buf + of_nat (length [c] + 1) := 0)\<rparr>"
  note cut = cut [folded k3_def]
  have len: "length ([c] @ [10]) + 1 \<le> 1024" by simp
  have p3: "program p k3" "strings_at p literal [ask, [CHR 0x0A]] buf 1024 k3"
    using user_changed_program [OF cut(3) k2(4)] strings_changed [OF cut(3) programD(3) [OF k2(4)] k2(5) len] by (simp_all add: k3_def)
  have "take (length [c] + 1) ([c] @ [10]) = [c, 10]" by simp
  note line = cut(2) [unfolded this]
  note runs3 = programD(1) [OF p3(1)]
  have load: "user_load buf k3 = Some c" "ece391_strlen buf k3 = Some 2"
    using user_string_hd [OF runs3 line] strlen_user [OF runs3 line] by simp_all
  have "strings_at p literal [[CHR 0x0A]] buf 1024 k3" using p3(2) by (simp add: strings_at_def)
  then have "counting p literal buf (of_nat (max_count c)) (map (\<lambda>j. number_text 10 (of_nat j) @ [10]) [unat (0 :: u32) + 1..<unat (of_nat (max_count c) :: u32) + 1]) (0, k3)"
    using p3(1) buf by (simp add: counting_def max_count_def del: upt_Suc)
  moreover have "unat (of_nat (max_count c) :: u32) = max_count c" by (simp add: max_count_def)
  ultimately have count: "counting p literal buf (of_nat (max_count c)) (map (\<lambda>j. number_text 10 (of_nat j) @ [10]) [1..<max_count c + 1]) (0, k3)"
    by (simp del: upt_Suc)
  from counter_counts.loop_prints [OF count, of env] obtain k' where
    k': "counter_loop env literal buf 0 (of_nat (max_count c)) k3 = Some (0, k')"
    "shown current k' = fold spec_putc (concat (map (\<lambda>j. number_text 10 (of_nat j) @ [10]) [1..<max_count c + 1])) (shown current k3)"
    by (auto simp del: upt_Suc)
  have "counter_loop env literal buf 0 (if c = 48 then 100 else if c = 49 then 10000 else if c = 50 then 100000 else 0) k3 = Some (0, k')"
    using k'(1) digit by (auto simp: max_count_def chars_def)
  moreover have "\<not> (c < 48 \<or> 50 < c)" using digit by auto
  ultimately have "counter_main env literal buf k = Some (0, k')"
    using k2(1,2) cut(1) load by (auto simp: counter_main_def ask_def do_calls split: if_splits)
  moreover have "shown current k3 = fold spec_putc (chars ask) (shown current k)"
    using user_changed_screen(1) [OF cut(3) runs2] k2(6) by simp
  ultimately show ?thesis using k'(2) unfolding ask_def by (intro exI [of _ k']) (simp del: upt_Suc)
qed

end
