(* ===== verification/Shell.thy ===== *)
theory Shell imports Interactive begin

text \<open>
  The shell of \<open>ece391shell.c\<close>. A round of its loop ends the program, goes on to the next round, or leaves it for the
  program that \<open>execute\<close> enters; when that program has halted the shell resumes with the value \<open>execute\<close> returns.
\<close>

subsection \<open>\<open>ece391shell.c\<close>\<close>

datatype shell_step = Exits i32 kernel | Again kernel | Enters outcome

definition shell_report :: "environment \<Rightarrow> (string \<Rightarrow> u32) \<Rightarrow> i32 \<Rightarrow> kernel \<Rightarrow> kernel option" where
  "shell_report env literal rval k =
     (if rval = -1 then ece391_fdputs env 1 (literal (''no such command'' @ [CHR 0x0A])) k
      else if rval = 256 then ece391_fdputs env 1 (literal (''program terminated by exception'' @ [CHR 0x0A])) k
      else if rval \<noteq> 0 then ece391_fdputs env 1 (literal (''program terminated abnormally'' @ [CHR 0x0A])) k
      else Some k)"

definition shell_round :: "environment \<Rightarrow> (string \<Rightarrow> u32) \<Rightarrow> u32 \<Rightarrow> kernel \<Rightarrow> shell_step option" where
  "shell_round env literal buf k = do {
     k \<leftarrow> ece391_fdputs env 1 (literal ''391OS> '') k;
     (cnt, k) \<leftarrow> DO_CALL env SYS_READ 0 buf 1023 k;
     if cnt = -1 then do {
       k \<leftarrow> ece391_fdputs env 1 (literal (''read from keyboard failed'' @ [CHR 0x0A])) k;
       Some (Exits 3 k)
     }
     else do {
       newline \<leftarrow> (if sint cnt > 0 then map_option (\<lambda>c. c = 10) (user_load (buf + (cnt - 1)) k) else Some False);
       let cnt = (if newline then cnt - 1 else cnt);
       k \<leftarrow> user_store (buf + cnt) 0 k;
       r \<leftarrow> ece391_strcmp buf (literal ''exit'') k;
       if r = 0 then Some (Exits 0 k)
       else do {
         c \<leftarrow> user_load buf k;
         if c = 0 then Some (Again k)
         else do {
           out \<leftarrow> systemcall env SYS_EXECUTE buf 0 0 k;
           case out of Returns rval k \<Rightarrow> map_option Again (shell_report env literal rval k)
           | _ \<Rightarrow> Some (Enters out)
         }
       }
     }
   }"

partial_function (option) shell_loop :: "environment \<Rightarrow> (string \<Rightarrow> u32) \<Rightarrow> u32 \<Rightarrow> kernel \<Rightarrow> shell_step option" where
  "shell_loop env literal buf k = do {
     step \<leftarrow> shell_round env literal buf k;
     case step of Again k \<Rightarrow> shell_loop env literal buf k | _ \<Rightarrow> Some step
   }"

definition shell_main :: "environment \<Rightarrow> (string \<Rightarrow> u32) \<Rightarrow> u32 \<Rightarrow> kernel \<Rightarrow> shell_step option" where
  "shell_main env literal buf k = do {
     k \<leftarrow> ece391_fdputs env 1 (literal (''Starting 391 Shell'' @ [CHR 0x0A])) k;
     shell_loop env literal buf k
   }"

text \<open>The shell after the program it had entered.\<close>

definition shell_resumed :: "environment \<Rightarrow> (string \<Rightarrow> u32) \<Rightarrow> u32 \<Rightarrow> i32 \<Rightarrow> kernel \<Rightarrow> shell_step option" where
  "shell_resumed env literal buf rval k = do {
     k \<leftarrow> shell_report env literal rval k;
     shell_loop env literal buf k
   }"

subsection \<open>Up to the command\<close>

text \<open>The line that waits is the command, without its newline, when the shell looks at it.\<close>

lemma shell_command_line:
  assumes prog: "program p k" "line_waiting l k" and buf: "user_buffer buf 1024" and l: "0 \<notin> set l" "length l \<le> 127"
    and strs: "strings_at p literal strs buf 1024 k" "''391OS> '' \<in> set strs" "''exit'' \<in> set strs" and fuel: "0 < fuel env"
  obtains k' where "program p k'" "user_string p buf l k'" "strings_at p literal strs buf 1024 k'"
    "untouched k k'" "fs k' = fs k" "pcbs k' = pcbs k" "same_kernel (vmem k) (vmem k')"
    "shown current k' = fold spec_putc (chars ''391OS> '') (shown current k)"
    "shell_round env literal buf k = (if l = chars ''exit'' then Some (Exits 0 k')
      else if l = [] then Some (Again k')
      else do {
        out \<leftarrow> systemcall env SYS_EXECUTE buf 0 0 k';
        case out of Returns rval k \<Rightarrow> map_option Again (shell_report env literal rval k) | _ \<Rightarrow> Some (Enters out)
      })"
proof -
  define prompt where "prompt = ''391OS> ''"
  obtain k1 k2 where k2: "ece391_fdputs env 1 (literal prompt) k = Some k1" "sys_read env 0 buf 1023 k1 = Some (of_nat (length l + 1), k2)"
    "user_string p buf (l @ [10]) k2" "program p k2" "strings_at p literal strs buf 1024 k2" "user_changed p buf 1024 k1 k2"
    "pcbs k2 = pcbs k" "printed (chars prompt) k k1" "untouched k k2" "fs k2 = fs k"
    "shown current k2 = fold spec_putc (chars prompt) (shown current k)"
    by (rule ask_line [OF prog buf l strs(1) strs(2) [folded prompt_def] fuel])
  note runs2 = programD(1) [OF k2(4)]
  have cnt: "(of_nat (length l + 1) :: i32) \<noteq> -1" by (rule small_not_minus1) (use l(2) in simp)
  have pos: "sint (of_nat (length l + 1) :: i32) = int (length l + 1)" by (rule sint_of_nat_u32) (use l(2) in simp)
  have prev: "of_nat (length l + 1) - 1 = (of_nat (length l) :: i32)" by simp
  have inside: "length l \<le> length (l @ [10])" by simp
  have newline: "user_load (buf + of_nat (length l)) k2 = Some 10"
    using user_string_load [OF runs2 k2(3) inside] by (simp add: nth_append)
  note cut = cut_string [OF runs2 k2(3) inside]
  define k3 where "k3 = k2\<lparr>phys := (phys k2)(user_pa p buf + of_nat (length l) := 0)\<rparr>"
  note cut = cut [folded k3_def]
  have len: "length (l @ [10]) + 1 \<le> 1024" using l(2) by simp
  have p3: "program p k3" "strings_at p literal strs buf 1024 k3"
    using user_changed_program [OF cut(3) k2(4)] strings_changed [OF cut(3) programD(3) [OF k2(4)] k2(5) len] by (simp_all add: k3_def)
  have line: "user_string p buf l k3" using cut(2) by simp
  note runs3 = programD(1) [OF p3(1)]
  have "user_string p (literal ''exit'') (chars ''exit'') k3" by (rule strings_at_member [OF p3(2) strs(3)])
  from strcmp_user [OF runs3 line this] have cmp: "ece391_strcmp buf (literal ''exit'') k3 = Some (compare_strings l (chars ''exit''))" .
  have "0 \<notin> set (chars ''exit'')" by (simp add: chars_def)
  note same = compare_strings_0 [OF l(1) this]
  have first: "user_load buf k3 = Some (case l of [] \<Rightarrow> 0 | x # _ \<Rightarrow> x)" by (rule user_string_hd [OF runs3 line])
  have nul: "(case l of [] \<Rightarrow> 0 | x # _ \<Rightarrow> x) = 0 \<longleftrightarrow> l = []" using l(1) by (auto split: list.splits)
  have round: "shell_round env literal buf k = (if l = chars ''exit'' then Some (Exits 0 k3)
      else if l = [] then Some (Again k3)
      else do {
        out \<leftarrow> systemcall env SYS_EXECUTE buf 0 0 k3;
        case out of Returns rval k \<Rightarrow> map_option Again (shell_report env literal rval k) | _ \<Rightarrow> Some (Enters out)
      })"
    using k2(1,2) cnt pos prev newline cut(1) cmp same first nul
    by (simp add: shell_round_def prompt_def [symmetric] do_calls del: of_nat_add of_nat_Suc)
  have "untouched k k3" using untouched_trans [OF k2(9) untouched_phys] by (simp add: k3_def)
  moreover have "same_kernel (vmem k) (vmem k3)"
  proof -
    note r1 = programD [OF printed_program [OF k2(8) prog(1)]]
    have "same_kernel (vmem k1) (vmem k2)" by (rule user_changed_screen(3) [OF k2(6) r1(1)])
    moreover have "same_kernel (vmem k2) (vmem k3)" by (rule user_changed_screen(3) [OF cut(3) runs2])
    ultimately show ?thesis using same_kernel_trans printed_kernel [OF k2(8) programD(4) [OF prog(1)]] by metis
  qed
  moreover have "shown current k3 = fold spec_putc (chars prompt) (shown current k)"
    using user_changed_screen(1) [OF cut(3) runs2] k2(11) by simp
  ultimately show thesis
    using that [of k3] p3 line round k2(7,10) unfolding prompt_def by (simp add: k3_def)
qed


subsection \<open>Commands\<close>

text \<open>The directory names a program that can be loaded.\<close>

definition names_program :: "environment \<Rightarrow> kernel \<Rightarrow> u8 list \<Rightarrow> u32 \<Rightarrow> bool" where
  "names_program env k name inode \<longleftrightarrow> (let bb = boot_block_addr (fs k) in
     wf_dentry (stack_dentry env) \<and> kernel_area bb 4096 \<and> program_ok env k inode \<and>
     (\<exists>e. file_entry (vmem k) bb name e \<and> inode = sext8 (vmem k (bb + 128 + of_nat e * 64 + 36))))"

lemma names_program_kept:
  assumes k: "names_program env k name inode" and same: "same_kernel (vmem k) (vmem k')" and fs: "fs k' = fs k"
  shows "names_program env k' name inode" "file_bytes (vmem k') (fs k') inode = file_bytes (vmem k) (fs k) inode"
proof -
  let ?bb = "boot_block_addr (fs k)"
  note n = k [unfolded names_program_def Let_def]
  have area: "kernel_area ?bb 4096" and prog: "program_ok env k inode" using n by blast+
  then have ok: "file_ok (vmem k) (fs k) inode" by (simp add: program_ok_def Let_def)
  note kept = file_kept_image [OF same_kernel_image [OF same ok] ok]
  show "file_bytes (vmem k') (fs k') inode = file_bytes (vmem k) (fs k) inode" by (simp add: fs kept)
  obtain e where e: "file_entry (vmem k) ?bb name e" "inode = sext8 (vmem k (?bb + 128 + of_nat e * 64 + 36))" using n by blast
  note entry = entry_kept [OF e(1) boot_block_kept [OF same area]]
  have "inode = sext8 (vmem k' (?bb + 128 + of_nat e * 64 + 36))" using e(2) entry(2) [of 36] by simp
  moreover have "program_ok env k' inode" using prog kept by (simp add: program_ok_def Let_def fs)
  ultimately show "names_program env k' name inode" using n entry(1) unfolding names_program_def Let_def fs by blast
qed

lemma command_name_set: "set (command_name xs) \<subseteq> set xs"
  by (auto simp: command_name_def dest!: set_takeWhileD set_dropWhileD)

lemma shell_enters:
  assumes prog: "program p k" "line_waiting l k" and buf: "user_buffer buf 1024"
    and l: "0 \<notin> set l" "length l \<le> 126" "l \<noteq> []" "l \<noteq> chars ''exit''"
    and strs: "strings_at p literal strs buf 1024 k" "''391OS> '' \<in> set strs" "''exit'' \<in> set strs" and fuel: "0 < fuel env"
    and start: "can_start k" "0 \<in> set (processes_running k)"
    and cmd: "names_program env k (command_name l) inode" "length (command_name l) < 32"
  defines "bs \<equiv> file_bytes (vmem k) (fs k) inode"
  obtains i k' where "shell_loop env literal buf k = Some (Enters (EnterUser (bytes_word bs 24) 0x83FFFFC k'))" "started i k k'"
    "\<forall>j < length bs. user_load (0x8048000 + of_nat j) k' = Some (bs ! j)" "has_args l (pcbs k' (pcb_of (of_nat (i + 1))))"
    "same_kernel_but (stack_array env) 44 (vmem k) (vmem k')" "boot_block_addr (fs k') = boot_block_addr (fs k)" "dentry_a (fs k') = dentry_a (fs k)"
    "shown current k' = fold spec_putc (chars ''391OS> '') (shown current k)" "cur.ready k'"
proof -
  have l127: "length l \<le> 127" using l(2) by simp
  obtain k1 where k1: "program p k1" "user_string p buf l k1" "strings_at p literal strs buf 1024 k1"
    "untouched k k1" "fs k1 = fs k" "pcbs k1 = pcbs k" "same_kernel (vmem k) (vmem k1)"
    "shown current k1 = fold spec_putc (chars ''391OS> '') (shown current k)"
    "shell_round env literal buf k = (if l = chars ''exit'' then Some (Exits 0 k1)
      else if l = [] then Some (Again k1)
      else do {
        out \<leftarrow> systemcall env SYS_EXECUTE buf 0 0 k1;
        case out of Returns rval k \<Rightarrow> map_option Again (shell_report env literal rval k) | _ \<Rightarrow> Some (Enters out)
      })"
    by (rule shell_command_line [OF prog buf l(1) l127 strs fuel])
  note cmd1 = names_program_kept [OF cmd(1) k1(7,5)]
  note n1 = cmd1(1) [unfolded names_program_def Let_def]
  note string = user_string_at [OF programD(1) [OF k1(1)] k1(2)]
  obtain e where e: "file_entry (vmem k1) (boot_block_addr (fs k1)) (command_name l) e"
    "inode = sext8 (vmem k1 (boot_block_addr (fs k1) + 128 + of_nat e * 64 + 36))" using n1 by blast
  have bb: "boot_block_addr (fs k1) \<noteq> 0" and wf: "wf_dentry (stack_dentry env)" using n1 by (auto simp: kernel_area_def)
  have "0 \<notin> set (command_name l)" using l(1) command_name_set by blast
  then have name: "c_string (arr_reader (\<lambda>_. 0) (command_name l @ [0])) (command_name l)"
    by (rule c_string_array) (use cmd(2) in simp)
  obtain d where d: "read_dentry_by_name (vmem k1) (Some (arr_reader (\<lambda>_. 0) (command_name l @ [0]))) (Some (stack_dentry env)) (fs k1) =
      Some (0, Some d, read_counts (vmem k1) (fs k1))" "inode_num d = inode"
    using entry_found [OF e(1) bb name cmd(2) wf] e(2) by simp
  have start1: "can_start k1" "0 \<in> set (processes_running k1)"
    using start can_start_untouched [OF k1(4)] k1(4) by (simp_all add: untouched_def)
  have line: "length (command_line l) \<le> 126" using length_takeWhile_le [of "\<lambda>c. c \<noteq> 10" l] l(2) by simp
  have prog1: "program_ok env k1 (inode_num d)" using n1 d(2) by simp
  have l128: "length l \<le> 128" and zero: "(0 :: i32) \<noteq> -1" using l(2) by simp_all
  from execute_string_runs [OF start1 string(2) l128 line d(1) zero prog1]
  obtain i k' where k': "execute_string env (at_ptr (vmem k1) buf) k1 = Some (EnterUser (bytes_word bs 24) 0x83FFFFC k')"
    "started i k1 k'" "\<forall>j < length bs. user_load (0x8048000 + of_nat j) k' = Some (bs ! j)"
    "has_args l (pcbs k' (pcb_of (of_nat (i + 1))))" "same_kernel_but (stack_array env) 44 (vmem k1) (vmem k')" "video_kept k1 k'"
    unfolding d(2) bs_def cmd1(2) [symmetric] by blast
  have "buf \<noteq> 0" using buf by (auto simp: user_buffer_def)
  then have "systemcall env SYS_EXECUTE buf 0 0 k1 = Some (EnterUser (bytes_word bs 24) 0x83FFFFC k')"
    using string(1) k'(1) by (simp add: systemcall_def execute_def)
  then have "shell_loop env literal buf k = Some (Enters (EnterUser (bytes_word bs 24) 0x83FFFFC k'))"
    using k1(9) l(3,4) by (subst shell_loop.simps) simp
  moreover obtain pid where sched: "sched k' = sched (set_pid pid k1)" and bb': "boot_block_addr (fs k') = boot_block_addr (fs k1)"
    "dentry_a (fs k') = dentry_a (fs k1)"
    using execute_string_sched [OF k'(1)] by blast
  have tables: "tables_ok (paging k1)" and ready1: "cur.ready k1" using programD [OF k1(1)] by blast+
  have screen: "cells (window_frame k') (phys k') = cells (window_frame k1) (phys k1)"
  proof -
    have w: "window_frame k' = window_frame k1" using k'(6) by (simp add: video_kept_def)
    show ?thesis unfolding w
    proof (rule cells_same)
      fix n :: nat assume "n < 4000"
      then have "in_region (window_frame k1) 4000 (at_offset (window_frame k1) n)" by (simp add: in_region_def unat_at_offset)
      then show "phys k' (at_offset (window_frame k1) n) = phys k1 (at_offset (window_frame k1) n)"
        using video_frame_low [OF tables] k'(6) by (fastforce simp: video_kept_def)
    qed
  qed
  then have "shown current k' = shown current k1" "cur.ready k'"
    using ready1 by (simp_all add: shown_def sched current_def get_screen_x_def get_screen_y_def set_pid_def upd_terminal_def cur_ready cursor_ok_def)
  moreover have "same_kernel_but (stack_array env) 44 (vmem k) (vmem k')" using k1(7) k'(5) by (simp add: same_kernel_def same_kernel_but_def)
  ultimately show thesis
    using that k'(2-4) k1(5,8) bb' started_untouched [OF k1(4)] by simp
qed


text \<open>[C8] The shell runs a command: from the top of its loop, with a line waiting that is neither empty nor \<open>exit\<close>
  and whose first word names a program of the image, and with a process slot free, the shell prompts, reads the line,
  and enters the program: at the entry point in its file, with the file loaded, a new process started and the rest of the
  line as its arguments. The terminal shows the prompt.\<close>

theorem shell_runs_command:
  assumes "program p k" "line_waiting l k" "user_buffer buf 1024"
    and "0 \<notin> set l" "length l \<le> 126" "l \<noteq> []" "l \<noteq> chars ''exit''"
    and "strings_at p literal [''391OS> '', ''exit''] buf 1024 k" "0 < fuel env"
    and "can_start k" "0 \<in> set (processes_running k)"
    and "names_program env k (command_name l) inode" "length (command_name l) < 32"
  defines "bs \<equiv> file_bytes (vmem k) (fs k) inode"
  shows "\<exists>i k'. shell_loop env literal buf k = Some (Enters (EnterUser (bytes_word bs 24) 0x83FFFFC k')) \<and> started i k k' \<and>
    (\<forall>j < length bs. user_load (0x8048000 + of_nat j) k' = Some (bs ! j)) \<and>
    has_args l (pcbs k' (pcb_of (of_nat (i + 1)))) \<and> shown current k' = fold spec_putc (chars ''391OS> '') (shown current k)"
  by (rule shell_enters [OF assms(1-8) _ _ assms(9-13), folded bs_def]) (simp, simp, blast)

text \<open>No entry of the directory has the name. The directory's own entry answers to its name and to the empty one.\<close>

definition no_entry :: "kernel \<Rightarrow> u8 list \<Rightarrow> bool" where
  "no_entry k name \<longleftrightarrow> name \<noteq> [] \<and> name \<noteq> [46] \<and> length name \<le> 32 \<and>
     (\<forall>i < 62. name_at (vmem k) (boot_block_addr (fs k) + 128 + of_nat i * 64) \<noteq> name)"

lemma no_entry_kept:
  assumes "no_entry k name" "same_kernel (vmem k) (vmem k')" "boot_block_addr (fs k') = boot_block_addr (fs k)"
    "kernel_area (boot_block_addr (fs k)) 4096"
  shows "no_entry k' name"
proof -
  have "name_at (vmem k') (boot_block_addr (fs k) + 128 + of_nat i * 64) = name_at (vmem k) (boot_block_addr (fs k) + 128 + of_nat i * 64)"
    if "i < 62" for i
    using name_kept [OF assms(2,4), of "128 + i * 64"] that by (simp add: add.assoc)
  then show ?thesis using assms(1,3) by (simp add: no_entry_def)
qed

lemma no_entry_lookup:
  assumes "no_entry k name" "directory_ok env k" "c_string nm name"
  shows "read_dentry_by_name (vmem k) (Some nm) (Some (stack_dentry env)) (fs k) =
    Some (-1, Some (stack_dentry env), read_counts (vmem k) (fs k))"
proof -
  let ?bb = "boot_block_addr (fs k)"
  have nul: "0 \<in> range (vmem k)" using assms(2) by (intro short_name_nul [of _ "?bb + 64"]) (simp add: directory_ok_def)
  have bb: "?bb \<noteq> 0" and wf: "wf_dentry (stack_dentry env)" and dot: "name_at (vmem k) (?bb + 64) = [46]"
    using assms(2) by (auto simp: directory_ok_def kernel_area_def)
  note n = assms(1) [unfolded no_entry_def]
  have "take (length name) (name_at (vmem k) (?bb + 64)) \<noteq> name" using n by (cases name) (auto simp: dot)
  moreover have "length name \<le> 32" using n by blast
  ultimately obtain j where "j < 62 \<longrightarrow> name_at (vmem k) (?bb + 128 + of_nat j * 64) = name" and
    look: "read_dentry_by_name (vmem k) (Some nm) (Some (stack_dentry env)) (fs k) =
      (if j < 62 then
         Some (0, Some ((stack_dentry env)\<lparr>fname := name @ replicate (32 - length name) 0,
           file_type := sext8 (vmem k (?bb + 128 + of_nat j * 64 + 32)),
           inode_num := sext8 (vmem k (?bb + 128 + of_nat j * 64 + 36))\<rparr>), read_counts (vmem k) (fs k))
       else Some (-1, Some (stack_dentry env), read_counts (vmem k) (fs k)))"
    using lookup_by_name [OF bb nul assms(3) _ wf, of] by blast
  then have "\<not> j < 62" using n by blast
  then show ?thesis using look by simp
qed

text \<open>A command that no entry of the directory names is reported, and the program goes on.\<close>

lemma unknown_command:
  assumes prog: "program p k" and line: "user_string p buf l k" "0 \<notin> set l" "length l \<le> 126"
    and strs: "strings_at p literal strs buf 1024 k" "''no such command'' @ [CHR 0x0A] \<in> set strs"
    and none: "no_entry k (command_name l)" "directory_ok env k"
  obtains k1 k2 where "systemcall env SYS_EXECUTE buf 0 0 k = Some (Returns (-1) k1)" "shell_report env literal (-1) k1 = Some k2"
    "program p k2" "shown current k2 = fold spec_putc (chars (''no such command'' @ [CHR 0x0A])) (shown current k)"
proof -
  define unknown_text where "unknown_text = ''no such command'' @ [CHR 0x0A]"
  note string = user_string_at [OF programD(1) [OF prog] line(1)]
  have "0 \<notin> set (command_name l)" using line(2) command_name_set by blast
  then have name: "c_string (arr_reader (\<lambda>_. 0) (command_name l @ [0])) (command_name l)"
    by (rule c_string_array) (use none(1) in \<open>simp add: no_entry_def\<close>)
  have words: "length (command_line l) \<le> 126" using length_takeWhile_le [of "\<lambda>c. c \<noteq> 10" l] line(3) by simp
  define k1 where "k1 = k\<lparr>fs := read_counts (vmem k) (fs k)\<rparr>"
  have short: "\<not> (of_nat (length l) :: u32) > of_nat 128" using line(3) by (simp add: word_less_nat_alt unat_of_nat_u32)
  have "execute_string env (at_ptr (vmem k) buf) k = Some (Returns (-1) k1)"
    using strlen_c_string [OF string(2)] short parse_command_line [OF string(2) words] no_entry_lookup [OF none name]
    by (simp add: execute_string_def k1_def)
  moreover have "buf \<noteq> 0" using line(1) by (auto simp: user_string_def user_buffer_def)
  ultimately have call: "systemcall env SYS_EXECUTE buf 0 0 k = Some (Returns (-1) k1)"
    using string(1) by (simp add: systemcall_def execute_def)
  have p1: "program p k1" by (rule program_cong [OF prog]) (simp_all add: k1_def get_pcb_address_def)
  have s1: "strings_at p literal strs buf 1024 k1" using strs(1) by (simp add: strings_at_def user_string_def k1_def)
  obtain k2 where k2: "ece391_fdputs env 1 (literal unknown_text) k1 = Some k2" "printed (chars unknown_text) k1 k2" "program p k2"
    by (rule puts_literal [OF p1 s1 strs(2) [folded unknown_text_def]])
  have "shown current k1 = shown current k"
    by (simp add: k1_def shown_def current_def get_screen_x_def get_screen_y_def window_frame_def)
  then have "shown current k2 = fold spec_putc (chars unknown_text) (shown current k)" using k2(2) by (simp add: printed_def)
  moreover have "shell_report env literal (-1) k1 = Some k2" using k2(1) by (simp add: shell_report_def unknown_text_def)
  ultimately show thesis using that call k2(3) unfolding unknown_text_def by blast
qed

text \<open>[C33] The other lines of the shell. A round on the empty line prompts and goes on; on \<open>exit\<close> the shell returns 0; on a line
  whose first word no entry of the directory has, it says so on its terminal and goes on, as the program it was.\<close>

theorem shell_other_lines:
  assumes prog: "program p k" "line_waiting l k" and buf: "user_buffer buf 1024" and l: "0 \<notin> set l" "length l \<le> 126"
    and strs: "strings_at p literal [''391OS> '', ''exit'', ''no such command'' @ [CHR 0x0A]] buf 1024 k" and fuel: "0 < fuel env"
    and dir: "directory_ok env k"
  shows "(l = [] \<longrightarrow> (\<exists>k'. shell_round env literal buf k = Some (Again k') \<and> program p k' \<and>
       shown current k' = fold spec_putc (chars ''391OS> '') (shown current k)))
    \<and> (l = chars ''exit'' \<longrightarrow> (\<exists>k'. shell_round env literal buf k = Some (Exits 0 k')))
    \<and> (l \<noteq> [] \<and> l \<noteq> chars ''exit'' \<and> no_entry k (command_name l) \<longrightarrow> (\<exists>k'. shell_round env literal buf k = Some (Again k') \<and>
       program p k' \<and> shown current k' = fold spec_putc (chars ''391OS> '' @ chars (''no such command'' @ [CHR 0x0A])) (shown current k)))"
proof -
  define unknown_text where "unknown_text = ''no such command'' @ [CHR 0x0A]"
  define strs where "strs = [''391OS> '', ''exit'', unknown_text]"
  note strs' = assms(6) [folded unknown_text_def, folded strs_def]
  have member: "''391OS> '' \<in> set strs" "''exit'' \<in> set strs" "unknown_text \<in> set strs" by (simp_all add: strs_def)
  have l127: "length l \<le> 127" using l(2) by simp
  obtain k1 where k1: "program p k1" "user_string p buf l k1" "strings_at p literal strs buf 1024 k1"
    "untouched k k1" "fs k1 = fs k" "pcbs k1 = pcbs k" "same_kernel (vmem k) (vmem k1)"
    "shown current k1 = fold spec_putc (chars ''391OS> '') (shown current k)"
    "shell_round env literal buf k = (if l = chars ''exit'' then Some (Exits 0 k1)
      else if l = [] then Some (Again k1)
      else do {
        out \<leftarrow> systemcall env SYS_EXECUTE buf 0 0 k1;
        case out of Returns rval k \<Rightarrow> map_option Again (shell_report env literal rval k) | _ \<Rightarrow> Some (Enters out)
      })"
    by (rule shell_command_line [OF prog buf l(1) l127 strs' member(1,2) fuel])
  have unknown: "\<exists>k'. shell_round env literal buf k = Some (Again k') \<and> program p k' \<and>
      shown current k' = fold spec_putc (chars ''391OS> '' @ chars unknown_text) (shown current k)"
    if "l \<noteq> []" "l \<noteq> chars ''exit''" "no_entry k (command_name l)"
  proof -
    have bb: "boot_block_addr (fs k1) = boot_block_addr (fs k)" by (simp add: k1(5))
    have area: "kernel_area (boot_block_addr (fs k)) 4096" using dir by (simp add: directory_ok_def)
    note none = no_entry_kept [OF that(3) k1(7) bb area] directory_kept(1) [OF dir k1(7) bb]
    obtain k2 k3 where "systemcall env SYS_EXECUTE buf 0 0 k1 = Some (Returns (-1) k2)" "shell_report env literal (-1) k2 = Some k3"
      "program p k3" "shown current k3 = fold spec_putc (chars unknown_text) (shown current k1)"
      by (rule unknown_command [OF k1(1,2) l k1(3) member(3) [unfolded unknown_text_def] none, folded unknown_text_def])
    then show ?thesis using k1(8,9) that(1,2) by simp
  qed
  have "chars ''exit'' \<noteq> []" by (simp add: chars_def)
  then show ?thesis using k1(1,8,9) unknown unfolding unknown_text_def by auto
qed

end
