(* ===== verification/ErrorTests.thy ===== *)
theory ErrorTests imports Shell begin

text \<open>
  The program \<open>ece391syserr.c\<close>: eight tests of the calls on wrong arguments, and the menu that runs them. Each test
  reports on the screen and returns 0 when every call behaved as expected, 2 otherwise.
\<close>

subsection \<open>Checks\<close>

abbreviation (input) "NEG_FD \<equiv> (- 1073741823 :: i32)"
abbreviation (input) "BIG_FD \<equiv> (1073741823 :: i32)"
abbreviation (input) "BIG_NUM \<equiv> (1073741823 :: i32)"
abbreviation (input) "NEG_NUM \<equiv> (- 1073741823 :: i32)"

text \<open>The call with a number and whatever the other registers hold.\<close>

definition call_sys :: "environment \<Rightarrow> u32 \<times> u32 \<times> u32 \<Rightarrow> i32 \<Rightarrow> kernel \<Rightarrow> (i32 \<times> kernel) option" where
  "call_sys env regs num k = (case regs of (ebx, ecx, edx) \<Rightarrow> DO_CALL env num ebx ecx edx k)"

text \<open>What each test does with the result of a call, and its last lines.\<close>

definition expect_error :: "environment \<Rightarrow> (string \<Rightarrow> u32) \<Rightarrow> string \<Rightarrow> i32 \<Rightarrow> i32 \<Rightarrow> kernel \<Rightarrow> (i32 \<times> kernel) option" where
  "expect_error env literal msg r fail k =
     (if r \<noteq> -1 then do { k \<leftarrow> ece391_fdputs env 1 (literal (msg @ [CHR 0x0A])) k; Some (2, k) }
      else Some (fail, k))"

definition verdict :: "environment \<Rightarrow> (string \<Rightarrow> u32) \<Rightarrow> string \<Rightarrow> i32 \<Rightarrow> kernel \<Rightarrow> (i32 \<times> kernel) option" where
  "verdict env literal name fail k = do {
     k \<leftarrow> ece391_fdputs env 1 (literal (name @ (if fail \<noteq> 0 then '': FAIL'' else '': PASS'') @ [CHR 0x0A])) k;
     Some (fail, k)
   }"

text \<open>A loop over descriptors.\<close>

primrec expect_each ::
  "environment \<Rightarrow> (string \<Rightarrow> u32) \<Rightarrow> string \<Rightarrow> (i32 \<Rightarrow> kernel \<Rightarrow> (i32 \<times> kernel) option) \<Rightarrow> nat list \<Rightarrow> i32 \<Rightarrow> kernel
    \<Rightarrow> (i32 \<times> kernel) option" where
  "expect_each env literal msg call [] fail k = Some (fail, k)"
| "expect_each env literal msg call (i # is) fail k = do {
     (r, k) \<leftarrow> call (of_nat i) k;
     (fail, k) \<leftarrow> expect_error env literal msg r fail k;
     expect_each env literal msg call is fail k
   }"

subsection \<open>The tests\<close>

definition err_neg_fd :: "environment \<Rightarrow> (string \<Rightarrow> u32) \<Rightarrow> u32 \<Rightarrow> kernel \<Rightarrow> (i32 \<times> kernel) option" where
  "err_neg_fd env literal buf k = do {
     (r, k) \<leftarrow> DO_CALL env SYS_READ NEG_FD buf 31 k;
     (fail, k) \<leftarrow> expect_error env literal ''read fail'' r 0 k;
     (r, k) \<leftarrow> DO_CALL env SYS_WRITE NEG_FD buf 31 k;
     (fail, k) \<leftarrow> expect_error env literal ''write fail'' r fail k;
     (r, k) \<leftarrow> DO_CALL env SYS_CLOSE NEG_FD 0 0 k;
     (fail, k) \<leftarrow> expect_error env literal ''close fail'' r fail k;
     verdict env literal ''err_neg_fd'' fail k
   }"

definition err_big_fd :: "environment \<Rightarrow> (string \<Rightarrow> u32) \<Rightarrow> u32 \<Rightarrow> kernel \<Rightarrow> (i32 \<times> kernel) option" where
  "err_big_fd env literal buf k = do {
     (r, k) \<leftarrow> DO_CALL env SYS_READ BIG_FD buf 31 k;
     (fail, k) \<leftarrow> expect_error env literal ''read fail'' r 0 k;
     (r, k) \<leftarrow> DO_CALL env SYS_WRITE BIG_FD buf 31 k;
     (fail, k) \<leftarrow> expect_error env literal ''write fail'' r fail k;
     (r, k) \<leftarrow> DO_CALL env SYS_CLOSE BIG_FD 0 0 k;
     (fail, k) \<leftarrow> expect_error env literal ''close fail'' r fail k;
     verdict env literal ''err_big_fd'' fail k
   }"

text \<open>Open the directory \<open>n\<close> times and count the failures; close the descriptors of a list.\<close>

primrec open_lots :: "environment \<Rightarrow> (string \<Rightarrow> u32) \<Rightarrow> nat \<Rightarrow> i32 \<Rightarrow> kernel \<Rightarrow> (i32 \<times> kernel) option" where
  "open_lots env literal 0 cnt k = Some (cnt, k)"
| "open_lots env literal (Suc n) cnt k = do {
     (r, k) \<leftarrow> DO_CALL env SYS_OPEN (literal ''.'') 0 0 k;
     open_lots env literal n (if r = -1 then cnt + 1 else cnt) k
   }"

primrec close_lots :: "environment \<Rightarrow> nat list \<Rightarrow> kernel \<Rightarrow> kernel option" where
  "close_lots env [] k = Some k"
| "close_lots env (i # is) k = do {
     (_, k) \<leftarrow> DO_CALL env SYS_CLOSE (of_nat i) 0 0 k;
     close_lots env is k
   }"

definition err_open_lots :: "environment \<Rightarrow> (string \<Rightarrow> u32) \<Rightarrow> kernel \<Rightarrow> (i32 \<times> kernel) option" where
  "err_open_lots env literal k = do {
     (cnt, k) \<leftarrow> open_lots env literal 7 0 k;
     k \<leftarrow> close_lots env [2..<8] k;
     verdict env literal ''err_open_lots'' (if cnt = 1 then 0 else 2) k
   }"

definition err_open :: "environment \<Rightarrow> (string \<Rightarrow> u32) \<Rightarrow> kernel \<Rightarrow> (i32 \<times> kernel) option" where
  "err_open env literal k = do {
     (r, k) \<leftarrow> DO_CALL env SYS_OPEN (literal ''helloo'') 0 0 k;
     (fail, k) \<leftarrow> expect_error env literal ([CHR 0x27] @ ''helloo'' @ [CHR 0x27] @ '' fail'') r 0 k;
     (r, k) \<leftarrow> DO_CALL env SYS_OPEN (literal ''shel'') 0 0 k;
     (fail, k) \<leftarrow> expect_error env literal ([CHR 0x27] @ ''shel'' @ [CHR 0x27] @ '' fail'') r fail k;
     (r, k) \<leftarrow> DO_CALL env SYS_OPEN (literal []) 0 0 k;
     (fail, k) \<leftarrow> expect_error env literal ''empty string fail'' r fail k;
     verdict env literal ''err_open'' fail k
   }"

definition err_unopened :: "environment \<Rightarrow> (string \<Rightarrow> u32) \<Rightarrow> u32 \<Rightarrow> kernel \<Rightarrow> (i32 \<times> kernel) option" where
  "err_unopened env literal buf k = do {
     (fail, k) \<leftarrow> expect_each env literal ''close unopened or invalid fd fail'' (\<lambda>i. DO_CALL env SYS_CLOSE i 0 0) [0..<8] 0 k;
     (fail, k) \<leftarrow> expect_each env literal ''read from unopened fd fail'' (\<lambda>i. DO_CALL env SYS_READ i buf 31) [2..<8] fail k;
     (fail, k) \<leftarrow> expect_each env literal ''write to unopened fd fail'' (\<lambda>i. DO_CALL env SYS_WRITE i buf 31) [2..<8] fail k;
     verdict env literal ''err_unopened'' fail k
   }"

definition err_vidmap :: "environment \<Rightarrow> (string \<Rightarrow> u32) \<Rightarrow> kernel \<Rightarrow> (i32 \<times> kernel) option" where
  "err_vidmap env literal k = do {
     (r, k) \<leftarrow> DO_CALL env SYS_VIDMAP 0 0 0 k;
     (fail, k) \<leftarrow> expect_error env literal ''Null pointer fail'' r 0 k;
     (r, k) \<leftarrow> DO_CALL env SYS_VIDMAP 0x400000 0 0 k;
     (fail, k) \<leftarrow> expect_error env literal ''Kernel pointer fail fail'' r fail k;
     verdict env literal ''err_vidmap'' fail k
   }"

definition err_stdin_out :: "environment \<Rightarrow> (string \<Rightarrow> u32) \<Rightarrow> u32 \<Rightarrow> kernel \<Rightarrow> (i32 \<times> kernel) option" where
  "err_stdin_out env literal buf k = do {
     (r, k) \<leftarrow> DO_CALL env SYS_WRITE 0 buf 31 k;
     (fail, k) \<leftarrow> expect_error env literal ''write to stdin fail'' r 0 k;
     (r, k) \<leftarrow> DO_CALL env SYS_READ 1 buf 31 k;
     (fail, k) \<leftarrow> expect_error env literal ''read from stdout fail'' r fail k;
     verdict env literal ''err_stdin_out'' fail k
   }"

text \<open>The three messages name another number than the one that was tried.\<close>

definition err_syscall_num ::
  "environment \<Rightarrow> (string \<Rightarrow> u32) \<Rightarrow> u32 \<times> u32 \<times> u32 \<Rightarrow> kernel \<Rightarrow> (i32 \<times> kernel) option" where
  "err_syscall_num env literal regs k = do {
     (r, k) \<leftarrow> call_sys env regs BIG_NUM k;
     (fail, k) \<leftarrow> expect_error env literal ''syscall 0 fail'' r 0 k;
     (r, k) \<leftarrow> call_sys env regs NEG_NUM k;
     (fail, k) \<leftarrow> expect_error env literal ''big num syscall fail'' r fail k;
     (r, k) \<leftarrow> call_sys env regs 0 k;
     (fail, k) \<leftarrow> expect_error env literal ''neg num syscall fail'' r fail k;
     verdict env literal ''err_syscall_num'' fail k
   }"

definition run_all_tests ::
  "environment \<Rightarrow> (string \<Rightarrow> u32) \<Rightarrow> u32 \<Rightarrow> u32 \<times> u32 \<times> u32 \<Rightarrow> kernel \<Rightarrow> (i32 \<times> kernel) option" where
  "run_all_tests env literal tbuf regs k = do {
     (f1, k) \<leftarrow> err_neg_fd env literal tbuf k;
     (f2, k) \<leftarrow> err_big_fd env literal tbuf k;
     (f3, k) \<leftarrow> err_open_lots env literal k;
     (f4, k) \<leftarrow> err_open env literal k;
     (f5, k) \<leftarrow> err_unopened env literal tbuf k;
     (f6, k) \<leftarrow> err_vidmap env literal k;
     (f7, k) \<leftarrow> err_stdin_out env literal tbuf k;
     (f8, k) \<leftarrow> err_syscall_num env literal regs k;
     let fail = f1 + f2 + f3 + f4 + f5 + f6 + f7 + f8;
     k \<leftarrow> ece391_fdputs env 1 (literal ([CHR 0x0A] @ ''Overall Tests: '' @ (if fail \<noteq> 0 then ''FAIL'' else ''PASS'') @ [CHR 0x0A])) k;
     Some (fail, k)
   }"

text \<open>\<open>buf\<close> is the array of \<open>main\<close>, \<open>tbuf\<close> that of the tests. The selection is signed: a character below \<open>0\<close> is an invalid
  number.\<close>

definition syserr_main ::
  "environment \<Rightarrow> (string \<Rightarrow> u32) \<Rightarrow> u32 \<Rightarrow> u32 \<Rightarrow> u32 \<times> u32 \<times> u32 \<Rightarrow> kernel \<Rightarrow> (i32 \<times> kernel) option" where
  "syserr_main env literal buf tbuf regs k = do {
     k \<leftarrow> ece391_fdputs env 1 (literal ''Choose from tests 1-8. 0 to run all: '') k;
     (cnt, k) \<leftarrow> DO_CALL env SYS_READ 0 buf 127 k;
     if cnt = -1 then do {
       k \<leftarrow> ece391_fdputs env 1 (literal (''Can't read test #'' @ [CHR 0x0A])) k;
       Some (2, k)
     }
     else do {
       c \<leftarrow> user_load buf k;
       let select = int (unat c) - 48;
       if select = 0 then run_all_tests env literal tbuf regs k
       else if select = 1 then err_neg_fd env literal tbuf k
       else if select = 2 then err_big_fd env literal tbuf k
       else if select = 3 then err_open_lots env literal k
       else if select = 4 then err_open env literal k
       else if select = 5 then err_unopened env literal tbuf k
       else if select = 6 then err_vidmap env literal k
       else if select = 7 then err_stdin_out env literal tbuf k
       else if select = 8 then err_syscall_num env literal regs k
       else do {
         k \<leftarrow> ece391_fdputs env 1 (literal ''Invalid test number. Choose from tests 1-8 or 0'') k;
         Some (0, k)
       }
     }
   }"

subsection \<open>A process under test\<close>

definition pass_line :: "string \<Rightarrow> string" where
  "pass_line name = name @ '': PASS'' @ [CHR 0x0A]"

definition test_names :: "string list" where
  "test_names = [''err_neg_fd'', ''err_big_fd'', ''err_open_lots'', ''err_open'', ''err_unopened'', ''err_vidmap'', ''err_stdin_out'', ''err_syscall_num'']"

definition menu_line :: string where
  "menu_line = ''Choose from tests 1-8. 0 to run all: ''"

definition overall_line :: string where
  "overall_line = [CHR 0x0A] @ pass_line ''Overall Tests''"

text \<open>The strings the program needs when every test passes.\<close>

definition test_strings :: "string list" where
  "test_strings = map pass_line test_names @ [''.'', ''helloo'', ''shel'', [], menu_line, overall_line]"

text \<open>The descriptors of \<open>U\<close> are in use and the others are free; the directory has neither of the two slightly wrong names.\<close>

definition tester :: "environment \<Rightarrow> nat \<Rightarrow> (string \<Rightarrow> u32) \<Rightarrow> u32 \<Rightarrow> nat set \<Rightarrow> kernel \<Rightarrow> bool" where
  "tester env p literal buf U k \<longleftrightarrow> program p k \<and> get_pcb_address k \<noteq> 0 \<and> pcb_ok (pcbs k (get_pcb_address k)) \<and>
     (\<forall>i. 2 \<le> i \<and> i < 8 \<longrightarrow> (fd_flags (fd_array (pcbs k (get_pcb_address k)) ! i) ! 0 \<noteq> 0 \<longleftrightarrow> i \<in> U)) \<and>
     directory_ok env k \<and> no_entry k (chars ''helloo'') \<and> no_entry k (chars ''shel'') \<and>
     strings_at p literal test_strings buf 128 k"

lemma testerD:
  assumes "tester env p literal buf U k"
  shows "program p k" "get_pcb_address k \<noteq> 0" "pcb_ok (pcbs k (get_pcb_address k))" "directory_ok env k"
    "no_entry k (chars ''helloo'')" "no_entry k (chars ''shel'')" "strings_at p literal test_strings buf 128 k"
    "2 \<le> i \<Longrightarrow> i < 8 \<Longrightarrow> fd_flags (fd_array (pcbs k (get_pcb_address k)) ! i) ! 0 = 0 \<longleftrightarrow> i \<notin> U"
  using assms unfolding tester_def by blast+

lemma tester_kept:
  assumes k: "tester env p literal buf U k" and k': "program p k'" "get_pcb_address k' = get_pcb_address k"
    "pcb_ok (pcbs k' (get_pcb_address k))" "strings_at p literal test_strings buf 128 k'"
    and fds: "\<And>i. 2 \<le> i \<Longrightarrow> i < 8 \<Longrightarrow> fd_flags (fd_array (pcbs k' (get_pcb_address k)) ! i) ! 0 \<noteq> 0 \<longleftrightarrow> i \<in> V"
    and same: "same_kernel (vmem k) (vmem k')" "boot_block_addr (fs k') = boot_block_addr (fs k)"
  shows "tester env p literal buf V k'"
proof -
  note t = testerD [OF k]
  have area: "kernel_area (boot_block_addr (fs k)) 4096" using t(4) by (simp add: directory_ok_def)
  show ?thesis
    unfolding tester_def k'(2)
    using k' fds t(2) directory_kept(1) [OF t(4) same] no_entry_kept [OF t(5) same area] no_entry_kept [OF t(6) same area] by blast
qed

lemma tester_printed:
  assumes "tester env p literal buf U k" "printed xs k k'"
  shows "tester env p literal buf U k'"
proof -
  note t = testerD [OF assms(1)] and f = printed_fields [OF assms(2)]
  show ?thesis
    by (rule tester_kept [OF assms(1) printed_program [OF assms(2) t(1)] f(3) _ strings_printed [OF assms(2) t(1,7)] _
          printed_kernel [OF assms(2) programD(4) [OF t(1)]]])
      (use t(3,8) f(2,4) in simp_all)
qed

text \<open>The same process in a state that differs in the counts of the file system and the descriptors only.\<close>

lemma tester_moved:
  assumes k: "tester env p literal buf U k" and k': "program p k'" "get_pcb_address k' = get_pcb_address k"
    "phys k' = phys k" "paging k' = paging k" "boot_block_addr (fs k') = boot_block_addr (fs k)"
    "pcb_ok (pcbs k' (get_pcb_address k))"
    and fds: "\<And>i. 2 \<le> i \<Longrightarrow> i < 8 \<Longrightarrow> fd_flags (fd_array (pcbs k' (get_pcb_address k)) ! i) ! 0 \<noteq> 0 \<longleftrightarrow> i \<in> V"
  shows "tester env p literal buf V k'"
proof -
  have "strings_at p literal test_strings buf 128 k'"
    using testerD(7) [OF k] by (simp add: strings_at_def user_string_def k'(3))
  moreover have "vmem k' = vmem k" by (rule vmem_eq [OF k'(4,3)])
  then have "same_kernel (vmem k) (vmem k')" by (simp add: same_kernel_def)
  ultimately show ?thesis using tester_kept [OF k k'(1,2,6) _ fds _ k'(5)] by blast
qed

text \<open>What a test promises.\<close>

definition passes :: "environment \<Rightarrow> nat \<Rightarrow> (string \<Rightarrow> u32) \<Rightarrow> u32 \<Rightarrow> string \<Rightarrow> (kernel \<Rightarrow> (i32 \<times> kernel) option) \<Rightarrow> bool" where
  "passes env p literal buf name test \<longleftrightarrow> (\<forall>k. tester env p literal buf {} k \<longrightarrow>
     (\<exists>k'. test k = Some (0, k') \<and> tester env p literal buf {} k' \<and>
       shown current k' = fold spec_putc (chars (pass_line name)) (shown current k)))"

lemma verdict_passes:
  assumes k: "tester env p literal buf {} k" and name: "name \<in> set test_names"
  shows "\<exists>k'. verdict env literal name 0 k = Some (0, k') \<and> tester env p literal buf {} k' \<and>
    shown current k' = fold spec_putc (chars (pass_line name)) (shown current k)"
proof -
  have "pass_line name \<in> set test_strings" using name by (simp add: test_strings_def)
  from puts_literal [OF testerD(1,7) [OF k] this] obtain k' where
    k': "ece391_fdputs env 1 (literal (pass_line name)) k = Some k'" "printed (chars (pass_line name)) k k'" by blast
  have "verdict env literal name 0 k = Some (0, k')" using k'(1) by (simp add: verdict_def pass_line_def)
  then show ?thesis using tester_printed [OF k k'(2)] k'(2) by (auto simp: printed_def)
qed

lemma expected_error [simp]: "expect_error env literal msg (-1) fail k = Some (fail, k)"
  by (simp add: expect_error_def)

lemma expected_each:
  "(\<And>i. i \<in> set is \<Longrightarrow> call (of_nat i) k = Some (-1, k)) \<Longrightarrow> expect_each env literal msg call is fail k = Some (fail, k)"
  by (induction "is") simp_all

subsection \<open>The tests that change nothing\<close>

lemma bad_numbers:
  "sint NEG_FD < 0" "7 < sint BIG_FD" "sint NEG_NUM \<le> 0" "10 < sint BIG_NUM"
  by simp_all

lemma neg_fd_passes: "passes env p literal buf ''err_neg_fd'' (err_neg_fd env literal tbuf)"
  unfolding passes_def err_neg_fd_def
  by (auto simp: do_calls sys_read_def sys_write_def sys_close_def intro!: verdict_passes simp: test_names_def)

lemma big_fd_passes: "passes env p literal buf ''err_big_fd'' (err_big_fd env literal tbuf)"
  unfolding passes_def err_big_fd_def
  by (auto simp: do_calls sys_read_def sys_write_def sys_close_def intro!: verdict_passes simp: test_names_def)

lemma vidmap_passes: "passes env p literal buf ''err_vidmap'' (err_vidmap env literal)"
proof -
  have "drop_bit 22 (0xFFC00000 AND 0x400000 :: u32) \<noteq> 32" by simp
  then show ?thesis
    unfolding passes_def err_vidmap_def
    by (auto simp: do_calls vidmap_def intro!: verdict_passes simp: test_names_def)
qed

lemma stdin_out_passes: "passes env p literal buf ''err_stdin_out'' (err_stdin_out env literal tbuf)"
  unfolding passes_def err_stdin_out_def
  by (auto simp: do_calls sys_read_def sys_write_def intro!: verdict_passes simp: test_names_def)

lemma syscall_num_passes: "passes env p literal buf ''err_syscall_num'' (err_syscall_num env literal regs)"
  unfolding passes_def err_syscall_num_def call_sys_def
  by (auto simp: DO_CALL_def systemcall_def intro!: verdict_passes simp: test_names_def split: prod.splits)

lemma unopened_passes: "passes env p literal buf ''err_unopened'' (err_unopened env literal tbuf)"
proof -
  have "expect_each env literal m1 (\<lambda>i. DO_CALL env SYS_CLOSE i 0 0) [0..<8] 0 k = Some (0, k)"
    "expect_each env literal m2 (\<lambda>i. DO_CALL env SYS_READ i tbuf 31) [2..<8] 0 k = Some (0, k)"
    "expect_each env literal m2 (\<lambda>i. DO_CALL env SYS_WRITE i tbuf 31) [2..<8] 0 k = Some (0, k)"
    if "tester env p literal buf {} k" for m1 m2 k
  proof -
    have un: "unat (of_nat i :: i32) = i" if "i < 8" for i using that by simp
    have free: "fd_flags (fd_array (pcbs k (get_pcb_address k)) ! i) ! 0 = 0" if "2 \<le> i" "i < 8" for i
      using testerD(8) [OF \<open>tester env p literal buf {} k\<close> that] by simp
    show "expect_each env literal m1 (\<lambda>i. DO_CALL env SYS_CLOSE i 0 0) [0..<8] 0 k = Some (0, k)"
    proof (rule expected_each)
      fix i assume "i \<in> set [0..<8]"
      then have i: "i < 8" by simp
      show "DO_CALL env SYS_CLOSE (of_nat i) 0 0 k = Some (-1, k)"
        using free [of i] sint_fd [OF i] un [OF i] i by (simp add: do_calls sys_close_def Let_def)
    qed
    show "expect_each env literal m2 (\<lambda>i. DO_CALL env SYS_READ i tbuf 31) [2..<8] 0 k = Some (0, k)"
    proof (rule expected_each)
      fix i assume "i \<in> set [2..<8]"
      then have i: "2 \<le> i" "i < 8" by auto
      show "DO_CALL env SYS_READ (of_nat i) tbuf 31 k = Some (-1, k)"
        using free [OF i] sint_fd [OF i(2)] un [OF i(2)] by (simp add: do_calls sys_read_def Let_def)
    qed
    show "expect_each env literal m2 (\<lambda>i. DO_CALL env SYS_WRITE i tbuf 31) [2..<8] 0 k = Some (0, k)"
    proof (rule expected_each)
      fix i assume "i \<in> set [2..<8]"
      then have i: "2 \<le> i" "i < 8" by auto
      show "DO_CALL env SYS_WRITE (of_nat i) tbuf 31 k = Some (-1, k)"
        using free [OF i] sint_fd [OF i(2)] un [OF i(2)] by (simp add: do_calls sys_write_def Let_def)
    qed
  qed
  then show ?thesis
    unfolding passes_def err_unopened_def by (auto intro!: verdict_passes simp: test_names_def simp del: upt_rec_numeral)
qed

subsection \<open>The tests that open\<close>

lemma no_open:
  assumes k: "tester env p literal buf U k" and name: "name \<in> set test_strings" "no_entry k (chars name)"
  obtains k' where "sys_open env (literal name) k = Some (-1, k')" "tester env p literal buf U k'" "shown current k' = shown current k"
proof -
  note t = testerD [OF k]
  note string = user_string_at [OF programD(1) [OF t(1)] strings_at_member [OF t(7) name(1)]]
  have nz: "literal name \<noteq> 0" using strings_at_member [OF t(7) name(1)] by (auto simp: user_string_def user_buffer_def)
  have "chars name \<noteq> []" "length (chars name) \<le> 32" using name(2) by (simp_all add: no_entry_def)
  then have len: "(of_nat (length (chars name)) :: u32) \<noteq> 0" by (simp add: word_unat_eq_iff unat_of_nat_u32)
  define k' where "k' = k\<lparr>fs := read_counts (vmem k) (fs k)\<rparr>"
  have run: "sys_open env (literal name) k = Some (-1, k')"
    using string strlen_c_string [OF string(2)] no_entry_lookup [OF name(2) t(4) string(2)] nz len by (simp add: sys_open_def k'_def)
  have same: "get_pcb_address k' = get_pcb_address k" "pcbs k' = pcbs k" by (simp_all add: k'_def get_pcb_address_def)
  have "program p k'" by (rule program_cong [OF t(1)]) (simp_all add: same, simp_all add: k'_def)
  then have "tester env p literal buf U k'"
    by (rule tester_moved [OF k]) (use t(3,8) same in \<open>simp_all add: k'_def\<close>)
  moreover have "shown current k' = shown current k"
    by (simp add: k'_def shown_def current_def get_screen_x_def get_screen_y_def window_frame_def)
  ultimately show thesis using that run by blast
qed

lemma open_passes: "passes env p literal buf ''err_open'' (err_open env literal)"
  unfolding passes_def
proof (intro allI impI)
  fix k assume k: "tester env p literal buf {} k"
  have member: "''helloo'' \<in> set test_strings" "''shel'' \<in> set test_strings" "[] \<in> set test_strings"
    by (simp_all add: test_strings_def)
  obtain k1 where k1: "sys_open env (literal ''helloo'') k = Some (-1, k1)" "tester env p literal buf {} k1" "shown current k1 = shown current k"
    by (rule no_open [OF k member(1) testerD(5) [OF k]])
  obtain k2 where k2: "sys_open env (literal ''shel'') k1 = Some (-1, k2)" "tester env p literal buf {} k2" "shown current k2 = shown current k1"
    by (rule no_open [OF k1(2) member(2) testerD(6) [OF k1(2)]])
  have str: "user_string p (literal []) [] k2" using strings_at_member [OF testerD(7) [OF k2(2)] member(3)] by (simp add: chars_def)
  note string = user_string_at [OF programD(1) [OF testerD(1) [OF k2(2)]] str]
  have "literal [] \<noteq> 0" using str by (auto simp: user_string_def user_buffer_def)
  then have "sys_open env (literal []) k2 = Some (-1, k2)"
    using string strlen_c_string [OF string(2)] by (simp add: sys_open_def)
  then have "err_open env literal k = verdict env literal ''err_open'' 0 k2"
    using k1(1) k2(1) by (simp add: err_open_def do_calls)
  then show "\<exists>k'. err_open env literal k = Some (0, k') \<and> tester env p literal buf {} k' \<and>
      shown current k' = fold spec_putc (chars (pass_line ''err_open'')) (shown current k)"
    using verdict_passes [OF k2(2), of "''err_open''"] k1(3) k2(3) by (simp add: test_names_def)
qed

text \<open>Opening the directory with the descriptors below \<open>n\<close> in use takes the descriptor \<open>n\<close>.\<close>

lemma open_next:
  assumes k: "tester env p literal buf {2..<n} k" and n: "2 \<le> n" "n < 8"
  obtains k' where "sys_open env (literal ''.'') k = Some (of_nat n, k')" "tester env p literal buf {2..<Suc n} k'"
    "shown current k' = shown current k"
proof -
  note t = testerD [OF k]
  have str: "user_string p (literal ''.'') [46] k"
    using strings_at_member [OF t(7), of "''.''"] by (simp add: test_strings_def chars_def)
  have "\<exists>i. 2 \<le> i \<and> i < 8 \<and> fd_flags (fd_array (pcbs k (get_pcb_address k)) ! i) ! 0 = 0"
    using n t(8) [OF n] by (intro exI [of _ n]) simp
  from directory_open [OF t(1,3,2) this str t(4)] obtain fd k' where
    k': "sys_open env (literal ''.'') k = Some (of_nat fd, k')" "just_opened p k fd 1 directorytable 0 k'" by blast
  note o = k'(2) [unfolded just_opened_def Let_def]
  have "\<not> fd < n"
    using o t(8) [of fd] by auto
  moreover have "\<not> n < fd"
    using o t(8) [OF n] n by auto
  ultimately have fd: "fd = n" by simp
  let ?a = "get_pcb_address k"
  have pcb: "upd_fd n (opened 1 0) (pcbs k ?a) = pcbs k' ?a" using o fd by blast
  have len8: "length (fd_array (pcbs k ?a)) = 8" and fdn: "fd_ok n (fd_array (pcbs k ?a) ! n)"
    using t(3) n by (simp_all add: pcb_ok_def)
  have ok: "pcb_ok (pcbs k' ?a)"
    unfolding pcb [symmetric] by (rule pcb_ok_upd_fd [OF t(3)]) (rule fd_ok_opened [OF fdn n(1)])
  have used: "fd_flags (fd_array (pcbs k' ?a) ! i) ! 0 \<noteq> 0 \<longleftrightarrow> i \<in> {2..<Suc n}" if i: "2 \<le> i" "i < 8" for i
  proof (cases "i = n")
    case True
    then show ?thesis using o fd n by simp
  next
    case False
    then show ?thesis unfolding pcb [symmetric] using i len8 t(8) [OF i] by auto
  qed
  have "tester env p literal buf {2..<Suc n} k'"
    by (rule tester_moved [OF k _ _ _ _ _ ok used]) (use o in blast)+
  then show thesis using that k'(1) o unfolding fd by blast
qed

lemma open_full:
  assumes k: "tester env p literal buf {2..<8} k"
  obtains k' where "sys_open env (literal ''.'') k = Some (-1, k')" "tester env p literal buf {2..<8} k'" "shown current k' = shown current k"
proof -
  note t = testerD [OF k]
  let ?a = "get_pcb_address k" and ?bb = "boot_block_addr (fs k)"
  have str: "user_string p (literal ''.'') [46] k"
    using strings_at_member [OF t(7), of "''.''"] by (simp add: test_strings_def chars_def)
  note string = user_string_at [OF programD(1) [OF t(1)] str]
  have nul: "0 \<in> range (vmem k)" using t(4) by (intro short_name_nul [of _ "?bb + 64"]) (simp add: directory_ok_def)
  have bb: "?bb \<noteq> 0" and wf: "wf_dentry (stack_dentry env)"
    and dot: "take (length [46 :: u8]) (name_at (vmem k) (?bb + 64)) = [46]"
    using t(4) by (auto simp: directory_ok_def kernel_area_def)
  have short: "length [46 :: u8] \<le> 32" by simp
  obtain d where d: "read_dentry_by_name (vmem k) (Some (at_ptr (vmem k) (literal ''.''))) (Some (stack_dentry env)) (fs k) =
      Some (0, Some d, read_counts (vmem k) (fs k))" "file_type d = 1"
    using read_dentry_by_name_directory [OF bb nul string(2) short wf dot] by auto
  define k' where "k' = k\<lparr>fs := read_counts (vmem k) (fs k)\<rparr>"
  have same: "get_pcb_address k' = ?a" "pcbs k' = pcbs k" by (simp_all add: k'_def get_pcb_address_def)
  have len8: "length (fd_array (pcbs k ?a)) = 8" using t(3) by (simp add: pcb_ok_def)
  define i where "i = find_fd (drop 2 (fd_array (pcbs k ?a))) 2"
  note free = first_free [OF len8, folded i_def]
  have "i = 8" using free t(8) [of i] by (cases "i < 8") auto
  then have "fd_array_handle_open ?a 1 (inode_num d) k' = (-1, k')"
    using handle_open_eq [OF t(2), of 1 "inode_num d" k'] by (simp add: same i_def [symmetric])
  moreover have "literal ''.'' \<noteq> 0" using str by (auto simp: user_string_def user_buffer_def)
  ultimately have run: "sys_open env (literal ''.'') k = Some (-1, k')"
    using string strlen_c_string [OF string(2)] d by (simp add: sys_open_def k'_def [symmetric] same)
  have "program p k'" by (rule program_cong [OF t(1)]) (simp_all add: same, simp_all add: k'_def)
  then have "tester env p literal buf {2..<8} k'"
    by (rule tester_moved [OF k]) (use t(3,8) same in \<open>simp_all add: k'_def\<close>)
  moreover have "shown current k' = shown current k"
    by (simp add: k'_def shown_def current_def get_screen_x_def get_screen_y_def window_frame_def)
  ultimately show thesis using that run by blast
qed

lemma open_lots_fill:
  assumes "tester env p literal buf {2..<n} k" "2 \<le> n" "n + m = 8"
  shows "\<exists>k'. open_lots env literal (m + 1) cnt k = Some (cnt + 1, k') \<and> tester env p literal buf {2..<8} k' \<and> shown current k' = shown current k"
  using assms
proof (induction m arbitrary: n k)
  case 0
  then have "tester env p literal buf {2..<8} k" by simp
  then obtain k' where "sys_open env (literal ''.'') k = Some (-1, k')" "tester env p literal buf {2..<8} k'" "shown current k' = shown current k"
    by (rule open_full)
  then show ?case by (simp add: do_calls)
next
  case (Suc m)
  have n: "n < 8" "Suc n + m = 8" "2 \<le> Suc n" using Suc.prems by simp_all
  obtain k1 where k1: "sys_open env (literal ''.'') k = Some (of_nat n, k1)" "tester env p literal buf {2..<Suc n} k1" "shown current k1 = shown current k"
    by (rule open_next [OF Suc.prems(1,2) n(1)])
  show ?case using Suc.IH [OF k1(2) n(3,2)] k1(1,3) fd_not_error [OF n(1)] by (simp add: do_calls)
qed

lemma close_first:
  assumes k: "tester env p literal buf {n..<8} k" and n: "2 \<le> n" "n < 8"
  obtains k' where "sys_close (of_nat n) k = Some (0, k')" "tester env p literal buf {Suc n..<8} k'" "shown current k' = shown current k"
proof -
  note t = testerD [OF k]
  let ?a = "get_pcb_address k"
  have un: "unat (of_nat n :: i32) = n" and sn: "sint (of_nat n :: i32) = int n" using n sint_fd by simp_all
  let ?t = "operationstable (fd_array (pcbs k ?a) ! n)"
  have len8: "length (fd_array (pcbs k ?a)) = 8" and fdn: "fd_ok n (fd_array (pcbs k ?a) ! n)"
    using t(3) n by (simp_all add: pcb_ok_def)
  have used: "fd_flags (fd_array (pcbs k ?a) ! n) ! 0 \<noteq> 0" using t(8) [OF n] n by simp
  then have table: "?t \<noteq> None" using fdn n(1) unfolding fd_ok_def by auto
  have "\<exists>f. op_close ?t k = Some (k\<lparr>fs := f\<rparr>) \<and> boot_block_addr f = boot_block_addr (fs k)"
    using table by (cases "(?t, k)" rule: op_close.cases) (auto intro: exI [of _ "fs k"] simp: fs_close_def dir_close_def)
  then obtain f where f: "op_close ?t k = Some (k\<lparr>fs := f\<rparr>)" "boot_block_addr f = boot_block_addr (fs k)" by blast
  define k' where "k' = upd_pcb ?a (upd_fd n closed) (k\<lparr>fs := f\<rparr>)"
  have run: "sys_close (of_nat n) k = Some (0, k')"
    using used table n f(1) handle_close_eq [OF n t(2)] by (simp add: sys_close_def un sn Let_def k'_def)
  have same: "get_pcb_address k' = ?a" "pcbs k' ?a = upd_fd n closed (pcbs k ?a)" by (simp_all add: k'_def get_pcb_address_def)
  note closed = handle_close_ok [OF t(3) n]
  have ok: "pcb_ok (pcbs k' ?a)" using closed(1) by (simp add: same)
  have used': "fd_flags (fd_array (pcbs k' ?a) ! i) ! 0 \<noteq> 0 \<longleftrightarrow> i \<in> {Suc n..<8}" if i: "2 \<le> i" "i < 8" for i
    unfolding same(2) using closed(2) i len8 t(8) [OF i] by (cases "i = n") auto
  have k'_fields: "paging k' = paging k" "sched k' = sched k" "phys k' = phys k" "fs k' = f" by (simp_all add: k'_def)
  have "program p k'"
    using t(1) n len8 by (simp add: program_def Let_def same k'_fields runs_def cur_ready)
  then have "tester env p literal buf {Suc n..<8} k'"
    by (rule tester_moved [OF k _ same(1) _ _ _ ok used']) (simp_all add: k'_fields f(2))
  moreover have "shown current k' = shown current k"
    by (simp add: shown_def current_def get_screen_x_def get_screen_y_def window_frame_def k'_fields)
  ultimately show thesis using that run by blast
qed

lemma close_lots_empty:
  assumes "tester env p literal buf {n..<8} k" "2 \<le> n" "n \<le> 8"
  shows "\<exists>k'. close_lots env [n..<8] k = Some k' \<and> tester env p literal buf {} k' \<and> shown current k' = shown current k"
  using assms
proof (induction "8 - n" arbitrary: n k)
  case 0
  then show ?case by simp
next
  case (Suc m)
  have n: "n < 8" "m = 8 - Suc n" "2 \<le> Suc n" "Suc n \<le> 8" using Suc.hyps(2) Suc.prems(2) by simp_all
  obtain k1 where k1: "sys_close (of_nat n) k = Some (0, k1)" "tester env p literal buf {Suc n..<8} k1" "shown current k1 = shown current k"
    by (rule close_first [OF Suc.prems(1,2) n(1)])
  show ?case using Suc.hyps(1) [OF n(2) k1(2) n(3,4)] k1(1,3) by (simp add: upt_conv_Cons [OF n(1)] do_calls)
qed

lemma open_lots_passes: "passes env p literal buf ''err_open_lots'' (err_open_lots env literal)"
  unfolding passes_def
proof (intro allI impI)
  fix k assume k: "tester env p literal buf {} k"
  then have "tester env p literal buf {2..<2} k" by simp
  from open_lots_fill [OF this, of 6 0] obtain k1 where
    k1: "open_lots env literal 7 0 k = Some (1, k1)" "tester env p literal buf {2..<8} k1" "shown current k1 = shown current k" by auto
  from close_lots_empty [OF k1(2)] obtain k2 where
    k2: "close_lots env [2..<8] k1 = Some k2" "tester env p literal buf {} k2" "shown current k2 = shown current k1" by auto
  have "err_open_lots env literal k = verdict env literal ''err_open_lots'' 0 k2"
    using k1(1) k2(1) by (simp add: err_open_lots_def del: upt_rec_numeral)
  then show "\<exists>k'. err_open_lots env literal k = Some (0, k') \<and> tester env p literal buf {} k' \<and>
      shown current k' = fold spec_putc (chars (pass_line ''err_open_lots'')) (shown current k)"
    using verdict_passes [OF k2(2), of "''err_open_lots''"] k1(3) k2(3) by (simp add: test_names_def)
qed

subsection \<open>All tests\<close>

lemmas tests_pass = neg_fd_passes big_fd_passes open_lots_passes open_passes unopened_passes vidmap_passes stdin_out_passes syscall_num_passes

lemma passesD:
  assumes "passes env p literal buf name test" "tester env p literal buf {} k"
  obtains k' where "test k = Some (0, k')" "tester env p literal buf {} k'"
    "shown current k' = fold spec_putc (chars (pass_line name)) (shown current k)"
  using assms unfolding passes_def by blast

lemma run_all_tests_pass:
  assumes "tester env p literal buf {} k"
  shows "\<exists>k'. run_all_tests env literal tbuf regs k = Some (0, k') \<and>
    shown current k' = fold spec_putc (concat (map (chars \<circ> pass_line) test_names) @ chars overall_line) (shown current k)"
proof -
  obtain k1 where k1: "err_neg_fd env literal tbuf k = Some (0, k1)" "tester env p literal buf {} k1"
    "shown current k1 = fold spec_putc (chars (pass_line ''err_neg_fd'')) (shown current k)"
    by (rule passesD [OF tests_pass(1) assms])
  obtain k2 where k2: "err_big_fd env literal tbuf k1 = Some (0, k2)" "tester env p literal buf {} k2"
    "shown current k2 = fold spec_putc (chars (pass_line ''err_big_fd'')) (shown current k1)"
    by (rule passesD [OF tests_pass(2) k1(2)])
  obtain k3 where k3: "err_open_lots env literal k2 = Some (0, k3)" "tester env p literal buf {} k3"
    "shown current k3 = fold spec_putc (chars (pass_line ''err_open_lots'')) (shown current k2)"
    by (rule passesD [OF tests_pass(3) k2(2)])
  obtain k4 where k4: "err_open env literal k3 = Some (0, k4)" "tester env p literal buf {} k4"
    "shown current k4 = fold spec_putc (chars (pass_line ''err_open'')) (shown current k3)"
    by (rule passesD [OF tests_pass(4) k3(2)])
  obtain k5 where k5: "err_unopened env literal tbuf k4 = Some (0, k5)" "tester env p literal buf {} k5"
    "shown current k5 = fold spec_putc (chars (pass_line ''err_unopened'')) (shown current k4)"
    by (rule passesD [OF tests_pass(5) k4(2)])
  obtain k6 where k6: "err_vidmap env literal k5 = Some (0, k6)" "tester env p literal buf {} k6"
    "shown current k6 = fold spec_putc (chars (pass_line ''err_vidmap'')) (shown current k5)"
    by (rule passesD [OF tests_pass(6) k5(2)])
  obtain k7 where k7: "err_stdin_out env literal tbuf k6 = Some (0, k7)" "tester env p literal buf {} k7"
    "shown current k7 = fold spec_putc (chars (pass_line ''err_stdin_out'')) (shown current k6)"
    by (rule passesD [OF tests_pass(7) k6(2)])
  obtain k8 where k8: "err_syscall_num env literal regs k7 = Some (0, k8)" "tester env p literal buf {} k8"
    "shown current k8 = fold spec_putc (chars (pass_line ''err_syscall_num'')) (shown current k7)"
    by (rule passesD [OF tests_pass(8) k7(2)])
  have "overall_line \<in> set test_strings" by (simp add: test_strings_def)
  from puts_literal [OF testerD(1,7) [OF k8(2)] this] obtain k9 where
    k9: "ece391_fdputs env 1 (literal overall_line) k8 = Some k9" "printed (chars overall_line) k8 k9" by blast
  have overall: "overall_line = [CHR 0x0A] @ ''Overall Tests: '' @ ''PASS'' @ [CHR 0x0A]" by (simp add: overall_line_def pass_line_def)
  have "run_all_tests env literal tbuf regs k = Some (0, k9)"
    using k1(1) k2(1) k3(1) k4(1) k5(1) k6(1) k7(1) k8(1) k9(1)[unfolded overall] by (simp add: run_all_tests_def)
  moreover have "shown current k9 = fold spec_putc (concat (map (chars \<circ> pass_line) test_names) @ chars overall_line) (shown current k)"
    using k9(2) by (simp add: printed_def k8(3) k7(3) k6(3) k5(3) k4(3) k3(3) k2(3) k1(3) test_names_def)
  ultimately show ?thesis by blast
qed

text \<open>The test a digit selects.\<close>

definition test_of ::
  "environment \<Rightarrow> (string \<Rightarrow> u32) \<Rightarrow> u32 \<Rightarrow> u32 \<times> u32 \<times> u32 \<Rightarrow> nat \<Rightarrow> kernel \<Rightarrow> (i32 \<times> kernel) option" where
  "test_of env literal tbuf regs i = [err_neg_fd env literal tbuf, err_big_fd env literal tbuf, err_open_lots env literal,
     err_open env literal, err_unopened env literal tbuf, err_vidmap env literal, err_stdin_out env literal tbuf,
     err_syscall_num env literal regs] ! i"

lemma below_8: "i < 8 \<Longrightarrow> i = 0 \<or> i = 1 \<or> i = 2 \<or> i = 3 \<or> i = 4 \<or> i = 5 \<or> i = 6 \<or> i = 7" for i :: nat
  by linarith

lemma test_of_passes: "i < 8 \<Longrightarrow> passes env p literal buf (test_names ! i) (test_of env literal tbuf regs i)"
  by (drule below_8, elim disjE; simp add: test_of_def test_names_def tests_pass)

lemma syserr_asks:
  assumes k: "tester env p literal buf {} k" "line_waiting (c # l) k" and buf: "user_buffer buf 128"
    and l: "0 \<notin> set (c # l)" "length l \<le> 124" and fuel: "0 < fuel env"
  obtains k' where "tester env p literal buf {} k'" "shown current k' = fold spec_putc (chars menu_line) (shown current k)"
    "c = 48 \<Longrightarrow> syserr_main env literal buf tbuf regs k = run_all_tests env literal tbuf regs k'"
    "\<And>i. i < 8 \<Longrightarrow> c = 49 + of_nat i \<Longrightarrow> syserr_main env literal buf tbuf regs k = test_of env literal tbuf regs i k'"
proof -
  note t = testerD [OF k(1)]
  have menu: "menu_line \<in> set test_strings" by (simp add: test_strings_def)
  have size: "(127 :: nat) + 1 = 128" "unat (127 :: i32) = 127" "length (c # l) + 1 < 127" using l(2) by simp_all
  obtain k1 k2 where k2: "ece391_fdputs env 1 (literal menu_line) k = Some k1"
    "sys_read env 0 buf 127 k1 = Some (of_nat (length (c # l) + 1), k2)"
    "user_string p buf ((c # l) @ [10]) k2" "program p k2" "strings_at p literal test_strings buf 128 k2" "user_changed p buf 128 k1 k2"
    "pcbs k2 = pcbs k" "printed (chars menu_line) k k1" "untouched k k2" "fs k2 = fs k"
    "shown current k2 = fold spec_putc (chars menu_line) (shown current k)"
    by (rule ask_line_sized [OF t(1) k(2) _ size(2) l(1) size(3) _ menu fuel, unfolded size(1), OF buf t(7)])
  have "get_pcb_address k2 = get_pcb_address k" using k2(9) by (simp add: untouched_def get_pcb_address_def)
  moreover have "same_kernel (vmem k) (vmem k2)"
    using same_kernel_trans [OF printed_kernel [OF k2(8) programD(4) [OF t(1)]]]
      user_changed_screen(3) [OF k2(6) programD(1) [OF printed_program [OF k2(8) t(1)]]] by blast
  ultimately have k3: "tester env p literal buf {} k2"
    using tester_kept [OF k(1) k2(4) _ _ k2(5)] t(3,8) k2(7,10) by simp
  have "(of_nat (length (c # l) + 1) :: i32) \<noteq> -1" by (rule small_not_minus1) (use l(2) in simp)
  moreover have "user_load buf k2 = Some c" using user_string_hd [OF programD(1) [OF k2(4)] k2(3)] by simp
  ultimately have main: "syserr_main env literal buf tbuf regs k =
     (let select = int (unat c) - 48 in
      if select = 0 then run_all_tests env literal tbuf regs k2
      else if select = 1 then err_neg_fd env literal tbuf k2
      else if select = 2 then err_big_fd env literal tbuf k2
      else if select = 3 then err_open_lots env literal k2
      else if select = 4 then err_open env literal k2
      else if select = 5 then err_unopened env literal tbuf k2
      else if select = 6 then err_vidmap env literal k2
      else if select = 7 then err_stdin_out env literal tbuf k2
      else if select = 8 then err_syscall_num env literal regs k2
      else do {
        k \<leftarrow> ece391_fdputs env 1 (literal ''Invalid test number. Choose from tests 1-8 or 0'') k2;
        Some (0, k)
      })"
    using k2(1,2) by (simp add: syserr_main_def menu_line_def do_calls)
  have "syserr_main env literal buf tbuf regs k = test_of env literal tbuf regs i k2" if "i < 8" "c = 49 + of_nat i" for i
    using below_8 [OF that(1)] by (elim disjE; simp add: main that(2) test_of_def)
  then show thesis using that [OF k3 k2(11)] by (simp add: main)
qed

text \<open>[C9] The kernel passes the course's tests of wrong arguments. When the line that waits for \<open>syserr\<close> begins with 0,
  the program returns 0 and its terminal shows the menu, the line of every test with \<open>PASS\<close>, and the overall verdict; when it
  begins with a digit from 1 to 8, the menu and the line of that test. The process has no file open, and the directory has
  no file with one of the two names that the program takes to be wrong.\<close>

theorem syserr_passes:
  assumes "tester env p literal buf {} k" "line_waiting (c # l) k" "user_buffer buf 128"
    and "0 \<notin> set (c # l)" "length l \<le> 124" "0 < fuel env"
  shows "(c = chr8 (CHR ''0'') \<longrightarrow> (\<exists>k'. syserr_main env literal buf tbuf regs k = Some (0, k') \<and>
      shown current k' = fold spec_putc (chars menu_line @ concat (map (chars \<circ> pass_line) test_names) @ chars overall_line) (shown current k)))
    \<and> (\<forall>i < 8. c = chr8 (CHR ''1'') + of_nat i \<longrightarrow> (\<exists>k'. syserr_main env literal buf tbuf regs k = Some (0, k') \<and>
      shown current k' = fold spec_putc (chars menu_line @ chars (pass_line (test_names ! i))) (shown current k)))"
proof -
  obtain k2 where k2: "tester env p literal buf {} k2" "shown current k2 = fold spec_putc (chars menu_line) (shown current k)"
    "c = 48 \<Longrightarrow> syserr_main env literal buf tbuf regs k = run_all_tests env literal tbuf regs k2"
    "\<And>i. i < 8 \<Longrightarrow> c = 49 + of_nat i \<Longrightarrow> syserr_main env literal buf tbuf regs k = test_of env literal tbuf regs i k2"
    by (rule syserr_asks [OF assms, of tbuf regs]) (rule that, assumption+)
  have "\<exists>k'. syserr_main env literal buf tbuf regs k = Some (0, k') \<and>
      shown current k' = fold spec_putc (chars menu_line @ chars (pass_line (test_names ! i))) (shown current k)"
    if "i < 8" "c = 49 + of_nat i" for i
    using test_of_passes [OF that(1)] k2(1,2) k2(4) [OF that] unfolding passes_def by fastforce
  then show ?thesis
    using run_all_tests_pass [OF k2(1), of tbuf regs] k2(2,3) by auto
qed

end
