(* ===== verification/Session.thy ===== *)
theory Session imports Shell Programs begin

text \<open>
  A session at a terminal: the shell and a program it runs. The command that the user has typed goes through the line
  buffers, the shell, \<open>execute\<close> and the control block of the new process to the program, which reads its file and writes it
  to the terminal of the shell.
\<close>

text \<open>The local arrays of \<open>execute\<close> are apart from the directory and from a file.\<close>

definition arrays_apart :: "environment \<Rightarrow> kernel \<Rightarrow> u32 \<Rightarrow> bool" where
  "arrays_apart env k inode \<longleftrightarrow> (\<forall>a. in_region (stack_array env) 44 a \<longrightarrow>
     \<not> in_region (boot_block_addr (fs k)) 4096 a \<and> \<not> in_image (vmem k) (fs k) inode a)"

lemma named_after_execute:
  assumes named: "names_file env k name inode" and apart: "arrays_apart env k inode"
    and same: "same_kernel_but (stack_array env) 44 (vmem k) (vmem k')"
    and fs: "boot_block_addr (fs k') = boot_block_addr (fs k)" "dentry_a (fs k') = dentry_a (fs k)"
  shows "names_file env k' name inode" "file_bytes (vmem k') (fs k') inode = file_bytes (vmem k) (fs k) inode"
proof -
  note n = named [unfolded names_file_def Let_def]
  have area: "kernel_area (boot_block_addr (fs k)) 4096" and ok: "file_ok (vmem k) (fs k) inode" using n by blast+
  have block: "vmem k' a = vmem k a" if "in_region (boot_block_addr (fs k)) 4096 a" for a
    using same apart kernel_area_in [OF area that] that by (auto simp: same_kernel_but_def arrays_apart_def)
  have image: "same_image (vmem k) (vmem k') (fs k) inode"
    using same apart in_image_kernel [OF ok] by (auto simp: same_kernel_but_def arrays_apart_def same_image_def)
  show "names_file env k' name inode"
    by (rule names_file_kept_image [OF named block image fs(1)]) (use n fs(2) in simp_all)
  show "file_bytes (vmem k') (fs k') inode = file_bytes (vmem k) (fs k) inode"
    using file_kept_image(2) [OF image ok] file_ok_counts [OF fs(1)] by simp
qed

text \<open>The arguments of the new process as \<open>getargs\<close> finds them.\<close>

lemma args_of_command:
  assumes "has_args l p" "length l \<le> 126" "length (command_args l) < 32"
  shows "\<exists>tail. arg_arr p = command_args l @ 0 # tail" "sint (arg_size p) \<le> 1023"
proof -
  have "128 - length (command_args l) = Suc (127 - length (command_args l))" using assms(3) by simp
  then show "\<exists>tail. arg_arr p = command_args l @ 0 # tail" using assms(1) by (simp add: has_args_def)
  have "length (command_line l) \<le> 126" using length_takeWhile_le [of "\<lambda>c. c \<noteq> 10" l] assms(2) by simp
  moreover from this have "sint (of_nat (length (command_line l)) :: i32) = int (length (command_line l))" by (intro sint_of_nat_u32) simp
  ultimately show "sint (arg_size p) \<le> 1023" using assms(1) by (simp add: has_args_def)
qed

text \<open>[C6] From the keyboard to the screen: the line that waits for the shell names a program and, as its argument, a file. The
  shell enters the program, and when the program that runs there is \<open>cat\<close>, on any stack pointer within its own kernel stack,
  it returns 0 and the terminal shows the prompt and then the bytes of the file.\<close>

theorem shell_cat_shows_file:
  assumes prog: "program p k" "line_waiting l k" and buf: "user_buffer buf 1024"
    and l: "0 \<notin> set l" "length l \<le> 126" "l \<noteq> []" "l \<noteq> chars ''exit''"
    and strs: "strings_at p literal [''391OS> '', ''exit''] buf 1024 k" and fuel: "0 < fuel env"
    and start: "can_start k" "0 \<in> set (processes_running k)"
    and cmd: "names_program env k (command_name l) cat_inode" "length (command_name l) < 32"
    and names: "names_file env k (command_args l) inode" "command_args l \<noteq> []" "length (command_args l) < 32" "arrays_apart env k inode"
    and data: "user_buffer data 1024"
  shows "\<exists>i eip k1. shell_loop env literal buf k = Some (Enters (EnterUser eip 0x83FFFFC k1)) \<and> started i k k1 \<and>
    (\<forall>sp. kernel_stack (of_nat (i + 1)) (k1\<lparr>esp := sp\<rparr>) \<longrightarrow> (\<exists>k2. cat_main env cat_literal data (k1\<lparr>esp := sp\<rparr>) = Some (0, k2) \<and>
      shown current k2 = fold spec_putc (chars ''391OS> '' @ file_bytes (vmem k) (fs k) inode) (shown current k)))"
proof -
  have member: "''391OS> '' \<in> set [''391OS> '', ''exit'']" "''exit'' \<in> set [''391OS> '', ''exit'']" by simp_all
  define bs where "bs = file_bytes (vmem k) (fs k) cat_inode"
  obtain i k1 where k1: "shell_loop env literal buf k = Some (Enters (EnterUser (bytes_word bs 24) 0x83FFFFC k1))" "started i k k1"
    "\<forall>j < length bs. user_load (0x8048000 + of_nat j) k1 = Some (bs ! j)" "has_args l (pcbs k1 (pcb_of (of_nat (i + 1))))"
    "same_kernel_but (stack_array env) 44 (vmem k) (vmem k1)" "boot_block_addr (fs k1) = boot_block_addr (fs k)"
    "dentry_a (fs k1) = dentry_a (fs k)" "shown current k1 = fold spec_putc (chars ''391OS> '') (shown current k)" "cur.ready k1"
    by (rule shell_enters [OF prog buf l strs member fuel start cmd, folded bs_def])
  let ?a = "pcb_of (of_nat (i + 1))"
  have i: "i < 6" "runs i k1" and fresh: "fresh_pcb (of_nat (i + 1)) (get_pcb_address k) (pcbs k1 ?a)"
    using k1(2) by (simp_all add: started_def Let_def)
  obtain tail where args: "arg_arr (pcbs k1 ?a) = command_args l @ 0 # tail" "sint (arg_size (pcbs k1 ?a)) \<le> 1023"
    using args_of_command [OF k1(4) l(2) names(3)] by blast
  have nonzero: "0 \<notin> set (command_args l)"
    using l(1) by (auto simp: command_args_def dest!: in_set_dropD set_takeWhileD)
  have free: "pcb_ok (pcbs k1 ?a)" "\<exists>j. 2 \<le> j \<and> j < 8 \<and> fd_flags (fd_array (pcbs k1 ?a) ! j) ! 0 = 0"
    using fresh by (auto simp: fresh_pcb_def intro!: exI [of _ 2])
  note named = named_after_execute [OF names(1,4) k1(5-7)]
  have "\<exists>k2. cat_main env cat_literal data k' = Some (0, k2) \<and>
      shown current k2 = fold spec_putc (chars ''391OS> '' @ file_bytes (vmem k) (fs k) inode) (shown current k)"
    if k': "k' = k1\<lparr>esp := sp\<rparr>" and stack: "kernel_stack (of_nat (i + 1)) k'" for k' sp
  proof -
    have same: "paging k' = paging k1" "sched k' = sched k1" "fs k' = fs k1" "pcbs k' = pcbs k1" "phys k' = phys k1" by (simp_all add: k')
    have v: "vmem k' = vmem k1" by (rule vmem_eq [OF same(1,5)])
    have addr: "get_pcb_address k' = ?a" by (rule stack_pcb [OF i(1) stack])
    have a: "?a \<noteq> 0" using pcb_of_pid(1) [OF i(1)] i(1) by auto
    have screen: "current_term (sched k') < length (terminals (sched k'))" "cursor_ok (terminals (sched k') ! current_term (sched k'))"
      using k1(9) by (simp_all add: cur_ready same)
    have runs: "runs i k'" using i(2) by (simp add: runs_def same)
    have file': "names_file env k' (command_args l) inode" using named(1) by (simp add: names_file_def same v)
    obtain k2 where "cat_main env cat_literal data k' = Some (0, k2)"
      "shown current k2 = fold spec_putc (file_bytes (vmem k') (fs k') inode) (shown current k')"
      using cat_runs [where k = k', unfolded addr same(4), OF runs data screen free(1) a free(2) args(1) nonzero names(2,3) args(2) file']
      by blast
    moreover have "shown current k' = shown current k1"
      by (simp add: shown_def current_def get_screen_x_def get_screen_y_def window_frame_def same)
    ultimately show ?thesis using named(2) k1(8) by (simp add: v same)
  qed
  then show ?thesis using k1(1,2) by blast
qed

end
