(* ===== verification/Grep.thy ===== *)
theory Grep imports Programs "HOL-Library.Sublist" begin

text \<open>
  The program \<open>ece391grep.c\<close>. The search of one file reads it in pieces, keeps the unfinished line at the front of its
  buffer, and reports each line that contains the pattern.
\<close>

subsection \<open>\<open>ece391grep.c\<close>\<close>

text \<open>The end of the line that starts at \<open>line_end\<close>.\<close>

partial_function (option) grep_line_end :: "u32 \<Rightarrow> i32 \<Rightarrow> i32 \<Rightarrow> kernel \<Rightarrow> i32 option" where
  "grep_line_end data last' line_end k =
     (if sint line_end < sint last' then do {
        c \<leftarrow> user_load (data + line_end) k;
        if c \<noteq> 10 then grep_line_end data last' (line_end + 1) k else Some line_end
      }
      else Some line_end)"

text \<open>The search of a line for the pattern, from \<open>check\<close> on.\<close>

partial_function (option) grep_search ::
  "environment \<Rightarrow> (string \<Rightarrow> u32) \<Rightarrow> u32 \<Rightarrow> u32 \<Rightarrow> u32 \<Rightarrow> i32 \<Rightarrow> i32 \<Rightarrow> i32 \<Rightarrow> i32 \<Rightarrow> kernel \<Rightarrow> kernel option" where
  "grep_search env literal s file_name data s_len line_start line_end check k =
     (if sint check < sint line_end then do {
        a \<leftarrow> user_load s k;
        b \<leftarrow> user_load (data + check) k;
        found \<leftarrow> (if a = b then map_option (\<lambda>r. r = 0) (ece391_strncmp (data + check) s s_len k) else Some False);
        if found then do {
          k \<leftarrow> ece391_fdputs env 1 file_name k;
          k \<leftarrow> ece391_fdputs env 1 (literal '':'') k;
          k \<leftarrow> ece391_fdputs env 1 (data + line_start) k;
          ece391_fdputs env 1 (literal [CHR 0x0A]) k
        }
        else grep_search env literal s file_name data s_len line_start line_end (check + 1) k
      }
      else Some k)"

text \<open>The lines of the buffer; the result is what is left in it. The byte behind the last one is read as well.\<close>

partial_function (option) grep_lines ::
  "environment \<Rightarrow> (string \<Rightarrow> u32) \<Rightarrow> u32 \<Rightarrow> u32 \<Rightarrow> u32 \<Rightarrow> i32 \<Rightarrow> i32 \<Rightarrow> i32 \<Rightarrow> i32 \<Rightarrow> kernel \<Rightarrow> (i32 \<times> kernel) option" where
  "grep_lines env literal s file_name data s_len cnt last' line_start k = do {
     line_end \<leftarrow> grep_line_end data last' line_start k;
     c \<leftarrow> user_load (data + line_end) k;
     if c \<noteq> 10 \<and> cnt \<noteq> 0 \<and> line_start \<noteq> 0 then do {
       k \<leftarrow> user_store (data + line_end) 0 k;
       k \<leftarrow> ece391_strcpy data (data + line_start) k;
       Some (last' - line_start, k)
     }
     else do {
       k \<leftarrow> user_store (data + line_end) 0 k;
       k \<leftarrow> grep_search env literal s file_name data s_len line_start line_end line_start k;
       let line_start = line_end + 1;
       if sint last' \<le> sint line_start then Some (0, k)
       else grep_lines env literal s file_name data s_len cnt last' line_start k
     }
   }"

partial_function (option) grep_file ::
  "environment \<Rightarrow> (string \<Rightarrow> u32) \<Rightarrow> u32 \<Rightarrow> u32 \<Rightarrow> u32 \<Rightarrow> i32 \<Rightarrow> i32 \<Rightarrow> i32 \<Rightarrow> kernel \<Rightarrow> (i32 \<times> kernel) option" where
  "grep_file env literal s file_name data s_len fd last' k = do {
     (cnt, k) \<leftarrow> DO_CALL env SYS_READ fd (data + last') (1024 - last') k;
     if cnt = -1 then do {
       k \<leftarrow> ece391_fdputs env 1 (literal (''file read failed'' @ [CHR 0x0A])) k;
       Some (-1, k)
     }
     else do {
       (last', k) \<leftarrow> grep_lines env literal s file_name data s_len cnt (last' + cnt) 0 k;
       if cnt = 0 then do {
         (r, k) \<leftarrow> DO_CALL env SYS_CLOSE fd 0 0 k;
         if r = -1 then do {
           k \<leftarrow> ece391_fdputs env 1 (literal (''file close failed'' @ [CHR 0x0A])) k;
           Some (-1, k)
         }
         else Some (0, k)
       }
       else grep_file env literal s file_name data s_len fd last' k
     }
   }"

definition do_one_file :: "environment \<Rightarrow> (string \<Rightarrow> u32) \<Rightarrow> u32 \<Rightarrow> u32 \<Rightarrow> u32 \<Rightarrow> kernel \<Rightarrow> (i32 \<times> kernel) option" where
  "do_one_file env literal s file_name data k = do {
     s_len \<leftarrow> ece391_strlen s k;
     (fd, k) \<leftarrow> DO_CALL env SYS_OPEN file_name 0 0 k;
     if fd = -1 then do {
       k \<leftarrow> ece391_fdputs env 1 (literal (''file open failed'' @ [CHR 0x0A])) k;
       Some (-1, k)
     }
     else grep_file env literal s file_name data s_len fd 0 k
   }"

text \<open>The main program searches every entry whose name does not begin with a dot.\<close>

partial_function (option) grep_loop ::
  "environment \<Rightarrow> (string \<Rightarrow> u32) \<Rightarrow> u32 \<Rightarrow> u32 \<Rightarrow> u32 \<Rightarrow> i32 \<Rightarrow> kernel \<Rightarrow> (i32 \<times> kernel) option" where
  "grep_loop env literal search buf data fd k = do {
     (cnt, k) \<leftarrow> DO_CALL env SYS_READ fd buf 32 k;
     if cnt = 0 then Some (0, k)
     else if cnt = -1 then do {
       k \<leftarrow> ece391_fdputs env 1 (literal (''directory entry read failed'' @ [CHR 0x0A])) k;
       Some (3, k)
     }
     else do {
       c \<leftarrow> user_load buf k;
       if c = chr8 (CHR ''.'') then grep_loop env literal search buf data fd k
       else do {
         k \<leftarrow> user_store (buf + cnt) 0 k;
         (r, k) \<leftarrow> do_one_file env literal search buf data k;
         if r \<noteq> 0 then Some (3, k) else grep_loop env literal search buf data fd k
       }
     }
   }"

definition grep_main :: "environment \<Rightarrow> (string \<Rightarrow> u32) \<Rightarrow> u32 \<Rightarrow> u32 \<Rightarrow> u32 \<Rightarrow> kernel \<Rightarrow> (i32 \<times> kernel) option" where
  "grep_main env literal search buf data k = do {
     (r, k) \<leftarrow> DO_CALL env SYS_GETARGS search 1024 0 k;
     if r \<noteq> 0 then do {
       k \<leftarrow> ece391_fdputs env 1 (literal (''could not read argument'' @ [CHR 0x0A])) k;
       Some (3, k)
     }
     else do {
       (fd, k) \<leftarrow> DO_CALL env SYS_OPEN (literal ''.'') 0 0 k;
       if fd = -1 then do {
         k \<leftarrow> ece391_fdputs env 1 (literal (''directory open failed'' @ [CHR 0x0A])) k;
         Some (2, k)
       }
       else grep_loop env literal search buf data fd k
     }
   }"

subsection \<open>What is to be reported\<close>

function lines_of :: "u8 list \<Rightarrow> u8 list list" where
  "lines_of [] = []"
| "lines_of (x # xs) = takeWhile (\<lambda>c. c \<noteq> 10) (x # xs) # lines_of (drop (length (takeWhile (\<lambda>c. c \<noteq> 10) (x # xs)) + 1) (x # xs))"
  by pat_completeness auto
termination by (relation "measure length") (auto simp: less_Suc_eq_le)

lemma lines_of_unfold: "xs \<noteq> [] \<Longrightarrow> lines_of xs = takeWhile (\<lambda>c. c \<noteq> 10) xs # lines_of (drop (length (takeWhile (\<lambda>c. c \<noteq> 10) xs) + 1) xs)"
  by (cases xs) simp_all

lemma takeWhile_newline: "10 \<notin> set xs \<Longrightarrow> takeWhile (\<lambda>c. c \<noteq> 10) (xs @ ys) = xs @ takeWhile (\<lambda>c. c \<noteq> (10 :: u8)) ys"
  by (induction xs) auto

lemma lines_of_line: "10 \<notin> set xs \<Longrightarrow> lines_of (xs @ 10 # ys) = xs # lines_of ys"
  by (subst lines_of_unfold) (simp_all add: takeWhile_newline)

lemma lines_of_last: "10 \<notin> set xs \<Longrightarrow> xs \<noteq> [] \<Longrightarrow> lines_of xs = [xs]"
  using takeWhile_newline [of xs "[]"] by (subst lines_of_unfold) (simp_all del: takeWhile_eq_all_conv)

lemma lines_of_append: "don = [] \<or> last don = 10 \<Longrightarrow> lines_of (don @ zs) = lines_of don @ lines_of zs"
proof (induction don rule: length_induct)
  case (1 don)
  show ?case
  proof (cases "don = []")
    case False
    have "10 \<in> set don" using False 1(2) last_in_set [OF False] by auto
    then obtain l r where don: "don = l @ 10 # r" and l: "10 \<notin> set l" using split_list_first by metis
    have "r = [] \<or> last r = 10" using 1(2) don by (cases "r = []") auto
    moreover have "length r < length don" by (simp add: don)
    ultimately have "lines_of (r @ zs) = lines_of r @ lines_of zs" using 1(1) by blast
    then show ?thesis using lines_of_line [OF l] by (simp add: don)
  qed simp
qed

definition grep_report :: "u8 list \<Rightarrow> u8 list \<Rightarrow> u8 list \<Rightarrow> u8 list" where
  "grep_report pat name line = (if pat \<noteq> [] \<and> sublist pat line then name @ chars '':'' @ line @ [10] else [])"

definition reports :: "u8 list \<Rightarrow> u8 list \<Rightarrow> u8 list \<Rightarrow> u8 list" where
  "reports pat name xs = concat (map (grep_report pat name) (lines_of xs))"

lemma grep_report_empty: "grep_report pat name [] = []"
  by (simp add: grep_report_def)

lemma reports_line: "10 \<notin> set xs \<Longrightarrow> reports pat name (xs @ 10 # ys) = grep_report pat name xs @ reports pat name ys"
  by (simp add: reports_def lines_of_line)

lemma reports_last: "10 \<notin> set xs \<Longrightarrow> reports pat name xs = grep_report pat name xs"
  by (cases "xs = []") (simp_all add: reports_def lines_of_last grep_report_empty)

lemma reports_append: "don = [] \<or> last don = 10 \<Longrightarrow> reports pat name (don @ zs) = reports pat name don @ reports pat name zs"
  by (simp add: reports_def lines_of_append)

subsection \<open>Bytes in the memory of the program\<close>

definition bytes_at :: "nat \<Rightarrow> u32 \<Rightarrow> u8 list \<Rightarrow> kernel \<Rightarrow> bool" where
  "bytes_at p va xs k \<longleftrightarrow> (\<forall>i < length xs. phys k (user_pa p va + of_nat i) = xs ! i)"

lemma bytes_at_append: "bytes_at p va (xs @ ys) k \<longleftrightarrow> bytes_at p va xs k \<and> bytes_at p (va + of_nat (length xs)) ys k"
proof
  assume all: "bytes_at p va (xs @ ys) k"
  have "phys k (user_pa p (va + of_nat (length xs)) + of_nat i) = ys ! i" if "i < length ys" for i
    using all [unfolded bytes_at_def, rule_format, of "length xs + i"] that by (simp add: user_pa_shift add.assoc)
  moreover have "phys k (user_pa p va + of_nat i) = xs ! i" if "i < length xs" for i
    using all [unfolded bytes_at_def, rule_format, of i] that by (simp add: nth_append)
  ultimately show "bytes_at p va xs k \<and> bytes_at p (va + of_nat (length xs)) ys k" by (simp add: bytes_at_def)
next
  assume parts: "bytes_at p va xs k \<and> bytes_at p (va + of_nat (length xs)) ys k"
  show "bytes_at p va (xs @ ys) k"
    unfolding bytes_at_def
  proof (intro allI impI)
    fix i assume i: "i < length (xs @ ys)"
    show "phys k (user_pa p va + of_nat i) = (xs @ ys) ! i"
    proof (cases "i < length xs")
      case False
      define j where "j = i - length xs"
      have j: "i = length xs + j" "j < length ys" using False i by (simp_all add: j_def)
      have "phys k (user_pa p (va + of_nat (length xs)) + of_nat j) = ys ! j" using parts j(2) by (simp add: bytes_at_def)
      then show ?thesis by (simp add: j(1) nth_append user_pa_shift add.assoc)
    qed (use parts in \<open>simp add: bytes_at_def nth_append\<close>)
  qed
qed

lemma bytes_at_load:
  assumes "runs p k" "user_buffer va n" "bytes_at p va xs k" "i < length xs" "length xs \<le> n"
  shows "user_load (va + of_nat i) k = Some (xs ! i)"
  using user_load_window [OF assms(1,2), of i] assms(3-5) by (simp add: bytes_at_def)

lemma bytes_at_string:
  assumes "bytes_at p va (xs @ [0]) k" "user_buffer va (length xs + 1)" "0 \<notin> set xs"
  shows "user_string p va xs k"
  using assms by (simp add: user_string_def bytes_at_def less_Suc_eq_le)

lemma printed_bytes:
  assumes "printed out k k'" "program p k" "user_buffer va n" "length xs \<le> n"
  shows "bytes_at p va xs k' = bytes_at p va xs k"
  using printed_user [OF assms(1-3)] assms(4) by (simp add: bytes_at_def)

subsection \<open>The process while it works on its buffer\<close>

definition rest_kept :: "nat \<Rightarrow> u32 \<Rightarrow> kernel \<Rightarrow> kernel \<Rightarrow> bool" where
  "rest_kept p data k k' \<longleftrightarrow> (\<forall>va n i. user_buffer va n \<and> apart va n data 1025 \<and> i < n \<longrightarrow>
     phys k' (user_pa p va + of_nat i) = phys k (user_pa p va + of_nat i))"

definition working :: "nat \<Rightarrow> u32 \<Rightarrow> u8 list \<Rightarrow> kernel \<Rightarrow> kernel \<Rightarrow> bool" where
  "working p data out k k' \<longleftrightarrow> program p k' \<and> untouched k k' \<and> fs k' = fs k \<and> same_kernel (vmem k) (vmem k') \<and>
     shown current k' = fold spec_putc out (shown current k) \<and> rest_kept p data k k'"

lemma rest_kept_trans: "rest_kept p data k k1 \<Longrightarrow> rest_kept p data k1 k2 \<Longrightarrow> rest_kept p data k k2"
  unfolding rest_kept_def by metis

lemma working_trans:
  assumes "working p data xs k k1" "working p data ys k1 k2"
  shows "working p data (xs @ ys) k k2"
  using assms untouched_trans [of k k1 k2] same_kernel_trans [of "vmem k" "vmem k1" "vmem k2"] rest_kept_trans [of p data k k1 k2]
  by (simp add: working_def)

lemma working_printed:
  assumes "printed xs k k'" "program p k"
  shows "working p data xs k k'"
proof -
  have "rest_kept p data k k'" using printed_user [OF assms] unfolding rest_kept_def by blast
  then show ?thesis
    using printed_program [OF assms] printed_untouched [OF assms(1)] printed_fields(4) [OF assms(1)]
      printed_kernel [OF assms(1) programD(4) [OF assms(2)]] assms(1)
    by (simp add: working_def printed_def)
qed

lemma rest_kept_region:
  assumes data: "user_buffer data 1025" "p < 6" and m: "\<And>a. \<not> in_region (user_pa p data) 1025 a \<Longrightarrow> phys k' a = phys k a"
  shows "rest_kept p data k k'"
proof -
  have "phys k' (user_pa p va + of_nat i) = phys k (user_pa p va + of_nat i)"
    if "user_buffer va n" "apart va n data 1025" "i < n" for va n i
    by (rule m, rule user_range_apart [OF that(1) data(1) _ data(2) that(3)]) (use that(2) in \<open>simp add: apart_def\<close>)
  then show ?thesis by (auto simp: rest_kept_def)
qed

lemma working_changed:
  assumes k: "program p k" "user_buffer data 1025" and m: "\<And>a. \<not> in_region (user_pa p data) 1025 a \<Longrightarrow> m a = phys k a"
  shows "working p data [] k (k\<lparr>phys := m\<rparr>)"
proof -
  let ?k = "k\<lparr>phys := m\<rparr>"
  have changed: "user_changed p data 1025 k ?k" using k(2) m by (simp add: user_changed_def get_pcb_address_def)
  note screen = user_changed_screen [OF changed programD(1) [OF k(1)]]
  have "program p ?k" by (rule user_changed_program [OF changed k(1)]) simp
  moreover have "rest_kept p data k ?k" by (rule rest_kept_region [OF k(2) programD(3) [OF k(1)]]) (use m in simp)
  ultimately show ?thesis using screen(1,3) by (simp add: working_def untouched_phys)
qed

definition aside :: "nat \<Rightarrow> u32 \<Rightarrow> u32 \<Rightarrow> u8 list \<Rightarrow> kernel \<Rightarrow> bool" where
  "aside p data va xs k \<longleftrightarrow> user_string p va xs k \<and> apart va (length xs + 1) data 1025"

lemma aside_kept:
  assumes "rest_kept p data k k'" "aside p data va xs k"
  shows "aside p data va xs k'"
proof -
  have "user_buffer va (length xs + 1)" "apart va (length xs + 1) data 1025" using assms(2) by (simp_all add: aside_def user_string_def)
  then have "phys k' (user_pa p va + of_nat i) = phys k (user_pa p va + of_nat i)" if "i \<le> length xs" for i
    using assms(1) that unfolding rest_kept_def by (metis less_Suc_eq_le Suc_eq_plus1)
  then show ?thesis using assms(2) by (simp add: aside_def user_string_def)
qed

text \<open>The strings of the search.\<close>

definition grepping :: "nat \<Rightarrow> (string \<Rightarrow> u32) \<Rightarrow> u32 \<Rightarrow> u8 list \<Rightarrow> u32 \<Rightarrow> u8 list \<Rightarrow> u32 \<Rightarrow> kernel \<Rightarrow> bool" where
  "grepping p literal s pat file_name name data k \<longleftrightarrow> program p k \<and> user_buffer data 1025 \<and> aside p data s pat k \<and>
     aside p data file_name name k \<and> aside p data (literal '':'') (chars '':'') k \<and> aside p data (literal [CHR 0x0A]) (chars [CHR 0x0A]) k"

lemma grepping_rest:
  "rest_kept p data k k' \<Longrightarrow> program p k' \<Longrightarrow> grepping p literal s pat file_name name data k \<Longrightarrow> grepping p literal s pat file_name name data k'"
  using aside_kept [of p data k k'] unfolding grepping_def by blast

lemma grepping_kept:
  "working p data out k k' \<Longrightarrow> grepping p literal s pat file_name name data k \<Longrightarrow> grepping p literal s pat file_name name data k'"
  using grepping_rest [of p data k k'] unfolding working_def by blast

lemma unat_minus_one_u32: "unat (- 1 :: u32) = 4294967295"
proof -
  have "(- 1 :: u32) = 4294967295" by simp
  then show ?thesis by (simp only: unat_numeral) simp
qed

text \<open>Copying a string down over itself.\<close>

lemma strcpy_down:
  assumes "runs p k" "user_string p (dst + of_nat m) xs k" "0 < m" "user_buffer dst (m + length xs + 1)"
  shows "\<exists>f. ece391_strcpy dst (dst + of_nat m) k = Some (k\<lparr>phys := f\<rparr>) \<and> bytes_at p dst (xs @ [0]) (k\<lparr>phys := f\<rparr>) \<and>
    (\<forall>a. \<not> in_region (user_pa p dst) (length xs + 1) a \<longrightarrow> f a = phys k a)"
  using assms
proof (induction xs arbitrary: dst k)
  case Nil
  have one: "user_buffer dst 1" using user_buffer_mono [OF Nil(4)] by simp
  have "user_load (dst + of_nat m) k = Some 0" using user_string_hd [OF Nil(1,2)] by simp
  moreover have "user_store dst 0 k = Some (k\<lparr>phys := (phys k)(user_pa p dst := 0)\<rparr>)"
    using user_store_window [OF Nil(1) one, of 0] by simp
  ultimately have "ece391_strcpy dst (dst + of_nat m) k = Some (k\<lparr>phys := (phys k)(user_pa p dst := 0)\<rparr>)"
    by (subst ece391_strcpy.simps) simp
  moreover define f where "f = (phys k)(user_pa p dst := 0)"
  ultimately have run: "ece391_strcpy dst (dst + of_nat m) k = Some (k\<lparr>phys := f\<rparr>)" by simp
  have "bytes_at p dst [0] (k\<lparr>phys := f\<rparr>)" "\<not> in_region (user_pa p dst) 1 a \<longrightarrow> f a = phys k a" for a
    by (auto simp: f_def bytes_at_def in_region_def)
  then show ?case using run by (intro exI [of _ f]) simp
next
  case (Cons x xs)
  have one: "user_buffer dst 1" using user_buffer_mono [OF Cons.prems(4)] by simp
  have x: "x \<noteq> 0" using Cons.prems(2) by (auto simp: user_string_def)
  define k1 where "k1 = k\<lparr>phys := (phys k)(user_pa p dst := x)\<rparr>"
  have load: "user_load (dst + of_nat m) k = Some x" using user_string_hd [OF Cons.prems(1,2)] by simp
  have store: "user_store dst x k = Some k1"
    using user_store_window [OF Cons.prems(1) one, of 0] by (simp add: k1_def)
  note tl = user_string_tl(1) [OF Cons.prems(2)]
  have shift: "dst + of_nat m + 1 = dst + 1 + of_nat m" by (simp add: algebra_simps)
  have runs1: "runs p k1" using Cons.prems(1) by (simp add: k1_def runs_def)
  have d: "0x8000000 \<le> unat dst" "unat dst + (m + length xs + 2) \<le> 0x8400000" using Cons.prems(4) by (simp_all add: user_buffer_def)
  have u: "unat (dst + 1) = unat dst + 1" using d unat_add_small [of dst 1] by simp
  have um: "unat (dst + 1 + of_nat m) = unat dst + 1 + m"
    using d u unat_add_small [of "dst + 1" "of_nat m"] by (simp add: unat_of_nat_u32)
  have away: "\<not> in_region (user_pa p dst) 1 a \<longrightarrow> phys k1 a = phys k a" for a by (auto simp: k1_def in_region_def)
  have p6: "p < 6" using Cons.prems(1) by (simp add: runs_def)
  have "user_string p (dst + 1 + of_nat m) xs k1"
    by (rule user_string_kept [OF tl [unfolded shift] one _ p6]) (use away um d in \<open>auto simp: apart_def\<close>)
  moreover have "user_buffer (dst + 1) (m + length xs + 1)" using d u by (simp add: user_buffer_def)
  ultimately obtain f where f: "ece391_strcpy (dst + 1) (dst + 1 + of_nat m) k1 = Some (k1\<lparr>phys := f\<rparr>)"
    "bytes_at p (dst + 1) (xs @ [0]) (k1\<lparr>phys := f\<rparr>)" "\<forall>a. \<not> in_region (user_pa p (dst + 1)) (length xs + 1) a \<longrightarrow> f a = phys k1 a"
    using Cons.IH [OF runs1 _ Cons.prems(3)] by blast
  have same: "k1\<lparr>phys := f\<rparr> = k\<lparr>phys := f\<rparr>" by (simp add: k1_def)
  have run: "ece391_strcpy dst (dst + of_nat m) k = Some (k\<lparr>phys := f\<rparr>)"
    using load store f(1) x by (subst ece391_strcpy.simps) (simp add: same shift)
  have pa: "user_pa p (dst + 1) = user_pa p dst + 1" using user_pa_shift [of p dst 1] by simp
  have "\<not> in_region (user_pa p (dst + 1)) (length xs + 1) (user_pa p dst)"
    using d by (simp add: pa in_region_def unat_minus_one_u32)
  then have hd: "bytes_at p dst [x] (k\<lparr>phys := f\<rparr>)" using f(3) by (simp add: bytes_at_def k1_def)
  have out: "f a = phys k a" if "\<not> in_region (user_pa p dst) (length (x # xs) + 1) a" for a
  proof -
    have "\<not> in_region (user_pa p dst) 1 a \<and> \<not> in_region (user_pa p (dst + 1)) (length xs + 1) a"
      using that d in_region_split [of 1 "length xs + 1" "user_pa p dst" a] by (simp add: pa)
    then show ?thesis using f(3) away by simp
  qed
  have "bytes_at p dst ([x] @ xs @ [0]) (k\<lparr>phys := f\<rparr>)"
    unfolding bytes_at_append [of p dst "[x]"] using hd f(2) by (simp add: same)
  then show ?case using run out by auto
qed

subsection \<open>The search of a line\<close>

lemma line_end_run:
  assumes k: "runs p k" "user_buffer data 1025" "bytes_at p (data + of_nat ls) xs k" and n: "ls + length xs \<le> 1024"
  shows "grep_line_end data (of_nat (ls + length xs)) (of_nat ls) k = Some (of_nat (ls + length (takeWhile (\<lambda>c. c \<noteq> 10) xs)))"
  using assms
proof (induction xs arbitrary: ls)
  case Nil
  then show ?case by (subst grep_line_end.simps) simp
next
  case (Cons x xs)
  have less: "sint (of_nat ls :: i32) < sint (of_nat (ls + length (x # xs)) :: i32)"
  proof -
    have "sint (of_nat (ls + length (x # xs)) :: i32) = int (ls + length (x # xs))" "sint (of_nat ls :: i32) = int ls"
      by (rule sint_of_nat_u32, use Cons.prems(4) in simp)+
    then show ?thesis by (simp del: of_nat_add)
  qed
  have "user_load (data + of_nat ls) k = Some x"
    using user_load_window [OF Cons.prems(1,2), of ls] Cons.prems(3,4) by (auto simp: bytes_at_def user_pa_shift)
  moreover have "bytes_at p (data + of_nat (Suc ls)) xs k"
    using bytes_at_append [of p "data + of_nat ls" "[x]" xs k] Cons.prems(3) by (simp add: algebra_simps)
  then have "grep_line_end data (of_nat (Suc ls + length xs)) (of_nat (Suc ls)) k =
      Some (of_nat (Suc ls + length (takeWhile (\<lambda>c. c \<noteq> 10) xs)))"
    by (rule Cons.IH [OF Cons.prems(1,2)]) (use Cons.prems(4) in simp)
  ultimately show ?case
    using less by (subst grep_line_end.simps) (simp add: algebra_simps)
qed

lemma report_prints:
  assumes g: "grepping p literal s pat file_name name data k" and line: "user_string p va line k"
  obtains k' where
    "do { k \<leftarrow> ece391_fdputs env 1 file_name k; k \<leftarrow> ece391_fdputs env 1 (literal '':'') k;
       k \<leftarrow> ece391_fdputs env 1 va k; ece391_fdputs env 1 (literal [CHR 0x0A]) k } = Some k'"
    "printed (name @ chars '':'' @ line @ chars [CHR 0x0A]) k k'"
proof -
  have str: "program p k" "user_string p file_name name k" "user_string p (literal '':'') (chars '':'') k"
    "user_string p (literal [CHR 0x0A]) (chars [CHR 0x0A]) k"
    using g by (simp_all add: grepping_def aside_def)
  obtain k1 where k1: "ece391_fdputs env 1 file_name k = Some k1" "printed name k k1" by (rule fdputs_prints [OF str(1,2)])
  note p1 = printed_program [OF k1(2) str(1)] and s1 = printed_string [OF k1(2) str(1)]
  obtain k2 where k2: "ece391_fdputs env 1 (literal '':'') k1 = Some k2" "printed (chars '':'') k1 k2"
    by (rule fdputs_prints [OF p1, of "literal '':''" "chars '':''"]) (use str s1 in simp_all)
  note p2 = printed_program [OF k2(2) p1] and s2 = printed_string [OF k2(2) p1]
  obtain k3 where k3: "ece391_fdputs env 1 va k2 = Some k3" "printed line k2 k3"
    by (rule fdputs_prints [OF p2, of va line]) (use line s1 s2 in simp_all)
  note p3 = printed_program [OF k3(2) p2] and s3 = printed_string [OF k3(2) p2]
  obtain k4 where k4: "ece391_fdputs env 1 (literal [CHR 0x0A]) k3 = Some k4" "printed (chars [CHR 0x0A]) k3 k4"
    by (rule fdputs_prints [OF p3, of "literal [CHR 0x0A]" "chars [CHR 0x0A]"]) (use str s1 s2 s3 in simp_all)
  show thesis
    by (rule that [of k4]) (use k1 k2 k3 k4 printed_trans in \<open>auto intro: printed_trans\<close>)
qed

lemma user_string_drop: "user_string p va (pre @ suf) k \<Longrightarrow> user_string p (va + of_nat (length pre)) suf k"
proof (induction pre arbitrary: va)
  case (Cons x pre)
  then have "user_string p (va + 1) (pre @ suf) k" using user_string_tl(1) by simp
  from Cons.IH [OF this] show ?case by (simp add: algebra_simps)
qed simp

lemma search_line:
  assumes g: "grepping p literal s pat file_name name data k" and line: "user_string p (data + of_nat ls) (pre @ suf) k"
    and n: "ls + length pre + length suf \<le> 1024"
  shows "\<exists>k'. grep_search env literal s file_name data (of_nat (length pat)) (of_nat ls) (of_nat (ls + length pre + length suf))
      (of_nat (ls + length pre)) k = Some k' \<and>
    printed (if pat \<noteq> [] \<and> sublist pat suf then name @ chars '':'' @ (pre @ suf) @ chars [CHR 0x0A] else []) k k'"
  using line n
proof (induction suf arbitrary: pre)
  case Nil
  have "program p k" using g by (simp add: grepping_def)
  then have "cur.ready k" by (rule programD(2))
  then show ?case by (subst grep_search.simps) (simp add: printed_refl)
next
  case (Cons x suf)
  have prog: "program p k" and s: "user_string p s pat k" using g by (simp_all add: grepping_def aside_def)
  note runs = programD(1) [OF prog]
  let ?stop = "of_nat (ls + length pre + length (x # suf)) :: i32" and ?check = "of_nat (ls + length pre) :: i32"
  have "sint ?stop = int (ls + length pre + length (x # suf))" "sint ?check = int (ls + length pre)"
    by (rule sint_of_nat_u32, use Cons.prems(2) in simp)+
  then have less: "sint ?check < sint ?stop" by (simp del: of_nat_add)
  have at: "data + ?check = data + of_nat ls + of_nat (length pre)" by (simp add: algebra_simps)
  have here: "user_string p (data + ?check) (x # suf) k"
    unfolding at by (rule user_string_drop [OF Cons.prems(1)])
  have b: "user_load (data + ?check) k = Some x" using user_string_hd [OF runs here] by simp
  have a: "user_load s k = Some (case pat of [] \<Rightarrow> 0 | c # _ \<Rightarrow> c)" by (rule user_string_hd [OF runs s])
  have nul: "0 \<notin> set pat" "0 \<notin> set (x # suf)" using s here by (simp_all add: user_string_def)
  have len: "unat (of_nat (length pat) :: u32) = length pat" using user_string_length [OF s] by (simp add: unat_of_nat_u32)
  define r where "r = compare_strings (take (length pat) (x # suf)) pat"
  have cmp: "ece391_strncmp (data + ?check) s (of_nat (length pat)) k = Some r"
    using strncmp_user [OF runs here s, of "of_nat (length pat)"] by (simp add: len r_def)
  have "0 \<notin> set (take (length pat) (x # suf))" using nul(2) by (meson in_set_takeD)
  from compare_strings_0 [OF this nul(1)] have zero: "r = 0 \<longleftrightarrow> prefix pat (x # suf)"
    unfolding r_def by (metis append_eq_conv_conj append_take_drop_id prefix_def)
  have match: "(case pat of [] \<Rightarrow> 0 | c # _ \<Rightarrow> c) = x \<and> r = 0 \<longleftrightarrow> pat \<noteq> [] \<and> prefix pat (x # suf)"
    using zero nul(2) by (cases pat) auto
  have step: "grep_search env literal s file_name data (of_nat (length pat)) (of_nat ls) ?stop ?check k =
      (if pat \<noteq> [] \<and> prefix pat (x # suf) then do {
          k \<leftarrow> ece391_fdputs env 1 file_name k;
          k \<leftarrow> ece391_fdputs env 1 (literal '':'') k;
          k \<leftarrow> ece391_fdputs env 1 (data + of_nat ls) k;
          ece391_fdputs env 1 (literal [CHR 0x0A]) k
        }
       else grep_search env literal s file_name data (of_nat (length pat)) (of_nat ls) ?stop (?check + 1) k)"
    unfolding match [symmetric] using less a b cmp by (subst grep_search.simps) simp
  show ?case
  proof (cases "pat \<noteq> [] \<and> prefix pat (x # suf)")
    case True
    obtain k' where "do { k \<leftarrow> ece391_fdputs env 1 file_name k; k \<leftarrow> ece391_fdputs env 1 (literal '':'') k;
       k \<leftarrow> ece391_fdputs env 1 (data + of_nat ls) k; ece391_fdputs env 1 (literal [CHR 0x0A]) k } = Some k'"
      "printed (name @ chars '':'' @ (pre @ x # suf) @ chars [CHR 0x0A]) k k'"
      by (rule report_prints [OF g Cons.prems(1)])
    moreover have "sublist pat (x # suf)" using True by (simp add: prefix_imp_sublist)
    ultimately show ?thesis using step True by (intro exI [of _ k']) simp
  next
    case False
    have "ls + length (pre @ [x]) + length suf \<le> 1024" using Cons.prems(2) by simp
    from Cons.IH [OF _ this] Cons.prems(1) obtain k' where
      k': "grep_search env literal s file_name data (of_nat (length pat)) (of_nat ls) (of_nat (ls + length (pre @ [x]) + length suf))
        (of_nat (ls + length (pre @ [x]))) k = Some k'"
      "printed (if pat \<noteq> [] \<and> sublist pat suf then name @ chars '':'' @ ((pre @ [x]) @ suf) @ chars [CHR 0x0A] else []) k k'" by auto
    have eqs: "(of_nat (ls + length (pre @ [x]) + length suf) :: i32) = ?stop" "(of_nat (ls + length (pre @ [x])) :: i32) = ?check + 1"
      by (simp_all add: algebra_simps)
    have sub: "(pat \<noteq> [] \<and> sublist pat (x # suf)) = (pat \<noteq> [] \<and> sublist pat suf)" using False by (auto simp: sublist_Cons_right)
    have run: "grep_search env literal s file_name data (of_nat (length pat)) (of_nat ls) ?stop ?check k = Some k'"
      using step k'(1) [unfolded eqs] by (simp only: False if_False)
    show ?thesis
      unfolding sub using run k'(2) by (intro exI [of _ k']) (simp only: append_assoc append_Cons append_Nil simp_thms)
  qed
qed

subsection \<open>The lines of the buffer\<close>

text \<open>The byte behind the buffer of 1024.\<close>

abbreviation (input) "last_byte p data k \<equiv> phys k (user_pa p data + 1024)"

lemma data_store:
  fixes b :: u8
  assumes k: "program p k" "user_buffer data 1025" and e: "e < 1025"
  defines "k' \<equiv> k\<lparr>phys := (phys k)(user_pa p data + of_nat e := b)\<rparr>"
  shows "user_store (data + of_nat e) b k = Some k'" "working p data [] k k'"
proof -
  show "user_store (data + of_nat e) b k = Some k'"
    unfolding k'_def by (rule user_store_window [OF programD(1) [OF k(1)] k(2)]) (use e in \<open>simp add: unat_of_nat_u32\<close>)
  have "in_region (user_pa p data) 1025 (user_pa p data + of_nat e)" using e by (simp add: in_region_def unat_of_nat_u32)
  then show "working p data [] k k'" unfolding k'_def by (intro working_changed [OF k]) auto
qed

lemma offset_eq: "i < 1025 \<Longrightarrow> j < 1025 \<Longrightarrow> a + of_nat i = a + of_nat j \<longleftrightarrow> i = j" for a :: u32
proof -
  assume "i < 1025" "j < 1025"
  then have "(of_nat i :: u32) = of_nat j \<longleftrightarrow> i = j" by (simp add: word_unat_eq_iff unat_of_nat_u32)
  then show ?thesis by simp
qed

text \<open>A line is cut off at \<open>ls + length line\<close> and searched.\<close>

lemma line_reported:
  assumes g: "grepping p literal s pat file_name name data k" and line: "bytes_at p (data + of_nat ls) line k" "0 \<notin> set line"
    and n: "ls + length line \<le> 1024"
  obtains k1 k2 where "user_store (data + of_nat (ls + length line)) 0 k = Some k1"
    "grep_search env literal s file_name data (of_nat (length pat)) (of_nat ls) (of_nat (ls + length line)) (of_nat ls) k1 = Some k2"
    "working p data (grep_report pat name line) k k2"
    "\<forall>i < 1025. phys k2 (user_pa p data + of_nat i) = (if i = ls + length line then 0 else phys k (user_pa p data + of_nat i))"
proof -
  have prog: "program p k" and data: "user_buffer data 1025" using g by (simp_all add: grepping_def)
  have e: "ls + length line < 1025" using n by simp
  define k1 where "k1 = k\<lparr>phys := (phys k)(user_pa p data + of_nat (ls + length line) := 0)\<rparr>"
  note store = data_store [OF prog data e, of 0, folded k1_def]
  have g1: "grepping p literal s pat file_name name data k1" by (rule grepping_kept [OF store(2) g])
  have p1: "program p k1" using g1 by (simp add: grepping_def)
  have at: "phys k1 (user_pa p data + of_nat i) = (if i = ls + length line then 0 else phys k (user_pa p data + of_nat i))"
    if "i < 1025" for i using offset_eq [OF that e] by (simp add: k1_def del: of_nat_add)
  have "bytes_at p (data + of_nat ls) (line @ [0]) k1"
    unfolding bytes_at_def
  proof (intro allI impI)
    fix i assume i: "i < length (line @ [0])"
    have "user_pa p (data + of_nat ls) + of_nat i = user_pa p data + of_nat (ls + i)" by (simp add: user_pa_shift add.assoc)
    moreover have "phys k (user_pa p data + of_nat (ls + i)) = line ! i" if "i < length line"
      using line(1) that by (simp add: bytes_at_def user_pa_shift add.assoc)
    ultimately show "phys k1 (user_pa p (data + of_nat ls) + of_nat i) = (line @ [0]) ! i"
      using at [of "ls + i"] i n by (cases "i < length line") (auto simp: nth_append simp del: of_nat_add)
  qed
  moreover have "user_buffer (data + of_nat ls) (length line + 1)"
    using user_buffer_shift [of data ls "length line + 1"] user_buffer_mono [OF data] n by simp
  ultimately have string: "user_string p (data + of_nat ls) ([] @ line) k1" using bytes_at_string line(2) by simp
  have nl: "chars [CHR 0x0A] = [10]" by (simp add: chars_def)
  obtain k2 where k2: "grep_search env literal s file_name data (of_nat (length pat)) (of_nat ls) (of_nat (ls + length line)) (of_nat ls) k1 = Some k2"
    "printed (grep_report pat name line) k1 k2"
    using search_line [OF g1 string, of env, unfolded append_Nil nl, folded grep_report_def] n by auto
  have "phys k2 (user_pa p data + of_nat i) = phys k1 (user_pa p data + of_nat i)" if "i < 1025" for i
    by (rule printed_user [OF k2(2) p1 data that])
  moreover have "working p data (grep_report pat name line) k k2"
    using working_trans [OF store(2) working_printed [OF k2(2) p1]] by simp
  ultimately show thesis using that store(1) k2(1) at by simp
qed

definition window_bytes :: "nat \<Rightarrow> u32 \<Rightarrow> nat \<Rightarrow> kernel \<Rightarrow> u8" where
  "window_bytes p data i k = phys k (user_pa p data + of_nat i)"

lemma bytes_at_window: "bytes_at p (data + of_nat ls) xs k \<longleftrightarrow> (\<forall>i < length xs. window_bytes p data (ls + i) k = xs ! i)"
  by (simp add: bytes_at_def window_bytes_def user_pa_shift add.assoc)

text \<open>The unfinished line goes to the front.\<close>

lemma line_moved:
  assumes g: "grepping p literal s pat file_name name data k" and line: "bytes_at p (data + of_nat ls) line k" "0 \<notin> set line"
    and n: "ls + length line \<le> 1024" "0 < ls"
  obtains k1 k2 where "user_store (data + of_nat (ls + length line)) 0 k = Some k1" "ece391_strcpy data (data + of_nat ls) k1 = Some k2"
    "working p data [] k k2" "bytes_at p data line k2"
    "\<And>i. length line < i \<Longrightarrow> i < 1025 \<Longrightarrow> i \<noteq> ls + length line \<Longrightarrow> window_bytes p data i k2 = window_bytes p data i k"
    "window_bytes p data (ls + length line) k2 = 0"
proof -
  have prog: "program p k" and data: "user_buffer data 1025" using g by (simp_all add: grepping_def)
  have e: "ls + length line < 1025" using n by simp
  define k1 where "k1 = k\<lparr>phys := (phys k)(user_pa p data + of_nat (ls + length line) := 0)\<rparr>"
  note store = data_store [OF prog data e, of 0, folded k1_def]
  have p1: "program p k1" using store(2) by (simp add: working_def)
  have at: "window_bytes p data i k1 = (if i = ls + length line then 0 else window_bytes p data i k)" if "i < 1025" for i
    using offset_eq [OF that e] by (simp add: window_bytes_def k1_def del: of_nat_add)
  have "bytes_at p (data + of_nat ls) (line @ [0]) k1"
    unfolding bytes_at_window
  proof (intro allI impI)
    fix i assume "i < length (line @ [0])"
    then show "window_bytes p data (ls + i) k1 = (line @ [0]) ! i"
      using at [of "ls + i"] line(1) [unfolded bytes_at_window] e by (cases "i < length line") (auto simp: nth_append)
  qed
  moreover have "user_buffer (data + of_nat ls) (length line + 1)"
    using user_buffer_shift [of data ls "length line + 1"] user_buffer_mono [OF data] n by simp
  ultimately have string: "user_string p (data + of_nat ls) line k1" using bytes_at_string line(2) by simp
  have room: "user_buffer data (ls + length line + 1)" using user_buffer_mono [OF data] n by simp
  obtain f where f: "ece391_strcpy data (data + of_nat ls) k1 = Some (k1\<lparr>phys := f\<rparr>)" "bytes_at p data (line @ [0]) (k1\<lparr>phys := f\<rparr>)"
    "\<forall>a. \<not> in_region (user_pa p data) (length line + 1) a \<longrightarrow> f a = phys k1 a"
    using strcpy_down [OF programD(1) [OF p1] string n(2) room] by blast
  have out: "f a = phys k1 a" if "\<not> in_region (user_pa p data) 1025 a" for a
    using f(3) that n by (simp add: in_region_def)
  have keep: "window_bytes p data i (k1\<lparr>phys := f\<rparr>) = window_bytes p data i k1" if "length line < i" "i < 1025" for i
    using f(3) that by (simp add: window_bytes_def in_region_def unat_of_nat_u32)
  show thesis
  proof (rule that [OF store(1) f(1)])
    show "working p data [] k (k1\<lparr>phys := f\<rparr>)"
      using working_trans [OF store(2) working_changed [OF p1 data out]] by simp
    show "bytes_at p data line (k1\<lparr>phys := f\<rparr>)" using f(2) bytes_at_append [of p data line "[0]"] by simp
    show "window_bytes p data i (k1\<lparr>phys := f\<rparr>) = window_bytes p data i k" if "length line < i" "i < 1025" "i \<noteq> ls + length line" for i
      using keep [OF that(1,2)] at [OF that(2)] that(3) by simp
    show "window_bytes p data (ls + length line) (k1\<lparr>phys := f\<rparr>) = 0"
      using keep [of "ls + length line"] at [OF e] n e by simp
  qed
qed

text \<open>The outcome of a pass over the buffer: the bytes \<open>xs\<close> from \<open>ls\<close> on are \<open>don\<close>, which has been reported, and the
  unfinished line \<open>ys\<close>, which is at the front. What is reported ends with a line unless it is everything: at the end of the
  file, when the byte behind it happens to be a newline, or when there is only this line.\<close>

definition passed :: "nat \<Rightarrow> u8 list \<Rightarrow> u8 list \<Rightarrow> u32 \<Rightarrow> i32 \<Rightarrow> nat \<Rightarrow> u8 list \<Rightarrow> kernel \<Rightarrow> u8 list \<Rightarrow> u8 list \<Rightarrow> kernel \<Rightarrow> bool" where
  "passed p pat name data cnt ls xs k don ys k' \<longleftrightarrow> xs = don @ ys \<and> working p data (reports pat name don) k k' \<and>
     bytes_at p data ys k' \<and> 10 \<notin> set ys \<and> (ys = [] \<or> length ys < ls + length xs) \<and> (cnt = 0 \<longrightarrow> ys = []) \<and>
     (don = [] \<or> last don = 10 \<or> ys = [] \<and> (cnt = 0 \<or> window_bytes p data (ls + length xs) k = 10 \<or> 10 \<notin> set xs \<and> ls = 0)) \<and>
     window_bytes p data 1024 k' \<in> {window_bytes p data 1024 k, 0}"

text \<open>One line, and the rest of the pass after it.\<close>

lemma passed_last:
  assumes w: "working p data (grep_report pat name xs) k k'" and xs: "10 \<notin> set xs"
    and e: "cnt = 0 \<or> window_bytes p data (ls + length xs) k = 10 \<or> ls = 0"
    and b: "window_bytes p data 1024 k' \<in> {window_bytes p data 1024 k, 0}"
  shows "passed p pat name data cnt ls xs k xs [] k'"
  using assms reports_last [OF xs] by (auto simp: passed_def bytes_at_def)

lemma passed_line:
  assumes w: "working p data (grep_report pat name line) k k1" and line: "10 \<notin> set line"
    and rest: "passed p pat name data cnt (ls + length line + 1) r k1 don ys k'"
    and b: "window_bytes p data 1024 k1 \<in> {window_bytes p data 1024 k, 0}"
      "window_bytes p data (ls + length line + 1 + length r) k1 = window_bytes p data (ls + length line + 1 + length r) k"
  shows "passed p pat name data cnt ls (line @ 10 # r) k (line @ 10 # don) ys k'"
proof -
  note q = rest [unfolded passed_def]
  have "working p data (reports pat name (line @ 10 # don)) k k'"
    unfolding reports_line [OF line] by (rule working_trans [OF w]) (use q in blast)
  moreover have "don = [] \<or> last don = 10 \<or> ys = [] \<and> (cnt = 0 \<or> window_bytes p data (ls + length (line @ 10 # r)) k = 10)"
    using q b(2) by (auto simp: add.assoc)
  moreover have "window_bytes p data 1024 k' \<in> {window_bytes p data 1024 k, 0}" using q b(1) by auto
  ultimately show ?thesis using q unfolding passed_def by auto
qed

lemma grep_lines_run:
  assumes "grepping p literal s pat file_name name data k" "bytes_at p (data + of_nat ls) xs k" "0 \<notin> set xs"
    "ls + length xs \<le> 1024" "xs \<noteq> [] \<or> ls = 0"
  shows "\<exists>don ys k'. grep_lines env literal s file_name data (of_nat (length pat)) cnt (of_nat (ls + length xs)) (of_nat ls) k =
      Some (of_nat (length ys), k') \<and> passed p pat name data cnt ls xs k don ys k'"
  using assms
proof (induction xs arbitrary: ls k rule: length_induct)
  case (1 xs)
  note g = "1.prems"(1) and bytes = "1.prems"(2) and nul = "1.prems"(3) and n = "1.prems"(4)
  have prog: "program p k" and data: "user_buffer data 1025" using g by (simp_all add: grepping_def)
  note runs = programD(1) [OF prog]
  define line where "line = takeWhile (\<lambda>c. c \<noteq> 10) xs"
  define e where "e = ls + length line"
  have line: "10 \<notin> set line" "0 \<notin> set line" "length line \<le> length xs"
    using nul set_takeWhileD [of _ "\<lambda>c. c \<noteq> 10" xs] length_takeWhile_le [of "\<lambda>c. c \<noteq> 10" xs] by (auto simp: line_def)
  have e: "e \<le> 1024" "e < 1025" using n line(3) by (simp_all add: e_def)
  have small: "sint (of_nat m :: i32) = int m" if "m \<le> 1025" for m by (rule sint_of_nat_u32) (use that in simp)
  have line_stop: "grep_line_end data (of_nat (ls + length xs)) (of_nat ls) k = Some (of_nat e)"
    using line_end_run [OF runs data bytes n] by (simp only: line_def e_def)
  have load: "user_load (data + of_nat e) k = Some (window_bytes p data e k)"
    using user_load_window [OF runs data e(2)] by (simp add: window_bytes_def)
  have ls0: "(of_nat ls :: i32) = 0 \<longleftrightarrow> ls = 0"
  proof
    assume "(of_nat ls :: i32) = 0"
    moreover have "sint (of_nat ls :: i32) = int ls" by (rule small) (use n in simp)
    ultimately show "ls = 0" by simp
  qed simp
  have front: "bytes_at p (data + of_nat ls) line k"
  proof -
    have "xs = line @ drop (length line) xs" unfolding line_def by (metis takeWhile_dropWhile_id dropWhile_eq_drop)
    then show ?thesis using bytes bytes_at_append by metis
  qed
  have nextline: "(of_nat e :: i32) + 1 = of_nat (e + 1)" by simp
  obtain k1 k2 where k2: "user_store (data + of_nat e) 0 k = Some k1"
    "grep_search env literal s file_name data (of_nat (length pat)) (of_nat ls) (of_nat e) (of_nat ls) k1 = Some k2"
    "working p data (grep_report pat name line) k k2"
    "\<forall>i < 1025. phys k2 (user_pa p data + of_nat i) = (if i = e then 0 else phys k (user_pa p data + of_nat i))"
    by (rule line_reported [OF g front line(2) e(1) [unfolded e_def], folded e_def])
  have at: "window_bytes p data i k2 = (if i = e then 0 else window_bytes p data i k)" if "i < 1025" for i
    using k2(4) that by (simp add: window_bytes_def)
  have b: "window_bytes p data 1024 k2 \<in> {window_bytes p data 1024 k, 0}" using at by simp
  have searched: "grep_lines env literal s file_name data (of_nat (length pat)) cnt (of_nat (ls + length xs)) (of_nat ls) k =
      (if ls + length xs \<le> e + 1 then Some (0, k2)
       else grep_lines env literal s file_name data (of_nat (length pat)) cnt (of_nat (ls + length xs)) (of_nat (e + 1)) k2)"
    if "window_bytes p data e k = 10 \<or> cnt = 0 \<or> ls = 0"
  proof -
    have "sint (of_nat (ls + length xs) :: i32) \<le> sint (of_nat (e + 1) :: i32) \<longleftrightarrow> ls + length xs \<le> e + 1"
      using small [of "ls + length xs"] small [of "e + 1"] n e by (simp del: of_nat_add of_nat_Suc add: of_nat_le_iff)
    moreover have "\<not> (window_bytes p data e k \<noteq> 10 \<and> cnt \<noteq> 0 \<and> (of_nat ls :: i32) \<noteq> 0)" using that ls0 by auto
    ultimately show ?thesis
      using line_stop load k2(1,2) by (subst grep_lines.simps) (auto simp: Let_def nextline simp del: of_nat_add of_nat_Suc)
  qed
  show ?case
  proof (cases "10 \<in> set xs")
    case True
    then obtain l r where split: "xs = l @ 10 # r" "10 \<notin> set l" using split_list_first by metis
    then have "line = l" using takeWhile_newline [OF split(2), of "10 # r"] by (simp add: line_def)
    with split(1) have xs: "xs = line @ 10 # r" by simp
    have "window_bytes p data (ls + length line) k = xs ! length line"
      using bytes [unfolded bytes_at_window] by (simp add: xs)
    then have ten: "window_bytes p data e k = 10" by (simp add: e_def xs)
    have len: "ls + length xs = e + 1 + length r" by (simp add: xs e_def)
    have shorter: "length r < length xs" by (simp add: xs)
    have g2: "grepping p literal s pat file_name name data k2" by (rule grepping_kept [OF k2(3) g])
    have r2: "bytes_at p (data + of_nat (e + 1)) r k2"
      unfolding bytes_at_window
    proof (intro allI impI)
      fix i assume i: "i < length r"
      have "window_bytes p data (ls + (length line + 1 + i)) k = xs ! (length line + 1 + i)"
        using bytes [unfolded bytes_at_window, rule_format, of "length line + 1 + i"] i by (simp add: xs)
      then show "window_bytes p data (e + 1 + i) k2 = r ! i"
        using at [of "e + 1 + i"] i n len by (simp add: xs e_def nth_append algebra_simps)
    qed
    have kept: "window_bytes p data (e + 1 + length r) k2 = window_bytes p data (e + 1 + length r) k" using at n len by simp
    have done0: "passed p pat name data cnt (e + 1) [] k2 [] [] k2"
      using g2 by (simp add: passed_def working_def reports_def bytes_at_def grepping_def rest_kept_def same_kernel_def)
    show ?thesis
    proof (cases "r = []")
      case True
      note passed_line [OF k2(3) line(1) done0 [unfolded e_def] b]
      moreover have "grep_lines env literal s file_name data (of_nat (length pat)) cnt (of_nat (ls + length xs)) (of_nat ls) k = Some (0, k2)"
        using searched ten len True by simp
      ultimately show ?thesis
        using kept True by (intro exI [of _ xs] exI [of _ "[]"] exI [of _ k2]) (simp add: xs e_def)
    next
      case False
      have "0 \<notin> set r" "e + 1 + length r \<le> 1024" using nul n len by (simp_all add: xs)
      from "1.IH" [rule_format, OF shorter g2 r2 this] False obtain don ys k' where
        IH: "grep_lines env literal s file_name data (of_nat (length pat)) cnt (of_nat (e + 1 + length r)) (of_nat (e + 1)) k2 = Some (of_nat (length ys), k')"
        "passed p pat name data cnt (e + 1) r k2 don ys k'" by blast
      have "grep_lines env literal s file_name data (of_nat (length pat)) cnt (of_nat (ls + length xs)) (of_nat ls) k = Some (of_nat (length ys), k')"
        using searched ten IH(1) False unfolding len by (cases r) auto
      moreover have "passed p pat name data cnt ls xs k (line @ 10 # don) ys k'"
        unfolding xs by (rule passed_line [OF k2(3) line(1) IH(2) [unfolded e_def] b kept [unfolded e_def]])
      ultimately show ?thesis by blast
    qed
  next
    case False
    then have whole: "line = xs" unfolding line_def using takeWhile_newline [of xs "[]"] by simp
    have len: "e = ls + length xs" by (simp add: e_def whole)
    show ?thesis
    proof (cases "window_bytes p data e k = 10 \<or> cnt = 0 \<or> ls = 0")
      case True
      have "passed p pat name data cnt ls xs k xs [] k2"
        by (rule passed_last [OF k2(3) [unfolded whole] False _ b]) (use True len in auto)
      moreover have "grep_lines env literal s file_name data (of_nat (length pat)) cnt (of_nat (ls + length xs)) (of_nat ls) k = Some (0, k2)"
        using searched [OF True] len by simp
      ultimately show ?thesis by (intro exI [of _ xs] exI [of _ "[]"] exI [of _ k2]) simp
    next
      case other: False
      then have pos: "0 < ls" by simp
      obtain k3 k4 where k4: "user_store (data + of_nat (ls + length xs)) 0 k = Some k3" "ece391_strcpy data (data + of_nat ls) k3 = Some k4"
        "working p data [] k k4" "bytes_at p data xs k4"
        "\<And>i. length xs < i \<Longrightarrow> i < 1025 \<Longrightarrow> i \<noteq> ls + length xs \<Longrightarrow> window_bytes p data i k4 = window_bytes p data i k"
        "window_bytes p data (ls + length xs) k4 = 0"
        by (rule line_moved [OF g bytes nul n pos]) (rule that, assumption+)
      have "window_bytes p data 1024 k4 \<in> {window_bytes p data 1024 k, 0}"
        using k4(5) [of 1024] k4(6) n pos by (cases "1024 = ls + length xs") auto
      then have "passed p pat name data cnt ls xs k [] xs k4"
        using k4(3,4) False other pos by (simp add: passed_def reports_def)
      moreover have "(of_nat (ls + length xs) :: i32) - of_nat ls = of_nat (length xs)" by simp
      then have "grep_lines env literal s file_name data (of_nat (length pat)) cnt (of_nat (ls + length xs)) (of_nat ls) k = Some (of_nat (length xs), k4)"
        using line_stop load k4(1,2) other ls0 by (subst grep_lines.simps) (simp add: len del: of_nat_add)
      ultimately show ?thesis by blast
    qed
  qed
qed

subsection \<open>A file\<close>

lemma copying_kept:
  assumes k: "copying p k fd inode pos" and w: "working p data out k k'"
  shows "copying p k' fd inode pos" "file_bytes (vmem k') (fs k') inode = file_bytes (vmem k) (fs k) inode"
proof -
  note c = k [unfolded copying_def Let_def]
  have u: "untouched k k'" and same: "same_kernel (vmem k) (vmem k')" and prog: "program p k'" using w by (simp_all add: working_def)
  have fds: "pcbs k' = pcbs k" "get_pcb_address k' = get_pcb_address k" using u by (simp_all add: untouched_def get_pcb_address_def)
  have r: "reading k fd inode pos" using c by blast
  note kept = reading_kept [OF r u same]
  show "copying p k' fd inode pos" using c kept(1) prog by (simp add: copying_def Let_def fds)
  show "file_bytes (vmem k') (fs k') inode = file_bytes (vmem k) (fs k) inode" by (rule kept(2))
qed

lemma close_file:
  assumes "copying p k fd inode pos"
  shows "\<exists>k'. sys_close (of_nat fd) k = Some (0, k') \<and> shown current k' = shown current k"
proof -
  note c = assms [unfolded copying_def Let_def]
  have fd: "2 \<le> fd" "fd < 8" and a: "get_pcb_address k \<noteq> 0" using c by (simp_all add: reading_def Let_def)
  have n: "unat (of_nat fd :: i32) = fd" "sint (of_nat fd :: i32) = int fd" using fd sint_fd by simp_all
  define k' where "k' = upd_pcb (get_pcb_address k) (upd_fd fd closed) (k\<lparr>fs := snd (fs_close (fs k))\<rparr>)"
  have "sys_close (of_nat fd) k = Some (0, k')"
    using c fd n handle_close_eq [OF fd a] by (simp add: sys_close_def Let_def k'_def)
  moreover have "shown current k' = shown current k"
    by (simp add: k'_def shown_def current_def get_screen_x_def get_screen_y_def window_frame_def)
  ultimately show ?thesis by blast
qed

text \<open>A read behind the unfinished line.\<close>

lemma read_behind:
  assumes k: "copying p k fd inode pos" and g: "grepping p literal s pat file_name name data k"
    and ys: "bytes_at p data ys k" "length ys < 1024"
  defines "bs \<equiv> file_bytes (vmem k) (fs k) inode" and "n \<equiv> min (1024 - length ys) (file_size (vmem k) (fs k) inode - pos)"
  obtains k' where "sys_read env (of_nat fd) (data + of_nat (length ys)) (1024 - of_nat (length ys)) k = Some (of_nat n, k')"
    "copying p k' fd inode (pos + n)" "file_bytes (vmem k') (fs k') inode = bs" "grepping p literal s pat file_name name data k'"
    "bytes_at p data (ys @ take n (drop pos bs)) k'" "shown current k' = shown current k"
    "window_bytes p data 1024 k' = window_bytes p data 1024 k"
proof -
  let ?buf = "data + of_nat (length ys)" and ?n = "1024 - of_nat (length ys) :: i32"
  have prog: "program p k" and data: "user_buffer data 1025" using g by (simp_all add: grepping_def)
  have "?n = of_nat (1024 - length ys)" using ys(2) by (simp add: of_nat_diff)
  then have size: "unat ?n = 1024 - length ys" "sint ?n = int (1024 - length ys)"
    using unat_of_nat_u32 [of "1024 - length ys"] sint_of_nat_u32 [of "1024 - length ys"] by simp_all
  have room: "user_buffer ?buf (unat ?n)" "0 < sint ?n"
    using user_buffer_shift [of data "length ys" "1024 - length ys"] user_buffer_mono [OF data, of 1024] ys(2) by (simp_all add: size)
  have n: "n = min (unat ?n) (file_size (vmem k) (fs k) inode - pos)" by (simp add: n_def size)
  obtain k' where k': "sys_read env (of_nat fd) ?buf ?n k = Some (of_nat n, k')" "copying p k' fd inode (pos + n)"
    "file_bytes (vmem k') (fs k') inode = bs" "\<forall>i < n. phys k' (user_pa p ?buf + of_nat i) = bs ! (pos + i)"
    "shown current k' = shown current k" "user_changed p ?buf n k k'"
    using read_open_file [OF k room n, folded bs_def] by blast
  have region: "user_pa p ?buf = user_pa p data + of_nat (length ys)" by (rule user_pa_shift)
  have bound: "length ys + n \<le> 1024" using ys(2) by (simp add: n_def)
  have out: "phys k' a = phys k a" if "\<not> in_region (user_pa p ?buf) n a" for a using k'(6) that by (simp add: user_changed_def)
  have outside: "\<not> in_region (user_pa p ?buf) n (user_pa p data + of_nat i)" if "i < length ys \<or> length ys + n \<le> i" "i < 1025" for i
    unfolding region using that bound by (subst in_region_shift) (auto simp: unat_of_nat_u32)
  have "rest_kept p data k k'"
    by (rule rest_kept_region [OF data programD(3) [OF prog]], rule out)
      (use in_region_sub [of "user_pa p data" "length ys" n] bound in \<open>auto simp: region\<close>)
  then have g': "grepping p literal s pat file_name name data k'"
    using k'(2) by (intro grepping_rest [OF _ _ g]) (simp_all add: copying_def Let_def)
  have pos: "pos + n \<le> length bs" if "0 < n" using that by (simp add: n_def bs_def min_def split: if_splits)
  have "phys k' (user_pa p data + of_nat i) = phys k (user_pa p data + of_nat i)" if "i < length ys" for i
    by (rule out, rule outside) (use that ys(2) in simp_all)
  then have "bytes_at p data ys k'" using ys(1) by (simp add: bytes_at_def)
  moreover have "bytes_at p ?buf (take n (drop pos bs)) k'"
    using k'(4) pos by (cases "n = 0") (auto simp: bytes_at_def)
  ultimately have "bytes_at p data (ys @ take n (drop pos bs)) k'" by (simp add: bytes_at_append)
  moreover have "window_bytes p data 1024 k' = window_bytes p data 1024 k"
    using out [OF outside [of 1024]] bound by (simp add: window_bytes_def)
  ultimately show thesis using that k' g' by blast
qed

text \<open>What a pass leaves is the rest of the file, and what it reports are whole lines of it.\<close>

lemma passed_rest:
  assumes p: "passed p pat name data cnt 0 xs k don ys k'" and b: "window_bytes p data 1024 k \<noteq> 10"
    and more: "rst = [] \<or> length xs = 1024 \<and> cnt \<noteq> 0" and short: "\<forall>l \<in> set (lines_of (xs @ rst)). length l < 1024"
  shows "reports pat name (xs @ rst) = reports pat name don @ reports pat name (ys @ rst)"
    "\<forall>l \<in> set (lines_of (ys @ rst)). length l < 1024"
proof -
  note q = p [unfolded passed_def]
  have xs: "xs = don @ ys" using q by blast
  have "don = [] \<or> last don = 10 \<or> ys @ rst = []"
  proof (rule ccontr)
    assume no: "\<not> ?thesis"
    then have ys: "ys = []" and rst: "rst \<noteq> []" using q by auto
    then have full: "length xs = 1024" "cnt \<noteq> 0" using more by auto
    then have "10 \<notin> set xs" using q no b by auto
    then have "takeWhile (\<lambda>c. c \<noteq> 10) (xs @ rst) = xs @ takeWhile (\<lambda>c. c \<noteq> 10) rst" by (rule takeWhile_newline)
    moreover have "takeWhile (\<lambda>c. c \<noteq> 10) (xs @ rst) \<in> set (lines_of (xs @ rst))"
      using rst by (subst lines_of_unfold) auto
    ultimately show False using short full(1) by auto
  qed
  then show "reports pat name (xs @ rst) = reports pat name don @ reports pat name (ys @ rst)"
    "\<forall>l \<in> set (lines_of (ys @ rst)). length l < 1024"
    using reports_append [of don pat name "ys @ rst"] lines_of_append [of don "ys @ rst"] short by (auto simp: xs reports_def)
qed

lemma grep_file_run:
  assumes "copying p k fd inode pos" "grepping p literal s pat file_name name data k" "bytes_at p data ys k" "length ys < 1024"
    and "window_bytes p data 1024 k \<noteq> 10" "file_bytes (vmem k) (fs k) inode = bs"
    and "0 \<notin> set (ys @ drop pos bs)" "\<forall>l \<in> set (lines_of (ys @ drop pos bs)). length l < 1024"
  shows "\<exists>k'. grep_file env literal s file_name data (of_nat (length pat)) (of_nat fd) (of_nat (length ys)) k = Some (0, k') \<and>
    shown current k' = fold spec_putc (reports pat name (ys @ drop pos bs)) (shown current k)"
  using assms
proof (induction "length bs - pos" arbitrary: k pos ys rule: less_induct)
  case less
  note k = less.prems(1) and g = less.prems(2) and b = less.prems(5) and bs = less.prems(6)
  define n where "n = min (1024 - length ys) (file_size (vmem k) (fs k) inode - pos)"
  define chunk where "chunk = take n (drop pos bs)"
  obtain k1 where k1: "sys_read env (of_nat fd) (data + of_nat (length ys)) (1024 - of_nat (length ys)) k = Some (of_nat n, k1)"
    "copying p k1 fd inode (pos + n)" "file_bytes (vmem k1) (fs k1) inode = bs" "grepping p literal s pat file_name name data k1"
    "bytes_at p data (ys @ chunk) k1" "shown current k1 = shown current k" "window_bytes p data 1024 k1 = window_bytes p data 1024 k"
    by (rule read_behind [OF k g less.prems(3,4), folded n_def, unfolded bs, folded chunk_def])
  have size: "file_size (vmem k) (fs k) inode = length bs" using bs by (metis length_file_bytes)
  have len: "length chunk = n" "n \<le> 1024 - length ys" by (simp_all add: chunk_def n_def size)
  have drop: "drop pos bs = chunk @ drop (pos + n) bs" unfolding chunk_def by (metis append_take_drop_id drop_drop add.commute)
  have whole: "ys @ drop pos bs = (ys @ chunk) @ drop (pos + n) bs" by (simp add: drop)
  have eof: "drop (pos + n) bs = [] \<or> length (ys @ chunk) = 1024"
    using len less.prems(4) by (auto simp: n_def size min_def split: if_splits)
  have small: "sint (of_nat n :: i32) = int n" by (rule sint_of_nat_u32) (use len in simp)
  have cnt: "(of_nat n :: i32) \<noteq> -1" "(of_nat n :: i32) = 0 \<longleftrightarrow> n = 0"
  proof -
    show "(of_nat n :: i32) \<noteq> -1"
    proof
      assume "(of_nat n :: i32) = -1"
      with small show False by simp
    qed
    show "(of_nat n :: i32) = 0 \<longleftrightarrow> n = 0"
    proof
      assume "(of_nat n :: i32) = 0"
      with small show "n = 0" by simp
    qed simp
  qed
  have nul: "0 \<notin> set (ys @ chunk)" using less.prems(7) unfolding whole by simp
  have front: "bytes_at p (data + of_nat 0) (ys @ chunk) k1" "0 + length (ys @ chunk) \<le> 1024" using k1(5) len less.prems(4) by simp_all
  obtain don zs k2 where k2: "grep_lines env literal s file_name data (of_nat (length pat)) (of_nat n) (of_nat (0 + length (ys @ chunk))) (of_nat 0) k1 =
      Some (of_nat (length zs), k2)" "passed p pat name data (of_nat n) 0 (ys @ chunk) k1 don zs k2"
    using grep_lines_run [OF k1(4) front(1) nul front(2)] by blast
  note q = k2(2) [unfolded passed_def]
  have w: "working p data (reports pat name don) k1 k2" using q by blast
  note c2 = copying_kept [OF k1(2) w] and g2 = grepping_kept [OF w k1(4)]
  have shown2: "shown current k2 = fold spec_putc (reports pat name don) (shown current k)" using w k1(6) by (simp add: working_def)
  have total: "of_nat (length ys) + (of_nat n :: i32) = of_nat (0 + length (ys @ chunk))" using len(1) by simp
  have step: "grep_file env literal s file_name data (of_nat (length pat)) (of_nat fd) (of_nat (length ys)) k =
      (if n = 0 then do { (r, k) \<leftarrow> sys_close (of_nat fd) k2;
          if r = -1 then do { k \<leftarrow> ece391_fdputs env 1 (literal (''file close failed'' @ [CHR 0x0A])) k; Some (-1, k) } else Some (0, k) }
       else grep_file env literal s file_name data (of_nat (length pat)) (of_nat fd) (of_nat (length zs)) k2)"
    using k1(1) k2(1) cnt by (subst grep_file.simps) (simp add: do_calls total del: of_nat_add)
  have more: "drop (pos + n) bs = [] \<or> length (ys @ chunk) = 1024 \<and> (of_nat n :: i32) \<noteq> 0"
    using eof cnt(2) less.prems(4) len by auto
  have b1: "window_bytes p data 1024 k1 \<noteq> 10" using b k1(7) by simp
  note rest = passed_rest [OF k2(2) b1 more less.prems(8) [unfolded whole]]
  show ?case
  proof (cases "n = 0")
    case True
    then have "zs = []" "drop (pos + n) bs = []" using q more by auto
    then have "reports pat name (ys @ drop pos bs) = reports pat name don" using rest(1) unfolding whole by (simp add: reports_def)
    moreover obtain k3 where "sys_close (of_nat fd) k2 = Some (0, k3)" "shown current k3 = shown current k2" using close_file [OF c2(1)] by blast
    ultimately show ?thesis using step True shown2 by simp
  next
    case False
    have shorter: "length bs - (pos + n) < length bs - pos" using False by (auto simp: n_def size min_def)
    have zs: "bytes_at p data zs k2" "length zs < 1024" "window_bytes p data 1024 k2 \<noteq> 10"
    proof -
      have "zs = [] \<or> length zs < 0 + length (ys @ chunk)" using q by blast
      then show "length zs < 1024" using front(2) by auto
    qed (use q b1 in auto)
    have "0 \<notin> set (zs @ drop (pos + n) bs)" using less.prems(7) q unfolding whole by auto
    from less.hyps [OF shorter c2(1) g2 zs _ this rest(2)] k1(3) c2(2) obtain k3 where
      "grep_file env literal s file_name data (of_nat (length pat)) (of_nat fd) (of_nat (length zs)) k2 = Some (0, k3)"
      "shown current k3 = fold spec_putc (reports pat name (zs @ drop (pos + n) bs)) (shown current k2)" by auto
    then show ?thesis using step False shown2 rest(1) unfolding whole by simp
  qed
qed

text \<open>[C10] \<open>grep\<close> on one file: it prints the name, a colon and the line for every line of the file that contains the pattern,
  in the order of the file and each once, and returns 0. The file holds no NUL and no line of 1024 characters or more (the
  buffer splits those), the byte of the array behind the first 1024, which is never set before it is read, is not a newline,
  and the file is read in pieces of any number. An empty pattern is found nowhere.\<close>

theorem grep_reports_lines:
  assumes g: "grepping p literal s pat file_name name data k" and b: "phys k (user_pa p data + 1024) \<noteq> 10"
    and pcb: "pcb_ok (pcbs k (get_pcb_address k))" "get_pcb_address k \<noteq> 0"
      "\<exists>i. 2 \<le> i \<and> i < 8 \<and> fd_flags (fd_array (pcbs k (get_pcb_address k)) ! i) ! 0 = 0"
    and named: "names_file env k name inode" "name \<noteq> []" "length name < 32"
  defines "bs \<equiv> file_bytes (vmem k) (fs k) inode"
  assumes bs: "0 \<notin> set bs" "\<forall>l \<in> set (lines_of bs). length l < 1024"
  shows "\<exists>k'. do_one_file env literal s file_name data k = Some (0, k') \<and>
    shown current k' = fold spec_putc (concat (map (grep_report pat name) (lines_of bs))) (shown current k)"
proof -
  have prog: "program p k" and strs: "user_string p s pat k" "user_string p file_name name k"
    using g by (simp_all add: grepping_def aside_def)
  obtain fd k1 where k1: "sys_open env file_name k = Some (of_nat fd, k1)" "copying p k1 fd inode 0"
    "file_bytes (vmem k1) (fs k1) inode = bs" "shown current k1 = shown current k" "phys k1 = phys k"
    unfolding bs_def by (rule cat_open [OF prog named(1) strs(2) named(2,3) pcb])
  have "rest_kept p data k k1" by (simp add: rest_kept_def k1(5))
  moreover have "program p k1" "fd < 8" using k1(2) by (simp_all add: copying_def Let_def)
  ultimately have g1: "grepping p literal s pat file_name name data k1" using grepping_rest g by blast
  have front: "bytes_at p data [] k1" "length ([] :: u8 list) < 1024" "window_bytes p data 1024 k1 \<noteq> 10"
    using b by (simp_all add: bytes_at_def window_bytes_def k1(5))
  obtain k' where "grep_file env literal s file_name data (of_nat (length pat)) (of_nat fd) 0 k1 = Some (0, k')"
    "shown current k' = fold spec_putc (reports pat name bs) (shown current k1)"
    using grep_file_run [OF k1(2) g1 front k1(3)] bs by auto
  then show ?thesis
    using strlen_user [OF programD(1) [OF prog] strs(1)] k1(1,4) fd_not_error [OF \<open>fd < 8\<close>]
    by (simp add: do_one_file_def do_calls reports_def)
qed

end
