(* ===== verification/Examples.thy ===== *)
theory Examples imports ProcessTable Idt Programs begin

text \<open>
  Concrete runs. The shell of the second slot executes the program \<open>a\<close> of an image with three directory
  entries, and the program halts; and the machine starts from power-on with the same image, where the program is
  also called \<open>shell\<close>. It shows that the hypotheses of the properties about processes hold together.
\<close>

definition example_program_image :: mem where
  "example_program_image = example_image(0x4000 := 0x7F, 0x4001 := 0x45, 0x4002 := 0x4C, 0x4003 := 0x46,
     0x1000 := 3, 0x10C0 := 115, 0x10C1 := 104, 0x10C2 := 101, 0x10C3 := 108, 0x10C4 := 108, 0x10E0 := 2)"

definition example_caller :: kernel where
  "example_caller = example_reader\<lparr>phys := (\<lambda>x. example_program_image (x - 0x6FF000))(0xC48000 := 97, 0xC48001 := 0),
     sched := (sched example_reader)\<lparr>terminals := map (\<lambda>i. example_terminal\<lparr>t_pid := i\<rparr>) [2, 1, 3]\<rparr>\<rparr>"

definition example_environment :: environment where
  "example_environment = \<lparr>fuel = 0, key_events = (\<lambda>_ _. None), clock_ticks = (\<lambda>_. False), rtc_register_a = 0,
     stack_dentry = example_dentry, stack_array = 0x7FBE00, exe_bytes_at = 0x7FBC00\<rparr>"

lemma example_caller_simps [simp]:
  "paging example_caller = example_run" "fs example_caller = example_fs\<lparr>boot_block_addr := 0x700000\<rparr>"
  "esp example_caller = 0x7FBF00" "ebp example_caller = 0x7FBF40" "processes_running example_caller = [1, 1, 1, 0, 0, 0]"
  "pcbs example_caller = pcbs example_kernel" "current_term (sched example_caller) = 0"
  "terminals (sched example_caller) = map (\<lambda>i. example_terminal\<lparr>t_pid := i\<rparr>) [2, 1, 3]"
  "phys example_caller = (\<lambda>x. example_program_image (x - 0x6FF000))(0xC48000 := 97, 0xC48001 := 0)"
  by (simp_all add: example_caller_def example_reader_def example_keyboard_def)

lemma example_caller_runs: "runs 1 example_caller"
  using example_reader_runs by (simp add: runs_def)

lemma example_caller_kernel:
  "0x400000 \<le> unat a \<Longrightarrow> unat a < 0x800000 \<Longrightarrow> vmem example_caller a = example_program_image (a - 0x6FF000)"
proof -
  assume a: "0x400000 \<le> unat a" "unat a < 0x800000"
  have "tables_ok (paging example_caller)" using example_caller_runs by (simp add: runs_def)
  from vmem_kernel [OF this a] show "vmem example_caller a = example_program_image (a - 0x6FF000)"
    using a by auto
qed

lemma example_caller_starts: "can_start example_caller" "0 \<in> set (processes_running example_caller)"
  using example_caller_runs pcb_ok_shape [OF example_pcb_ok] by (simp_all add: can_start_def runs_def)

text \<open>The command is the string \<open>a\<close> in the memory of the process.\<close>

definition example_command :: reader where
  "example_command = at_ptr (vmem example_caller) 0x8048000"

lemma example_command_string:
  "c_string example_command [97]" "string_at 0x8048000 example_caller = Some example_command"
proof -
  have buffer: "user_buffer 0x8048000 2" by (simp add: user_buffer_def)
  have x: "xlate example_run (0x8048000 + of_nat j) = Some (0xC48000 + of_nat j, True)" if "j < 2" for j
    using xlate_window [OF example_caller_runs buffer that] by (simp add: user_pa_def)
  have bytes: "example_command 0 = 97" "example_command 1 = 0"
    using x [of 0] x [of 1] by (simp_all add: example_command_def at_ptr_def vmem_def)
  then show s: "c_string example_command [97]" by (simp add: c_string_def)
  have "strlen example_command = Some 1" using s strlen_c_string by fastforce
  moreover have "mapped 0x8048000 example_caller" "mapped 0x8048001 example_caller"
    using x [of 0] x [of 1] by (simp_all add: mapped_def)
  ultimately show "string_at 0x8048000 example_caller = Some example_command"
    by (simp add: string_at_def example_command_def upt_rec)
qed

text \<open>The program is found and can be loaded.\<close>

definition holds_image :: "kernel \<Rightarrow> bool" where
  "holds_image k \<longleftrightarrow> boot_block_addr (fs k) = 0x700000 \<and>
     (\<forall>a. 0x400000 \<le> unat a \<and> unat a < 0x800000 \<longrightarrow> vmem k a = example_program_image (a - 0x6FF000))"

lemma holds_image_at: "holds_image k \<Longrightarrow> 0x400000 \<le> unat a \<Longrightarrow> unat a < 0x800000 \<Longrightarrow> vmem k a = example_program_image (a - 0x6FF000)"
  by (simp add: holds_image_def)

lemma example_caller_image: "holds_image example_caller"
  using example_caller_kernel by (simp add: holds_image_def)

lemma image_name:
  assumes "holds_image k" "0x400000 \<le> unat p" "unat p + 32 \<le> 0x800000"
  shows "name_at (vmem k) p = name_at example_program_image (p - 0x6FF000)"
proof -
  have "vmem k (p + of_nat i) = example_program_image (p - 0x6FF000 + of_nat i)" if "i < 32" for i
    using assms that holds_image_at [of k "p + of_nat i"] unat_add_small [of p "of_nat i"] by (simp add: algebra_simps)
  then show ?thesis unfolding name_at_def by (intro arg_cong [of _ _ "takeWhile (\<lambda>b. b \<noteq> 0)"] map_cong) simp_all
qed

lemmas example_name = image_name [OF example_caller_image]

lemma example_lookup:
  "\<exists>d. read_dentry_by_name (vmem example_caller) (Some (arr_reader (\<lambda>_. 0) [97, 0])) (Some example_dentry) (fs example_caller)
      = Some (0, Some d, read_counts (vmem example_caller) (fs example_caller)) \<and> inode_num d = 0"
proof -
  have nul: "0 \<in> range (vmem example_caller)"
    using example_caller_kernel [of "0x700000 + 0x50"]
    by (intro image_eqI [where x = "0x700050"]) (simp_all add: example_program_image_def example_image_def)
  have name: "c_string (arr_reader (\<lambda>_. 0) [97, 0]) [97]" by (simp add: c_string_def arr_reader_def)
  have dot: "name_at (vmem example_caller) 0x700040 = [46]"
    using example_name [of "0x700040"] by (simp add: name_at_def example_program_image_def example_image_def upt_rec)
  have a: "name_at (vmem example_caller) 0x700080 = [97]"
    using example_name [of "0x700080"] by (simp add: name_at_def example_program_image_def example_image_def upt_rec)
  have num: "vmem example_caller 0x7000A4 = 0"
    using example_caller_kernel [of "0x7000A4"] by (simp add: example_program_image_def example_image_def)
  have bb: "boot_block_addr (fs example_caller) = 0x700000" by simp
  have "boot_block_addr (fs example_caller) \<noteq> 0" "length [97 :: u8] \<le> 32"
    "take (length [97]) (name_at (vmem example_caller) (boot_block_addr (fs example_caller) + 64)) \<noteq> [97]"
    using dot by simp_all
  from lookup_by_name [OF this(1) nul name this(2) wf_example_dentry this(3), unfolded bb]
  obtain k where k: "k \<le> 62" "\<forall>i < k. name_at (vmem example_caller) (0x700000 + 128 + of_nat i * 64) \<noteq> [97]" and
    look: "read_dentry_by_name (vmem example_caller) (Some (arr_reader (\<lambda>_. 0) [97, 0])) (Some example_dentry) (fs example_caller) =
      (if k < 62 then
         Some (0, Some (example_dentry\<lparr>fname := [97] @ replicate (32 - length [97 :: u8]) 0,
           file_type := sext8 (vmem example_caller (0x700000 + 128 + of_nat k * 64 + 32)),
           inode_num := sext8 (vmem example_caller (0x700000 + 128 + of_nat k * 64 + 36))\<rparr>), read_counts (vmem example_caller) (fs example_caller))
       else Some (-1, Some example_dentry, read_counts (vmem example_caller) (fs example_caller)))"
    by blast
  have "\<not> 0 < k" using k(2) a by auto
  then show ?thesis using look num by (simp add: sext8_def)
qed

lemma image_program:
  assumes k: "holds_image k"
  shows "program_ok example_environment k 0" "in_image (vmem k) (fs k) 0 a \<Longrightarrow> unat a < 0x704000"
proof -
  let ?m = "vmem k" and ?f = "fs k"
  have bb: "boot_block_addr ?f = 0x700000" using k by (simp add: holds_image_def)
  have at: "?m a = example_program_image (a - 0x6FF000)" if "0x400000 \<le> unat a" "unat a < 0x800000" for a
    using holds_image_at [OF k] that by blast
  have i: "inode_at (boot_block_addr ?f) 0 = 0x701000" by (simp add: inode_at_def bb)
  have load: "load32 ?m 0x701000 = 5000" "load32 ?m 0x700004 = 1" "load32 ?m 0x701004 = 1" "load32 ?m 0x701008 = 0"
    by (simp_all add: load32_def at example_program_image_def example_image_def)
  have size: "file_size ?m ?f 0 = 5000" using load i by (simp add: file_size_def)
  have start: "data_start ?m ?f = 0x702000" using load by (simp add: data_start_def bb)
  have block: "block_at ?m 0x701000 0x702000 0 = 0x703000" "block_at ?m 0x701000 0x702000 1 = 0x702000"
    using load by (simp_all add: block_at_def)
  have blocks: "block_at ?m 0x701000 0x702000 q \<in> {0x703000, 0x702000}" if "q < 2" for q
    using that block by (auto simp: less_2_cases_iff)
  have ok: "file_ok ?m ?f 0"
    unfolding file_ok_def size i start bb i [unfolded bb] using blocks by (fastforce simp: kernel_area_def)
  have "take 4 (file_bytes ?m ?f 0) = map (file_byte ?m 0x701000 0x702000) [0..<4]"
    unfolding file_bytes_def size i start take_map by (simp add: take_upt del: upt_rec_numeral)
  also have "\<dots> = [0x7F, 0x45, 0x4C, 0x46]"
    using block by (simp add: upt_rec file_byte_def at example_program_image_def)
  finally have magic: "take 4 (file_bytes ?m ?f 0) = [0x7F, 0x45, 0x4C, 0x46]" .
  show range: "unat a < 0x704000" if "in_image ?m ?f 0 a" for a
  proof -
    have "unat a < 0x704000" if "in_region p 4096 a" "p \<in> {0x701000, 0x703000, 0x702000}" for p
      using that in_region_interval [of p 4096 a] by auto
    moreover have "unat a < 0x704000" if "in_region 0x700000 64 a" using that in_region_interval [of "0x700000" 64 a] by simp
    ultimately show ?thesis using that blocks unfolding in_image_def size i start bb i [unfolded bb] by fastforce
  qed
  have "\<not> in_image ?m ?f 0 a" if "in_region 0x7FBE00 44 a" for a
    using that in_region_interval [of "0x7FBE00" 44 a] range [of a] by auto
  then show "program_ok example_environment k 0"
    using ok magic size by (simp add: program_ok_def Let_def example_environment_def kernel_area_def)
qed

lemmas example_program = image_program(1) [OF example_caller_image]

subsection \<open>\<open>execute\<close>\<close>

lemma example_command_words: "command_name [97] = [97]" "takeWhile (\<lambda>c. c \<noteq> 10) [97 :: u8] = [97]" "command_name [97] @ [0] = [97, 0]"
  by (simp_all add: command_name_def ends_name_def)

lemma execute_runs_command_witness:
  "\<exists>i k'. execute example_environment 0x8048000 example_caller =
      Some (EnterUser (bytes_word (file_bytes (vmem example_caller) (fs example_caller) 0) 24) 0x83FFFFC k') \<and>
    started i example_caller k' \<and> user_load 0x8048000 k' = Some 0x7F"
proof -
  obtain d where d: "read_dentry_by_name (vmem example_caller) (Some (arr_reader (\<lambda>_. 0) (command_name [97] @ [0])))
      (Some (stack_dentry example_environment)) (fs example_caller) = Some (0, Some d, read_counts (vmem example_caller) (fs example_caller))"
    "inode_num d = 0"
    using example_lookup by (auto simp: example_command_words example_environment_def)
  have "program_ok example_environment example_caller (inode_num d)" using example_program d(2) by simp
  from execute_runs_command [OF example_caller_starts _ example_command_string(2,1) _ _ d(1) _ this]
  obtain i k' where run: "execute example_environment 0x8048000 example_caller =
      Some (EnterUser (bytes_word (file_bytes (vmem example_caller) (fs example_caller) 0) 24) 0x83FFFFC k')"
    "started i example_caller k'"
    "\<forall>j < length (file_bytes (vmem example_caller) (fs example_caller) 0).
       user_load (0x8048000 + of_nat j) k' = Some (file_bytes (vmem example_caller) (fs example_caller) 0 ! j)"
    by (auto simp: example_command_words d(2) simp del: example_caller_simps)
  have "take 4 (file_bytes (vmem example_caller) (fs example_caller) 0) = [0x7F, 0x45, 0x4C, 0x46]"
    "0 < length (file_bytes (vmem example_caller) (fs example_caller) 0)"
    using example_program by (auto simp: program_ok_def Let_def)
  then have "file_bytes (vmem example_caller) (fs example_caller) 0 ! 0 = 0x7F" by (metis nth_Cons_0 nth_take zero_less_numeral)
  then show ?thesis
    using run run(3) [rule_format, OF \<open>0 < length (file_bytes (vmem example_caller) (fs example_caller) 0)\<close>]
    by (intro exI [of _ i] exI [of _ k']) (simp del: example_caller_simps)
qed

lemma example_execute:
  obtains eip k' where "execute_string example_environment example_command example_caller = Some (EnterUser eip 0x83FFFFC k')"
    "execute example_environment 0x8048000 example_caller = Some (EnterUser eip 0x83FFFFC k')" "started 3 example_caller k'"
proof -
  obtain d where d: "read_dentry_by_name (vmem example_caller) (Some (arr_reader (\<lambda>_. 0) (command_name [97] @ [0])))
      (Some (stack_dentry example_environment)) (fs example_caller) = Some (0, Some d, read_counts (vmem example_caller) (fs example_caller))"
    "inode_num d = 0"
    using example_lookup by (auto simp: example_command_words example_environment_def)
  have "program_ok example_environment example_caller (inode_num d)" using example_program d(2) by simp
  from execute_string_runs [OF example_caller_starts example_command_string(1) _ _ d(1) _ this]
  obtain i k' eip where run: "execute_string example_environment example_command example_caller = Some (EnterUser eip 0x83FFFFC k')"
    "started i example_caller k'"
    by (auto simp: example_command_words simp del: example_caller_simps)
  have "takes_slot i example_caller k'" using run(2) by (simp add: started_def Let_def del: example_caller_simps)
  then have "i < 6" "[1, 1, 1, 0, 0, 0 :: u8] ! i = 0" "\<forall>j < i. [1, 1, 1, 0, 0, 0 :: u8] ! j \<noteq> 0" by (simp_all add: takes_slot_def)
  moreover from this(3) have "\<not> 3 < i" by auto
  moreover have "i \<noteq> 0" "i \<noteq> 1" "i \<noteq> 2" using calculation(2) by (intro notI; simp)+
  ultimately have "i = 3" by linarith
  moreover have "execute example_environment 0x8048000 example_caller = Some (EnterUser eip 0x83FFFFC k')"
    using run(1) example_command_string(2) by (simp add: execute_def del: example_caller_simps)
  ultimately show thesis using that run by blast
qed

lemma execute_starts_process_witness:
  "\<exists>eip k'. execute example_environment 0x8048000 example_caller = Some (EnterUser eip 0x83FFFFC k') \<and>
     (\<exists>i. started i example_caller k')"
proof -
  obtain eip k' where run: "execute example_environment 0x8048000 example_caller = Some (EnterUser eip 0x83FFFFC k')"
    by (rule example_execute)
  from execute_starts_process [OF run example_caller_starts(1)] run show ?thesis by blast
qed

text \<open>The program's kernel stack is used when it makes a system call.\<close>

lemma example_child:
  obtains eip k1 k2 where "execute example_environment 0x8048000 example_caller = Some (EnterUser eip 0x83FFFFC k1)"
    "started 3 example_caller k1" "keeps_links (pcb_of (of_nat (3 + 1))) k1 k2" "kernel_stack (of_nat (3 + 1)) k2"
    "running_child 3 1 k2"
proof -
  obtain eip k1 where run: "execute example_environment 0x8048000 example_caller = Some (EnterUser eip 0x83FFFFC k1)"
    and start: "started 3 example_caller k1"
    by (rule example_execute)
  note s = start [unfolded started_def Let_def]
  let ?a = "pcb_of (of_nat (3 + 1))"
  have fresh: "fresh_pcb (of_nat (3 + 1)) (get_pcb_address example_caller) (pcbs k1 ?a)" and slot: "takes_slot 3 example_caller k1"
    and runs: "runs 3 k1" and kept: "other_pids_kept example_caller k1" using s by blast+
  define k2 where "k2 = k1\<lparr>esp := 0x7F7F00\<rparr>"
  have ok: "tables_ok (paging k1)" "length (processes_running k1) = 6" "current_term (sched k1) = 0" "length (terminals (sched k1)) = 3"
    using runs slot kept by (simp_all add: runs_def takes_slot_def other_pids_kept_def)
  have links: "keeps_links ?a k1 k2" using fresh ok by (simp add: keeps_links_def k2_def fresh_pcb_def)
  have stack: "kernel_stack (of_nat (3 + 1)) k2" by (simp add: kernel_stack_def pcb_of_def k2_def)
  have "process_id (pcbs k1 ?a) = 4" "parent (pcbs k1 ?a) = 0x7FA000" "parent_process_id (pcbs k1 ?a) = 2" "pcb_ok (pcbs k1 ?a)"
    using fresh by (simp_all add: fresh_pcb_def get_pcb_address_def pid_of_def)
  then have "running_child 3 1 k2"
    using ok stack by (simp add: running_child_def k2_def pcb_of_def)
  from that [OF run start links stack this] show thesis .
qed

lemma execute_halt_returns_witness:
  "\<exists>k2 k3. halt example_environment 5 k2 = Some (Resumes k3) \<and> esp k3 = esp example_caller \<and> status (pcbs k3 (pcb_of 2)) = 5"
proof -
  obtain eip k1 k2 where run: "execute example_environment 0x8048000 example_caller = Some (EnterUser eip 0x83FFFFC k1)"
    and start: "started 3 example_caller k1" and program: "keeps_links (pcb_of (of_nat (3 + 1))) k1 k2" "kernel_stack (of_nat (3 + 1)) k2"
    by (rule example_child)
  have "kernel_stack (of_nat (1 + 1)) example_caller" "processes_running example_caller ! 1 \<noteq> 0" by (simp_all add: kernel_stack_def pcb_of_def)
  from execute_halt_returns [OF run start _ _ this program, of example_environment 5]
  show ?thesis by (auto simp del: example_caller_simps)
qed

lemma page_fault_ends_program_witness:
  "\<forall>fr. \<exists>k k'. run_handler (exception_handler 14) example_environment fr k = Some (Finished (Resumes k')) \<and>
     status (pcbs k' (pcb_of 2)) = 80"
proof
  fix fr
  obtain k2 where "running_child 3 1 k2" by (rule example_child)
  from page_fault_ends_program [OF this, of example_environment fr]
  show "\<exists>k k'. run_handler (exception_handler 14) example_environment fr k = Some (Finished (Resumes k')) \<and>
     status (pcbs k' (pcb_of 2)) = 80" by auto
qed

subsection \<open>The scheduler and the process table\<close>

lemma example_pids: "pcb_at example_caller p = example_pcb (of_nat (p + 1))" if "p < 3"
proof -
  have "p = 0 \<or> p = 1 \<or> p = 2" using that by linarith
  then show ?thesis by (auto simp: pcb_at_def pcb_of_def)
qed

lemma example_displays: "displays_ok example_caller" "\<forall>t < 3. is_on (sched example_caller) ! t \<noteq> 0" "pids_ok example_caller"
proof -
  have t: "t = 0 \<or> t = 1 \<or> t = 2" if "t < 3" for t :: nat using that by linarith
  have "cursor_ok (terminals (sched example_caller) ! t)" if "t < 3" for t
    using t [OF that] example_cursor by (auto simp: cursor_ok_def)
  then show "displays_ok example_caller"
    using example_caller_runs by (simp add: displays_ok_def runs_def) (simp add: example_caller_def example_reader_def example_keyboard_def)
  show "\<forall>t < 3. is_on (sched example_caller) ! t \<noteq> 0"
    using t by (auto simp: example_caller_def example_reader_def example_keyboard_def dest!: t)
  show "pids_ok example_caller"
    unfolding pids_ok_def
  proof (intro allI impI)
    fix t :: nat assume "t < 3"
    then show "\<exists>q < 6. t_pid (terminals (sched example_caller) ! t) = of_nat (q + 1)"
      using t [of t] by (intro exI [of _ "[1, 0, 2] ! t"]) auto
  qed
qed

lemma round_robin_witness:
  "\<exists>k1. scheduler_next example_environment example_caller = Some (Resumes k1) \<and> current_term (sched k1) = 1"
  using round_robin [OF example_displays, where ?env = example_environment and ?env1.0 = example_environment
    and ?env2.0 = example_environment] by auto

lemma example_table: "table_ok example_caller"
proof -
  have running: "running example_caller p \<longleftrightarrow> p < 3" for p
  proof (cases "p < 6")
    case True
    then have "p \<in> {0..5}" by simp
    then show ?thesis by (auto simp: running_def atLeastAtMost_upt upt_rec)
  qed (simp add: running_def)
  have top: "on_top example_caller t p \<longleftrightarrow> p = [1, 0, 2] ! t" if "t < 3" for t p
  proof -
    have "on_top example_caller t ([1, 0, 2] ! t)"
      using that by (auto simp: on_top_def less_Suc_eq numeral_3_eq_3)
    then show ?thesis using on_top_unique by blast
  qed
  have wait: "\<not> waits_for example_caller q p" for q p by (auto simp: waits_for_def running)
  have t: "t = 0 \<or> t = 1 \<or> t = 2" if "t < 3" for t :: nat using that by linarith
  have "\<forall>t < 3. \<exists>p. running example_caller p \<and> on_top example_caller t p" using t by (auto simp: top running dest!: t)
  moreover have "t = t'" if "t < 3" "t' < 3" "on_top example_caller t p" "on_top example_caller t' p" for t t' p
    using that t [of t] t [of t'] by (auto simp: top)
  moreover have "pcb_ok (pcb_at example_caller p) \<and> process_id (pcb_at example_caller p) = of_nat (p + 1)" if "running example_caller p" for p
    using that example_pids [of p] example_pcb_ok by (simp add: running) (simp add: example_pcb_def)
  ultimately show ?thesis
    unfolding table_ok_def using example_caller_starts(1) wait by (auto simp: running)
qed

lemma process_table_invariant_witness:
  "\<exists>k'. table_step example_caller k' \<and> table_ok k' \<and> running k' 3 \<and> waits_for k' 1 3"
proof -
  obtain eip k' where run: "execute_string example_environment example_command example_caller = Some (EnterUser eip 0x83FFFFC k')"
    and start: "started 3 example_caller k'" by (rule example_execute)
  have "in_kernel example_caller 1"
    by (simp add: in_kernel_def on_top_def kernel_stack_def pcb_of_def)
  then have step: "table_step example_caller k'" using run by (rule table_step.exec)
  have ok: "table_ok k'" by (rule process_table_invariant [OF r_into_rtranclp [of table_step, OF step] example_table])
  have "takes_slot 3 example_caller k'" "fresh_pcb (of_nat (3 + 1)) (get_pcb_address example_caller) (pcbs k' (pcb_of (of_nat (3 + 1))))"
    using start unfolding started_def Let_def by blast+
  then have "running k' 3" "waits_for k' 1 3"
    by (simp_all add: running_def takes_slot_def waits_for_def fresh_pcb_def pcb_at_def get_pcb_address_def pid_of_def pcb_of_def)
  then show ?thesis using step ok by blast
qed

subsection \<open>Starting the machine\<close>

definition example_power_on :: kernel where
  "example_power_on = example_caller\<lparr>paging := example_boot, processes_running := replicate 6 0\<rparr>"

lemma example_shell:
  assumes k: "holds_image k"
  shows "shell_ok example_environment k 0"
proof -
  have bb: "boot_block_addr (fs k) = 0x700000" using k by (simp add: holds_image_def)
  have name: "name_at (vmem k) 0x7000C0 = shell_name" "name_at (vmem k) 0x700080 = [97]" "name_at (vmem k) 0x700040 = [46]"
    using image_name [OF k, of "0x7000C0"] image_name [OF k, of "0x700080"] image_name [OF k, of "0x700040"]
    by (simp_all add: name_at_def example_program_image_def example_image_def upt_rec shell_name_def chars_def)
  have "file_entry (vmem k) 0x700000 shell_name 1"
    using name by (simp add: file_entry_def) (simp add: shell_name_def chars_def)
  moreover have "vmem k 0x7000E4 = 0"
    using holds_image_at [OF k, of "0x7000E4"] by (simp add: example_program_image_def example_image_def)
  ultimately have entry: "\<exists>e. file_entry (vmem k) 0x700000 shell_name e \<and> 0 = sext8 (vmem k (0x700000 + 128 + of_nat e * 64 + 36))"
    by (intro exI [of _ 1]) (simp add: sext8_def)
  have "\<not> in_region 0x700000 4096 a" if "in_region 0x7FBE00 44 a" for a
    using that in_region_interval [of "0x7FBE00" 44 a] in_region_interval [of "0x700000" 4096 a] by auto
  then show ?thesis
    using image_program(1) [OF k] entry wf_example_dentry
    by (simp add: shell_ok_def Let_def bb kernel_area_def) (simp add: example_environment_def)
qed

lemma example_powers_on: "power_on example_environment 0x700000 0 example_power_on"
proof -
  define k0 where "k0 = example_power_on\<lparr>fs := snd (set_mod_start 0x700000 (fs example_power_on)),
    paging := paging_initialize (paging example_power_on)\<rparr>"
  have boot: "boot_state example_boot" by (simp add: boot_state_def example_boot_def)
  have fields: "paging k0 = paging_initialize example_boot" "boot_block_addr (fs k0) = 0x700000" "phys k0 = phys example_caller"
    by (simp_all add: k0_def example_power_on_def set_mod_start_def)
  have "tables_ok (paging k0)" using tables_ok_initialize [OF boot] by (simp add: fields)
  then have "vmem k0 a = example_program_image (a - 0x6FF000)" if "0x400000 \<le> unat a" "unat a < 0x800000" for a
    using vmem_kernel [of k0 a] that by (auto simp: fields)
  then have image: "holds_image k0" by (simp add: holds_image_def fields(2))
  have "\<not> in_region 0x700000 4096 a \<and> \<not> in_image (vmem k0) (fs k0) 0 a" if "in_region 0x7FBC00 4 a" for a
    using that in_region_interval [of "0x7FBC00" 4 a] in_region_interval [of "0x700000" 4096 a] image_program(2) [OF image, of a]
    by auto
  then show ?thesis
    unfolding power_on_def Let_def k0_def [symmetric]
    using example_shell [OF image] boot pcb_ok_shape [OF example_pcb_ok] fields(2)
    by (simp add: kernel_area_def example_environment_def)
      (simp add: example_power_on_def example_caller_def example_reader_def example_keyboard_def example_console_def)
qed

lemma kernel_starts_shells_witness:
  "\<exists>k'. start_kernel example_environment 0x700000 0 example_power_on = Some k' \<and> processes_running k' = replicate 6 0 \<and> interrupts_on (dev k')"
proof -
  obtain k' where k': "start_kernel example_environment 0x700000 0 example_power_on = Some k'" "interrupts_on (dev k')"
    "starting example_environment 0 0 k'"
    using kernel_starts_shells [OF example_powers_on, of 0] by blast
  have "length (processes_running k') = 6" "\<forall>p. \<not> running k' p" using k'(3) by (simp_all add: starting_def can_start_def)
  then have "processes_running k' = replicate 6 0" by (intro nth_equalityI) (simp_all add: running_def)
  then show ?thesis using k' by blast
qed

subsection \<open>A program that reads a file\<close>

text \<open>The shell of the second slot has the argument \<open>a\<close>, and its fourth descriptor is free.\<close>

lemma cat_shows_file_witness:
  "\<exists>k'. cat_main example_environment (\<lambda>_. 0) 0x83FF000 example_caller = Some (0, k') \<and>
    shown current k' = fold spec_putc (file_bytes (vmem example_caller) (fs example_caller) 0) (shown current example_caller)"
proof -
  let ?a = "get_pcb_address example_caller"
  have a: "?a = 0x7FA000" by (simp add: get_pcb_address_def)
  have buf: "user_buffer 0x83FF000 1024" by (simp add: user_buffer_def)
  have screen: "current_term (sched example_caller) < length (terminals (sched example_caller))"
    "cursor_ok (terminals (sched example_caller) ! current_term (sched example_caller))"
    using example_cursor by (simp_all add: cursor_ok_def)
  have pcb: "pcb_ok (pcbs example_caller ?a)" "?a \<noteq> 0"
    "\<exists>i. 2 \<le> i \<and> i < 8 \<and> fd_flags (fd_array (pcbs example_caller ?a) ! i) ! 0 = 0"
    by (simp_all add: example_pcb_ok a) (intro exI [of _ 3], simp add: example_pcb_def example_fd_def)
  have args: "arg_arr (pcbs example_caller ?a) = [97] @ 0 # replicate 126 0" "0 \<notin> set [97 :: u8]" "[97 :: u8] \<noteq> []" "length [97 :: u8] < 32"
    "sint (arg_size (pcbs example_caller ?a)) \<le> 1023"
    by (simp_all add: example_pcb_def flip: replicate_Suc)
  have name: "name_at (vmem example_caller) 0x700080 = [97]" "name_at (vmem example_caller) 0x700040 = [46]"
    using example_name [of "0x700080"] example_name [of "0x700040"]
    by (simp_all add: name_at_def example_program_image_def example_image_def upt_rec)
  have "file_entry (vmem example_caller) 0x700000 [97] 0" using name by (simp add: file_entry_def)
  moreover have "vmem example_caller 0x7000A0 = 2" "vmem example_caller 0x7000A4 = 0"
    using example_caller_kernel [of "0x7000A0"] example_caller_kernel [of "0x7000A4"]
    by (simp_all add: example_program_image_def example_image_def)
  ultimately have "\<exists>e. file_entry (vmem example_caller) 0x700000 [97] e \<and>
      sext8 (vmem example_caller (0x700000 + 128 + of_nat e * 64 + 32)) = (2 :: u32) \<and>
      0 = sext8 (vmem example_caller (0x700000 + 128 + of_nat e * 64 + 36))"
    by (intro exI [of _ 0]) (simp add: sext8_def)
  then have named: "names_file example_environment example_caller [97] 0"
    using example_program wf_example_dentry
    by (simp add: names_file_def program_ok_def Let_def kernel_area_def) (simp add: example_environment_def example_fs_def)
  show ?thesis
    using cat_shows_file [OF example_caller_runs buf screen pcb args named] by blast
qed

end
