(* ===== verification/ProgramExamples.thy ===== *)
theory ProgramExamples imports Examples Ls ErrorTests Session Grep begin

text \<open>
  Concrete runs of the user programs, on the machine of \<open>Examples\<close>: a process in the second slot with its first two
  descriptors open, its strings in its memory and a line waiting for it.
\<close>

subsection \<open>A process with strings and a line\<close>

text \<open>Each string has 64 bytes, from \<open>0x8050000\<close> on.\<close>

definition string_place :: "string list \<Rightarrow> string \<Rightarrow> nat" where
  "string_place strs s = length (takeWhile (\<lambda>x. x \<noteq> s) strs)"

definition string_address :: "string list \<Rightarrow> string \<Rightarrow> u32" where
  "string_address strs s = 0x8050000 + of_nat (64 * string_place strs s)"

definition string_bytes :: "string list \<Rightarrow> nat \<Rightarrow> u8" where
  "string_bytes strs i = (let bs = chars (strs ! (i div 64)) in if i mod 64 < length bs then bs ! (i mod 64) else 0)"

definition with_strings :: "string list \<Rightarrow> mem \<Rightarrow> mem" where
  "with_strings strs m = (\<lambda>a. if 0xC50000 \<le> unat a \<and> unat a < 0xC50000 + 64 * length strs then string_bytes strs (unat a - 0xC50000) else m a)"

definition example_process :: "string list \<Rightarrow> u8 list \<Rightarrow> kernel" where
  "example_process strs l = example_caller\<lparr>phys := with_strings strs (phys example_caller),
     pcbs := (\<lambda>a. upd_fd 2 closed (pcbs example_caller a)),
     terminalbuffer := [(l @ [10]) @ replicate (127 - length l) 0, replicate 128 0, replicate 128 0],
     flags := [1, 0, 0], numberofchars := [int (length l), 0, 0]\<rparr>"

definition session_environment :: environment where
  "session_environment = example_environment\<lparr>fuel := 1\<rparr>"

lemma example_process_simps [simp]:
  "paging (example_process strs l) = example_run" "fs (example_process strs l) = example_fs\<lparr>boot_block_addr := 0x700000\<rparr>"
  "esp (example_process strs l) = 0x7FBF00" "processes_running (example_process strs l) = [1, 1, 1, 0, 0, 0]"
  "sched (example_process strs l) = sched example_caller" "get_pcb_address (example_process strs l) = 0x7FA000"
  "pcbs (example_process strs l) = (\<lambda>a. upd_fd 2 closed (pcbs example_caller a))"
  "phys (example_process strs l) = with_strings strs (phys example_caller)"
  by (simp_all add: example_process_def get_pcb_address_def)

lemma session_environment_simps [simp]:
  "fuel session_environment = 1" "stack_dentry session_environment = example_dentry" "stack_array session_environment = 0x7FBE00"
  by (simp_all add: session_environment_def example_environment_def)

lemma example_process_runs: "runs 1 (example_process strs l)"
  using example_caller_runs by (simp add: runs_def)

lemma example_process_pcb:
  "pcb_ok (pcbs (example_process strs l) a)"
  "2 \<le> i \<Longrightarrow> i < 8 \<Longrightarrow> fd_flags (fd_array (pcbs (example_process strs l) a) ! i) ! 0 = 0"
proof -
  note closed = handle_close_ok [of example_caller a 2]
  have ok: "pcb_ok (pcbs example_caller a)" by (simp add: example_pcb_ok)
  show "pcb_ok (pcbs (example_process strs l) a)" using closed(1) ok by simp
  assume "2 \<le> i" "i < 8"
  then have "i = 2 \<or> i = 3 \<or> i = 4 \<or> i = 5 \<or> i = 6 \<or> i = 7" by linarith
  then show "fd_flags (fd_array (pcbs (example_process strs l) a) ! i) ! 0 = 0"
    using closed(2) ok by (elim disjE) (simp_all add: example_pcb_def example_fd_def)
qed

lemma example_process_program: "program 1 (example_process strs l)"
proof (rule program_pcb)
  show "cur.ready (example_process strs l)"
    using example_cursor by (simp add: cur_ready cursor_ok_def)
qed (simp_all only: example_process_runs example_process_pcb)

lemma example_process_vmem:
  assumes "0x400000 \<le> unat a" "unat a < 0x800000"
  shows "vmem (example_process strs l) a = example_program_image (a - 0x6FF000)"
proof -
  have "tables_ok (paging (example_process strs l))" using example_process_runs by (simp add: runs_def)
  from vmem_kernel [OF this assms] show ?thesis using assms by (auto simp: with_strings_def)
qed

lemma example_process_image: "holds_image (example_process strs l)"
  using example_process_vmem by (simp add: holds_image_def)

lemma string_found: "s \<in> set strs \<Longrightarrow> string_place strs s < length strs \<and> strs ! string_place strs s = s"
  unfolding string_place_def by (induction strs) auto

lemma example_strings:
  assumes "\<forall>s \<in> set strs. length s < 64 \<and> 0 \<notin> set (chars s)" "length strs \<le> 100" "n \<le> 1025"
  shows "strings_at 1 (string_address strs) strs 0x8060000 n (example_process strs l)"
proof -
  have "user_string 1 (string_address strs s) (chars s) (example_process strs l) \<and>
      apart (string_address strs s) (length (chars s) + 1) 0x8060000 n" if s: "s \<in> set strs" for s
  proof -
    let ?j = "string_place strs s"
    have j: "?j < length strs" "strs ! ?j = s" using string_found [OF s] by blast+
    have len: "length (chars s) < 64" using assms(1) s by (simp add: chars_def)
    have a: "unat (string_address strs s) = 0x8050000 + 64 * ?j"
      unfolding string_address_def by (subst unat_add_small) (use j(1) assms(2) in \<open>simp_all add: unat_of_nat_u32 del: of_nat_mult\<close>)
    have "phys (example_process strs l) (user_pa 1 (string_address strs s) + of_nat i) = (chars s @ [0]) ! i" if i: "i \<le> length (chars s)" for i
    proof -
      have "user_pa 1 (string_address strs s) + of_nat i = 0xC50000 + of_nat (64 * ?j + i)"
        by (simp add: user_pa_def string_address_def)
      moreover have u: "unat (0xC50000 + of_nat (64 * ?j + i) :: u32) = 0xC50000 + (64 * ?j + i)"
        by (subst unat_add_small) (use j(1) assms(2) i len in \<open>simp_all add: unat_of_nat_u32 del: of_nat_mult of_nat_add\<close>)
      moreover have "64 * ?j + i < 64 * length strs" using i len j(1) by linarith
      moreover have "(64 * ?j + i) div 64 = ?j" "(64 * ?j + i) mod 64 = i" using i len by simp_all
      ultimately show ?thesis
        using i j(2) by (simp add: with_strings_def string_bytes_def Let_def nth_append del: of_nat_mult of_nat_add)
    qed
    then show ?thesis
      using a j(1) assms len s by (auto simp: user_string_def user_buffer_def apart_def)
  qed
  then show ?thesis by (simp add: strings_at_def)
qed

lemma example_line:
  assumes "length l \<le> 126"
  shows "line_waiting l (example_process strs l)"
proof -
  have "linebuffer (example_process strs l) = replicate 128 0"
    by (simp add: example_process_def example_caller_def example_reader_def example_kernel_def keyboard.defs kernel.defs example_keyboard_def)
  then show ?thesis
    using assms keyboard_ok_def example_keyboard_ok
    by (simp add: line_waiting_def lines_ok_def delivered_to_def) (simp add: example_process_def example_terminal_def nth_Cons' less_Suc_eq)
qed

subsection \<open>The directory of the example\<close>

lemma example_process_name:
  assumes "i < 62"
  shows "name_at (vmem (example_process strs l)) (0x700080 + of_nat i * 64) = (if i = 0 then [97] else if i = 1 then chars ''shell'' else [])"
proof -
  have u: "unat (of_nat i * 64 :: u32) = i * 64"
    using assms unat_of_nat_u32 [of "i * 64"] by simp
  have at: "unat (0x700080 + of_nat i * 64 :: u32) = 0x700080 + i * 64"
    by (subst unat_add_small) (use assms u in simp_all)
  have name: "name_at (vmem (example_process strs l)) (0x700080 + of_nat i * 64) = name_at example_program_image (0x1080 + of_nat i * 64)"
    using image_name [OF example_process_image, of "0x700080 + of_nat i * 64"] at assms by simp
  show ?thesis
  proof (cases "i < 2")
    case True
    then have "i = 0 \<or> i = 1" by linarith
    then show ?thesis
      unfolding name by (elim disjE) (simp_all add: name_at_def example_program_image_def example_image_def upt_rec chars_def)
  next
    case False
    have "unat (0x1080 + of_nat i * 64 :: u32) = 0x1080 + i * 64"
      by (subst unat_add_small) (use assms u in simp_all)
    then have "example_program_image (0x1080 + of_nat i * 64) = 0"
      using False assms by (auto simp: example_program_image_def example_image_def word_unat_eq_iff word_le_nat_alt)
    then have "name_at example_program_image (0x1080 + of_nat i * 64) = []"
      by (simp add: name_at_def upt_rec [of 0])
    then show ?thesis using False by (simp add: name)
  qed
qed

lemma example_directory: "directory_ok session_environment (example_process strs l)"
proof -
  have "name_at (vmem (example_process strs l)) 0x700040 = [46]"
    using image_name [OF example_process_image, of "0x700040"]
    by (simp add: name_at_def example_program_image_def example_image_def upt_rec)
  then show ?thesis using wf_example_dentry by (simp add: directory_ok_def kernel_area_def)
qed

lemma example_no_entry:
  assumes "name \<notin> {[], [46], [97], chars ''shell''}" "length name \<le> 32"
  shows "no_entry (example_process strs l) name"
  using assms example_process_name by (auto simp: no_entry_def)

lemma session_buffer: "user_buffer 0x8060000 1024" "user_buffer 0x8060000 128" "user_buffer 0x8060000 33" "user_buffer 0x8060000 64"
  by (simp_all add: user_buffer_def)

subsection \<open>The programs\<close>

lemma user_itoa_is_itoa_witness: "\<exists>k'. ece391_itoa 1234 0x8060000 10 example_caller = Some k'"
proof -
  have "2 \<le> unat (10 :: u32)" "unat (10 :: u32) \<le> 36" by simp_all
  from user_itoa_is_itoa [OF example_caller_runs this session_buffer(3), of 1234] show ?thesis by (meson option.exhaust)
qed

lemma ls_lists_directory_witness:
  "\<exists>k'. ls_main session_environment (string_address [''.'']) 0x8060000 (example_process [''.''] []) = Some (0, k')"
proof -
  have free: "\<exists>i. 2 \<le> i \<and> i < 8 \<and>
      fd_flags (fd_array (pcbs (example_process [''.''] []) (get_pcb_address (example_process [''.''] []))) ! i) ! 0 = 0"
    using example_process_pcb(2) [of 2] by (intro exI [of _ 2]) (simp del: example_process_simps)
  have addr: "get_pcb_address (example_process [''.''] []) \<noteq> 0" by simp
  have "strings_at 1 (string_address [''.'']) [''.''] 0x8060000 128 (example_process [''.''] [])"
    by (rule example_strings) (simp_all add: chars_def)
  then have "user_string 1 (string_address [''.''] ''.'') (chars ''.'') (example_process [''.''] [])" by (simp add: strings_at_def)
  from ls_lists_directory [where literal = "string_address [''.'']", OF example_process_program example_process_pcb(1) addr free this
    example_directory session_buffer(3)]
  show ?thesis by blast
qed

definition counter_strings :: "string list" where
  "counter_strings = [count_prompt, [CHR 0x0A]]"

lemma counter_counts_up_witness:
  "\<exists>k'. counter_main session_environment (string_address counter_strings) 0x8060000 (example_process counter_strings [48]) = Some (0, k')"
proof -
  have "strings_at 1 (string_address counter_strings) counter_strings 0x8060000 1024 (example_process counter_strings [48])"
    by (rule example_strings) (simp_all add: chars_def counter_strings_def)
  then have strs: "strings_at 1 (string_address counter_strings) [count_prompt, [CHR 0x0A]] 0x8060000 1024 (example_process counter_strings [48])"
    by (simp only: counter_strings_def)
  have line: "line_waiting [48] (example_process counter_strings [48])" by (rule example_line) simp
  have "48 \<in> set (chars ''012'')" by (simp add: chars_def)
  from counter_counts_up [OF example_process_program line this session_buffer(1) strs, of session_environment]
  show ?thesis by (simp del: upt_Suc) blast
qed

definition shell_strings :: "string list" where
  "shell_strings = [''391OS> '', ''exit'', ''no such command'' @ [CHR 0x0A]]"

lemma example_shell_strings: "strings_at 1 (string_address shell_strings) shell_strings 0x8060000 1024 (example_process shell_strings l)"
  by (rule example_strings) (simp_all add: chars_def shell_strings_def)

lemma example_names_program: "names_program session_environment (example_process strs l) [97] 0"
proof -
  have dot: "name_at (vmem (example_process strs l)) 0x700040 = [46]" using example_directory by (simp add: directory_ok_def)
  have "file_entry (vmem (example_process strs l)) 0x700000 [97] 0"
    using dot example_process_name [of 0] by (simp add: file_entry_def)
  moreover have "vmem (example_process strs l) 0x7000A4 = 0"
    using example_process_vmem [of "0x7000A4"] by (simp add: example_program_image_def example_image_def)
  ultimately have "\<exists>e. file_entry (vmem (example_process strs l)) 0x700000 [97] e \<and>
      (0 :: u32) = sext8 (vmem (example_process strs l) (0x700000 + 128 + of_nat e * 64 + 36))"
    by (intro exI [of _ 0]) (simp add: sext8_def)
  moreover have "program_ok session_environment (example_process strs l) 0"
    using image_program(1) [OF example_process_image] by (simp add: program_ok_def Let_def session_environment_def)
  ultimately show ?thesis using wf_example_dentry by (simp add: names_program_def Let_def kernel_area_def)
qed

lemma shell_runs_command_witness:
  "\<exists>eip k'. shell_loop session_environment (string_address shell_strings) 0x8060000 (example_process shell_strings [97]) =
     Some (Enters (EnterUser eip 0x83FFFFC k'))"
proof -
  have line: "line_waiting [97] (example_process shell_strings [97])" by (rule example_line) simp
  have strs: "strings_at 1 (string_address shell_strings) [''391OS> '', ''exit''] 0x8060000 1024 (example_process shell_strings [97])"
    using example_shell_strings by (simp add: strings_at_def shell_strings_def)
  have start: "can_start (example_process shell_strings [97])" "0 \<in> set (processes_running (example_process shell_strings [97]))"
    using example_process_runs pcb_ok_shape [OF example_process_pcb(1)] by (simp_all add: can_start_def runs_def)
  have name: "names_program session_environment (example_process shell_strings [97]) (command_name [97]) 0" "length (command_name [97]) < 32"
    using example_names_program by (simp_all add: example_command_words)
  have l: "0 \<notin> set [97 :: u8]" "length [97 :: u8] \<le> 126" "[97 :: u8] \<noteq> []" "[97] \<noteq> chars ''exit''" "0 < fuel session_environment"
    by (simp_all add: chars_def)
  from shell_runs_command [OF example_process_program line session_buffer(1) l(1-4) strs l(5) start name]
  show ?thesis by blast
qed

text \<open>The file \<open>a\<close> is both a program and the file it is given.\<close>

lemma example_names_file: "names_file session_environment (example_process strs l) [97] 0" "arrays_apart session_environment (example_process strs l) 0"
proof -
  have dot: "name_at (vmem (example_process strs l)) 0x700040 = [46]" using example_directory by (simp add: directory_ok_def)
  have "file_entry (vmem (example_process strs l)) 0x700000 [97] 0"
    using dot example_process_name [of 0] by (simp add: file_entry_def)
  moreover have "vmem (example_process strs l) 0x7000A0 = 2" "vmem (example_process strs l) 0x7000A4 = 0"
    using example_process_vmem [of "0x7000A0"] example_process_vmem [of "0x7000A4"]
    by (simp_all add: example_program_image_def example_image_def)
  ultimately have "\<exists>e. file_entry (vmem (example_process strs l)) 0x700000 [97] e \<and>
      sext8 (vmem (example_process strs l) (0x700000 + 128 + of_nat e * 64 + 32)) = (2 :: u32) \<and>
      (0 :: u32) = sext8 (vmem (example_process strs l) (0x700000 + 128 + of_nat e * 64 + 36))"
    by (intro exI [of _ 0]) (simp add: sext8_def)
  then show "names_file session_environment (example_process strs l) [97] 0"
    using image_program(1) [OF example_process_image, of strs l] wf_example_dentry
    by (simp add: names_file_def program_ok_def Let_def kernel_area_def) (simp add: example_fs_def)
  have "\<not> in_region 0x700000 4096 a \<and> \<not> in_image (vmem (example_process strs l)) (fs (example_process strs l)) 0 a"
    if "in_region 0x7FBE00 44 a" for a
    using that in_region_interval [of "0x7FBE00" 44 a] in_region_interval [of "0x700000" 4096 a]
      image_program(2) [OF example_process_image, of strs l a] by auto
  then show "arrays_apart session_environment (example_process strs l) 0" by (simp add: arrays_apart_def)
qed

lemma shell_cat_shows_file_witness:
  "\<exists>eip i k1. shell_loop session_environment (string_address shell_strings) 0x8060000 (example_process shell_strings [97, 32, 97]) =
     Some (Enters (EnterUser eip 0x83FFFFC k1)) \<and> started i (example_process shell_strings [97, 32, 97]) k1"
proof -
  let ?k = "example_process shell_strings [97, 32, 97]"
  have line: "line_waiting [97, 32, 97] ?k" by (rule example_line) simp
  have strs: "strings_at 1 (string_address shell_strings) [''391OS> '', ''exit''] 0x8060000 1024 ?k"
    using example_shell_strings by (simp add: strings_at_def shell_strings_def)
  have start: "can_start ?k" "0 \<in> set (processes_running ?k)"
    using example_process_runs pcb_ok_shape [OF example_process_pcb(1)] by (simp_all add: can_start_def runs_def)
  have words: "command_name [97, 32, 97] = [97]" "command_args [97, 32, 97] = [97]"
    by (simp_all add: command_args_def command_name_def ends_name_def)
  have name: "names_program session_environment ?k (command_name [97, 32, 97]) 0" "length (command_name [97, 32, 97]) < 32"
    using example_names_program by (simp_all add: words)
  have names: "names_file session_environment ?k (command_args [97, 32, 97]) 0" "command_args [97, 32, 97] \<noteq> []"
    "length (command_args [97, 32, 97]) < 32"
    using example_names_file(1) by (simp_all add: words)
  have l: "0 \<notin> set [97, 32, 97 :: u8]" "length [97, 32, 97 :: u8] \<le> 126" "[97, 32, 97 :: u8] \<noteq> []" "[97, 32, 97] \<noteq> chars ''exit''"
    "0 < fuel session_environment"
    by (simp_all add: chars_def)
  from shell_cat_shows_file [OF example_process_program line session_buffer(1) l(1-4) strs l(5) start name names example_names_file(2) session_buffer(1)]
  show ?thesis by blast
qed

lemma shell_other_lines_witness:
  "\<exists>k'. shell_round session_environment (string_address shell_strings) 0x8060000 (example_process shell_strings [98]) = Some (Again k') \<and>
     program 1 k'"
proof -
  have line: "line_waiting [98] (example_process shell_strings [98])" by (rule example_line) simp
  have "command_name [98] = [98]" by (simp add: command_name_def ends_name_def)
  then have none: "no_entry (example_process shell_strings [98]) (command_name [98])"
    by (simp only:) (rule example_no_entry; simp add: chars_def)
  have l: "0 \<notin> set [98 :: u8]" "length [98 :: u8] \<le> 126" "0 < fuel session_environment" "[98] \<noteq> chars ''exit''"
    by (simp_all add: chars_def)
  have strs: "strings_at 1 (string_address shell_strings) [''391OS> '', ''exit'', ''no such command'' @ [CHR 0x0A]] 0x8060000 1024
      (example_process shell_strings [98])"
    using example_shell_strings [of "[98]"] by (simp only: shell_strings_def)
  from shell_other_lines [OF example_process_program line session_buffer(1) l(1,2) strs l(3) example_directory]
  show ?thesis using none l(4) by blast
qed

lemma syserr_passes_witness:
  "\<exists>k'. syserr_main session_environment (string_address test_strings) 0x8060000 0 (0, 0, 0) (example_process test_strings [48]) = Some (0, k')"
proof -
  have line: "line_waiting (48 # []) (example_process test_strings [48])" by (rule example_line) simp
  have "strings_at 1 (string_address test_strings) test_strings 0x8060000 128 (example_process test_strings [48])"
    by (rule example_strings) (simp_all add: chars_def test_strings_def test_names_def pass_line_def menu_line_def overall_line_def)
  moreover have "no_entry (example_process test_strings [48]) (chars ''helloo'')" "no_entry (example_process test_strings [48]) (chars ''shel'')"
    by (rule example_no_entry; simp add: chars_def)+
  ultimately have "tester session_environment 1 (string_address test_strings) 0x8060000 {} (example_process test_strings [48])"
    using example_process_program example_process_pcb(1) [of test_strings "[48]" "0x7FA000"]
      example_process_pcb(2) [of _ test_strings "[48]" "0x7FA000"] example_directory unfolding tester_def by simp
  from syserr_passes [OF this line session_buffer(2), where tbuf = 0 and regs = "(0, 0, 0)"]
  show ?thesis by auto
qed

subsection \<open>A short file\<close>

text \<open>The same machine with a file of 20 bytes: \<open>0x7F\<close>, \<open>ELF\<close> and sixteen times \<open>@\<close>.\<close>

definition grep_strings :: "string list" where
  "grep_strings = [''E'', ''a'', '':'', [CHR 0x0A]]"

definition short_file :: kernel where
  "short_file = (example_process grep_strings [])\<lparr>phys := (phys (example_process grep_strings []))(0x701000 := 20, 0x701001 := 0)\<rparr>"

lemma short_file_simps [simp]:
  "paging short_file = example_run" "fs short_file = example_fs\<lparr>boot_block_addr := 0x700000\<rparr>"
  "pcbs short_file = pcbs (example_process grep_strings [])" "get_pcb_address short_file = 0x7FA000"
  "sched short_file = sched example_caller"
  by (simp_all add: short_file_def get_pcb_address_def example_process_def)

lemma short_file_phys: "phys short_file = (phys (example_process grep_strings []))(0x701000 := 20, 0x701001 := 0)"
  by (simp add: short_file_def del: example_process_simps)

lemma image_high: "0x4004 \<le> unat x \<Longrightarrow> example_program_image x = ucast (x div 256)"
  unfolding example_program_image_def example_image_def by (auto simp: word_le_nat_alt)

lemma short_file_program: "program 1 short_file"
  by (rule program_cong [OF example_process_program [of grep_strings "[]"]]) simp_all

lemma short_file_vmem:
  assumes "0x400000 \<le> unat a" "unat a < 0x800000"
  shows "vmem short_file a = (example_program_image(0x2000 := 20, 0x2001 := 0)) (a - 0x6FF000)"
proof -
  have "tables_ok (paging short_file)" using programD(4) [OF short_file_program] .
  from vmem_kernel [OF this assms] have v: "vmem short_file a = phys short_file a" by simp
  have "tables_ok (paging (example_process grep_strings []))" using example_process_runs by (simp add: runs_def)
  from vmem_kernel [OF this assms] have "phys (example_process grep_strings []) a = vmem (example_process grep_strings []) a" by simp
  also have "\<dots> = example_program_image (a - 0x6FF000)" by (rule example_process_vmem [OF assms])
  finally have p: "phys (example_process grep_strings []) a = example_program_image (a - 0x6FF000)" .
  have "a - 0x6FF000 = 0x2000 \<longleftrightarrow> a = 0x701000" "a - 0x6FF000 = 0x2001 \<longleftrightarrow> a = 0x701001" by (simp_all only: diff_eq_eq) simp_all
  then show ?thesis unfolding v short_file_phys using p by simp
qed

lemma short_file_content:
  "names_file session_environment short_file [97] 0"
  "file_bytes (vmem short_file) (fs short_file) 0 = 0x7F # 0x45 # 0x4C # 0x46 # replicate 16 0x40"
proof -
  let ?m = "vmem short_file" and ?f = "fs short_file"
  note at = short_file_vmem
  have bb: "boot_block_addr ?f = 0x700000" by simp
  have i: "inode_at (boot_block_addr ?f) 0 = 0x701000" by (simp add: inode_at_def)
  have load: "load32 ?m 0x701000 = 20" "load32 ?m 0x700004 = 1" "load32 ?m 0x701004 = 1" "load32 ?m 0x701008 = 0"
    by (simp_all add: load32_def at example_program_image_def example_image_def)
  have size: "file_size ?m ?f 0 = 20" using load i by (simp add: file_size_def)
  have start: "data_start ?m ?f = 0x702000" using load by (simp add: data_start_def)
  have block: "block_at ?m 0x701000 0x702000 0 = 0x703000" using load by (simp add: block_at_def)
  have ok: "file_ok ?m ?f 0"
    unfolding file_ok_def size i start using block by (simp add: kernel_area_def)
  have name: "name_at ?m 0x700080 = [97]" "name_at ?m 0x700040 = [46]"
    by (simp_all add: name_at_def at example_program_image_def example_image_def upt_rec)
  have "file_entry ?m 0x700000 [97] 0" using name by (simp add: file_entry_def)
  moreover have "?m 0x7000A0 = 2" "?m 0x7000A4 = 0" by (simp_all add: at example_program_image_def example_image_def)
  ultimately have "\<exists>e. file_entry ?m 0x700000 [97] e \<and> sext8 (?m (0x700000 + 128 + of_nat e * 64 + 32)) = (2 :: u32) \<and>
      (0 :: u32) = sext8 (?m (0x700000 + 128 + of_nat e * 64 + 36))"
    by (intro exI [of _ 0]) (simp add: sext8_def)
  then show "names_file session_environment short_file [97] 0"
    using ok wf_example_dentry by (simp add: names_file_def Let_def kernel_area_def) (simp add: example_fs_def)
  have "file_byte ?m 0x701000 0x702000 j = (0x7F # 0x45 # 0x4C # 0x46 # replicate 16 0x40) ! j" if j: "j < 20" for j
  proof -
    have "unat (0x703000 + of_nat j :: u32) = 0x703000 + j" by (subst unat_add_small) (use j in \<open>simp_all add: unat_of_nat_u32\<close>)
    then have "file_byte ?m 0x701000 0x702000 j = (example_program_image(0x2000 := 20, 0x2001 := 0)) (0x4000 + of_nat j)"
      using j block at [of "0x703000 + of_nat j"] by (simp add: file_byte_def)
    also have "\<dots> = (0x7F # 0x45 # 0x4C # 0x46 # replicate 16 0x40) ! j"
    proof (cases "j < 4")
      case True
      then have "j = 0 \<or> j = 1 \<or> j = 2 \<or> j = 3" by linarith
      moreover have "0x4000 + of_nat 0 = (0x4000 :: u32)" "0x4000 + of_nat 1 = (0x4001 :: u32)"
        "0x4000 + of_nat 2 = (0x4002 :: u32)" "0x4000 + of_nat 3 = (0x4003 :: u32)" by simp_all
      ultimately show ?thesis
        unfolding example_program_image_def by (elim disjE) (simp_all only:, simp_all)
    next
      case False
      have u: "unat (0x4000 + of_nat j :: u32) = 0x4000 + j" by (subst unat_add_small) (use j in \<open>simp_all add: unat_of_nat_u32\<close>)
      have "unat ((0x4000 + of_nat j) div 256 :: u32) = 0x40" unfolding unat_div u using j by simp
      then have "(0x4000 + of_nat j) div 256 = (0x40 :: u32)" by (simp add: word_unat_eq_iff)
      moreover have "unat (0x4000 + of_nat j :: u32) \<noteq> unat (0x2000 :: u32)" "unat (0x4000 + of_nat j :: u32) \<noteq> unat (0x2001 :: u32)"
        unfolding u by simp_all
      then have "(0x4000 + of_nat j :: u32) \<noteq> 0x2000" "(0x4000 + of_nat j :: u32) \<noteq> 0x2001" by metis+
      ultimately have "(example_program_image(0x2000 := 20, 0x2001 := 0)) (0x4000 + of_nat j) = 0x40"
        using image_high [of "0x4000 + of_nat j"] u False by simp
      then show ?thesis using False j by (simp add: nth_Cons')
    qed
    finally show ?thesis .
  qed
  then show "file_bytes ?m ?f 0 = 0x7F # 0x45 # 0x4C # 0x46 # replicate 16 0x40"
    unfolding file_bytes_def size i start by (intro nth_equalityI) simp_all
qed

lemma grep_reports_lines_witness:
  "\<exists>k'. do_one_file session_environment (string_address grep_strings) (string_address grep_strings ''E'') (string_address grep_strings ''a'')
      0x8060000 short_file = Some (0, k') \<and>
    shown current k' = fold spec_putc ([97, 58, 0x7F, 0x45, 0x4C, 0x46] @ replicate 16 0x40 @ [10]) (shown current short_file)"
proof -
  let ?bs = "0x7F # 0x45 # 0x4C # 0x46 # replicate 16 0x40 :: u8 list"
  have "strings_at 1 (string_address grep_strings) grep_strings 0x8060000 1025 (example_process grep_strings [])"
    by (rule example_strings) (simp_all add: chars_def grep_strings_def)
  then have strs: "aside 1 0x8060000 (string_address grep_strings t) (chars t) short_file" if "t \<in> set grep_strings" for t
  proof -
    have s: "user_string 1 (string_address grep_strings t) (chars t) (example_process grep_strings [])"
      "apart (string_address grep_strings t) (length (chars t) + 1) 0x8060000 1025"
      using \<open>strings_at _ _ _ _ _ _\<close> that by (simp_all add: strings_at_def)
    have "phys short_file (user_pa 1 (string_address grep_strings t) + of_nat j) =
        phys (example_process grep_strings []) (user_pa 1 (string_address grep_strings t) + of_nat j)" if "j \<le> length (chars t)" for j
    proof -
      have "0x800000 \<le> unat (user_pa 1 (string_address grep_strings t) + of_nat j)"
        using user_pa_range [of 1 "string_address grep_strings t" "length (chars t) + 1" j] s(1) that
        by (simp add: user_string_def)
      then show ?thesis by (auto simp: short_file_def simp del: example_process_simps)
    qed
    then show ?thesis using s by (simp add: aside_def user_string_def del: example_process_simps)
  qed
  have data: "user_buffer 0x8060000 1025" by (simp add: user_buffer_def)
  have g: "grepping 1 (string_address grep_strings) (string_address grep_strings ''E'') [0x45] (string_address grep_strings ''a'') [97] 0x8060000 short_file"
    using short_file_program data strs [of "''E''"] strs [of "''a''"] strs [of "'':''"] strs [of "[CHR 0x0A]"]
    by (simp add: grepping_def grep_strings_def chars_def)
  have addr: "get_pcb_address short_file = 0x7FA000" by simp
  have free: "pcb_ok (pcbs short_file (get_pcb_address short_file))" "get_pcb_address short_file \<noteq> 0"
    unfolding short_file_simps(3) addr by (rule example_process_pcb(1)) simp
  have slot: "\<exists>i. 2 \<le> i \<and> i < 8 \<and> fd_flags (fd_array (pcbs short_file (get_pcb_address short_file)) ! i) ! 0 = 0"
    unfolding short_file_simps(3) addr
    using example_process_pcb(2) [of 2] by (intro exI [of _ 2]) (simp del: example_process_simps)
  have b: "phys short_file (user_pa 1 0x8060000 + 1024) \<noteq> 10"
    by (simp add: short_file_def user_pa_def with_strings_def grep_strings_def example_program_image_def example_image_def)
  have ten: "10 \<notin> set ?bs" by simp
  have lines: "lines_of ?bs = [?bs]" by (rule lines_of_last [OF ten]) simp
  have bs: "0 \<notin> set (file_bytes (vmem short_file) (fs short_file) 0)"
    "\<forall>l \<in> set (lines_of (file_bytes (vmem short_file) (fs short_file) 0)). length l < 1024"
    unfolding short_file_content(2) lines by simp_all
  have "sublist [0x45] ?bs" by (auto simp: sublist_Cons_right)
  then have "concat (map (grep_report [0x45] [97]) (lines_of ?bs)) = [97, 58, 0x7F, 0x45, 0x4C, 0x46] @ replicate 16 0x40 @ [10]"
    unfolding lines by (simp add: grep_report_def chars_def)
  moreover have "[97 :: u8] \<noteq> []" "length [97 :: u8] < 32" by simp_all
  ultimately show ?thesis
    using grep_reports_lines [OF g b free slot short_file_content(1) _ _ bs] unfolding short_file_content(2) by simp
qed

end
