(* ===== verification/Spec2Isabelle.thy ===== *)
theory Spec2Isabelle
  imports Prelude LibMem LibString FileSystem Paging Console Devices Keyboard Terminal Printf
    Process FileReads Execution Switching ProcessTable Idt Boot UserLib Programs Ls Interactive Shell ErrorTests Session Grep
    Examples ProgramExamples
begin

text \<open>
  A model of the teaching kernel in \<open>src/student-distrib\<close>: a 32-bit x86 kernel with three terminals, at
  most six processes, a read-only file system in memory and ten system calls. The interval timer drives a
  round robin over the terminals; the keyboard edits the line of the terminal that is shown; each terminal
  runs a shell, whose programs run above it, one waiting in \<open>execute\<close> for the other.

  \<^bold>\<open>State.\<close> The state grows with the components, each record extending the one before it: \<open>paging_state\<close>
  (the tables of \<open>paging.c\<close>, the control registers and the translation cache), \<open>console\<close> (page tables,
  physical memory, the scheduler's terminals and the registers of the display controller), \<open>keyboard\<close> (the
  globals of \<open>keyboard.c\<close> and \<open>terminal.c\<close> and the devices), \<open>kernel\<close> (file system globals, process
  control blocks, \<open>processes_running\<close>, the stack registers and the task state). Machine integers are words
  of their C width. A function that may fail to return, leave the bounds of an array, follow a pointer to
  unmapped memory or divide by zero returns an option, and \<open>None\<close> is that event; the error returns of the
  code are ordinary values. Calls that leave the caller's stack return an \<open>outcome\<close>.

  \<^bold>\<open>Theories and sources.\<close>

  \<^item> \<open>Prelude\<close>: words, flat memory, regions of the address space, counting by words.
  \<^item> \<open>LibMem\<close>: \<open>memset\<close> to \<open>memmove\<close> of \<open>lib.c\<close>, phase by phase of their inline assembly, with the
    direction flag. Each is equal to the byte-wise fill or copy.
  \<^item> \<open>LibString\<close>: \<open>strlen\<close>, \<open>strncmp\<close>, \<open>strcpy\<close>, \<open>strncpy\<close>, \<open>itoa\<close>, \<open>strrev\<close> of \<open>lib.c\<close>. The locale
    \<open>byte_object\<close> is what copying into an object needs; it is interpreted for memory, for local arrays and,
    in \<open>FileSystem\<close>, for a directory entry and for its name, and in \<open>Programs\<close> for a buffer in user memory.
  \<^item> \<open>FileSystem\<close>: the boot block, the directory and the inodes of \<open>filesystem.c\<close>: lookups by name and by
    index, \<open>read_data\<close> and the calls that need no descriptor. The abstract file is the list of its bytes.
  \<^item> \<open>Paging\<close>: \<open>paging.c\<close> and the address translation of the processor. The step relation
    \<open>paging_step\<close> interleaves the operations with memory accesses that fill the translation cache;
    invariants of its reachable states give isolation of processes and coherence of the cache. \<open>paging_run\<close> are the
    same runs with what user code has been given, the process of the window and the frame behind the page of \<open>vidmap\<close>;
    user code can reach that and nothing else.
  \<^item> \<open>Console\<close>: character output, scrolling and the hardware cursor of \<open>lib.c\<close> and \<open>terminal.c\<close>, and
    the cursor bookkeeping and \<open>switch_terminals\<close> of \<open>scheduler.c\<close>. The locale \<open>screen_selector\<close> is what
    the output needs of the choice of a terminal, and is interpreted for the visible one (\<open>putc\<close>) and the
    scheduled one (\<open>putc_modified\<close>). The abstract screen is a list of 2000 cells with a cursor.
  \<^item> \<open>Devices\<close>: \<open>i8259.c\<close>, \<open>rtc.c\<close>, \<open>pit.c\<close> as logs of port writes, run against the interrupt
    controllers, the clock and the timer as their data sheets document them.
  \<^item> \<open>Keyboard\<close>: \<open>check_input\<close> of \<open>keyboard.c\<close> and the line buffers, refined to an abstract view: the
    shift keys, the line each user edits, the lines handed over, the three screens.
  \<^item> \<open>Terminal\<close>: \<open>terminal_read\<close> with the interrupts that arrive while it waits: the keys typed meanwhile make the line
    it returns, and nothing but Enter ends the wait; \<open>Printf\<close>: \<open>puts\<close> and
    \<open>printf\<close>.
  \<^item> \<open>Process\<close>, \<open>FileReads\<close>: \<open>pcb.c\<close>, the descriptor array and the file calls of \<open>sys_call.c\<close>, the
    operation tables, \<open>fs_read\<close> and \<open>dir_read\<close>. No call spoils the descriptor array; a \<open>read\<close> moves only the position of its
    descriptor, provided the handlers that run while it waits leave the control block alone, which is proved of key presses.
  \<^item> \<open>Execution\<close>: \<open>execute\<close>, \<open>halt\<close>, the scheduler, the timer and page fault handlers, and the system
    call dispatch and context switches of \<open>linkage.S\<close>.
  \<^item> \<open>Switching\<close>, \<open>ProcessTable\<close>: where control blocks lie, what \<open>halt\<close> gives back, one turn of the round
    robin, and the invariant of the process table over the step relation \<open>table_step\<close>, whose steps are
    \<open>execute\<close> (successful or not), \<open>halt\<close>, the restart of a shell, a tick of the timer and everything that
    leaves the table alone.
  \<^item> \<open>Idt\<close>: the gate descriptors of \<open>x86_desc.h\<close>, the table \<open>initialize_IDT\<close> builds and the handlers.
  \<^item> \<open>Boot\<close>: the initialisation at the end of \<open>entry\<close> in \<open>kernel.c\<close> and the first three ticks, which start
    the shells and establish the invariant of the process table.
  \<^item> \<open>UserLib\<close>: the call wrappers and the support library of \<open>src/syscalls\<close>, run on the system calls and the
    memory of the process; the string functions act on strings in user memory as their specifications do, and
    \<open>ece391_itoa\<close> is the kernel's \<open>itoa\<close>. The locale \<open>printing_loop\<close> is what the loops of the programs share: a
    round prints one of the chunks that are left. It is interpreted for the loops of \<open>cat\<close>, \<open>ls\<close> and \<open>counter\<close>.
  \<^item> \<open>Programs\<close> (\<open>cat\<close>), \<open>Ls\<close>, \<open>Interactive\<close> (\<open>testprint\<close>, \<open>hello\<close>, \<open>counter\<close>), \<open>Shell\<close>, \<open>ErrorTests\<close>
    (\<open>syserr\<close>), \<open>Grep\<close>: descriptors, file system, page tables, line buffers and console together show a file, list
    the directory, search a file, run a command and pass the tests of wrong arguments. \<open>Session\<close> puts the shell and \<open>cat\<close> together.
  \<^item> \<open>Examples\<close>, \<open>ProgramExamples\<close>: a concrete machine that starts, executes a program of an image and halts
    it again, and one whose process has strings in its memory and a line waiting; the theorems about processes
    and programs are applied to them.

  \<^bold>\<open>How the parts meet.\<close> All code runs on the memory that the page tables give (\<open>vmem\<close>). A process' window
  at 128 MB is entry 32 of the page directory; \<open>execute\<close>, \<open>halt\<close> and the scheduler change it through
  \<open>paging_change_process\<close>. The page at \<open>0xB8000\<close> shows the screen or the backing buffer of the scheduled
  terminal, so output goes to the right place although \<open>video_mem\<close> never changes. A finished line reaches
  \<open>terminal_read\<close> through the line buffers of the scheduler, whichever terminal is shown.

  \<^bold>\<open>Bounds and fuel.\<close> Loops that count are structural or have a measure. Two loops wait for an interrupt,
  in \<open>terminal_read\<close> and \<open>rtc_read\<close>: they take a bound on the tests of the flag and what happens between
  two tests. The theorems about them name the interrupt that ends the wait and hold for every bound that
  reaches it. \<open>strlen\<close> has no result when there is no NUL, and the search for the clock's rate
  has none for the arguments on which it never ends; both are proved. The loops of the programs have no bound in their
  definitions, and are proved to end; that of the shell ends with the round that enters a program. Only six processes exist because
  \<open>paging_change_process\<close> accepts the numbers 1 to 6 and \<open>processes_running\<close> has six entries.

  \<^bold>\<open>Abstractions.\<close> Control blocks are records found by their address and not bytes of physical memory: the
  code never aliases them. Loads and stores of programs and of the calls made for them go through the page tables
  without a test of the user bit; the theorems about them are about addresses of the window, where it is set. Inside
  \<open>read_data\<close> an unmapped byte of the image reads as zero; the theorems are about images that are mapped. Of a kernel stack only its pointer is followed, as it is during the call. The
  local arrays that the kernel hands to \<open>read_data\<close> have addresses given by the environment. What an
  uninitialised local variable holds is a parameter where the code reads it. The strings \<open>printf\<close> prints do
  not lie on the screen being written. The descriptor table is the result of \<open>initialize_IDT\<close> and not part
  of the state, because nothing else writes to it. Linker-chosen addresses (tables, handlers, the literals and arrays of the programs) are parameters.

  \<^bold>\<open>Not modelled.\<close> The first part of \<open>entry\<close> in \<open>kernel.c\<close> checks and prints what the boot loader left,
  before there is paging, and fills in the descriptors of the task state. \<open>boot.S\<close> and \<open>x86_desc.S\<close> are start-up
  code and descriptor data for the processor. \<open>tests.c\<close>, \<open>debug.h\<close> and \<open>types.h\<close> hold tests, assertion macros and
  type names. \<open>pingpong\<close> of \<open>src/syscalls\<close> draws for ever, \<open>sigtest\<close> installs signal handlers, which
  the kernel refuses, and faults; \<open>src/fish\<close> is a client of the same calls; the emulation layer that runs programs on Linux only calls the C library. \<open>src/createfs\<close> and \<open>src/elfconvert\<close> are
  binaries.
\<close>

end
